(* ===== verification/Ghost_Prelude.thy ===== *)
theory Ghost_Prelude
  imports Main "HOL-Library.Word" "HOL-Library.AList"
begin

text \<open>
  The shared base of the development: the machine integers of the Rust sources, results
  with an error side, saturating and checked arithmetic, big-endian encodings, and the
  hash-map interface every component with a table uses.

  Integers keep their width where the code's arithmetic depends on it (\<open>u8\<close> to \<open>u64\<close>);
  \<open>usize\<close> values that are lengths of buffers in memory are \<open>nat\<close>. A fixed-size array
  \<open>[u8; N]\<close> is a byte list, and the lemmas carry its length.
\<close>

unbundle bit_operations_syntax

section \<open>Types and collections of facts\<close>

type_synonym u8 = "8 word"
type_synonym u16 = "16 word"
type_synonym u32 = "32 word"
type_synonym u64 = "64 word"
type_synonym bytes = "u8 list"

named_theorems len_simps "lengths of the byte strings the components build"
named_theorems res_simps "equations for the result combinators"

section \<open>Results\<close>

text \<open>
  \<open>Result<T, E>\<close> is the sum \<open>'e + 'a\<close> with \<open>Inl\<close> for \<open>Err\<close>; the operator \<open>?\<close> of the
  sources is \<open>and_then\<close>, which stops at the first error.
\<close>

definition and_then :: "'e + 'a \<Rightarrow> ('a \<Rightarrow> 'e + 'b) \<Rightarrow> 'e + 'b" where
  "and_then r f = (case r of Inl e \<Rightarrow> Inl e | Inr x \<Rightarrow> f x)"

definition ok_or :: "'e \<Rightarrow> 'a option \<Rightarrow> 'e + 'a" where
  "ok_or e r = (case r of None \<Rightarrow> Inl e | Some x \<Rightarrow> Inr x)"

definition map_err :: "('e \<Rightarrow> 'f) \<Rightarrow> 'e + 'a \<Rightarrow> 'f + 'a" where
  "map_err f r = (case r of Inl e \<Rightarrow> Inl (f e) | Inr x \<Rightarrow> Inr x)"

definition ensure :: "bool \<Rightarrow> 'e \<Rightarrow> 'e + unit" where
  "ensure b e = (if b then Inr () else Inl e)"

definition is_ok :: "'e + 'a \<Rightarrow> bool" where
  "is_ok r = (case r of Inl _ \<Rightarrow> False | Inr _ \<Rightarrow> True)"

lemma and_then_Inl [simp, res_simps]: "and_then (Inl e) f = Inl e"
  by (simp add: and_then_def)

lemma and_then_Inr [simp, res_simps]: "and_then (Inr x) f = f x"
  by (simp add: and_then_def)

lemma ok_or_None [simp, res_simps]: "ok_or e None = Inl e"
  by (simp add: ok_or_def)

lemma ok_or_Some [simp, res_simps]: "ok_or e (Some x) = Inr x"
  by (simp add: ok_or_def)

lemma map_err_Inl [simp, res_simps]: "map_err f (Inl e) = Inl (f e)"
  by (simp add: map_err_def)

lemma map_err_Inr [simp, res_simps]: "map_err f (Inr x) = Inr x"
  by (simp add: map_err_def)

lemma ensure_True [simp, res_simps]: "ensure True e = Inr ()"
  by (simp add: ensure_def)

lemma ensure_False [simp, res_simps]: "ensure False e = Inl e"
  by (simp add: ensure_def)

lemma is_ok_simps [simp]: "is_ok (Inr x)" "\<not> is_ok (Inl e)"
  by (simp_all add: is_ok_def)

lemma and_then_eq_Inr: "and_then r f = Inr y \<longleftrightarrow> (\<exists>x. r = Inr x \<and> f x = Inr y)"
  by (cases r) auto

lemma and_then_eq_Inl:
  "and_then r f = Inl e \<longleftrightarrow> r = Inl e \<or> (\<exists>x. r = Inr x \<and> f x = Inl e)"
  by (cases r) auto

lemma ok_or_eq_Inr: "ok_or e r = Inr x \<longleftrightarrow> r = Some x"
  by (cases r) auto

lemma ok_or_eq_Inl: "ok_or e r = Inl e' \<longleftrightarrow> r = None \<and> e' = e"
  by (cases r) auto

lemma map_err_eq_Inr: "map_err f r = Inr x \<longleftrightarrow> r = Inr x"
  by (cases r) auto

lemma map_err_eq_Inl: "map_err f r = Inl e \<longleftrightarrow> (\<exists>d. r = Inl d \<and> e = f d)"
  by (cases r) auto

lemma ensure_eq_Inr: "ensure b e = Inr u \<longleftrightarrow> b"
  by (cases b) auto

lemma ensure_eq_Inl: "ensure b e = Inl e' \<longleftrightarrow> \<not> b \<and> e' = e"
  by (cases b) auto

lemmas result_eqs = and_then_eq_Inr and_then_eq_Inl ok_or_eq_Inr ok_or_eq_Inl
  map_err_eq_Inr map_err_eq_Inl ensure_eq_Inr ensure_eq_Inl

text \<open>Collecting a list of results stops at the first error, as \<open>collect::<Result<Vec<_>>>\<close>.\<close>

fun collect_results :: "('e + 'a) list \<Rightarrow> 'e + 'a list" where
  "collect_results [] = Inr []"
| "collect_results (r # rs) = and_then r (\<lambda>x. and_then (collect_results rs) (\<lambda>xs. Inr (x # xs)))"

lemma collect_results_Inr: "collect_results rs = Inr xs \<longleftrightarrow> rs = map Inr xs"
  by (induction rs arbitrary: xs) (auto simp: result_eqs)

lemma collect_results_Inl:
  "collect_results rs = Inl e \<longleftrightarrow> (\<exists>xs zs. rs = map Inr xs @ Inl e # zs)"
proof (induction rs)
  case (Cons r rs)
  show ?case
  proof (cases r)
    case (Inl d)
    then show ?thesis by (auto simp: Cons_eq_append_conv)
  next
    case (Inr x)
    have "collect_results (r # rs) = Inl e \<longleftrightarrow> collect_results rs = Inl e"
      using Inr by (simp add: result_eqs)
    also have "\<dots> \<longleftrightarrow> (\<exists>xs zs. r # rs = map Inr xs @ Inl e # zs)"
      using Cons.IH Inr by (auto simp: Cons_eq_append_conv) (metis list.simps(9))
    finally show ?thesis .
  qed
qed simp

section \<open>Stateful computations\<close>

text \<open>
  A computation on a state of type \<open>'s\<close> returns a result and the new state, so the effects
  of the calls before an error stay visible.
\<close>

type_synonym ('s, 'e, 'a) comp = "'s \<Rightarrow> ('e + 'a) \<times> 's"

definition c_bind :: "('s, 'e, 'a) comp \<Rightarrow> ('a \<Rightarrow> ('s, 'e, 'b) comp) \<Rightarrow> ('s, 'e, 'b) comp" where
  "c_bind m f s = (case m s of (Inl e, s') \<Rightarrow> (Inl e, s') | (Inr x, s') \<Rightarrow> f x s')"

definition c_lift :: "'e + 'a \<Rightarrow> ('s, 'e, 'a) comp" where
  "c_lift r s = (r, s)"

definition c_map_err :: "('e \<Rightarrow> 'f) \<Rightarrow> ('s, 'e, 'a) comp \<Rightarrow> ('s, 'f, 'a) comp" where
  "c_map_err f m s = (case m s of (r, s') \<Rightarrow> (map_err f r, s'))"

lemma c_lift_run [simp]: "c_lift r s = (r, s)"
  by (simp add: c_lift_def)

lemma c_bind_Inr:
  "c_bind m f s = (Inr y, s') \<longleftrightarrow> (\<exists>x s1. m s = (Inr x, s1) \<and> f x s1 = (Inr y, s'))"
  by (auto simp: c_bind_def split: prod.splits sum.splits)

lemma c_bind_Inl:
  "c_bind m f s = (Inl e, s') \<longleftrightarrow>
   m s = (Inl e, s') \<or> (\<exists>x s1. m s = (Inr x, s1) \<and> f x s1 = (Inl e, s'))"
  by (auto simp: c_bind_def split: prod.splits sum.splits)

lemma c_map_err_Inr: "c_map_err f m s = (Inr y, s') \<longleftrightarrow> m s = (Inr y, s')"
  by (auto simp: c_map_err_def result_eqs split: prod.splits)

lemma c_map_err_Inl: "c_map_err f m s = (Inl e, s') \<longleftrightarrow> (\<exists>d. m s = (Inl d, s') \<and> e = f d)"
  by (auto simp: c_map_err_def result_eqs split: prod.splits)

lemma c_bind_step: "m s = (Inr x, s1) \<Longrightarrow> c_bind m f s = f x s1"
  by (simp add: c_bind_def)

lemma c_map_err_step: "m s = (Inr x, s1) \<Longrightarrow> c_map_err g m s = (Inr x, s1)"
  by (simp add: c_map_err_def)

lemmas comp_eqs = c_bind_Inr c_bind_Inl c_map_err_Inr c_map_err_Inl

text \<open>
  Preservation: a property of the state that every part of a computation keeps is kept by the
  whole, whether it ends with a value or with an error.
\<close>

definition keeps :: "('s \<Rightarrow> bool) \<Rightarrow> ('s, 'e, 'a) comp \<Rightarrow> bool" where
  "keeps P m \<longleftrightarrow> (\<forall>s. P s \<longrightarrow> P (snd (m s)))"

lemma keepsD: "keeps P m \<Longrightarrow> P s \<Longrightarrow> m s = (r, s') \<Longrightarrow> P s'"
  by (metis keeps_def snd_conv)

lemma keeps_bind [intro]:
  assumes "keeps P m" and "\<And>x. keeps P (f x)"
  shows "keeps P (c_bind m f)"
  unfolding keeps_def
proof (intro allI impI)
  fix s assume "P s"
  obtain r s1 where m: "m s = (r, s1)" by (cases "m s")
  have "P s1" using keepsD [OF assms(1) \<open>P s\<close> m] .
  with assms(2) show "P (snd (c_bind m f s))"
    by (cases r) (auto simp: c_bind_def m keeps_def)
qed

lemma keeps_bind_val:
  assumes "keeps P m" and "\<And>x s s'. m s = (Inr x, s') \<Longrightarrow> keeps P (f x)"
  shows "keeps P (c_bind m f)"
  unfolding keeps_def
proof (intro allI impI)
  fix s assume "P s"
  obtain r s1 where m: "m s = (r, s1)" by fastforce
  have "P s1" using keepsD [OF assms(1) \<open>P s\<close> m] .
  with assms(2) m show "P (snd (c_bind m f s))"
    by (cases r) (auto simp: c_bind_def keeps_def)
qed

lemma c_bind_after: "P (snd (m s)) \<Longrightarrow> (\<And>x. keeps P (f x)) \<Longrightarrow> P (snd (c_bind m f s))"
  by (auto simp: c_bind_def keeps_def split: prod.split sum.split)

lemma keeps_lift [intro, simp]: "keeps P (c_lift r)"
  by (simp add: keeps_def)

lemma keeps_map_err [intro]: "keeps P m \<Longrightarrow> keeps P (c_map_err f m)"
  by (auto simp: keeps_def c_map_err_def split: prod.splits)

text \<open>A call whose error is handled (\<open>let Ok(..) = .. else\<close>, \<open>let _ = ..\<close>), and a loop over a list.\<close>

definition c_attempt :: "('s, 'e, 'a) comp \<Rightarrow> ('s, 'f, 'e + 'a) comp" where
  "c_attempt m s = (case m s of (r, s') \<Rightarrow> (Inr r, s'))"

fun c_fold :: "('x \<Rightarrow> 'a \<Rightarrow> ('s, 'e, 'a) comp) \<Rightarrow> 'x list \<Rightarrow> 'a \<Rightarrow> ('s, 'e, 'a) comp" where
  "c_fold f [] acc = c_lift (Inr acc)"
| "c_fold f (x # xs) acc = c_bind (f x acc) (c_fold f xs)"

lemma c_attempt_Inr: "c_attempt m s = (Inr r, s') \<longleftrightarrow> m s = (r, s')"
  by (auto simp: c_attempt_def split: prod.splits)

lemma c_attempt_Inl: "c_attempt m s \<noteq> (Inl e, s')"
  by (auto simp: c_attempt_def split: prod.splits)

lemma keeps_attempt [intro]: "keeps P m \<Longrightarrow> keeps P (c_attempt m)"
  by (auto simp: keeps_def c_attempt_def split: prod.splits)

lemma keeps_fold [intro]: "(\<And>x a. x \<in> set xs \<Longrightarrow> keeps P (f x a)) \<Longrightarrow> keeps P (c_fold f xs acc)"
  by (induction xs arbitrary: acc) auto

text \<open>Computations with different conditions for success and failure.\<close>

lemma keeps_bind_inv:
  assumes "keeps P m" and "\<And>x s s'. P s \<Longrightarrow> m s = (Inr x, s') \<Longrightarrow> keeps P (f x)"
  shows "keeps P (c_bind m f)"
  unfolding keeps_def
proof (intro allI impI)
  fix s assume "P s"
  obtain r s1 where m: "m s = (r, s1)" by fastforce
  then have "P s1" using assms(1) \<open>P s\<close> by (auto dest: keepsD)
  then show "P (snd (c_bind m f s))"
    using assms(2) [OF \<open>P s\<close>] m by (cases r) (auto simp: c_bind_def keeps_def)
qed

definition establishes :: "('s \<Rightarrow> bool) \<Rightarrow> ('s \<Rightarrow> bool) \<Rightarrow> ('s \<Rightarrow> bool) \<Rightarrow> ('s, 'e, 'a) comp \<Rightarrow> bool" where
  "establishes P Q R m \<longleftrightarrow> (\<forall>s r s'. P s \<longrightarrow> m s = (r, s') \<longrightarrow> (if isl r then R s' else Q s'))"

lemma establishes_bind:
  assumes "establishes P Q R m" and "\<And>x. establishes Q Q' R (f x)"
  shows "establishes P Q' R (c_bind m f)"
  unfolding establishes_def
proof (intro allI impI)
  fix s r s' assume "P s" and e: "c_bind m f s = (r, s')"
  obtain q s1 where m: "m s = (q, s1)" by fastforce
  have q: "if isl q then R s1 else Q s1" using assms(1) \<open>P s\<close> m by (auto simp: establishes_def)
  show "if isl r then R s' else Q' s'"
  proof (cases q)
    case (Inr x)
    then show ?thesis using assms(2) [of x] q e m by (auto simp: establishes_def c_bind_def)
  qed (use e m q in \<open>auto simp: c_bind_def\<close>)
qed

lemma establishes_keeps: "keeps P m \<Longrightarrow> (\<And>s. P s \<Longrightarrow> R s) \<Longrightarrow> establishes P P R m"
  by (auto simp: establishes_def dest: keepsD)

lemma keeps_establishes: "establishes P P P m \<Longrightarrow> keeps P m"
  unfolding establishes_def keeps_def by (metis prod.collapse)

lemma establishes_case:
  "(\<And>x y. establishes P Q R (h x y)) \<Longrightarrow> establishes P Q R (case z of (x, y) \<Rightarrow> h x y)"
  "establishes P Q R g \<Longrightarrow> establishes P Q R g' \<Longrightarrow> establishes P Q R (if b then g else g')"
  by (auto split: prod.split)

text \<open>The total counterpart: from states with \<open>P\<close> the computation succeeds, and \<open>P\<close> still holds.\<close>

definition succeeds :: "('s \<Rightarrow> bool) \<Rightarrow> ('s, 'e, 'a) comp \<Rightarrow> bool" where
  "succeeds P m \<longleftrightarrow> (\<forall>s. P s \<longrightarrow> (\<exists>x s'. m s = (Inr x, s') \<and> P s'))"

lemma succeedsD: "succeeds P m \<Longrightarrow> P s \<Longrightarrow> \<exists>x s'. m s = (Inr x, s') \<and> P s'"
  by (simp add: succeeds_def)

lemma succeeds_bind [intro]:
  assumes "succeeds P m" and "\<And>x. succeeds P (f x)"
  shows "succeeds P (c_bind m f)"
  unfolding succeeds_def
proof (intro allI impI)
  fix s assume "P s"
  then obtain x s1 where "m s = (Inr x, s1)" "P s1" using succeedsD [OF assms(1)] by blast
  then show "\<exists>y s'. c_bind m f s = (Inr y, s') \<and> P s'"
    using succeedsD [OF assms(2)] by (auto simp: c_bind_def)
qed

section \<open>Saturating and checked arithmetic\<close>

definition saturating_add :: "'a::len word \<Rightarrow> 'a word \<Rightarrow> 'a word" where
  "saturating_add x y = (if unat x + unat y < 2 ^ LENGTH('a) then x + y else - 1)"

definition saturating_sub :: "'a::len word \<Rightarrow> 'a word \<Rightarrow> 'a word" where
  "saturating_sub x y = (if x < y then 0 else x - y)"

definition saturating_mul :: "'a::len word \<Rightarrow> 'a word \<Rightarrow> 'a word" where
  "saturating_mul x y = (if unat x * unat y < 2 ^ LENGTH('a) then x * y else - 1)"

definition checked_add :: "'a::len word \<Rightarrow> 'a word \<Rightarrow> 'a word option" where
  "checked_add x y = (if unat x + unat y < 2 ^ LENGTH('a) then Some (x + y) else None)"

definition abs_diff :: "'a::len word \<Rightarrow> 'a word \<Rightarrow> 'a word" where
  "abs_diff x y = (if x < y then y - x else x - y)"

lemma unat_less_pow: "unat x < 2 ^ LENGTH('a)" for x :: "'a::len word"
  by (rule unsigned_less)

lemma unat_plus_small: "unat (x + y) = unat x + unat y" if "unat x + unat y < 2 ^ LENGTH('a)"
  for x y :: "'a::len word"
  using that by (simp add: unat_word_ariths)

lemma unat_minus_le: "unat (x - y) = unat x - unat y" if "y \<le> x" for x y :: "'a::len word"
  using that by (rule unat_sub)

lemma unat_max_word: "unat (- 1 :: 'a::len word) = 2 ^ LENGTH('a) - 1"
  by (simp add: unsigned_minus_1_eq_mask mask_eq_exp_minus_1)

lemma unat_ucast_up: "unat (ucast x :: 'b::len word) = unat x" if "LENGTH('a) \<le> LENGTH('b)"
  for x :: "'a::len word"
proof -
  have "unat x < 2 ^ LENGTH('b)"
    using unat_less_pow [of x] power_increasing [OF that, of "2 :: nat"] by linarith
  then show ?thesis by (simp add: unsigned_ucast_eq take_bit_nat_eq_self_iff)
qed

lemma unat_saturating_add:
  "unat (saturating_add x y) = min (unat x + unat y) (2 ^ LENGTH('a) - 1)" for x y :: "'a::len word"
  by (simp add: saturating_add_def unat_plus_small unat_max_word)

lemma unat_saturating_sub: "unat (saturating_sub x y) = unat x - unat y" for x y :: "'a::len word"
  by (auto simp: saturating_sub_def unat_minus_le word_less_nat_alt word_le_nat_alt not_less)

lemma unat_saturating_mul:
  "unat (saturating_mul x y) = min (unat x * unat y) (2 ^ LENGTH('a) - 1)" for x y :: "'a::len word"
  by (simp add: saturating_mul_def unat_max_word unat_word_ariths)

lemma checked_add_Some:
  "checked_add x y = Some z \<longleftrightarrow> unat x + unat y < 2 ^ LENGTH('a) \<and> z = x + y" for x y :: "'a::len word"
  by (auto simp: checked_add_def)

lemma unat_abs_diff: "int (unat (abs_diff x y)) = \<bar>int (unat x) - int (unat y)\<bar>"
  for x y :: "'a::len word"
proof (cases "x < y")
  case True
  then have "unat (y - x) = unat y - unat x" and "unat x < unat y"
    by (simp_all add: unat_minus_le word_less_nat_alt word_le_nat_alt)
  with True show ?thesis by (simp add: abs_diff_def of_nat_diff del: of_nat_unat)
next
  case False
  then have "unat (x - y) = unat x - unat y" and "unat y \<le> unat x"
    by (simp_all add: unat_minus_le word_le_nat_alt not_less)
  with False show ?thesis by (simp add: abs_diff_def of_nat_diff del: of_nat_unat)
qed

lemma saturating_add_ge: "x \<le> saturating_add x y" for x y :: "'a::len word"
proof -
  have "unat x < 2 ^ LENGTH('a)" by (rule unat_less_pow)
  then have "unat x \<le> 2 ^ LENGTH('a) - 1" by linarith
  then show ?thesis by (simp add: word_le_nat_alt unat_saturating_add)
qed

section \<open>Big-endian encodings\<close>

text \<open>\<open>be_bytes n x\<close> is the value \<open>x\<close> in \<open>n\<close> bytes, most significant first.\<close>

fun be_bytes :: "nat \<Rightarrow> nat \<Rightarrow> bytes" where
  "be_bytes 0 x = []"
| "be_bytes (Suc n) x = be_bytes n (x div 256) @ [word_of_nat (x mod 256)]"

definition be_value :: "bytes \<Rightarrow> nat" where
  "be_value bs = foldl (\<lambda>acc b. acc * 256 + unat b) 0 bs"

definition to_be_bytes16 :: "u16 \<Rightarrow> bytes" where
  "to_be_bytes16 x = be_bytes 2 (unat x)"

definition to_be_bytes32 :: "u32 \<Rightarrow> bytes" where
  "to_be_bytes32 x = be_bytes 4 (unat x)"

definition to_be_bytes64 :: "u64 \<Rightarrow> bytes" where
  "to_be_bytes64 x = be_bytes 8 (unat x)"

definition from_be_bytes :: "bytes \<Rightarrow> 'a::len word" where
  "from_be_bytes bs = word_of_nat (be_value bs)"

lemma length_be_bytes [simp, len_simps]: "length (be_bytes n x) = n"
  by (induction n arbitrary: x) auto

lemma length_to_be_bytes [simp, len_simps]:
  "length (to_be_bytes16 a) = 2" "length (to_be_bytes32 b) = 4" "length (to_be_bytes64 c) = 8"
  by (simp_all add: to_be_bytes16_def to_be_bytes32_def to_be_bytes64_def)

lemma be_bytes_zero: "be_bytes n 0 = replicate n 0"
  by (induction n) (simp_all add: replicate_append_same)

lemma be_value_Nil [simp]: "be_value [] = 0"
  by (simp add: be_value_def)

lemma be_value_snoc: "be_value (bs @ [b]) = be_value bs * 256 + unat b"
  by (simp add: be_value_def)

lemma unat_u8_less: "unat (b :: u8) < 256"
  using unat_less_pow [of b] by simp

lemma be_value_bytes: "be_value (be_bytes n x) = x mod 256 ^ n"
proof (induction n arbitrary: x)
  case (Suc n)
  have "unat (word_of_nat (x mod 256) :: u8) = x mod 256"
    by (simp add: unat_of_nat)
  then have "be_value (be_bytes (Suc n) x) = (x div 256 mod 256 ^ n) * 256 + x mod 256"
    by (simp add: be_value_snoc Suc.IH)
  also have "\<dots> = x mod 256 ^ Suc n"
    by (simp add: mod_mult2_eq mult.commute)
  finally show ?case .
qed simp

lemma be_value_less: "be_value bs < 256 ^ length bs"
proof (induction bs rule: rev_induct)
  case (snoc b bs)
  have "be_value bs * 256 + unat b < (be_value bs + 1) * 256"
    using unat_u8_less [of b] by simp
  also have "\<dots> \<le> 256 ^ length bs * 256"
    using snoc.IH by (intro mult_right_mono) auto
  finally show ?case by (simp add: be_value_snoc mult.commute)
qed simp

lemma be_bytes_value: "be_bytes (length bs) (be_value bs) = bs"
proof (induction bs rule: rev_induct)
  case (snoc b bs)
  have "(be_value bs * 256 + unat b) div 256 = be_value bs"
    using unat_u8_less [of b] by simp
  moreover have "(word_of_nat ((be_value bs * 256 + unat b) mod 256) :: u8) = b"
    using unat_u8_less [of b] by simp
  ultimately show ?case
    using snoc.IH by (simp add: be_value_snoc)
qed simp

lemma be_bytes_inject:
  "be_bytes n x = be_bytes n y \<longleftrightarrow> x mod 256 ^ n = y mod 256 ^ n"
proof
  assume "x mod 256 ^ n = y mod 256 ^ n"
  have "be_bytes n z = be_bytes n (z mod 256 ^ n)" for z
    using be_bytes_value [of "be_bytes n z"] by (simp add: be_value_bytes)
  then show "be_bytes n x = be_bytes n y"
    using \<open>x mod 256 ^ n = y mod 256 ^ n\<close> by metis
qed (metis be_value_bytes)

lemma from_to_be_bytes [simp]:
  "from_be_bytes (to_be_bytes16 a) = a" "from_be_bytes (to_be_bytes32 b) = b"
  "from_be_bytes (to_be_bytes64 c) = c"
  using unat_less_pow [of a] unat_less_pow [of b] unat_less_pow [of c]
  by (simp_all add: from_be_bytes_def to_be_bytes16_def to_be_bytes32_def to_be_bytes64_def
      be_value_bytes)

lemma to_from_be_bytes:
  "length bs = 2 \<Longrightarrow> to_be_bytes16 (from_be_bytes bs) = bs"
  "length bs = 4 \<Longrightarrow> to_be_bytes32 (from_be_bytes bs) = bs"
  "length bs = 8 \<Longrightarrow> to_be_bytes64 (from_be_bytes bs) = bs"
  using be_value_less [of bs] be_bytes_value [of bs]
  by (simp_all add: from_be_bytes_def to_be_bytes16_def to_be_bytes32_def to_be_bytes64_def
      unat_of_nat)

section \<open>Slices\<close>

text \<open>\<open>subslice bs i j\<close> is \<open>&bs[i..j]\<close>; the callers establish \<open>i \<le> j \<le> len\<close>.\<close>

definition subslice :: "'a list \<Rightarrow> nat \<Rightarrow> nat \<Rightarrow> 'a list" where
  "subslice xs i j = take (j - i) (drop i xs)"

lemma length_subslice [simp, len_simps]: "length (subslice xs i j) = min (j - i) (length xs - i)"
  by (simp add: subslice_def)

lemma subslice_append_skip: "length xs = n \<Longrightarrow> n \<le> i \<Longrightarrow> subslice (xs @ ys) i j = subslice ys (i - n) (j - n)"
  by (simp add: subslice_def)

lemma subslice_append_take: "length xs = n \<Longrightarrow> subslice (xs @ ys) 0 n = xs"
  by (simp add: subslice_def)

lemma subslice_join: "i \<le> j \<Longrightarrow> j \<le> k \<Longrightarrow> subslice xs i j @ subslice xs j k = subslice xs i k"
proof -
  assume "i \<le> j" "j \<le> k"
  then have "drop j xs = drop (j - i) (drop i xs)" and "k - i = (j - i) + (k - j)"
    by simp_all
  then show ?thesis by (simp add: subslice_def take_add)
qed

lemma subslice_full: "subslice xs 0 (length xs) = xs"
  by (simp add: subslice_def)

section \<open>Codecs\<close>

text \<open>
  What the encodings of the program promise: an encoded value is decoded to itself. Different values
  then have different encodings, and lists of them are encoded without collisions.
\<close>

locale codec =
  fixes enc :: "'a \<Rightarrow> 'b"
    and dec :: "'b \<Rightarrow> 'a option"
    and ok :: "'a \<Rightarrow> bool"
  assumes dec_enc: "ok x \<Longrightarrow> dec (enc x) = Some x"
begin

lemma enc_eq_iff: "ok x \<Longrightarrow> ok y \<Longrightarrow> enc x = enc y \<longleftrightarrow> x = y"
  by (metis dec_enc option.inject)

lemma distinct_map_enc: "\<forall>x \<in> set xs. ok x \<Longrightarrow> distinct (map enc xs) = distinct xs"
  by (simp add: distinct_map inj_on_def enc_eq_iff)

end

section \<open>Hash maps\<close>

text \<open>
  A \<open>HashMap\<close> is an association list with distinct keys: iteration order is some order, and
  no property depends on which. The interface states what the sources rely on; the
  list implementation is its interpretation.
\<close>

type_synonym ('k, 'v) hash_map = "('k \<times> 'v) list"

definition hm_empty :: "('k, 'v) hash_map" where
  "hm_empty = []"

definition hm_get :: "('k, 'v) hash_map \<Rightarrow> 'k \<Rightarrow> 'v option" where
  "hm_get m k = map_of m k"

definition hm_insert :: "'k \<Rightarrow> 'v \<Rightarrow> ('k, 'v) hash_map \<Rightarrow> ('k, 'v) hash_map" where
  "hm_insert k v m = AList.update k v m"

definition hm_remove :: "'k \<Rightarrow> ('k, 'v) hash_map \<Rightarrow> ('k, 'v) hash_map" where
  "hm_remove k m = AList.delete k m"

definition hm_keys :: "('k, 'v) hash_map \<Rightarrow> 'k list" where
  "hm_keys m = map fst m"

definition hm_ok :: "('k, 'v) hash_map \<Rightarrow> bool" where
  "hm_ok m \<longleftrightarrow> distinct (map fst m)"

locale table =
  fixes empty :: "'m"
    and get :: "'m \<Rightarrow> 'k \<Rightarrow> 'v option"
    and insert :: "'k \<Rightarrow> 'v \<Rightarrow> 'm \<Rightarrow> 'm"
    and remove :: "'k \<Rightarrow> 'm \<Rightarrow> 'm"
    and keys :: "'m \<Rightarrow> 'k list"
    and ok :: "'m \<Rightarrow> bool"
  assumes get_empty: "get empty k = None"
    and get_insert: "get (insert k v m) k' = (if k' = k then Some v else get m k')"
    and get_remove: "get (remove k m) k' = (if k' = k then None else get m k')"
    and set_keys: "set (keys m) = {k. get m k \<noteq> None}"
    and ok_empty: "ok empty"
    and ok_insert: "ok m \<Longrightarrow> ok (insert k v m)"
    and ok_remove: "ok m \<Longrightarrow> ok (remove k m)"
    and distinct_keys: "ok m \<Longrightarrow> distinct (keys m)"
begin

lemma get_inserts:
  "get (fold (\<lambda>(k, v). insert k v) kvs m) k =
   (case map_of (rev kvs) k of None \<Rightarrow> get m k | Some v \<Rightarrow> Some v)"
proof (induction kvs arbitrary: m)
  case (Cons kv kvs)
  then show ?case
    by (cases kv) (auto simp: get_insert map_add_def split: option.splits)
qed simp

lemma ok_inserts: "ok m \<Longrightarrow> ok (fold (\<lambda>(k, v). insert k v) kvs m)"
  by (induction kvs arbitrary: m) (auto simp: ok_insert split: prod.splits)

lemma get_removes: "get (fold remove ks m) k = (if k \<in> set ks then None else get m k)"
  by (induction ks arbitrary: m) (auto simp: get_remove)

lemma ok_removes: "ok m \<Longrightarrow> ok (fold remove ks m)"
  by (induction ks arbitrary: m) (auto simp: ok_remove)

lemma in_keys_iff: "k \<in> set (keys m) \<longleftrightarrow> (\<exists>v. get m k = Some v)"
  by (auto simp: set_keys)

end

interpretation hm: table hm_empty hm_get hm_insert hm_remove hm_keys hm_ok
proof unfold_locales
  fix m :: "('k, 'v) hash_map" and k k' :: 'k and v :: 'v
  show "hm_get hm_empty k = None"
    by (simp add: hm_get_def hm_empty_def)
  show "hm_get (hm_insert k v m) k' = (if k' = k then Some v else hm_get m k')"
    by (simp add: hm_get_def hm_insert_def update_conv')
  show "hm_get (hm_remove k m) k' = (if k' = k then None else hm_get m k')"
    by (simp add: hm_get_def hm_remove_def delete_conv')
  show "set (hm_keys m) = {k. hm_get m k \<noteq> None}"
    by (force simp: hm_keys_def hm_get_def map_of_eq_None_iff)
  show "hm_ok hm_empty"
    by (simp add: hm_ok_def hm_empty_def)
  show "hm_ok m \<Longrightarrow> hm_ok (hm_insert k v m)"
    by (simp add: hm_ok_def hm_insert_def distinct_update)
  show "hm_ok m \<Longrightarrow> hm_ok (hm_remove k m)"
    by (simp add: hm_ok_def hm_remove_def distinct_delete)
  show "hm_ok m \<Longrightarrow> distinct (hm_keys m)"
    by (simp add: hm_ok_def hm_keys_def)
qed

declare hm.get_empty [simp] hm.get_insert [simp] hm.get_remove [simp] hm.ok_empty [simp]
  hm.ok_insert [simp] hm.ok_remove [simp]

text \<open>\<open>iter().collect()\<close> into a \<open>HashMap\<close>: later entries replace earlier ones.\<close>

definition hm_collect :: "('k \<times> 'v) list \<Rightarrow> ('k, 'v) hash_map" where
  "hm_collect kvs = fold (\<lambda>(k, v). hm_insert k v) kvs hm_empty"

lemma hm_get_collect: "hm_get (hm_collect kvs) k = map_of (rev kvs) k"
  by (simp add: hm_collect_def hm.get_inserts split: option.splits)

lemma map_of_rev_distinct: "distinct (map fst kvs) \<Longrightarrow> map_of (rev kvs) = map_of kvs"
  by (intro map_of_inject_set [THEN iffD2]) (simp_all add: rev_map [symmetric])

lemma hm_ok_collect [simp]: "hm_ok (hm_collect kvs)"
  by (simp add: hm_collect_def hm.ok_inserts)

lemma hm_get_in_set: "hm_ok m \<Longrightarrow> hm_get m k = Some v \<longleftrightarrow> (k, v) \<in> set m"
  by (simp add: hm_ok_def hm_get_def)

lemmas hm_simps = hm_empty_def hm_get_def hm_insert_def hm_remove_def hm_keys_def hm_collect_def

end
