(* ===== verification/Protocol.thy ===== *)
theory Protocol
  imports Ghost_Prelude
begin

text \<open>
  The wire constants of \<open>ghostbro-common/src/protocol.rs\<close> and the structures and constants
  shared with the kernel program (\<open>ghostbro-bpf-common/src/lib.rs\<close>).
\<close>

section \<open>Sealed SPA layout\<close>

definition VERSION_PREFIX :: bytes where "VERSION_PREFIX = [0x47, 0x50]"
definition VERSION_LEN :: nat where "VERSION_LEN = 2"
definition SPA_FLAGS_LEN :: nat where "SPA_FLAGS_LEN = 1"
definition KEY_ID_LEN :: nat where "KEY_ID_LEN = 8"
definition TIMESTAMP_LEN :: nat where "TIMESTAMP_LEN = 8"
definition COUNTER_LEN :: nat where "COUNTER_LEN = 8"
definition ALLOW_IP_LEN :: nat where "ALLOW_IP_LEN = 4"
definition SIGNATURE_LEN :: nat where "SIGNATURE_LEN = 64"

definition SPA_INNER_SIGNED_LEN :: nat where
  "SPA_INNER_SIGNED_LEN =
     VERSION_LEN + SPA_FLAGS_LEN + KEY_ID_LEN + TIMESTAMP_LEN + COUNTER_LEN + ALLOW_IP_LEN"

definition SPA_INNER_LEN :: nat where "SPA_INNER_LEN = SPA_INNER_SIGNED_LEN + SIGNATURE_LEN"
definition SPA_EPHEMERAL_LEN :: nat where "SPA_EPHEMERAL_LEN = 32"
definition SPA_AEAD_TAG_LEN :: nat where "SPA_AEAD_TAG_LEN = 16"

definition SPA_SEALED_CORE_LEN :: nat where
  "SPA_SEALED_CORE_LEN = SPA_EPHEMERAL_LEN + SPA_INNER_LEN + SPA_AEAD_TAG_LEN"

definition SPA_MIN_LEN :: nat where "SPA_MIN_LEN = SPA_SEALED_CORE_LEN"
definition SPA_MAX_LEN :: nat where "SPA_MAX_LEN = 176"
definition SPA_MAX_PADDING :: nat where "SPA_MAX_PADDING = SPA_MAX_LEN - SPA_MIN_LEN"

definition SPA_FLAG_HTTPS :: u8 where "SPA_FLAG_HTTPS = 1"
definition SPA_FLAG_USE_PACKET_SOURCE :: u8 where "SPA_FLAG_USE_PACKET_SOURCE = 2"

definition SPA_RESERVED_FLAGS :: u8 where
  "SPA_RESERVED_FLAGS = NOT (SPA_FLAG_HTTPS OR SPA_FLAG_USE_PACKET_SOURCE)"

lemmas spa_len_defs = VERSION_LEN_def SPA_FLAGS_LEN_def KEY_ID_LEN_def TIMESTAMP_LEN_def
  COUNTER_LEN_def ALLOW_IP_LEN_def SIGNATURE_LEN_def SPA_INNER_SIGNED_LEN_def SPA_INNER_LEN_def
  SPA_EPHEMERAL_LEN_def SPA_AEAD_TAG_LEN_def SPA_SEALED_CORE_LEN_def SPA_MIN_LEN_def
  SPA_MAX_LEN_def SPA_MAX_PADDING_def

lemmas spa_flag_defs = SPA_FLAG_HTTPS_def SPA_FLAG_USE_PACKET_SOURCE_def SPA_RESERVED_FLAGS_def

section \<open>Tunnel protocols and Ghost Relay\<close>

definition PROTOCOL_SOCKS5 :: u8 where "PROTOCOL_SOCKS5 = 0x05"
definition PROTOCOL_GHOST_RELAY :: u8 where "PROTOCOL_GHOST_RELAY = 0x47"
definition GHOST_RELAY_VERSION :: u8 where "GHOST_RELAY_VERSION = 1"
definition GHOST_RELAY_OP_SUBMIT_WEB :: u8 where "GHOST_RELAY_OP_SUBMIT_WEB = 1"
definition GHOST_RELAY_OP_LIST :: u8 where "GHOST_RELAY_OP_LIST = 2"
definition GHOST_RELAY_OP_DOWNLOAD :: u8 where "GHOST_RELAY_OP_DOWNLOAD = 3"
definition GHOST_RELAY_OP_DELETE :: u8 where "GHOST_RELAY_OP_DELETE = 4"
definition GHOST_RELAY_OP_SUBMIT_GIT :: u8 where "GHOST_RELAY_OP_SUBMIT_GIT = 5"
definition GHOST_RELAY_OP_SUBMIT_PACKAGE :: u8 where "GHOST_RELAY_OP_SUBMIT_PACKAGE = 6"
definition GHOST_RELAY_STATUS_OK :: u8 where "GHOST_RELAY_STATUS_OK = 0"
definition GHOST_RELAY_STATUS_PENDING :: u8 where "GHOST_RELAY_STATUS_PENDING = 1"
definition GHOST_RELAY_STATUS_NOT_FOUND :: u8 where "GHOST_RELAY_STATUS_NOT_FOUND = 2"
definition GHOST_RELAY_STATUS_INVALID :: u8 where "GHOST_RELAY_STATUS_INVALID = 3"
definition GHOST_RELAY_STATUS_FAILED :: u8 where "GHOST_RELAY_STATUS_FAILED = 4"
definition GHOST_RELAY_STATUS_TOO_LARGE :: u8 where "GHOST_RELAY_STATUS_TOO_LARGE = 5"
definition GHOST_RELAY_STATUS_QUOTA :: u8 where "GHOST_RELAY_STATUS_QUOTA = 6"
definition GHOST_RELAY_STATUS_UNSUPPORTED :: u8 where "GHOST_RELAY_STATUS_UNSUPPORTED = 0x7f"
definition GHOST_RELAY_ARTIFACT_PRIMARY :: u8 where "GHOST_RELAY_ARTIFACT_PRIMARY = 0"
definition GHOST_RELAY_ARTIFACT_NORMALIZED :: u8 where "GHOST_RELAY_ARTIFACT_NORMALIZED = 1"
definition DEFAULT_ALLOW_TTL_SECONDS :: u64 where "DEFAULT_ALLOW_TTL_SECONDS = 14400"
definition DEFAULT_TIME_WINDOW_SECONDS :: u64 where "DEFAULT_TIME_WINDOW_SECONDS = 300"

lemmas relay_const_defs = PROTOCOL_SOCKS5_def PROTOCOL_GHOST_RELAY_def GHOST_RELAY_VERSION_def
  GHOST_RELAY_OP_SUBMIT_WEB_def GHOST_RELAY_OP_LIST_def GHOST_RELAY_OP_DOWNLOAD_def
  GHOST_RELAY_OP_DELETE_def GHOST_RELAY_OP_SUBMIT_GIT_def GHOST_RELAY_OP_SUBMIT_PACKAGE_def
  GHOST_RELAY_STATUS_OK_def GHOST_RELAY_STATUS_PENDING_def GHOST_RELAY_STATUS_NOT_FOUND_def
  GHOST_RELAY_STATUS_INVALID_def GHOST_RELAY_STATUS_FAILED_def GHOST_RELAY_STATUS_TOO_LARGE_def
  GHOST_RELAY_STATUS_QUOTA_def GHOST_RELAY_STATUS_UNSUPPORTED_def
  GHOST_RELAY_ARTIFACT_PRIMARY_def GHOST_RELAY_ARTIFACT_NORMALIZED_def

section \<open>Structures shared with the kernel program\<close>

type_synonym key_id = bytes

definition BPF_SPA_MAX_LEN :: nat where "BPF_SPA_MAX_LEN = 176"
definition BPF_SPA_MIN_LEN :: nat where "BPF_SPA_MIN_LEN = 143"
definition DEFAULT_SPA_PORT :: u16 where "DEFAULT_SPA_PORT = 53"
definition DEFAULT_PROXY_PORT :: u16 where "DEFAULT_PROXY_PORT = 8443"
definition DEFAULT_RATE_LIMIT_PER_MINUTE :: u32 where "DEFAULT_RATE_LIMIT_PER_MINUTE = 5"
definition SPA_MODE_UDP :: u32 where "SPA_MODE_UDP = 1"
definition SPA_MODE_HTTPS :: u32 where "SPA_MODE_HTTPS = 2"
definition SPA_MODE_BOTH :: u32 where "SPA_MODE_BOTH = SPA_MODE_UDP OR SPA_MODE_HTTPS"

record BpfConfig =
  spa_port :: u16
  proxy_port :: u16
  rate_limit_per_minute :: u32
  spa_mode :: u32

record AllowEntry =
  expiry_ns :: u64
  ae_key_id :: key_id
  ae_client_id :: u16
  ae_pad :: u16

record RateState =
  tokens :: u32
  last_ns :: u64

record SpaEvent =
  ev_src_ip :: u32
  ev_src_port :: u16
  ev_payload_len :: u16
  ev_payload :: bytes

definition SpaEvent_default :: SpaEvent where
  "SpaEvent_default =
     \<lparr>ev_src_ip = 0, ev_src_port = 0, ev_payload_len = 0, ev_payload = replicate BPF_SPA_MAX_LEN 0\<rparr>"

text \<open>
  The kernel program and user space agree on the SPA length window: the constants are
  declared twice and have to be kept equal.
\<close>

lemma spa_length_windows_agree: "BPF_SPA_MIN_LEN = SPA_MIN_LEN \<and> BPF_SPA_MAX_LEN = SPA_MAX_LEN"
  by (simp add: BPF_SPA_MIN_LEN_def BPF_SPA_MAX_LEN_def spa_len_defs)

end
