(* ===== verification/Xdp.thy ===== *)
theory Xdp
  imports Protocol
begin

text \<open>
  \<open>ghostbro-ebpf/src/main.rs\<close>: the kernel packet filter. A frame lies in memory at \<open>ctx_data\<close>;
  reading an address outside it is the error \<open>EFault\<close>, which the code must never reach. Addresses,
  offsets and lengths are 64-bit words with the overflow checks of the code. What the kernel
  decides during one invocation (clock values, LRU insertion, ring-buffer space, the helper that
  copies packet bytes) is the record \<open>kernel\<close>.
\<close>

section \<open>Data\<close>

definition ETH_HDR_LEN :: u64 where "ETH_HDR_LEN = 14"
definition IPV4_MIN_HDR_LEN :: u64 where "IPV4_MIN_HDR_LEN = 20"
definition TCP_MIN_HDR_LEN :: u64 where "TCP_MIN_HDR_LEN = 20"
definition UDP_HDR_LEN :: u64 where "UDP_HDR_LEN = 8"
definition ETHERTYPE_IPV4 :: u16 where "ETHERTYPE_IPV4 = 0x0800"
definition IP_PROTO_TCP :: u8 where "IP_PROTO_TCP = 6"
definition IP_PROTO_UDP :: u8 where "IP_PROTO_UDP = 17"
definition RATE_REFILL_NS :: u64 where "RATE_REFILL_NS = 60000000000"
definition GLOBAL_RATE_MULTIPLIER :: u32 where "GLOBAL_RATE_MULTIPLIER = 256"
definition GLOBAL_RATE_MAX :: u32 where "GLOBAL_RATE_MAX = 1000000"

lemmas xdp_const_defs = ETH_HDR_LEN_def IPV4_MIN_HDR_LEN_def TCP_MIN_HDR_LEN_def UDP_HDR_LEN_def
  ETHERTYPE_IPV4_def IP_PROTO_TCP_def IP_PROTO_UDP_def RATE_REFILL_NS_def
  GLOBAL_RATE_MULTIPLIER_def GLOBAL_RATE_MAX_def

datatype xdp_action = XDP_PASS | XDP_DROP

datatype xdp_error = EUnit | EFault

record xdp_ctx =
  ctx_data :: u64
  ctx_pkt :: bytes

record xdp_maps =
  CONFIG :: "BpfConfig option"
  ALLOW_MAP :: "(u32, AllowEntry) hash_map"
  RATE_LIMIT :: "(u32, RateState) hash_map"
  GLOBAL_RATE :: "RateState option"
  SPA_RING :: "bytes list"

record kernel =
  ktime_allow :: u64
  ktime_rate :: u64
  ktime_global :: u64
  lru_insert :: "u32 \<Rightarrow> RateState \<Rightarrow> (u32, RateState) hash_map \<Rightarrow> (u32, RateState) hash_map"
  ring_reserve :: "bytes option"
  xdp_load_bytes :: "bytes \<Rightarrow> u32 \<Rightarrow> u32 \<Rightarrow> bytes option"

type_synonym 'a xdp = "(xdp_maps, xdp_error, 'a) comp"

section \<open>Packet access\<close>

definition ctx_data_end :: "xdp_ctx \<Rightarrow> u64" where
  "ctx_data_end c = ctx_data c + word_of_nat (length (ctx_pkt c))"

text \<open>A raw load at an address.\<close>

definition deref :: "xdp_ctx \<Rightarrow> u64 \<Rightarrow> xdp_error + u8" where
  "deref c ptr =
     (if ctx_data c \<le> ptr \<and> unat (ptr - ctx_data c) < length (ctx_pkt c)
      then Inr (ctx_pkt c ! unat (ptr - ctx_data c)) else Inl EFault)"

definition has_bytes :: "u64 \<Rightarrow> u64 \<Rightarrow> u64 \<Rightarrow> u64 \<Rightarrow> bool" where
  "has_bytes data data_end offset len =
     (let end = (case checked_add data offset of
                   None \<Rightarrow> - 1
                 | Some start \<Rightarrow> (case checked_add start len of None \<Rightarrow> - 1 | Some e \<Rightarrow> e))
      in end \<le> data_end)"

definition read_u8 :: "xdp_ctx \<Rightarrow> u64 \<Rightarrow> xdp_error + u8" where
  "read_u8 c offset =
     and_then (ok_or EUnit (checked_add (ctx_data c) offset)) (\<lambda>ptr.
     and_then (ok_or EUnit (checked_add ptr 1)) (\<lambda>end.
       if ctx_data_end c < end then Inl EUnit else deref c ptr))"

definition read_be_u16 :: "xdp_ctx \<Rightarrow> u64 \<Rightarrow> xdp_error + u16" where
  "read_be_u16 c offset =
     and_then (read_u8 c offset) (\<lambda>high.
     and_then (ok_or EUnit (checked_add offset 1)) (\<lambda>o1.
     and_then (read_u8 c o1) (\<lambda>low.
       Inr (push_bit 8 (ucast high) OR ucast low))))"

definition read_be_u32 :: "xdp_ctx \<Rightarrow> u64 \<Rightarrow> xdp_error + u32" where
  "read_be_u32 c offset =
     and_then (read_u8 c offset) (\<lambda>b0.
     and_then (ok_or EUnit (checked_add offset 1)) (\<lambda>o1.
     and_then (read_u8 c o1) (\<lambda>b1.
     and_then (ok_or EUnit (checked_add offset 2)) (\<lambda>o2.
     and_then (read_u8 c o2) (\<lambda>b2.
     and_then (ok_or EUnit (checked_add offset 3)) (\<lambda>o3.
     and_then (read_u8 c o3) (\<lambda>b3.
       Inr (push_bit 24 (ucast b0) OR push_bit 16 (ucast b1) OR push_bit 8 (ucast b2) OR ucast b3))))))))"

section \<open>Event buffer\<close>

definition write_u8 :: "bytes \<Rightarrow> nat \<Rightarrow> u8 \<Rightarrow> bytes" where
  "write_u8 dst offset value = dst[offset := value]"

text \<open>Native byte order of the BPF target is little-endian.\<close>

definition write_u16_ne :: "bytes \<Rightarrow> nat \<Rightarrow> u16 \<Rightarrow> bytes" where
  "write_u16_ne dst offset value =
     (let bs = rev (to_be_bytes16 value)
      in write_u8 (write_u8 dst offset (bs ! 0)) (offset + 1) (bs ! 1))"

definition write_u32_ne :: "bytes \<Rightarrow> nat \<Rightarrow> u32 \<Rightarrow> bytes" where
  "write_u32_ne dst offset value =
     (let bs = rev (to_be_bytes32 value)
      in write_u8 (write_u8 (write_u8 (write_u8 dst offset (bs ! 0)) (offset + 1) (bs ! 1))
           (offset + 2) (bs ! 2)) (offset + 3) (bs ! 3))"

section \<open>The program\<close>

definition load_config :: "xdp_maps \<Rightarrow> BpfConfig" where
  "load_config m =
     (case CONFIG m of
        Some config \<Rightarrow> config
      | None \<Rightarrow> \<lparr>spa_port = DEFAULT_SPA_PORT, proxy_port = DEFAULT_PROXY_PORT,
                 rate_limit_per_minute = DEFAULT_RATE_LIMIT_PER_MINUTE, spa_mode = SPA_MODE_UDP\<rparr>)"

definition is_spa_length :: "u64 \<Rightarrow> bool" where
  "is_spa_length payload_len \<longleftrightarrow>
     BPF_SPA_MIN_LEN \<le> unat payload_len \<and> unat payload_len \<le> BPF_SPA_MAX_LEN"

definition is_allowed :: "kernel \<Rightarrow> u32 \<Rightarrow> xdp_maps \<Rightarrow> bool \<times> xdp_maps" where
  "is_allowed k src_ip m =
     (case hm_get (ALLOW_MAP m) src_ip of
        None \<Rightarrow> (False, m)
      | Some entry \<Rightarrow>
          let now = ktime_allow k in
          if expiry_ns entry \<le> now
          then (False, m\<lparr>ALLOW_MAP := hm_remove src_ip (ALLOW_MAP m)\<rparr>)
          else (True, m))"

definition rate_limit_allows :: "kernel \<Rightarrow> u32 \<Rightarrow> u32 \<Rightarrow> xdp_maps \<Rightarrow> bool \<times> xdp_maps" where
  "rate_limit_allows k src_ip configured_limit m =
     (let limit = if configured_limit = 0 then DEFAULT_RATE_LIMIT_PER_MINUTE else configured_limit;
          now = ktime_rate k;
          state = (case hm_get (RATE_LIMIT m) src_ip of
                     None \<Rightarrow> \<lparr>tokens = limit, last_ns = now\<rparr> | Some s \<Rightarrow> s);
          state = (if RATE_REFILL_NS \<le> saturating_sub now (last_ns state)
                   then state\<lparr>tokens := limit, last_ns := now\<rparr> else state)
      in if tokens state = 0
         then (False, m\<lparr>RATE_LIMIT := lru_insert k src_ip state (RATE_LIMIT m)\<rparr>)
         else let state = state\<lparr>tokens := tokens state - 1\<rparr>
              in (True, m\<lparr>RATE_LIMIT := lru_insert k src_ip state (RATE_LIMIT m)\<rparr>))"

definition global_limit :: "u32 \<Rightarrow> u32" where
  "global_limit configured_limit =
     (let per_ip_limit = if configured_limit = 0 then DEFAULT_RATE_LIMIT_PER_MINUTE else configured_limit
      in min (saturating_mul per_ip_limit GLOBAL_RATE_MULTIPLIER) GLOBAL_RATE_MAX)"

definition global_rate_limit_allows :: "kernel \<Rightarrow> u32 \<Rightarrow> xdp_maps \<Rightarrow> bool \<times> xdp_maps" where
  "global_rate_limit_allows k configured_limit m =
     (let limit = global_limit configured_limit;
          now = ktime_global k
      in case GLOBAL_RATE m of
           None \<Rightarrow> (False, m)
         | Some state \<Rightarrow>
             let state = (if last_ns state = 0 \<or> RATE_REFILL_NS \<le> saturating_sub now (last_ns state)
                          then state\<lparr>tokens := limit, last_ns := now\<rparr> else state)
             in if tokens state = 0 then (False, m\<lparr>GLOBAL_RATE := Some state\<rparr>)
                else (True, m\<lparr>GLOBAL_RATE := Some (state\<lparr>tokens := saturating_sub (tokens state) 1\<rparr>)\<rparr>))"

definition emit_spa_event :: "kernel \<Rightarrow> xdp_ctx \<Rightarrow> u64 \<Rightarrow> u64 \<Rightarrow> u32 \<Rightarrow> u16 \<Rightarrow> xdp_maps \<Rightarrow> xdp_maps" where
  "emit_spa_event k c payload_offset payload_len src_ip src_port m =
     (let copy_len = (if BPF_SPA_MAX_LEN < unat payload_len then word_of_nat BPF_SPA_MAX_LEN else payload_len)
      in if unat copy_len < BPF_SPA_MIN_LEN then m
         else case ring_reserve k of
                None \<Rightarrow> m
              | Some reservation \<Rightarrow>
                  let event = write_u32_ne reservation 0 src_ip;
                      event = write_u16_ne event 4 src_port;
                      event = write_u16_ne event 6 (ucast copy_len)
                  in case xdp_load_bytes k (ctx_pkt c) (ucast payload_offset) (ucast copy_len) of
                       None \<Rightarrow> m
                     | Some loaded \<Rightarrow>
                         let event = take 8 event @ loaded @ drop (8 + unat copy_len) event
                         in m\<lparr>SPA_RING := SPA_RING m @ [event]\<rparr>)"

definition handle_tcp :: "kernel \<Rightarrow> xdp_ctx \<Rightarrow> u64 \<Rightarrow> u32 \<Rightarrow> u16 \<Rightarrow> xdp_action xdp" where
  "handle_tcp k c transport_offset src_ip port =
     (if \<not> has_bytes (ctx_data c) (ctx_data_end c) transport_offset TCP_MIN_HDR_LEN
      then c_lift (Inr XDP_PASS)
      else c_bind (c_lift (and_then (ok_or EUnit (checked_add transport_offset 2)) (read_be_u16 c))) (\<lambda>dst_port.
        if dst_port \<noteq> port then c_lift (Inr XDP_PASS)
        else (\<lambda>m. case is_allowed k src_ip m of
                    (allowed, m') \<Rightarrow> (Inr (if allowed then XDP_PASS else XDP_DROP), m'))))"

text \<open>The guarded call at the end of \<open>handle_udp\<close>: each conjunct runs only if the ones before hold.\<close>

definition admit_candidate :: "kernel \<Rightarrow> xdp_ctx \<Rightarrow> u64 \<Rightarrow> u64 \<Rightarrow> u32 \<Rightarrow> u16 \<Rightarrow> u32 \<Rightarrow> xdp_maps \<Rightarrow> xdp_maps" where
  "admit_candidate k c payload_offset payload_len src_ip src_port rate m =
     (if \<not> is_spa_length payload_len then m
      else case rate_limit_allows k src_ip rate m of
             (False, m1) \<Rightarrow> m1
           | (True, m1) \<Rightarrow> (case global_rate_limit_allows k rate m1 of
                 (False, m2) \<Rightarrow> m2
               | (True, m2) \<Rightarrow> emit_spa_event k c payload_offset payload_len src_ip src_port m2))"

definition handle_udp :: "kernel \<Rightarrow> xdp_ctx \<Rightarrow> u64 \<Rightarrow> u32 \<Rightarrow> u16 \<Rightarrow> u32 \<Rightarrow> xdp_action xdp" where
  "handle_udp k c transport_offset src_ip port rate =
     (if \<not> has_bytes (ctx_data c) (ctx_data_end c) transport_offset UDP_HDR_LEN
      then c_lift (Inr XDP_PASS)
      else c_bind (c_lift (and_then (ok_or EUnit (checked_add transport_offset 2)) (read_be_u16 c))) (\<lambda>dst_port.
        if dst_port \<noteq> port then c_lift (Inr XDP_PASS)
        else
          c_bind (c_lift (read_be_u16 c transport_offset)) (\<lambda>src_port.
          c_bind (c_lift (and_then (ok_or EUnit (checked_add transport_offset 4)) (read_be_u16 c))) (\<lambda>len16.
          let udp_len = ucast len16 :: u64 in
          if udp_len < UDP_HDR_LEN then c_lift (Inr XDP_DROP)
          else
            c_bind (c_lift (ok_or EUnit (checked_add transport_offset UDP_HDR_LEN))) (\<lambda>payload_offset.
            let payload_len = udp_len - UDP_HDR_LEN in
            if \<not> has_bytes (ctx_data c) (ctx_data_end c) payload_offset payload_len
            then c_lift (Inr XDP_DROP)
            else (\<lambda>m. (Inr XDP_DROP,
                       admit_candidate k c payload_offset payload_len src_ip src_port rate m)))))))"

definition try_ghostbro_xdp :: "kernel \<Rightarrow> xdp_ctx \<Rightarrow> xdp_action xdp" where
  "try_ghostbro_xdp k c m =
     (let config = load_config m in
      c_bind (c_lift (read_be_u16 c 12)) (\<lambda>ethertype.
      if ethertype \<noteq> ETHERTYPE_IPV4 then c_lift (Inr XDP_PASS)
      else
        let ipv4_offset = ETH_HDR_LEN in
        if \<not> has_bytes (ctx_data c) (ctx_data_end c) ipv4_offset IPV4_MIN_HDR_LEN then c_lift (Inr XDP_PASS)
        else
          c_bind (c_lift (read_u8 c ipv4_offset)) (\<lambda>vihl.
          let ihl = ucast (vihl AND 0x0f) * (4 :: u64) in
          if ihl < IPV4_MIN_HDR_LEN then c_lift (Inr XDP_PASS)
          else
            c_bind (c_lift (and_then (ok_or EUnit (checked_add ipv4_offset 9)) (read_u8 c))) (\<lambda>proto.
            c_bind (c_lift (and_then (ok_or EUnit (checked_add ipv4_offset 12)) (read_be_u32 c))) (\<lambda>src_ip.
            c_bind (c_lift (ok_or EUnit (checked_add ipv4_offset ihl))) (\<lambda>transport_offset.
              if proto = IP_PROTO_TCP then handle_tcp k c transport_offset src_ip (proxy_port config)
              else if proto = IP_PROTO_UDP \<and> spa_mode config AND SPA_MODE_UDP \<noteq> 0
              then handle_udp k c transport_offset src_ip (spa_port config) (rate_limit_per_minute config)
              else c_lift (Inr XDP_PASS)))))) m)"

definition ghostbro_xdp :: "kernel \<Rightarrow> xdp_ctx \<Rightarrow> xdp_action xdp" where
  "ghostbro_xdp k c m =
     (case try_ghostbro_xdp k c m of
        (Inl EUnit, m') \<Rightarrow> (Inr XDP_PASS, m')
      | r \<Rightarrow> r)"

section \<open>Packet access stays inside the frame\<close>

definition xdp_wf :: "xdp_ctx \<Rightarrow> bool" where
  "xdp_wf c \<longleftrightarrow> unat (ctx_data c) + length (ctx_pkt c) < 2 ^ 64 - 1"

lemma unat_data_end: "xdp_wf c \<Longrightarrow> unat (ctx_data_end c) = unat (ctx_data c) + length (ctx_pkt c)"
proof -
  assume wf: "xdp_wf c"
  then have "unat (word_of_nat (length (ctx_pkt c)) :: u64) = length (ctx_pkt c)"
    by (simp add: xdp_wf_def unat_of_nat)
  with wf show ?thesis
    by (simp add: ctx_data_end_def xdp_wf_def unat_plus_small)
qed

lemma has_bytes_iff:
  assumes "xdp_wf c"
  shows "has_bytes (ctx_data c) (ctx_data_end c) off len \<longleftrightarrow> unat off + unat len \<le> length (ctx_pkt c)"
proof -
  let ?d = "unat (ctx_data c)" and ?n = "length (ctx_pkt c)"
  have wf: "?d + ?n < 2 ^ 64 - 1" using assms by (simp add: xdp_wf_def)
  have top: "\<not> (- 1 :: u64) \<le> ctx_data_end c"
    using wf unat_data_end [OF assms] by (simp add: word_le_nat_alt unat_max_word)
  show ?thesis
  proof (cases "?d + unat off < 2 ^ 64")
    case False
    then have "checked_add (ctx_data c) off = None" by (simp add: checked_add_def)
    with top False wf show ?thesis by (simp add: has_bytes_def)
  next
    case True
    then have s: "checked_add (ctx_data c) off = Some (ctx_data c + off)"
      and u: "unat (ctx_data c + off) = ?d + unat off"
      by (simp_all add: checked_add_def unat_plus_small)
    show ?thesis
    proof (cases "?d + unat off + unat len < 2 ^ 64")
      case False
      then have "checked_add (ctx_data c + off) len = None" by (simp add: checked_add_def u)
      with top False wf s show ?thesis by (simp add: has_bytes_def)
    next
      case True
      then have "checked_add (ctx_data c + off) len = Some (ctx_data c + off + len)"
        and "unat (ctx_data c + off + len) = ?d + unat off + unat len"
        using u by (simp_all add: checked_add_def unat_plus_small)
      then show ?thesis
        using s unat_data_end [OF assms] by (simp add: has_bytes_def word_le_nat_alt)
    qed
  qed
qed

lemma read_u8_eq:
  assumes "xdp_wf c"
  shows "read_u8 c off = (if unat off < length (ctx_pkt c) then Inr (ctx_pkt c ! unat off) else Inl EUnit)"
proof -
  let ?d = "unat (ctx_data c)" and ?n = "length (ctx_pkt c)"
  have wf: "?d + ?n < 2 ^ 64 - 1" using assms by (simp add: xdp_wf_def)
  show ?thesis
  proof (cases "?d + unat off + 1 < 2 ^ 64")
    case False
    then have "checked_add (ctx_data c) off = None \<or>
        (checked_add (ctx_data c) off = Some (ctx_data c + off) \<and> checked_add (ctx_data c + off) 1 = None)"
      by (auto simp: checked_add_def unat_plus_small)
    with False wf show ?thesis by (auto simp: read_u8_def)
  next
    case True
    then have s: "checked_add (ctx_data c) off = Some (ctx_data c + off)"
      and u: "unat (ctx_data c + off) = ?d + unat off"
      by (simp_all add: checked_add_def unat_plus_small)
    then have e: "checked_add (ctx_data c + off) 1 = Some (ctx_data c + off + 1)"
      and v: "unat (ctx_data c + off + 1) = ?d + unat off + 1"
      using True by (simp_all add: checked_add_def unat_plus_small)
    have "ctx_data_end c < ctx_data c + off + 1 \<longleftrightarrow> ?n \<le> unat off"
      using unat_data_end [OF assms] v by (simp add: word_less_nat_alt) linarith
    moreover have "ctx_data c \<le> ctx_data c + off" using u by (simp add: word_le_nat_alt)
    ultimately show ?thesis
      using s e by (simp add: read_u8_def deref_def)
  qed
qed

definition be16 :: "bytes \<Rightarrow> nat \<Rightarrow> u16" where
  "be16 p i = from_be_bytes (subslice p i (i + 2))"

definition be32 :: "bytes \<Rightarrow> nat \<Rightarrow> u32" where
  "be32 p i = from_be_bytes (subslice p i (i + 4))"

lemma subslice_snoc: "j < length xs \<Longrightarrow> i \<le> j \<Longrightarrow> subslice xs i (Suc j) = subslice xs i j @ [xs ! j]"
  by (simp add: subslice_def Suc_diff_le take_Suc_conv_app_nth)

lemma or_byte: "push_bit 8 x OR ucast b = x * 256 + ucast b" for x :: "'a::len word" and b :: u8
proof -
  have "push_bit 8 x AND ucast b = 0"
  proof (rule bit_eqI)
    fix i
    have "bit b i \<Longrightarrow> i < 8" using bit_imp_le_length [of b i] by simp
    then show "bit (push_bit 8 x AND ucast b) i \<longleftrightarrow> bit 0 i"
      by (auto simp: bit_and_iff bit_push_bit_iff bit_ucast_iff)
  qed
  then have "push_bit 8 x OR ucast b = push_bit 8 x + ucast b"
    by (simp add: disjunctive_add_eq_or)
  then show ?thesis by (simp add: push_bit_eq_mult)
qed

lemma from_be_bytes_snoc: "from_be_bytes (bs @ [b]) = (from_be_bytes bs :: 'a::len word) * 256 + ucast b"
  by (simp add: from_be_bytes_def be_value_snoc)

lemma or_bytes16: "push_bit 8 (ucast b0) OR ucast b1 = (from_be_bytes [b0, b1] :: u16)"
  using from_be_bytes_snoc [of "[]" b0, where 'a = 16] from_be_bytes_snoc [of "[b0]" b1, where 'a = 16]
  by (simp add: or_byte from_be_bytes_def)

lemma or_bytes32:
  "push_bit 24 (ucast b0) OR push_bit 16 (ucast b1) OR push_bit 8 (ucast b2) OR ucast b3 =
   (from_be_bytes [b0, b1, b2, b3] :: u32)"
proof -
  let ?b0 = "ucast b0 :: u32" and ?b1 = "ucast b1 :: u32" and ?b2 = "ucast b2 :: u32"
  have "push_bit 24 ?b0 OR push_bit 16 ?b1 OR push_bit 8 ?b2 OR ucast b3 =
      push_bit 8 (push_bit 8 (push_bit 8 ?b0 OR ?b1) OR ?b2) OR ucast b3"
    by (simp add: push_bit_or or.assoc)
  also have "\<dots> = from_be_bytes [b0, b1, b2, b3]"
    using from_be_bytes_snoc [of "[]" b0, where 'a = 32] from_be_bytes_snoc [of "[b0]" b1, where 'a = 32]
      from_be_bytes_snoc [of "[b0, b1]" b2, where 'a = 32] from_be_bytes_snoc [of "[b0, b1, b2]" b3, where 'a = 32]
    by (simp add: or_byte from_be_bytes_def)
  finally show ?thesis .
qed

lemma subslice_two: "i + 2 \<le> length p \<Longrightarrow> subslice p i (i + 2) = [p ! i, p ! (i + 1)]"
  using subslice_snoc [of "i + 1" p i] subslice_snoc [of i p i] by (simp add: subslice_def)

lemma subslice_four:
  "i + 4 \<le> length p \<Longrightarrow> subslice p i (i + 4) = [p ! i, p ! (i + 1), p ! (i + 2), p ! (i + 3)]"
  using subslice_snoc [of "i + 3" p i] subslice_snoc [of "i + 2" p i] subslice_two [of i p]
  by (simp add: numeral_eq_Suc)

lemma be16_eq: "i + 2 \<le> length p \<Longrightarrow> be16 p i = from_be_bytes [p ! i, p ! (i + 1)]"
  unfolding be16_def by (simp only: subslice_two)

lemma checked_add_small: "unat off + unat k < 2 ^ 64 \<Longrightarrow> checked_add off k = Some (off + k)" for off k :: u64
  by (simp add: checked_add_def)

lemma xdp_wf_length: "xdp_wf c \<Longrightarrow> length (ctx_pkt c) < 2 ^ 64 - 1"
  by (simp add: xdp_wf_def)

lemma read_be_u16_eq:
  assumes "xdp_wf c"
  shows "read_be_u16 c off =
    (if unat off + 2 \<le> length (ctx_pkt c) then Inr (be16 (ctx_pkt c) (unat off)) else Inl EUnit)"
proof (cases "unat off < length (ctx_pkt c)")
  case True
  have small: "unat off + unat (1 :: u64) < 2 ^ 64"
    using True xdp_wf_length [OF assms] by simp
  then have "unat (off + 1) = unat off + 1" by (simp add: unat_plus_small)
  with True small show ?thesis
    using checked_add_small [OF small]
    by (auto simp: read_be_u16_def read_u8_eq [OF assms] be16_eq or_bytes16)
next
  case False
  then show ?thesis by (simp add: read_be_u16_def read_u8_eq [OF assms])
qed

lemma read_be_u32_eq:
  assumes "xdp_wf c" and "unat off + 4 \<le> length (ctx_pkt c)"
  shows "read_be_u32 c off = Inr (be32 (ctx_pkt c) (unat off))"
proof -
  have lt: "unat off + 4 < 2 ^ 64" using assms(2) xdp_wf_length [OF assms(1)] by simp
  then have "checked_add off 1 = Some (off + 1)" "checked_add off 2 = Some (off + 2)"
      "checked_add off 3 = Some (off + 3)"
    by (simp_all add: checked_add_small)
  moreover have "unat (off + 1) = unat off + 1" "unat (off + 2) = unat off + 2" "unat (off + 3) = unat off + 3"
    using lt by (simp_all add: unat_plus_small)
  ultimately show ?thesis
    using assms(2) by (simp add: read_be_u32_def read_u8_eq [OF assms(1)] be32_def subslice_four or_bytes32)
qed

section \<open>The program as a function of the frame\<close>

definition header_len :: "bytes \<Rightarrow> nat" where
  "header_len p = 4 * unat (p ! 14 AND 0x0f)"

definition ipv4_frame :: "bytes \<Rightarrow> bool" where
  "ipv4_frame p \<longleftrightarrow> 34 \<le> length p \<and> be16 p 12 = ETHERTYPE_IPV4 \<and> 20 \<le> header_len p"

definition transport :: "bytes \<Rightarrow> nat" where
  "transport p = 14 + header_len p"

definition source_ip :: "bytes \<Rightarrow> u32" where
  "source_ip p = be32 p 26"

lemma unat_and_15: "unat (x AND 15) < 16" for x :: u8
proof -
  have "x AND 15 = take_bit 4 x"
    by (simp add: take_bit_eq_mask mask_eq_exp_minus_1)
  then show ?thesis by (simp add: unsigned_take_bit_eq take_bit_nat_eq_self_iff take_bit_nat_def)
qed

lemma header_len_bound: "header_len p \<le> 60"
  using unat_and_15 [of "p ! 14"] by (simp add: header_len_def)

lemma unat_ihl: "unat (ucast (p ! 14 AND 15) * (4 :: u64)) = header_len p"
proof -
  have "unat (ucast (p ! 14 AND 15) :: u64) = unat (p ! 14 AND 15)"
    by (rule unat_ucast_up) simp
  then show ?thesis
    using unat_and_15 [of "p ! 14"] by (simp add: unat_word_ariths header_len_def)
qed

lemma handle_tcp_eq:
  assumes "xdp_wf c" and "unat off \<le> 74"
  shows "handle_tcp k c off ip port m =
    (if unat off + 20 \<le> length (ctx_pkt c) \<and> be16 (ctx_pkt c) (unat off + 2) = port
     then (case is_allowed k ip m of (ok, m') \<Rightarrow> (Inr (if ok then XDP_PASS else XDP_DROP), m'))
     else (Inr XDP_PASS, m))"
proof -
  have "unat (off + 2) = unat off + 2" and "checked_add off 2 = Some (off + 2)"
    using assms(2) by (simp_all add: unat_plus_small checked_add_small)
  then show ?thesis
    by (auto simp: handle_tcp_def has_bytes_iff [OF assms(1)] read_be_u16_eq [OF assms(1)] TCP_MIN_HDR_LEN_def
        c_bind_def)
qed

text \<open>The UDP datagram at an offset: its header and payload are complete, for the given port.\<close>

definition udp_to :: "bytes \<Rightarrow> nat \<Rightarrow> u16 \<Rightarrow> bool" where
  "udp_to p off port \<longleftrightarrow> off + 8 \<le> length p \<and> be16 p (off + 2) = port"

definition udp_complete :: "bytes \<Rightarrow> nat \<Rightarrow> bool" where
  "udp_complete p off \<longleftrightarrow> 8 \<le> unat (be16 p (off + 4)) \<and> off + unat (be16 p (off + 4)) \<le> length p"

lemma handle_udp_eq:
  assumes "xdp_wf c" and "unat off \<le> 74"
  shows "handle_udp k c off ip port rate m =
    (if \<not> udp_to (ctx_pkt c) (unat off) port then (Inr XDP_PASS, m)
     else if \<not> udp_complete (ctx_pkt c) (unat off) then (Inr XDP_DROP, m)
     else (Inr XDP_DROP, admit_candidate k c (off + 8) (ucast (be16 (ctx_pkt c) (unat off + 4)) - 8) ip
             (be16 (ctx_pkt c) (unat off)) rate m))"
proof -
  let ?p = "ctx_pkt c"
  let ?l16 = "be16 ?p (unat off + 4)"
  let ?len = "ucast ?l16 :: u64"
  have o: "unat (off + 2) = unat off + 2" "checked_add off 2 = Some (off + 2)"
    "unat (off + 4) = unat off + 4" "checked_add off 4 = Some (off + 4)"
    "unat (off + 8) = unat off + 8" "checked_add off 8 = Some (off + 8)"
    using assms(2) by (simp_all add: unat_plus_small checked_add_small)
  have len: "unat ?len = unat ?l16"
    by (rule unat_ucast_up) simp
  have lt8: "?len < 8 \<longleftrightarrow> unat ?l16 < 8"
    by (simp add: word_less_nat_alt len)
  have sub: "8 \<le> unat ?l16 \<Longrightarrow> unat (?len - 8) = unat ?l16 - 8"
    using len by (simp add: unat_minus_le word_le_nat_alt)
  show ?thesis
    using sub
    by (auto simp: handle_udp_def has_bytes_iff [OF assms(1)] read_be_u16_eq [OF assms(1)] UDP_HDR_LEN_def
        c_bind_def o lt8 udp_to_def udp_complete_def Let_def)
qed

lemma try_ghostbro_xdp_eq:
  assumes wf: "xdp_wf c"
  shows "try_ghostbro_xdp k c m =
    (let p = ctx_pkt c; config = load_config m; off = word_of_nat (transport p) in
     if length p < 14 then (Inl EUnit, m)
     else if \<not> ipv4_frame p then (Inr XDP_PASS, m)
     else if p ! 23 = IP_PROTO_TCP then handle_tcp k c off (source_ip p) (proxy_port config) m
     else if p ! 23 = IP_PROTO_UDP \<and> spa_mode config AND SPA_MODE_UDP \<noteq> 0
     then handle_udp k c off (source_ip p) (spa_port config) (rate_limit_per_minute config) m
     else (Inr XDP_PASS, m))"
proof -
  let ?p = "ctx_pkt c"
  let ?ihl = "ucast (?p ! 14 AND 15) * (4 :: u64)"
  note reads = read_u8_eq [OF wf] read_be_u16_eq [OF wf] read_be_u32_eq [OF wf] has_bytes_iff [OF wf]
  have ihl: "?ihl < 20 \<longleftrightarrow> header_len ?p < 20"
    by (simp add: word_less_nat_alt unat_ihl)
  have "14 + ?ihl = word_of_nat (14 + unat ?ihl)"
    by simp
  then have off: "14 + ?ihl = word_of_nat (transport ?p)"
    by (simp only: unat_ihl transport_def)
  have add: "checked_add (14 :: u64) ?ihl = Some (14 + ?ihl)"
    "checked_add (14 :: u64) 9 = Some 23" "checked_add (14 :: u64) 12 = Some 26"
    using header_len_bound [of ?p] by (simp_all add: checked_add_def unat_ihl)
  show ?thesis
    unfolding try_ghostbro_xdp_def xdp_const_defs ipv4_frame_def Let_def
    by (simp add: reads ihl add c_bind_def source_ip_def off [symmetric] not_le not_less
        linorder_not_less del: of_nat_add)
qed

section \<open>Token buckets\<close>

text \<open>
  The contract of a bucket that refills once per window: a draw when a refill is due starts a
  new window with the full limit, a draw otherwise takes one token if there is one, and once
  seeded a bucket is not due again before the window has passed.
\<close>

locale token_bucket =
  fixes draw :: "'i \<Rightarrow> 's \<Rightarrow> bool \<times> 's"
    and usable :: "'i \<Rightarrow> bool"
    and clock :: "'i \<Rightarrow> nat"
    and due :: "'i \<Rightarrow> 's \<Rightarrow> bool"
    and level :: "'s \<Rightarrow> nat"
    and stamp :: "'s \<Rightarrow> nat"
    and seeded :: "'s \<Rightarrow> bool"
    and limit :: nat
    and window :: nat
  assumes draw_due: "usable i \<Longrightarrow> due i s \<Longrightarrow> draw i s = (b, s') \<Longrightarrow>
      (b \<longleftrightarrow> 0 < limit) \<and> level s' = limit - 1 \<and> stamp s' = clock i \<and> seeded s'"
    and draw_not_due: "usable i \<Longrightarrow> \<not> due i s \<Longrightarrow> draw i s = (b, s') \<Longrightarrow>
      (b \<longleftrightarrow> 0 < level s) \<and> level s' = level s - 1 \<and> stamp s' = stamp s \<and> seeded s' = seeded s"
    and due_after: "usable i \<Longrightarrow> seeded s \<Longrightarrow> due i s \<Longrightarrow> stamp s + window \<le> clock i"
begin

text \<open>What can still be drawn before \<open>t0 + window\<close>.\<close>

definition credit :: "nat \<Rightarrow> 's \<Rightarrow> nat" where
  "credit t0 s = (if seeded s \<and> t0 \<le> stamp s then level s else level s + limit)"

lemma draw_credit:
  assumes "usable i" and "t0 \<le> clock i" and "clock i < t0 + window" and "draw i s = (b, s')"
  shows "credit t0 s' + (if b then 1 else 0) \<le> credit t0 s"
proof (cases "due i s")
  case True
  have "\<not> (seeded s \<and> t0 \<le> stamp s)"
    using due_after [OF assms(1) _ True] assms(3) by auto
  then show ?thesis
    using draw_due [OF assms(1) True assms(4)] assms(2) by (auto simp: credit_def)
next
  case False
  then show ?thesis
    using draw_not_due [OF assms(1) False assms(4)] by (auto simp: credit_def)
qed

lemma first_draw_admitted:
  assumes "usable i" and "due i s" and "0 < limit"
  shows "fst (draw i s)"
  using draw_due [OF assms(1,2)] assms(3) by (cases "draw i s") auto

lemma credit_bound: "credit t0 s \<le> level s + limit"
  by (simp add: credit_def)

end

definition per_ip_limit :: "u32 \<Rightarrow> u32" where
  "per_ip_limit configured = (if configured = 0 then DEFAULT_RATE_LIMIT_PER_MINUTE else configured)"

lemma saturating_sub_ge: "d \<le> saturating_sub now last \<longleftrightarrow> unat last + unat d \<le> unat now \<or> d = 0"
  for d now last :: u64
  by (simp add: word_le_nat_alt unat_saturating_sub unat_eq_zero [symmetric]) linarith

definition global_due :: "kernel \<Rightarrow> xdp_maps \<Rightarrow> bool" where
  "global_due k m \<longleftrightarrow> (case GLOBAL_RATE m of None \<Rightarrow> False | Some st \<Rightarrow>
     last_ns st = 0 \<or> RATE_REFILL_NS \<le> saturating_sub (ktime_global k) (last_ns st))"

definition global_level :: "xdp_maps \<Rightarrow> nat" where
  "global_level m = (case GLOBAL_RATE m of None \<Rightarrow> 0 | Some st \<Rightarrow> unat (tokens st))"

definition global_stamp :: "xdp_maps \<Rightarrow> nat" where
  "global_stamp m = (case GLOBAL_RATE m of None \<Rightarrow> 0 | Some st \<Rightarrow> unat (last_ns st))"

definition global_seeded :: "xdp_maps \<Rightarrow> bool" where
  "global_seeded m \<longleftrightarrow> (case GLOBAL_RATE m of None \<Rightarrow> True | Some st \<Rightarrow> last_ns st \<noteq> 0)"

lemmas global_defs = global_due_def global_level_def global_stamp_def global_seeded_def

lemma unat_pred: "x \<noteq> 0 \<Longrightarrow> unat (x - 1) = unat x - 1" for x :: "'a::len word"
  by (metis unat_minus_one)

lemma unat_pos: "0 < unat x \<longleftrightarrow> x \<noteq> 0" for x :: "'a::len word"
  by (simp add: unat_gt_0)

lemma unat_dec: "unat (saturating_sub x 1) = unat x - 1" for x :: "'a::len word"
  by (simp add: unat_saturating_sub)

interpretation global_bucket: token_bucket
  "\<lambda>k. global_rate_limit_allows k cfg" "\<lambda>k. 0 < ktime_global k" "\<lambda>k. unat (ktime_global k)"
  global_due global_level global_stamp global_seeded "unat (global_limit cfg)" "unat RATE_REFILL_NS"
  for cfg
proof unfold_locales
  fix k :: kernel and m m' b
  assume k: "0 < ktime_global k" and due: "global_due k m" and d: "global_rate_limit_allows k cfg m = (b, m')"
  obtain st where "GLOBAL_RATE m = Some st" using due by (auto simp: global_due_def split: option.splits)
  with d due k show "(b \<longleftrightarrow> 0 < unat (global_limit cfg)) \<and> global_level m' = unat (global_limit cfg) - 1 \<and>
      global_stamp m' = unat (ktime_global k) \<and> global_seeded m'"
    by (auto simp: global_rate_limit_allows_def global_defs Let_def unat_pos unat_dec split: if_splits)
next
  fix k :: kernel and m m' b
  assume nd: "\<not> global_due k m" and d: "global_rate_limit_allows k cfg m = (b, m')"
  then show "(b \<longleftrightarrow> 0 < global_level m) \<and> global_level m' = global_level m - 1 \<and>
      global_stamp m' = global_stamp m \<and> global_seeded m' = global_seeded m"
    by (auto simp: global_rate_limit_allows_def global_defs Let_def unat_pos unat_dec
        split: if_splits option.splits)
next
  fix k :: kernel and m
  assume "global_seeded m" "global_due k m"
  then show "global_stamp m + unat RATE_REFILL_NS \<le> unat (ktime_global k)"
    by (auto simp: global_defs saturating_sub_ge RATE_REFILL_NS_def split: option.splits)
qed

definition ip_due :: "u32 \<Rightarrow> kernel \<Rightarrow> xdp_maps \<Rightarrow> bool" where
  "ip_due ip k m \<longleftrightarrow> (case hm_get (RATE_LIMIT m) ip of None \<Rightarrow> True | Some st \<Rightarrow>
     RATE_REFILL_NS \<le> saturating_sub (ktime_rate k) (last_ns st))"

definition ip_level :: "u32 \<Rightarrow> xdp_maps \<Rightarrow> nat" where
  "ip_level ip m = (case hm_get (RATE_LIMIT m) ip of None \<Rightarrow> 0 | Some st \<Rightarrow> unat (tokens st))"

definition ip_stamp :: "u32 \<Rightarrow> xdp_maps \<Rightarrow> nat" where
  "ip_stamp ip m = (case hm_get (RATE_LIMIT m) ip of None \<Rightarrow> 0 | Some st \<Rightarrow> unat (last_ns st))"

definition ip_seeded :: "u32 \<Rightarrow> xdp_maps \<Rightarrow> bool" where
  "ip_seeded ip m \<longleftrightarrow> hm_get (RATE_LIMIT m) ip \<noteq> None"

lemmas ip_defs = ip_due_def ip_level_def ip_stamp_def ip_seeded_def

text \<open>The per-address bucket, while the kernel keeps its entry (an insertion that stores).\<close>

lemma per_ip_limit_pos: "per_ip_limit cfg \<noteq> 0"
  by (simp add: per_ip_limit_def DEFAULT_RATE_LIMIT_PER_MINUTE_def)

interpretation ip_bucket: token_bucket
  "\<lambda>k. rate_limit_allows k ip cfg" "\<lambda>k. lru_insert k = hm_insert" "\<lambda>k. unat (ktime_rate k)"
  "ip_due ip" "ip_level ip" "ip_stamp ip" "ip_seeded ip" "unat (per_ip_limit cfg)" "unat RATE_REFILL_NS"
  for ip cfg
proof unfold_locales
  fix k :: kernel and m m' b
  assume k: "lru_insert k = hm_insert" and due: "ip_due ip k m" and d: "rate_limit_allows k ip cfg m = (b, m')"
  have z: "\<not> RATE_REFILL_NS \<le> saturating_sub now now" for now
    by (simp add: saturating_sub_def RATE_REFILL_NS_def)
  show "(b \<longleftrightarrow> 0 < unat (per_ip_limit cfg)) \<and> ip_level ip m' = unat (per_ip_limit cfg) - 1 \<and>
      ip_stamp ip m' = unat (ktime_rate k) \<and> ip_seeded ip m'"
    using d due k per_ip_limit_pos [of cfg] unfolding per_ip_limit_def
    by (cases "hm_get (RATE_LIMIT m) ip")
      (auto simp: rate_limit_allows_def ip_defs Let_def unat_pos unat_pred z split: if_splits)
next
  fix k :: kernel and m m' b
  assume k: "lru_insert k = hm_insert" and nd: "\<not> ip_due ip k m" and d: "rate_limit_allows k ip cfg m = (b, m')"
  obtain st where "hm_get (RATE_LIMIT m) ip = Some st"
    using nd by (auto simp: ip_due_def split: option.splits)
  then show "(b \<longleftrightarrow> 0 < ip_level ip m) \<and> ip_level ip m' = ip_level ip m - 1 \<and>
      ip_stamp ip m' = ip_stamp ip m \<and> ip_seeded ip m' = ip_seeded ip m"
    using d nd k
    by (auto simp: rate_limit_allows_def ip_defs Let_def unat_pos unat_pred split: if_splits)
next
  fix k :: kernel and m
  assume "ip_seeded ip m" "ip_due ip k m"
  then show "ip_stamp ip m + unat RATE_REFILL_NS \<le> unat (ktime_rate k)"
    by (auto simp: ip_defs saturating_sub_ge RATE_REFILL_NS_def split: option.splits)
qed

section \<open>Frames in sequence\<close>

definition xdp_run :: "(kernel \<times> xdp_ctx) list \<Rightarrow> xdp_maps \<Rightarrow> xdp_maps" where
  "xdp_run frames m = fold (\<lambda>(k, c) m. snd (ghostbro_xdp k c m)) frames m"

lemma ghostbro_xdp_snd: "snd (ghostbro_xdp k c m) = snd (try_ghostbro_xdp k c m)"
  by (auto simp: ghostbro_xdp_def split: prod.splits sum.splits xdp_error.splits)

lemma is_allowed_maps:
  "is_allowed k ip m = (b, m') \<Longrightarrow>
   CONFIG m' = CONFIG m \<and> GLOBAL_RATE m' = GLOBAL_RATE m \<and> SPA_RING m' = SPA_RING m \<and> RATE_LIMIT m' = RATE_LIMIT m"
  by (auto simp: is_allowed_def Let_def split: option.splits if_splits)

lemma rate_limit_maps:
  "rate_limit_allows k ip cfg m = (b, m') \<Longrightarrow>
   CONFIG m' = CONFIG m \<and> GLOBAL_RATE m' = GLOBAL_RATE m \<and> SPA_RING m' = SPA_RING m \<and> ALLOW_MAP m' = ALLOW_MAP m"
  by (auto simp: rate_limit_allows_def Let_def split: option.splits if_splits)

lemma global_rate_maps:
  "global_rate_limit_allows k cfg m = (b, m') \<Longrightarrow>
   CONFIG m' = CONFIG m \<and> SPA_RING m' = SPA_RING m \<and> ALLOW_MAP m' = ALLOW_MAP m \<and> RATE_LIMIT m' = RATE_LIMIT m"
  by (auto simp: global_rate_limit_allows_def Let_def split: option.splits if_splits)

lemma emit_maps:
  "CONFIG (emit_spa_event k c po pl ip sp m) = CONFIG m"
  "GLOBAL_RATE (emit_spa_event k c po pl ip sp m) = GLOBAL_RATE m"
  "ALLOW_MAP (emit_spa_event k c po pl ip sp m) = ALLOW_MAP m"
  "length (SPA_RING (emit_spa_event k c po pl ip sp m)) \<le> length (SPA_RING m) + 1"
  by (auto simp: emit_spa_event_def Let_def split: option.splits)

abbreviation (input) global_credit :: "u32 \<Rightarrow> nat \<Rightarrow> xdp_maps \<Rightarrow> nat" where
  "global_credit cfg t0 m \<equiv> global_bucket.credit cfg t0 m"

lemma global_credit_cong: "GLOBAL_RATE m = GLOBAL_RATE m' \<Longrightarrow> global_credit cfg t0 m = global_credit cfg t0 m'"
  by (simp add: global_bucket.credit_def global_defs)

lemma admit_candidate_credit:
  assumes "0 < ktime_global k" and "t0 \<le> unat (ktime_global k)"
    and "unat (ktime_global k) < t0 + unat RATE_REFILL_NS"
    and m': "m' = admit_candidate k c po pl ip sp cfg m"
  shows "CONFIG m' = CONFIG m \<and> ALLOW_MAP m' = ALLOW_MAP m \<and>
    length (SPA_RING m') + global_credit cfg t0 m' \<le> length (SPA_RING m) + global_credit cfg t0 m"
proof -
  obtain b1 m1 where r: "rate_limit_allows k ip cfg m = (b1, m1)" by (cases "rate_limit_allows k ip cfg m")
  obtain b2 m2 where g: "global_rate_limit_allows k cfg m1 = (b2, m2)" by (cases "global_rate_limit_allows k cfg m1")
  let ?m3 = "emit_spa_event k c po pl ip sp m2"
  note r' = rate_limit_maps [OF r] and g' = global_rate_maps [OF g]
  have c1: "global_credit cfg t0 m1 = global_credit cfg t0 m"
    using r' by (intro global_credit_cong) simp
  have c2: "global_credit cfg t0 m2 + (if b2 then 1 else 0) \<le> global_credit cfg t0 m1"
    using global_bucket.draw_credit [OF assms(1-3) g] .
  have c3: "global_credit cfg t0 ?m3 = global_credit cfg t0 m2"
    by (intro global_credit_cong) (simp add: emit_maps)
  have "m' = (if \<not> is_spa_length pl then m else if \<not> b1 then m1 else if \<not> b2 then m2 else ?m3)"
    by (simp add: m' admit_candidate_def r g)
  then show ?thesis
    using r' g' c1 c2 c3 emit_maps [of k c po pl ip sp m2] by auto
qed

lemma unat_transport: "unat (word_of_nat (transport p) :: u64) = transport p" "transport p \<le> 74"
proof -
  show le: "transport p \<le> 74"
    using header_len_bound [of p] by (simp add: transport_def)
  then show "unat (word_of_nat (transport p) :: u64) = transport p"
    by (simp add: unat_of_nat)
qed

lemma ghostbro_xdp_credit:
  assumes wf: "xdp_wf c" and "0 < ktime_global k" and "t0 \<le> unat (ktime_global k)"
    and "unat (ktime_global k) < t0 + unat RATE_REFILL_NS"
    and "rate_limit_per_minute (load_config m) = cfg"
    and m': "m' = snd (ghostbro_xdp k c m)"
  shows "CONFIG m' = CONFIG m \<and>
    length (SPA_RING m') + global_credit cfg t0 m' \<le> length (SPA_RING m) + global_credit cfg t0 m"
proof -
  let ?p = "ctx_pkt c"
  have off: "unat (word_of_nat (transport ?p) :: u64) \<le> 74"
    using unat_transport [of ?p] by simp
  obtain b m1 where ia: "is_allowed k (source_ip ?p) m = (b, m1)" by (cases "is_allowed k (source_ip ?p) m")
  have "global_credit cfg t0 m1 = global_credit cfg t0 m"
    using is_allowed_maps [OF ia] by (intro global_credit_cong) simp
  then show ?thesis
    using is_allowed_maps [OF ia] admit_candidate_credit [OF assms(2-4) refl] assms(5)
    unfolding m' ghostbro_xdp_snd try_ghostbro_xdp_eq [OF wf] Let_def
    by (auto simp: handle_tcp_eq [OF wf off] handle_udp_eq [OF wf off] ia)
qed

lemma xdp_run_credit:
  assumes "\<forall>(k, c) \<in> set frames. xdp_wf c \<and> 0 < ktime_global k \<and> t0 \<le> unat (ktime_global k) \<and>
      unat (ktime_global k) < t0 + unat RATE_REFILL_NS"
    and "rate_limit_per_minute (load_config m) = cfg"
  shows "length (SPA_RING (xdp_run frames m)) + global_credit cfg t0 (xdp_run frames m) \<le>
    length (SPA_RING m) + global_credit cfg t0 m"
  using assms
proof (induction frames arbitrary: m)
  case (Cons f frames)
  obtain k c where f: "f = (k, c)" by (cases f)
  let ?m' = "snd (ghostbro_xdp k c m)"
  have step: "CONFIG ?m' = CONFIG m"
    "length (SPA_RING ?m') + global_credit cfg t0 ?m' \<le> length (SPA_RING m) + global_credit cfg t0 m"
    using ghostbro_xdp_credit [of c k t0 m cfg ?m'] Cons.prems by (auto simp: f)
  have "rate_limit_per_minute (load_config ?m') = cfg"
    using Cons.prems(2) step(1) by (simp add: load_config_def)
  then have "length (SPA_RING (xdp_run frames ?m')) + global_credit cfg t0 (xdp_run frames ?m') \<le>
    length (SPA_RING ?m') + global_credit cfg t0 ?m'"
    using Cons.prems(1) by (intro Cons.IH) simp
  with step(2) show ?case by (simp add: xdp_run_def f)
qed (simp add: xdp_run_def)

fun ip_admissions :: "u32 \<Rightarrow> u32 \<Rightarrow> kernel list \<Rightarrow> xdp_maps \<Rightarrow> nat" where
  "ip_admissions ip cfg [] m = 0"
| "ip_admissions ip cfg (k # ks) m =
     (case rate_limit_allows k ip cfg m of (b, m') \<Rightarrow> (if b then 1 else 0) + ip_admissions ip cfg ks m')"

lemma ip_admissions_credit:
  assumes "\<forall>k \<in> set ks. lru_insert k = hm_insert \<and> t0 \<le> unat (ktime_rate k) \<and>
      unat (ktime_rate k) < t0 + unat RATE_REFILL_NS"
  shows "ip_admissions ip cfg ks m \<le> ip_bucket.credit ip cfg t0 m"
  using assms
proof (induction ks arbitrary: m)
  case (Cons k ks)
  obtain b m' where d: "rate_limit_allows k ip cfg m = (b, m')" by (cases "rate_limit_allows k ip cfg m")
  have "ip_bucket.credit ip cfg t0 m' + (if b then 1 else 0) \<le> ip_bucket.credit ip cfg t0 m"
    using ip_bucket.draw_credit [OF _ _ _ d] Cons.prems by simp
  moreover have "ip_admissions ip cfg ks m' \<le> ip_bucket.credit ip cfg t0 m'"
    using Cons.prems by (intro Cons.IH) simp
  ultimately show ?case by (simp add: d)
qed simp

section \<open>Emitted events\<close>

text \<open>What \<open>bpf_xdp_load_bytes\<close> promises: on success exactly the bytes asked for, all in the frame.\<close>

definition load_bytes_ok :: "kernel \<Rightarrow> bool" where
  "load_bytes_ok k \<longleftrightarrow> (\<forall>p off len bs. xdp_load_bytes k p off len = Some bs \<longrightarrow>
     unat off + unat len \<le> length p \<and> bs = subslice p (unat off) (unat off + unat len))"

definition event_size :: nat where
  "event_size = 8 + BPF_SPA_MAX_LEN"

definition event_bytes :: "u32 \<Rightarrow> u16 \<Rightarrow> bytes \<Rightarrow> bytes \<Rightarrow> bytes" where
  "event_bytes ip port payload rest =
     rev (to_be_bytes32 ip) @ rev (to_be_bytes16 port) @ rev (to_be_bytes16 (word_of_nat (length payload)))
     @ payload @ rest"

lemma list_of_two: "length xs = 2 \<Longrightarrow> \<exists>a b. xs = [a, b]"
  by (auto simp: numeral_eq_Suc length_Suc_conv)

lemma list_of_four: "length xs = 4 \<Longrightarrow> \<exists>a b c d. xs = [a, b, c, d]"
  by (auto simp: numeral_eq_Suc length_Suc_conv)

lemma list_of_eight: "8 \<le> length xs \<Longrightarrow> \<exists>a b c d e f g h rest. xs = a # b # c # d # e # f # g # h # rest"
  by (auto simp: numeral_eq_Suc Suc_le_length_iff)

lemma write_header:
  assumes "8 \<le> length r"
  shows "write_u16_ne (write_u16_ne (write_u32_ne r 0 a) 4 b) 6 d =
         rev (to_be_bytes32 a) @ rev (to_be_bytes16 b) @ rev (to_be_bytes16 d) @ drop 8 r"
proof -
  obtain a0 a1 a2 a3 where a: "rev (to_be_bytes32 a) = [a0, a1, a2, a3]"
    using list_of_four [of "rev (to_be_bytes32 a)"] by auto
  obtain b0 b1 where b: "rev (to_be_bytes16 b) = [b0, b1]"
    using list_of_two [of "rev (to_be_bytes16 b)"] by auto
  obtain d0 d1 where d: "rev (to_be_bytes16 d) = [d0, d1]"
    using list_of_two [of "rev (to_be_bytes16 d)"] by auto
  obtain r0 r1 r2 r3 r4 r5 r6 r7 rest where r: "r = r0 # r1 # r2 # r3 # r4 # r5 # r6 # r7 # rest"
    using list_of_eight [OF assms] by blast
  show ?thesis
    unfolding write_u16_ne_def write_u32_ne_def write_u8_def Let_def a b d r
    by (simp add: numeral_eq_Suc)
qed

lemma emit_spa_event_ring:
  assumes "load_bytes_ok k" and "ring_reserve k = Some r" and "length r = event_size"
    and "is_spa_length pl" and "unat po + unat pl < 2 ^ 32"
    and "xdp_load_bytes k (ctx_pkt c) (ucast po) (ucast pl) \<noteq> None"
  shows "\<exists>rest. SPA_RING (emit_spa_event k c po pl ip sp m) =
    SPA_RING m @ [event_bytes ip sp (subslice (ctx_pkt c) (unat po) (unat po + unat pl)) rest] \<and>
    unat pl + length rest = BPF_SPA_MAX_LEN \<and> unat po + unat pl \<le> length (ctx_pkt c)"
proof -
  have pl: "143 \<le> unat pl" "unat pl \<le> 176"
    using assms(4) by (simp_all add: is_spa_length_def BPF_SPA_MIN_LEN_def BPF_SPA_MAX_LEN_def)
  have u: "unat (ucast po :: u32) = unat po" "unat (ucast pl :: u32) = unat pl"
    using assms(5) by (simp_all add: unsigned_ucast_eq take_bit_nat_eq_self_iff)
  obtain bs where bs: "xdp_load_bytes k (ctx_pkt c) (ucast po) (ucast pl) = Some bs"
    using assms(6) by blast
  then have b: "unat po + unat pl \<le> length (ctx_pkt c)" "bs = subslice (ctx_pkt c) (unat po) (unat po + unat pl)"
    using assms(1) u unfolding load_bytes_ok_def by metis+
  have len: "length bs = unat pl" using b by simp
  have w: "ucast pl = (word_of_nat (length bs) :: u16)"
    by (simp add: len)
  let ?ev = "write_u16_ne (write_u16_ne (write_u32_ne r 0 ip) 4 sp) 6 (ucast pl)"
  have "8 \<le> length r" using assms(3) by (simp add: event_size_def)
  note hdr = write_header [OF this, of ip sp "ucast pl"]
  have "take 8 ?ev @ bs @ drop (8 + unat pl) ?ev = event_bytes ip sp bs (drop (8 + unat pl) r)"
    unfolding hdr event_bytes_def w [symmetric] by (simp add: add.commute)
  moreover have "\<not> 176 < unat pl" "\<not> unat pl < 143" using pl by simp_all
  ultimately have "SPA_RING (emit_spa_event k c po pl ip sp m) =
      SPA_RING m @ [event_bytes ip sp bs (drop (8 + unat pl) r)]"
    unfolding emit_spa_event_def Let_def BPF_SPA_MIN_LEN_def BPF_SPA_MAX_LEN_def
    by (simp only: if_False assms(2) bs option.case) simp
  then show ?thesis
    using b(1) assms(3) pl by (intro exI [of _ "drop (8 + unat pl) r"])
      (simp add: b(2) event_size_def BPF_SPA_MAX_LEN_def)
qed


section \<open>Properties\<close>

definition demo_kernel :: "u64 \<Rightarrow> kernel" where
  "demo_kernel now =
     \<lparr>ktime_allow = now, ktime_rate = now, ktime_global = now, lru_insert = hm_insert,
      ring_reserve = Some (replicate 184 0),
      xdp_load_bytes = (\<lambda>p off len. if unat off + unat len \<le> length p
         then Some (subslice p (unat off) (unat off + unat len)) else None)\<rparr>"

text \<open>An Ethernet and IPv4 frame from 0.0.0.7 with the given protocol and transport bytes.\<close>

definition demo_frame :: "u8 \<Rightarrow> bytes \<Rightarrow> bytes" where
  "demo_frame proto rest =
     replicate 12 0 @ [8, 0] @ [0x45] @ replicate 8 0 @ [proto] @ [0, 0] @ [0, 0, 0, 7] @ [10, 0, 0, 2] @ rest"

definition demo_ctx :: "bytes \<Rightarrow> xdp_ctx" where
  "demo_ctx p = \<lparr>ctx_data = 4096, ctx_pkt = p\<rparr>"

definition demo_maps :: xdp_maps where
  "demo_maps =
     \<lparr>CONFIG = Some \<lparr>spa_port = 53, proxy_port = 8443, rate_limit_per_minute = 5, spa_mode = 1\<rparr>,
      ALLOW_MAP = hm_empty, RATE_LIMIT = hm_empty,
      GLOBAL_RATE = Some \<lparr>tokens = 0, last_ns = 0\<rparr>, SPA_RING = []\<rparr>"

text \<open>
  C19. The filter never reads outside the frame and never fails: on every frame, however short or
  malformed, it returns pass or drop, and it passes the frames it cannot parse.
\<close>

theorem xdp_memory_safe:
  assumes "xdp_wf c"
  shows "\<exists>a m'. ghostbro_xdp k c m = (Inr a, m') \<and> (\<not> ipv4_frame (ctx_pkt c) \<longrightarrow> a = XDP_PASS \<and> m' = m)"
proof -
  let ?p = "ctx_pkt c"
  have off: "unat (word_of_nat (transport ?p) :: u64) \<le> 74"
    using unat_transport [of ?p] by simp
  show ?thesis
    by (simp add: ghostbro_xdp_def try_ghostbro_xdp_eq [OF assms] Let_def handle_tcp_eq [OF assms off]
        handle_udp_eq [OF assms off] ipv4_frame_def split: prod.splits)
qed

theorem xdp_memory_safe_witness:
  "\<exists>a m'. ghostbro_xdp (demo_kernel 1) (demo_ctx [1, 2, 3]) demo_maps = (Inr a, m')"
proof -
  have "xdp_wf (demo_ctx [1, 2, 3])" by (simp add: xdp_wf_def demo_ctx_def)
  from xdp_memory_safe [OF this] show ?thesis by blast
qed

text \<open>A whole TCP header for the proxy port: the verdict is that of the allow map.\<close>

lemma xdp_tcp_proxy:
  assumes "xdp_wf c" and "ctx_pkt c = p" and "ipv4_frame p" and "p ! 23 = IP_PROTO_TCP"
    and "transport p + 20 \<le> length p"
    and "be16 p (transport p + 2) = proxy_port (load_config m)"
  shows "ghostbro_xdp k c m =
    (case hm_get (ALLOW_MAP m) (source_ip p) of
       None \<Rightarrow> (Inr XDP_DROP, m)
     | Some e \<Rightarrow> if ktime_allow k < expiry_ns e then (Inr XDP_PASS, m)
                 else (Inr XDP_DROP, m\<lparr>ALLOW_MAP := hm_remove (source_ip p) (ALLOW_MAP m)\<rparr>))"
proof -
  have off: "unat (word_of_nat (transport p) :: u64) \<le> 74"
    using unat_transport [of p] by simp
  show ?thesis
    using assms(2-) unat_transport(1) [of p]
    by (auto simp: ghostbro_xdp_def try_ghostbro_xdp_eq [OF assms(1)] handle_tcp_eq [OF assms(1) off]
        ipv4_frame_def is_allowed_def Let_def not_le split: option.splits)
qed

text \<open>
  C3. Default deny on the proxy port: an IPv4 frame with a whole TCP header for the proxy port
  passes exactly when its source address has an allow entry that has not expired, and is dropped
  otherwise; an expired entry is removed, nothing else changes.
\<close>

theorem proxy_port_default_deny:
  assumes "xdp_wf c" and "ctx_pkt c = p" and "ipv4_frame p" and "p ! 23 = IP_PROTO_TCP"
    and "transport p + 20 \<le> length p"
    and "be16 p (transport p + 2) = proxy_port (load_config m)"
  shows "ghostbro_xdp k c m =
    (case hm_get (ALLOW_MAP m) (source_ip p) of
       None \<Rightarrow> (Inr XDP_DROP, m)
     | Some e \<Rightarrow> if ktime_allow k < expiry_ns e then (Inr XDP_PASS, m)
                 else (Inr XDP_DROP, m\<lparr>ALLOW_MAP := hm_remove (source_ip p) (ALLOW_MAP m)\<rparr>))"
  using assms by (rule xdp_tcp_proxy)

theorem proxy_port_default_deny_witness:
  "fst (ghostbro_xdp (demo_kernel 1) (demo_ctx (demo_frame 6 ([0, 99, 0x20, 0xFB] @ replicate 16 0)))
     demo_maps) = Inr XDP_DROP"
proof -
  let ?p = "demo_frame 6 ([0, 99, 0x20, 0xFB] @ replicate 16 0)"
  have "xdp_wf (demo_ctx ?p)" by (simp add: xdp_wf_def demo_ctx_def demo_frame_def)
  moreover have "ipv4_frame ?p" "?p ! 23 = IP_PROTO_TCP" "transport ?p + 20 \<le> length ?p"
    "be16 ?p (transport ?p + 2) = proxy_port (load_config demo_maps)"
    by code_simp+
  ultimately have "ghostbro_xdp (demo_kernel 1) (demo_ctx ?p) demo_maps = (Inr XDP_DROP, demo_maps)"
    using proxy_port_default_deny [of "demo_ctx ?p" ?p demo_maps "demo_kernel 1"]
    by (simp add: demo_ctx_def) (simp add: demo_maps_def)
  then show ?thesis by simp
qed

text \<open>
  The deny has a gap: an IPv4 TCP frame that ends before 20 bytes of TCP header passes
  whatever its ports and whatever the allow map holds, so a first IP fragment of 8 bytes that
  already carries the proxy port reaches the host's reassembly.
\<close>

theorem short_tcp_frame_passes:
  assumes "xdp_wf c" and "ctx_pkt c = p" and "ipv4_frame p" and "p ! 23 = IP_PROTO_TCP"
    and "length p < transport p + 20"
  shows "ghostbro_xdp k c m = (Inr XDP_PASS, m)"
proof -
  have off: "unat (word_of_nat (transport p) :: u64) \<le> 74"
    using unat_transport [of p] by simp
  show ?thesis
    using assms(2-) unat_transport(1) [of p]
    by (auto simp: ghostbro_xdp_def try_ghostbro_xdp_eq [OF assms(1)] handle_tcp_eq [OF assms(1) off]
        ipv4_frame_def Let_def)
qed

theorem short_tcp_frame_passes_witness:
  "be16 (demo_frame 6 [0, 99, 0x20, 0xFB, 0, 0, 0, 0]) 36 = 8443 \<and>
   fst (ghostbro_xdp (demo_kernel 1) (demo_ctx (demo_frame 6 [0, 99, 0x20, 0xFB, 0, 0, 0, 0])) demo_maps) =
     Inr XDP_PASS"
proof -
  let ?p = "demo_frame 6 [0, 99, 0x20, 0xFB, 0, 0, 0, 0]"
  have wf: "xdp_wf (demo_ctx ?p)" by (simp add: xdp_wf_def demo_ctx_def demo_frame_def)
  have "ipv4_frame ?p" "?p ! 23 = IP_PROTO_TCP" "length ?p < transport ?p + 20"
    by code_simp+
  then have "ghostbro_xdp (demo_kernel 1) (demo_ctx ?p) demo_maps = (Inr XDP_PASS, demo_maps)"
    using short_tcp_frame_passes [OF wf] by (simp add: demo_ctx_def)
  moreover have "be16 ?p 36 = 8443" by code_simp
  ultimately show ?thesis by simp
qed

text \<open>
  The SPA port stays silent: with UDP knocking on, every datagram with a whole UDP header for
  the SPA port is dropped, so no answer can come from the host; the allow map never changes, and
  the ring grows only for a datagram whose payload lies in the frame and has a sealed packet's
  length.
\<close>

theorem spa_port_silent:
  assumes "xdp_wf c" and "ctx_pkt c = p" and "ipv4_frame p" and "p ! 23 = IP_PROTO_UDP"
    and "spa_mode (load_config m) AND SPA_MODE_UDP \<noteq> 0" and "udp_to p (transport p) (spa_port (load_config m))"
    and "ghostbro_xdp k c m = (r, m')"
  shows "r = Inr XDP_DROP \<and> ALLOW_MAP m' = ALLOW_MAP m \<and> CONFIG m' = CONFIG m \<and>
    (SPA_RING m' \<noteq> SPA_RING m \<longrightarrow> udp_complete p (transport p) \<and>
       BPF_SPA_MIN_LEN + 8 \<le> unat (be16 p (transport p + 4)) \<and>
       unat (be16 p (transport p + 4)) \<le> BPF_SPA_MAX_LEN + 8)"
proof -
  let ?off = "word_of_nat (transport p) :: u64"
  let ?len = "ucast (be16 p (transport p + 4)) - 8 :: u64"
  have off: "unat ?off \<le> 74" and tr: "unat ?off = transport p"
    using unat_transport [of p] by simp_all
  have tcp: "p ! 23 \<noteq> IP_PROTO_TCP"
    using assms(4) by (simp add: IP_PROTO_UDP_def IP_PROTO_TCP_def)
  have eq: "ghostbro_xdp k c m = (Inr XDP_DROP,
      if udp_complete p (transport p)
      then admit_candidate k c (?off + 8) ?len (source_ip p) (be16 p (transport p))
             (rate_limit_per_minute (load_config m)) m
      else m)"
    using assms(2-6) tcp tr
    by (auto simp: ghostbro_xdp_def try_ghostbro_xdp_eq [OF assms(1)] handle_udp_eq [OF assms(1) off]
        ipv4_frame_def Let_def)
  have up: "unat (ucast (be16 p (transport p + 4)) :: u64) = unat (be16 p (transport p + 4))"
    by (rule unat_ucast_up) simp
  have len: "unat ?len = unat (be16 p (transport p + 4)) - 8" if "udp_complete p (transport p)"
    using that up by (simp add: udp_complete_def unat_minus_le word_le_nat_alt)
  have allow: "ALLOW_MAP (admit_candidate k c po pl ip sp cfg m) = ALLOW_MAP m \<and>
      CONFIG (admit_candidate k c po pl ip sp cfg m) = CONFIG m \<and>
      (\<not> is_spa_length pl \<longrightarrow> SPA_RING (admit_candidate k c po pl ip sp cfg m) = SPA_RING m)" for po pl ip sp cfg
    by (auto simp: admit_candidate_def emit_maps dest!: rate_limit_maps global_rate_maps
        split: prod.splits bool.splits)
  show ?thesis
  proof (cases "udp_complete p (transport p)")
    case True
    have "is_spa_length ?len \<Longrightarrow> BPF_SPA_MIN_LEN + 8 \<le> unat (be16 p (transport p + 4)) \<and>
       unat (be16 p (transport p + 4)) \<le> BPF_SPA_MAX_LEN + 8"
      using len [OF True] by (auto simp: is_spa_length_def BPF_SPA_MIN_LEN_def BPF_SPA_MAX_LEN_def)
    moreover have "r = Inr XDP_DROP"
      and "m' = admit_candidate k c (?off + 8) ?len (source_ip p) (be16 p (transport p))
             (rate_limit_per_minute (load_config m)) m"
      using True assms(7) by (simp_all add: eq)
    ultimately show ?thesis using True allow by metis
  next
    case False
    with assms(7) show ?thesis by (auto simp: eq)
  qed
qed

theorem spa_port_silent_witness:
  "fst (ghostbro_xdp (demo_kernel 1) (demo_ctx (demo_frame 17 [0, 99, 0, 53, 0, 8, 0, 0])) demo_maps) =
   Inr XDP_DROP"
proof -
  let ?p = "demo_frame 17 [0, 99, 0, 53, 0, 8, 0, 0]"
  obtain r m' where r: "ghostbro_xdp (demo_kernel 1) (demo_ctx ?p) demo_maps = (r, m')"
    by (cases "ghostbro_xdp (demo_kernel 1) (demo_ctx ?p) demo_maps")
  have wf: "xdp_wf (demo_ctx ?p)" by (simp add: xdp_wf_def demo_ctx_def demo_frame_def)
  have pkt: "ctx_pkt (demo_ctx ?p) = ?p" by (simp add: demo_ctx_def)
  have "ipv4_frame ?p" "?p ! 23 = IP_PROTO_UDP" "spa_mode (load_config demo_maps) AND SPA_MODE_UDP \<noteq> 0"
    "udp_to ?p (transport ?p) (spa_port (load_config demo_maps))"
    by code_simp+
  from spa_port_silent [OF wf pkt this r] r show ?thesis by simp
qed



text \<open>
  Per-address limit: while the kernel keeps an address's bucket, calls for one address within
  less than one refill window are admitted at most as often as the tokens left plus the
  configured limit, and at most the limit when the address is new; a new address's first call is
  admitted.
\<close>

theorem per_address_limit:
  assumes "\<forall>k \<in> set ks. lru_insert k = hm_insert \<and> t0 \<le> unat (ktime_rate k) \<and>
      unat (ktime_rate k) < t0 + unat RATE_REFILL_NS"
  shows "ip_admissions ip cfg ks m \<le>
      (case hm_get (RATE_LIMIT m) ip of None \<Rightarrow> 0 | Some st \<Rightarrow> unat (tokens st)) + unat (per_ip_limit cfg) \<and>
    (\<forall>k. lru_insert k = hm_insert \<longrightarrow> hm_get (RATE_LIMIT m) ip = None \<longrightarrow> fst (rate_limit_allows k ip cfg m))"
proof
  show "ip_admissions ip cfg ks m \<le>
      (case hm_get (RATE_LIMIT m) ip of None \<Rightarrow> 0 | Some st \<Rightarrow> unat (tokens st)) + unat (per_ip_limit cfg)"
    using ip_admissions_credit [OF assms, of ip cfg m] ip_bucket.credit_bound [of ip cfg t0 m]
    unfolding ip_level_def by linarith
  show "\<forall>k. lru_insert k = hm_insert \<longrightarrow> hm_get (RATE_LIMIT m) ip = None \<longrightarrow> fst (rate_limit_allows k ip cfg m)"
    using ip_bucket.first_draw_admitted [of _ ip m cfg] per_ip_limit_pos [of cfg]
    by (simp add: ip_due_def unat_pos)
qed

theorem per_address_limit_witness:
  "ip_admissions 7 5 (replicate 20 (demo_kernel 3)) demo_maps \<le> 5"
  using per_address_limit [of "replicate 20 (demo_kernel 3)" 3 7 5 demo_maps]
  by (simp add: demo_kernel_def demo_maps_def per_ip_limit_def RATE_REFILL_NS_def)

end
