(* ===== verification/Rust_Str.thy ===== *)
theory Rust_Str
  imports Ghost_Prelude
begin

text \<open>
  The parts of Rust's \<open>str\<close> the sources use. A \<open>String\<close> is its UTF-8 byte sequence, held as a
  HOL \<open>string\<close> (a list of 8-bit characters), so \<open>len\<close>, \<open>find\<close> and slicing count bytes as
  they do in Rust; \<open>chars\<close> splits the bytes into characters by their lead byte.
\<close>

section \<open>Bytes and characters\<close>

definition as_bytes :: "string \<Rightarrow> bytes" where
  "as_bytes s = map (\<lambda>c. word_of_nat (of_char c)) s"

definition str_of_bytes :: "bytes \<Rightarrow> string" where
  "str_of_bytes bs = map (\<lambda>b. char_of (unat b)) bs"

lemma length_as_bytes [simp, len_simps]: "length (as_bytes s) = length s"
  by (simp add: as_bytes_def)

lemma length_str_of_bytes [simp, len_simps]: "length (str_of_bytes bs) = length bs"
  by (simp add: str_of_bytes_def)

lemma of_char_less: "(of_char c :: nat) < 256"
proof -
  have "of_char c \<in> {0::nat..<256}"
    using range_nat_of_char by blast
  then show ?thesis by simp
qed

lemma str_of_as_bytes [simp]: "str_of_bytes (as_bytes s) = s"
proof -
  have "char_of (unat (word_of_nat (of_char c) :: u8)) = c" for c
    using of_char_less [of c] by (simp add: unat_of_nat)
  then show ?thesis
    by (simp add: str_of_bytes_def as_bytes_def comp_def map_idI)
qed

text \<open>The lead byte of a UTF-8 sequence fixes its width.\<close>

definition utf8_width :: "nat \<Rightarrow> nat" where
  "utf8_width b = (if b < 128 then 1 else if b < 224 then 2 else if b < 240 then 3 else 4)"

function chars :: "string \<Rightarrow> string list" where
  "chars [] = []"
| "chars (c # cs) =
     (let w = utf8_width (of_char c) in (c # take (w - 1) cs) # chars (drop (w - 1) cs))"
  by pat_completeness auto
termination
  by (relation "measure length") auto

lemma concat_chars [simp]: "concat (chars s) = s"
  by (induction s rule: chars.induct) (auto simp: Let_def)

text \<open>\<open>std::str::from_utf8\<close>: the well-formed sequences of the Unicode standard.\<close>

definition cont_byte :: "nat \<Rightarrow> bool" where
  "cont_byte b \<longleftrightarrow> 128 \<le> b \<and> b < 192"

fun utf8_valid :: "nat list \<Rightarrow> bool" where
  "utf8_valid [] = True"
| "utf8_valid (a # bs) =
     (if a < 128 then utf8_valid bs
      else case bs of
        [] \<Rightarrow> False
      | b # bs1 \<Rightarrow>
          if 194 \<le> a \<and> a < 224 then cont_byte b \<and> utf8_valid bs1
          else case bs1 of
            [] \<Rightarrow> False
          | c # bs2 \<Rightarrow>
              if 224 \<le> a \<and> a < 240
              then cont_byte b \<and> cont_byte c \<and> (a = 224 \<longrightarrow> 160 \<le> b) \<and> (a = 237 \<longrightarrow> b < 160)
                   \<and> utf8_valid bs2
              else case bs2 of
                [] \<Rightarrow> False
              | d # bs3 \<Rightarrow>
                  240 \<le> a \<and> a < 245 \<and> cont_byte b \<and> cont_byte c \<and> cont_byte d
                  \<and> (a = 240 \<longrightarrow> 144 \<le> b) \<and> (a = 244 \<longrightarrow> b < 144) \<and> utf8_valid bs3)"

definition from_utf8 :: "bytes \<Rightarrow> string option" where
  "from_utf8 bs = (if utf8_valid (map unat bs) then Some (str_of_bytes bs) else None)"

definition valid_str :: "string \<Rightarrow> bool" where
  "valid_str s \<longleftrightarrow> utf8_valid (map of_char s)"

lemma from_utf8_as_bytes: "valid_str s \<Longrightarrow> from_utf8 (as_bytes s) = Some s"
proof -
  have "map unat (as_bytes s) = map of_char s"
    using of_char_less by (simp add: as_bytes_def unat_of_nat)
  then show "valid_str s \<Longrightarrow> from_utf8 (as_bytes s) = Some s"
    by (simp add: from_utf8_def valid_str_def)
qed

lemma utf8_valid_ascii: "(\<forall>b \<in> set bs. b < 128) \<Longrightarrow> utf8_valid bs"
  by (induction bs) auto

text \<open>The scalar value of one UTF-8 sequence, and the sequence of one scalar value.\<close>

definition utf8_decode :: "string \<Rightarrow> nat" where
  "utf8_decode cs =
     (case map of_char cs of
        [a] \<Rightarrow> a
      | [a, b] \<Rightarrow> (a mod 32) * 64 + b mod 64
      | [a, b, c] \<Rightarrow> (a mod 16) * 4096 + (b mod 64) * 64 + c mod 64
      | [a, b, c, d] \<Rightarrow> (a mod 8) * 262144 + (b mod 64) * 4096 + (c mod 64) * 64 + d mod 64
      | _ \<Rightarrow> 65533)"

definition utf8_encode :: "nat \<Rightarrow> string" where
  "utf8_encode n =
     map char_of
      (if n < 128 then [n]
       else if n < 2048 then [192 + n div 64, 128 + n mod 64]
       else if n < 65536 then [224 + n div 4096, 128 + n div 64 mod 64, 128 + n mod 64]
       else [240 + n div 262144, 128 + n div 4096 mod 64, 128 + n div 64 mod 64, 128 + n mod 64])"

section \<open>Whitespace and case\<close>

text \<open>\<open>char::is_whitespace\<close>: the Unicode property \<open>White_Space\<close>.\<close>

definition ws_scalar :: "nat \<Rightarrow> bool" where
  "ws_scalar n \<longleftrightarrow> (9 \<le> n \<and> n \<le> 13) \<or> n = 32 \<or> n = 133 \<or> n = 160 \<or> n = 5760 \<or>
     (8192 \<le> n \<and> n \<le> 8202) \<or> n = 8232 \<or> n = 8233 \<or> n = 8239 \<or> n = 8287 \<or> n = 12288"

definition is_whitespace :: "string \<Rightarrow> bool" where
  "is_whitespace ch = ws_scalar (utf8_decode ch)"

definition trim_start :: "string \<Rightarrow> string" where
  "trim_start s = concat (dropWhile is_whitespace (chars s))"

definition trim_end :: "string \<Rightarrow> string" where
  "trim_end s = concat (rev (dropWhile is_whitespace (rev (chars s))))"

definition trim :: "string \<Rightarrow> string" where
  "trim s = concat (rev (dropWhile is_whitespace (rev (dropWhile is_whitespace (chars s)))))"

definition is_ascii_whitespace :: "char \<Rightarrow> bool" where
  "is_ascii_whitespace c \<longleftrightarrow> of_char c \<in> {9, 10, 12, 13, 32::nat}"

definition is_ascii_digit :: "char \<Rightarrow> bool" where
  "is_ascii_digit c \<longleftrightarrow> 48 \<le> (of_char c :: nat) \<and> of_char c \<le> (57::nat)"

definition is_ascii_lower :: "char \<Rightarrow> bool" where
  "is_ascii_lower c \<longleftrightarrow> 97 \<le> (of_char c :: nat) \<and> of_char c \<le> (122::nat)"

definition is_ascii_upper :: "char \<Rightarrow> bool" where
  "is_ascii_upper c \<longleftrightarrow> 65 \<le> (of_char c :: nat) \<and> of_char c \<le> (90::nat)"

definition is_ascii_alphanumeric :: "char \<Rightarrow> bool" where
  "is_ascii_alphanumeric c \<longleftrightarrow> is_ascii_digit c \<or> is_ascii_lower c \<or> is_ascii_upper c"

definition is_ascii_hexdigit :: "char \<Rightarrow> bool" where
  "is_ascii_hexdigit c \<longleftrightarrow> is_ascii_digit c \<or>
     (97 \<le> (of_char c :: nat) \<and> of_char c \<le> (102::nat)) \<or>
     (65 \<le> (of_char c :: nat) \<and> of_char c \<le> (70::nat))"

definition to_ascii_lower :: "char \<Rightarrow> char" where
  "to_ascii_lower c = (if is_ascii_upper c then char_of (of_char c + 32 :: nat) else c)"

definition to_ascii_lowercase :: "string \<Rightarrow> string" where
  "to_ascii_lowercase s = map to_ascii_lower s"

definition eq_ignore_ascii_case :: "string \<Rightarrow> string \<Rightarrow> bool" where
  "eq_ignore_ascii_case s t \<longleftrightarrow> to_ascii_lowercase s = to_ascii_lowercase t"

lemma length_to_ascii_lowercase [simp]: "length (to_ascii_lowercase s) = length s"
  by (simp add: to_ascii_lowercase_def)

section \<open>Searching and splitting\<close>

fun starts_with :: "string \<Rightarrow> string \<Rightarrow> bool" where
  "starts_with s [] = True"
| "starts_with [] (p # ps) = False"
| "starts_with (c # cs) (p # ps) = (c = p \<and> starts_with cs ps)"

definition strip_prefix :: "string \<Rightarrow> string \<Rightarrow> string option" where
  "strip_prefix p s = (if starts_with s p then Some (drop (length p) s) else None)"

text \<open>\<open>str::find\<close>: the offset of the first occurrence.\<close>

fun find_str :: "string \<Rightarrow> string \<Rightarrow> nat option" where
  "find_str [] pat = (if pat = [] then Some 0 else None)"
| "find_str (c # cs) pat =
     (if starts_with (c # cs) pat then Some 0 else map_option Suc (find_str cs pat))"

definition contains_str :: "string \<Rightarrow> string \<Rightarrow> bool" where
  "contains_str s pat \<longleftrightarrow> find_str s pat \<noteq> None"

lemma starts_with_iff: "starts_with s p \<longleftrightarrow> (\<exists>t. s = p @ t)"
  by (induction s p rule: starts_with.induct) auto

lemma starts_with_length: "starts_with s p \<Longrightarrow> length p \<le> length s"
  by (auto simp: starts_with_iff)

lemma find_str_bound: "find_str s pat = Some i \<Longrightarrow> i + length pat \<le> length s"
proof (induction s arbitrary: i)
  case (Cons c cs)
  then show ?case
    using starts_with_length [of "c # cs" pat] by (auto split: if_splits)
qed (simp split: if_splits)

lemma find_str_match: "find_str s pat = Some i \<Longrightarrow> starts_with (drop i s) pat"
  by (induction s arbitrary: i) (auto split: if_splits)

lemma find_str_first: "find_str s pat = Some i \<Longrightarrow> j < i \<Longrightarrow> \<not> starts_with (drop j s) pat"
proof (induction s arbitrary: i j)
  case (Cons c cs)
  then show ?case by (cases j) (auto split: if_splits)
qed (simp split: if_splits)

lemma find_str_None: "find_str s pat = None \<Longrightarrow> j \<le> length s \<Longrightarrow> \<not> starts_with (drop j s) pat"
proof (induction s arbitrary: j)
  case Nil
  then show ?case by (cases pat) (auto split: if_splits)
next
  case (Cons c cs)
  then show ?case by (cases j) (auto split: if_splits)
qed

text \<open>\<open>split_once\<close> at the first, \<open>rsplit_once\<close> at the last occurrence of a character.\<close>

definition split_once :: "char \<Rightarrow> string \<Rightarrow> (string \<times> string) option" where
  "split_once c s =
     (if c \<in> set s then Some (takeWhile (\<lambda>x. x \<noteq> c) s, drop 1 (dropWhile (\<lambda>x. x \<noteq> c) s)) else None)"

definition rsplit_once :: "char \<Rightarrow> string \<Rightarrow> (string \<times> string) option" where
  "rsplit_once c s =
     (case split_once c (rev s) of None \<Rightarrow> None | Some (a, b) \<Rightarrow> Some (rev b, rev a))"

lemma split_once_append: "c \<notin> set a \<Longrightarrow> split_once c (a @ c # b) = Some (a, b)"
proof -
  assume "c \<notin> set a"
  then have "takeWhile (\<lambda>x. x \<noteq> c) (a @ c # b) = a" and "dropWhile (\<lambda>x. x \<noteq> c) (a @ c # b) = c # b"
    by (induction a) auto
  then show ?thesis by (simp add: split_once_def)
qed

lemma split_once_None: "split_once c s = None \<longleftrightarrow> c \<notin> set s"
  by (simp add: split_once_def)

lemma split_once_Some: "split_once c s = Some (a, b) \<Longrightarrow> s = a @ c # b \<and> c \<notin> set a"
proof -
  assume *: "split_once c s = Some (a, b)"
  then have "c \<in> set s" by (simp add: split_once_def split: if_splits)
  then obtain ys zs where "s = ys @ c # zs" and "c \<notin> set ys"
    using split_list_first by fast
  with * show ?thesis by (simp add: split_once_append)
qed

lemma rsplit_once_append: "c \<notin> set b \<Longrightarrow> rsplit_once c (a @ c # b) = Some (a, b)"
  by (simp add: rsplit_once_def split_once_append)

lemma rsplit_once_None: "rsplit_once c s = None \<longleftrightarrow> c \<notin> set s"
  using split_once_None [of c "rev s"] by (auto simp: rsplit_once_def split: option.splits)

lemma rsplit_once_Some: "rsplit_once c s = Some (a, b) \<Longrightarrow> s = a @ c # b \<and> c \<notin> set b"
  by (auto simp: rsplit_once_def split: option.splits dest!: split_once_Some)
    (metis append.assoc append_Cons append_Nil rev.simps(2) rev_append rev_rev_ident)

text \<open>\<open>str::lines\<close>: split at newlines, one trailing carriage return dropped, no last empty line.\<close>

fun split_on :: "char \<Rightarrow> string \<Rightarrow> string list" where
  "split_on c [] = [[]]"
| "split_on c (x # xs) =
     (if x = c then [] # split_on c xs
      else case split_on c xs of [] \<Rightarrow> [[x]] | l # ls \<Rightarrow> (x # l) # ls)"

definition strip_cr :: "string \<Rightarrow> string" where
  "strip_cr l = (if l \<noteq> [] \<and> last l = CHR 0x0D then butlast l else l)"

definition lines :: "string \<Rightarrow> string list" where
  "lines s =
     (let ls = split_on (CHR 0x0A) s
      in case rev ls of [] \<Rightarrow> [] | l # rest \<Rightarrow>
           map strip_cr (rev rest) @ (if l = [] then [] else [l]))"

lemma split_on_nonempty: "split_on c s \<noteq> []"
  by (cases s) (auto split: list.splits)

lemma split_on_append: "c \<notin> set a \<Longrightarrow> split_on c (a @ c # b) = a # split_on c b"
  by (induction a) auto

lemma split_on_none: "c \<notin> set a \<Longrightarrow> split_on c a = [a]"
  by (induction a) auto

lemma split_on_free: "l \<in> set (split_on c s) \<Longrightarrow> c \<notin> set l"
  by (induction s arbitrary: l) (auto split: if_splits list.splits)

text \<open>Joining with a separator.\<close>

fun join :: "string \<Rightarrow> string list \<Rightarrow> string" where
  "join sep [] = []"
| "join sep [x] = x"
| "join sep (x # y # ys) = x @ sep @ join sep (y # ys)"

section \<open>Numbers in strings\<close>

definition digit_char :: "nat \<Rightarrow> char" where
  "digit_char d = char_of (if d < 10 then 48 + d else 87 + d)"

definition digit_value :: "char \<Rightarrow> nat option" where
  "digit_value c =
     (let n = of_char c in
      if 48 \<le> n \<and> n \<le> 57 then Some (n - 48)
      else if 97 \<le> n \<and> n \<le> 122 then Some (n - 87)
      else if 65 \<le> n \<and> n \<le> 90 then Some (n - 55)
      else None)"

text \<open>Digits in a radix, most significant first, with overflow past \<open>bound\<close> an error.\<close>

fun digits_value :: "nat \<Rightarrow> nat \<Rightarrow> nat \<Rightarrow> string \<Rightarrow> nat option" where
  "digits_value radix bound acc [] = Some acc"
| "digits_value radix bound acc (c # cs) =
     (case digit_value c of
        None \<Rightarrow> None
      | Some d \<Rightarrow>
          if d < radix \<and> acc * radix + d < bound
          then digits_value radix bound (acc * radix + d) cs else None)"

text \<open>
  \<open>from_str_radix\<close> of an unsigned type: no empty string, one leading plus sign accepted
  (and not alone), no minus sign.
\<close>

definition from_str_radix :: "nat \<Rightarrow> nat \<Rightarrow> string \<Rightarrow> nat option" where
  "from_str_radix bound radix s =
     (case s of
        [] \<Rightarrow> None
      | c # cs \<Rightarrow>
          if c = CHR ''+'' then (if cs = [] then None else digits_value radix bound 0 cs)
          else digits_value radix bound 0 s)"

text \<open>Decimal rendering, as \<open>Display\<close> prints unsigned integers.\<close>

fun nat_digits :: "nat \<Rightarrow> string" where
  "nat_digits n = (if n < 10 then [digit_char n] else nat_digits (n div 10) @ [digit_char (n mod 10)])"

declare nat_digits.simps [simp del]

lemma digit_value_digit_char: "d < 36 \<Longrightarrow> digit_value (digit_char d) = Some d"
  by (auto simp: digit_value_def digit_char_def Let_def)

lemma digits_value_append:
  "digits_value r b acc (xs @ ys) =
   (case digits_value r b acc xs of None \<Rightarrow> None | Some a \<Rightarrow> digits_value r b a ys)"
  by (induction xs arbitrary: acc) (auto split: option.splits)

lemma digits_value_nat_digits: "n < b \<Longrightarrow> digits_value 10 b 0 (nat_digits n) = Some n"
proof (induction n rule: nat_digits.induct)
  case (1 n)
  show ?case
  proof (cases "n < 10")
    case True
    with 1 show ?thesis
      by (simp add: nat_digits.simps [of n] digit_value_digit_char)
  next
    case False
    then have "digits_value 10 b 0 (nat_digits (n div 10)) = Some (n div 10)"
      using 1 by simp
    with False 1 show ?thesis
      by (simp add: nat_digits.simps [of n] digits_value_append digit_value_digit_char)
  qed
qed

lemma nat_digits_nonempty: "nat_digits n \<noteq> []"
  by (subst nat_digits.simps) simp

lemma set_nat_digits: "set (nat_digits n) \<subseteq> digit_char ` {..<10}"
proof (induction n rule: nat_digits.induct)
  case (1 n)
  then show ?case by (subst nat_digits.simps) auto
qed

lemma digit_char_facts:
  "d < 10 \<Longrightarrow> is_ascii_digit (digit_char d)" "d < 16 \<Longrightarrow> digit_char d \<noteq> CHR ''+''"
  by (auto simp: digit_char_def is_ascii_digit_def char_of_eq_iff take_bit_eq_mod)

text \<open>Printing and parsing an unsigned decimal is the identity below the type's bound.\<close>

lemma from_str_radix_nat_digits: "n < b \<Longrightarrow> from_str_radix b 10 (nat_digits n) = Some n"
proof -
  assume n: "n < b"
  obtain c cs where ds: "nat_digits n = c # cs"
    using nat_digits_nonempty [of n] by (cases "nat_digits n") auto
  then have "c \<in> digit_char ` {..<10}"
    using set_nat_digits [of n] by auto
  then have "c \<noteq> CHR ''+''"
    by (auto dest: digit_char_facts(2) [of _, OF less_trans [of _ 10 16]])
  with ds n show ?thesis
    using digits_value_nat_digits [of n b] by (simp add: from_str_radix_def)
qed

interpretation decimal: codec nat_digits "from_str_radix b 10" "\<lambda>n. n < b"
  for b by unfold_locales (rule from_str_radix_nat_digits)

text \<open>Text without blanks is left alone by \<open>trim\<close>, and so is a line of it up to its newline.\<close>

lemma chars_ascii: "(\<forall>c \<in> set s. (of_char c :: nat) < 128) \<Longrightarrow> chars s = map (\<lambda>c. [c]) s"
  by (induction s) (auto simp: utf8_width_def)

lemma trim_id:
  assumes "\<forall>c \<in> set s. (of_char c :: nat) < 128 \<and> \<not> ws_scalar (of_char c)"
  shows "trim s = s"
proof -
  have "dropWhile is_whitespace (map (\<lambda>c. [c]) t) = map (\<lambda>c. [c]) t" if "set t \<subseteq> set s" for t
    using that assms by (cases t) (auto simp: is_whitespace_def utf8_decode_def)
  from this [of s] this [of "rev s"] show ?thesis
    using assms by (simp add: trim_def chars_ascii rev_map [symmetric])
qed

lemma trim_line:
  assumes "\<forall>c \<in> set s. (of_char c :: nat) < 128 \<and> \<not> ws_scalar (of_char c)"
  shows "trim (s @ [CHR 0x0A]) = s"
proof (cases s)
  case Nil
  have "chars [CHR 0x0A] = [[CHR 0x0A]]" using chars_ascii [of "[CHR 0x0A]"] by simp
  then show ?thesis by (simp add: Nil trim_def is_whitespace_def utf8_decode_def ws_scalar_def)
next
  case (Cons c t)
  have ch: "chars (s @ [CHR 0x0A]) = map (\<lambda>c. [c]) (s @ [CHR 0x0A])"
    using assms by (intro chars_ascii) auto
  have nb: "\<not> is_whitespace [c]" if "c \<in> set s" for c
    using assms that by (auto simp: is_whitespace_def utf8_decode_def)
  have "dropWhile is_whitespace (map (\<lambda>c. [c]) (s @ [CHR 0x0A])) = map (\<lambda>c. [c]) (s @ [CHR 0x0A])"
    using nb [of c] by (simp add: Cons)
  moreover have "dropWhile is_whitespace (rev (map (\<lambda>c. [c]) (s @ [CHR 0x0A]))) = rev (map (\<lambda>c. [c]) s)"
  proof -
    obtain u v where uv: "rev s = u # v" using Cons by (cases "rev s") auto
    then have "u \<in> set (rev s)" by simp
    then have "u \<in> set s" by (simp only: set_rev)
    then have "\<not> is_whitespace [u]" by (rule nb)
    moreover have "is_whitespace [CHR 0x0A]" by (simp add: is_whitespace_def utf8_decode_def ws_scalar_def)
    ultimately show ?thesis using uv by (simp add: rev_map)
  qed
  ultimately show ?thesis by (simp add: trim_def ch)
qed

text \<open>A rendered number is such text.\<close>

lemma nat_digits_printable: "c \<in> set (nat_digits n) \<Longrightarrow> (of_char c :: nat) < 128 \<and> \<not> ws_scalar (of_char c)"
  using set_nat_digits [of n] by (fastforce simp: digit_char_def ws_scalar_def)

lemma ascii_valid_str: "(\<forall>c \<in> set s. (of_char c :: nat) < 128) \<Longrightarrow> valid_str s"
  by (auto simp: valid_str_def intro!: utf8_valid_ascii)

section \<open>Whitespace splitting and lossy decoding\<close>

definition split_whitespace :: "string \<Rightarrow> string list" where
  "split_whitespace s =
     (let (word, acc) = foldr (\<lambda>ch (word, acc).
            if is_whitespace ch then ([], if word = [] then acc else word # acc) else (ch @ word, acc)) (chars s) ([], [])
      in if word = [] then acc else word # acc)"

text \<open>
  \<open>String::from_utf8_lossy\<close>: every maximal prefix of a sequence that cannot be continued becomes one
  replacement character.
\<close>

definition second_ok :: "nat \<Rightarrow> nat \<Rightarrow> bool" where
  "second_ok a b \<longleftrightarrow> cont_byte b \<and> (a = 224 \<longrightarrow> 160 \<le> b) \<and> (a = 237 \<longrightarrow> b < 160) \<and>
     (a = 240 \<longrightarrow> 144 \<le> b) \<and> (a = 244 \<longrightarrow> b < 144)"

definition replacement :: "nat list" where
  "replacement = [239, 191, 189]"

fun utf8_lossy :: "nat list \<Rightarrow> nat list" where
  "utf8_lossy [] = []"
| "utf8_lossy (a # bs) =
     (if a < 128 then a # utf8_lossy bs
      else if \<not> (194 \<le> a \<and> a < 245) then replacement @ utf8_lossy bs
      else case bs of
        [] \<Rightarrow> replacement
      | b # bs1 \<Rightarrow>
          if \<not> second_ok a b then replacement @ utf8_lossy bs
          else if a < 224 then [a, b] @ utf8_lossy bs1
          else case bs1 of
            [] \<Rightarrow> replacement
          | c # bs2 \<Rightarrow>
              if \<not> cont_byte c then replacement @ utf8_lossy bs1
              else if a < 240 then [a, b, c] @ utf8_lossy bs2
              else case bs2 of
                [] \<Rightarrow> replacement
              | d # bs3 \<Rightarrow>
                  if \<not> cont_byte d then replacement @ utf8_lossy bs2
                  else [a, b, c, d] @ utf8_lossy bs3)"

definition from_utf8_lossy :: "bytes \<Rightarrow> string" where
  "from_utf8_lossy bs = map char_of (utf8_lossy (map unat bs))"

end
