(* ===== verification/Crypto_Env.thy ===== *)
theory Crypto_Env
  imports Rust_Str
begin

text \<open>
  The cryptographic crates the sources call (\<open>sha2\<close>, \<open>x25519-dalek\<close>, \<open>ed25519-dalek\<close>,
  \<open>chacha20poly1305\<close>, \<open>base64\<close>, \<open>argon2\<close>) are not part of the repository: they are one record of
  functions, an argument of every definition that uses them. What the code relies on is
  stated as separate predicates, each the documented behaviour of one crate. A small
  computable instance shows that the predicates hold together.
\<close>

record crypto =
  sha256 :: "bytes \<Rightarrow> bytes"
  x25519_pub :: "bytes \<Rightarrow> bytes"
  x25519_dh :: "bytes \<Rightarrow> bytes \<Rightarrow> bytes"
  aead_encrypt :: "bytes \<Rightarrow> bytes \<Rightarrow> bytes \<Rightarrow> bytes \<Rightarrow> bytes"
  aead_decrypt :: "bytes \<Rightarrow> bytes \<Rightarrow> bytes \<Rightarrow> bytes \<Rightarrow> bytes option"
  ed_public :: "bytes \<Rightarrow> bytes"
  ed_sign :: "bytes \<Rightarrow> bytes \<Rightarrow> bytes"
  ed_verify :: "bytes \<Rightarrow> bytes \<Rightarrow> bytes \<Rightarrow> bool"
  ed_valid_public :: "bytes \<Rightarrow> bool"
  b64_encode :: "bytes \<Rightarrow> string"
  b64_decode :: "string \<Rightarrow> bytes option"
  argon2id :: "string \<Rightarrow> bytes \<Rightarrow> bytes option"

text \<open>Digest, key and signature sizes.\<close>

definition sha256_len :: "crypto \<Rightarrow> bool" where
  "sha256_len C \<longleftrightarrow> (\<forall>m. length (sha256 C m) = 32)"

definition x25519_len :: "crypto \<Rightarrow> bool" where
  "x25519_len C \<longleftrightarrow> (\<forall>k. length (x25519_pub C k) = 32)"

definition ed_sign_len :: "crypto \<Rightarrow> bool" where
  "ed_sign_len C \<longleftrightarrow> (\<forall>k m. length (ed_sign C k m) = 64)"

definition aead_len :: "crypto \<Rightarrow> bool" where
  "aead_len C \<longleftrightarrow> (\<forall>k n a m. length (aead_encrypt C k n a m) = length m + 16)"

text \<open>Diffie-Hellman agreement, AEAD round trip, signature completeness, base64 round trip.\<close>

definition dh_agrees :: "crypto \<Rightarrow> bool" where
  "dh_agrees C \<longleftrightarrow>
     (\<forall>a b. x25519_dh C a (x25519_pub C b) = x25519_dh C b (x25519_pub C a))"

definition aead_roundtrip :: "crypto \<Rightarrow> bool" where
  "aead_roundtrip C \<longleftrightarrow> (\<forall>k n a m. aead_decrypt C k n a (aead_encrypt C k n a m) = Some m)"

definition aead_expands :: "crypto \<Rightarrow> bool" where
  "aead_expands C \<longleftrightarrow>
     (\<forall>k n a c m. aead_decrypt C k n a c = Some m \<longrightarrow> length c = length m + 16)"

definition sign_verifies :: "crypto \<Rightarrow> bool" where
  "sign_verifies C \<longleftrightarrow> (\<forall>k m. ed_verify C (ed_public C k) m (ed_sign C k m))"

definition b64_roundtrip :: "crypto \<Rightarrow> bool" where
  "b64_roundtrip C \<longleftrightarrow> (\<forall>bs. b64_decode C (b64_encode C bs) = Some bs)"

definition ed_public_ok :: "crypto \<Rightarrow> bool" where
  "ed_public_ok C \<longleftrightarrow> (\<forall>k. length (ed_public C k) = 32 \<and> ed_valid_public C (ed_public C k))"

text \<open>Everything the construction and the opening of a sealed packet use.\<close>

definition crypto_complete :: "crypto \<Rightarrow> bool" where
  "crypto_complete C \<longleftrightarrow> sha256_len C \<and> x25519_len C \<and> ed_sign_len C \<and> aead_len C \<and>
     dh_agrees C \<and> aead_roundtrip C \<and> sign_verifies C"

lemma crypto_completeD:
  assumes "crypto_complete C"
  shows "length (sha256 C m) = 32" and "length (x25519_pub C k) = 32"
    and "length (ed_sign C k m) = 64" and "length (aead_encrypt C k n a m) = length m + 16"
    and "x25519_dh C d (x25519_pub C e) = x25519_dh C e (x25519_pub C d)"
    and "aead_decrypt C k n a (aead_encrypt C k n a m) = Some m"
    and "ed_verify C (ed_public C k) m (ed_sign C k m)"
  using assms by (auto simp: crypto_complete_def sha256_len_def x25519_len_def ed_sign_len_def
      aead_len_def dh_agrees_def aead_roundtrip_def sign_verifies_def)

section \<open>A computable instance\<close>

definition fit :: "nat \<Rightarrow> bytes \<Rightarrow> bytes" where
  "fit n bs = take n (bs @ replicate n 0)"

definition toy_tag :: bytes where
  "toy_tag = replicate 16 0"

definition toy_decrypt :: "bytes \<Rightarrow> bytes option" where
  "toy_decrypt c =
     (if 16 \<le> length c \<and> drop (length c - 16) c = toy_tag then Some (take (length c - 16) c) else None)"

definition toy_sign :: "bytes \<Rightarrow> bytes \<Rightarrow> bytes" where
  "toy_sign k m = fit 64 (k @ m)"

definition toy_crypto :: crypto where
  "toy_crypto =
     \<lparr>sha256 = fit 32,
      x25519_pub = fit 32,
      x25519_dh = (\<lambda>a b. map2 (+) (fit 32 a) (fit 32 b)),
      aead_encrypt = (\<lambda>k n a m. m @ toy_tag),
      aead_decrypt = (\<lambda>k n a c. toy_decrypt c),
      ed_public = fit 32,
      ed_sign = (\<lambda>k m. toy_sign (fit 32 k) m),
      ed_verify = (\<lambda>pk m s. s = toy_sign pk m),
      ed_valid_public = (\<lambda>pk. length pk = 32),
      b64_encode = str_of_bytes,
      b64_decode = (\<lambda>s. Some (as_bytes s)),
      argon2id = (\<lambda>p salt. Some (fit 32 (as_bytes p @ salt)))\<rparr>"

lemma length_fit [simp, len_simps]: "length (fit n bs) = n"
  by (simp add: fit_def)

lemma fit_fit [simp]: "fit n (fit n bs) = fit n bs"
  by (simp add: fit_def)

lemma fit_id: "length bs = n \<Longrightarrow> fit n bs = bs"
  by (simp add: fit_def)

lemma map2_add_commute: "map2 (+) xs ys = map2 (+) ys (xs :: u8 list)"
  by (simp add: zip_commute [of xs ys] comp_def add.commute split_def)

lemma as_bytes_of_str [simp]: "as_bytes (str_of_bytes bs) = bs"
proof -
  have "word_of_nat (of_char (char_of (unat b) :: char)) = b" for b :: u8
    using unat_u8_less [of b] by (simp add: mod_less)
  then show ?thesis
    by (simp add: as_bytes_def str_of_bytes_def comp_def map_idI)
qed

lemma toy_crypto_complete: "crypto_complete toy_crypto"
proof -
  have "toy_decrypt (m @ toy_tag) = Some m" for m
    by (simp add: toy_decrypt_def toy_tag_def)
  then show ?thesis
    by (simp add: crypto_complete_def toy_crypto_def sha256_len_def x25519_len_def ed_sign_len_def
        aead_len_def dh_agrees_def aead_roundtrip_def sign_verifies_def toy_sign_def
        map2_add_commute) (simp add: toy_tag_def)
qed

lemma toy_crypto_laws:
  "aead_expands toy_crypto" "b64_roundtrip toy_crypto" "ed_public_ok toy_crypto"
  by (auto simp: toy_crypto_def aead_expands_def b64_roundtrip_def ed_public_ok_def toy_decrypt_def
      split: if_splits)

end
