(* ===== verification/Keys.thy ===== *)
theory Keys
  imports Protocol Crypto_Env
begin

text \<open>
  \<open>ghostbro-common/src/keys.rs\<close>: key identifiers, their hexadecimal form, the encodings of the
  public keys and the derivation of the Noise key from the client identity. A signing key is
  its 32 secret bytes, a verifying key its 32 public bytes.
\<close>

datatype KeyError =
    InvalidBase64
  | InvalidPublicKeyLength nat
  | InvalidPrivateKeyLength nat
  | InvalidNoisePublicKeyLength nat
  | InvalidPublicKey

section \<open>Operations\<close>

definition key_id_for_public_key :: "crypto \<Rightarrow> bytes \<Rightarrow> key_id" where
  "key_id_for_public_key C public_key = take KEY_ID_LEN (sha256 C public_key)"

definition encode_public_key :: "crypto \<Rightarrow> bytes \<Rightarrow> string" where
  "encode_public_key C public_key = b64_encode C public_key"

definition encode_signing_key :: "crypto \<Rightarrow> bytes \<Rightarrow> string" where
  "encode_signing_key C signing_key = b64_encode C signing_key"

definition derive_noise_static_private_key :: "crypto \<Rightarrow> bytes \<Rightarrow> bytes" where
  "derive_noise_static_private_key C signing_key =
     sha256 C (as_bytes ''ghostbro client noise static v1'' @ signing_key)"

definition derive_noise_static_public_key :: "crypto \<Rightarrow> bytes \<Rightarrow> bytes" where
  "derive_noise_static_public_key C signing_key =
     x25519_pub C (derive_noise_static_private_key C signing_key)"

definition derive_noise_public_from_private :: "crypto \<Rightarrow> bytes \<Rightarrow> bytes" where
  "derive_noise_public_from_private C private_key = x25519_pub C private_key"

definition encode_noise_public_key :: "crypto \<Rightarrow> bytes \<Rightarrow> string" where
  "encode_noise_public_key C public_key = b64_encode C public_key"

definition decode_noise_public_key :: "crypto \<Rightarrow> string \<Rightarrow> KeyError + bytes" where
  "decode_noise_public_key C encoded =
     and_then (ok_or InvalidBase64 (b64_decode C encoded)) (\<lambda>bytes.
       if length bytes = 32 then Inr bytes else Inl (InvalidNoisePublicKeyLength (length bytes)))"

definition decode_signing_key :: "crypto \<Rightarrow> string \<Rightarrow> KeyError + bytes" where
  "decode_signing_key C encoded =
     and_then (ok_or InvalidBase64 (b64_decode C encoded)) (\<lambda>bytes.
       if length bytes = 32 then Inr bytes else Inl (InvalidPrivateKeyLength (length bytes)))"

definition decode_public_key :: "crypto \<Rightarrow> string \<Rightarrow> KeyError + bytes" where
  "decode_public_key C encoded =
     and_then (ok_or InvalidBase64 (b64_decode C encoded)) (\<lambda>bytes.
     and_then (if length bytes = 32 then Inr bytes
               else Inl (InvalidPublicKeyLength (length bytes))) (\<lambda>bytes.
       if ed_valid_public C bytes then Inr bytes else Inl InvalidPublicKey))"

text \<open>The format \<open>{byte:02x}\<close> of one byte.\<close>

definition hex_byte :: "u8 \<Rightarrow> string" where
  "hex_byte b = [digit_char (unat b div 16), digit_char (unat b mod 16)]"

definition key_id_hex :: "key_id \<Rightarrow> string" where
  "key_id_hex key_id = concat (map hex_byte key_id)"

text \<open>The loop over \<open>chunks_exact(2)\<close>, with both early returns of its body.\<close>

fun key_id_chunks :: "string \<Rightarrow> bytes option" where
  "key_id_chunks (a # b # rest) =
     (if valid_str [a, b]
      then case from_str_radix 256 16 [a, b] of
             None \<Rightarrow> None
           | Some n \<Rightarrow> map_option (\<lambda>bs. word_of_nat n # bs) (key_id_chunks rest)
      else None)"
| "key_id_chunks _ = Some []"

definition key_id_from_hex :: "string \<Rightarrow> key_id option" where
  "key_id_from_hex hex = (if length hex \<noteq> KEY_ID_LEN * 2 then None else key_id_chunks hex)"

section \<open>Facts\<close>

lemma length_key_id [simp, len_simps]:
  "sha256_len C \<Longrightarrow> length (key_id_for_public_key C pk) = 8"
  by (simp add: key_id_for_public_key_def KEY_ID_LEN_def sha256_len_def)

lemma length_hex_byte [simp, len_simps]: "length (hex_byte b) = 2"
  by (simp add: hex_byte_def)

lemma length_key_id_hex [simp, len_simps]: "length (key_id_hex k) = 2 * length k"
  by (induction k) (auto simp: key_id_hex_def)

lemma digit_char_ascii: "d < 16 \<Longrightarrow> (of_char (digit_char d) :: nat) < 128"
  by (auto simp: digit_char_def)

lemma hex_byte_parse:
  "valid_str (hex_byte b)" "from_str_radix 256 16 (hex_byte b) = Some (unat b)"
proof -
  have b: "unat b div 16 < 16" "unat b mod 16 < 16"
    using unat_u8_less [of b] by simp_all
  show "valid_str (hex_byte b)"
    using b by (auto simp: valid_str_def hex_byte_def digit_char_ascii intro!: utf8_valid_ascii)
  have "unat b div 16 * 16 + unat b mod 16 = unat b" by simp
  with b show "from_str_radix 256 16 (hex_byte b) = Some (unat b)"
    using unat_u8_less [of b]
    by (simp add: from_str_radix_def hex_byte_def digit_char_facts digit_value_digit_char)
qed

lemma key_id_chunks_hex: "key_id_chunks (key_id_hex k) = Some k"
proof (induction k)
  case (Cons b k)
  obtain x y where xy: "hex_byte b = [x, y]"
    by (simp add: hex_byte_def)
  with hex_byte_parse [of b] Cons show ?case
    by (simp add: key_id_hex_def)
qed (simp add: key_id_hex_def)

interpretation hex: codec key_id_hex key_id_chunks "\<lambda>_. True"
  by unfold_locales (rule key_id_chunks_hex)

lemmas key_id_hex_inject = hex.enc_eq_iff [OF TrueI TrueI]

lemma key_id_from_hex_hex [simp]: "length k = 8 \<Longrightarrow> key_id_from_hex (key_id_hex k) = Some k"
  by (simp add: key_id_from_hex_def KEY_ID_LEN_def key_id_chunks_hex)

lemma length_key_id_chunks: "key_id_chunks s = Some k \<Longrightarrow> length k = length s div 2"
  by (induction s arbitrary: k rule: key_id_chunks.induct) (auto split: if_splits option.splits)

lemma length_key_id_from_hex: "key_id_from_hex s = Some k \<Longrightarrow> length k = 8"
  by (auto simp: key_id_from_hex_def KEY_ID_LEN_def dest: length_key_id_chunks split: if_splits)

text \<open>
  The lower-case hexadecimal digits are the alphabet of every rendered key identifier, so a
  rendered identifier is a single path component.
\<close>

lemma set_key_id_hex: "set (key_id_hex k) \<subseteq> digit_char ` {..<16}"
proof -
  have "set (hex_byte b) \<subseteq> digit_char ` {..<16}" for b
    using unat_u8_less [of b] by (auto simp: hex_byte_def)
  then show ?thesis by (auto simp: key_id_hex_def)
qed

lemma decode_key_lengths:
  "decode_public_key C s = Inr k \<Longrightarrow> length k = 32"
  "decode_signing_key C s = Inr k \<Longrightarrow> length k = 32"
  "decode_noise_public_key C s = Inr k \<Longrightarrow> length k = 32"
  by (auto simp: decode_public_key_def decode_signing_key_def decode_noise_public_key_def result_eqs
      split: if_splits)

section \<open>Properties\<close>

text \<open>
  A key identifier survives its hexadecimal form: every 8-byte identifier printed by
  \<open>key_id_hex\<close> is read back by \<open>key_id_from_hex\<close>, and two identifiers with the same
  hexadecimal form are equal.
\<close>

theorem key_id_hex_roundtrip:
  assumes "length k = 8"
  shows "key_id_from_hex (key_id_hex k) = Some k \<and> (\<forall>k'. key_id_hex k' = key_id_hex k \<longrightarrow> k' = k)"
  using assms by (simp add: key_id_hex_inject)

theorem key_id_hex_roundtrip_witness:
  "key_id_from_hex (key_id_hex [0, 15, 16, 255, 1, 2, 3, 4]) = Some [0, 15, 16, 255, 1, 2, 3, 4] \<and>
   key_id_hex [0, 15, 16, 255, 1, 2, 3, 4] = ''000f10ff01020304''"
proof -
  have "key_id_hex [0, 15, 16, 255, 1, 2, 3, 4] = ''000f10ff01020304''"
    by code_simp
  moreover have "length [0, 15, 16, 255, 1, 2, 3, 4 :: u8] = 8"
    by simp
  ultimately show ?thesis
    using key_id_hex_roundtrip by blast
qed

text \<open>
  Encoding a public key, a private key or a Noise key and decoding the text gives the same
  32 bytes, and no decoder ever returns a key of another length.
\<close>

theorem key_codecs_roundtrip:
  assumes "b64_roundtrip C" and "ed_public_ok C" and "length sk = 32" and "length nk = 32"
  shows "decode_public_key C (encode_public_key C (ed_public C sk)) = Inr (ed_public C sk) \<and>
         decode_signing_key C (encode_signing_key C sk) = Inr sk \<and>
         decode_noise_public_key C (encode_noise_public_key C nk) = Inr nk \<and>
         (\<forall>s k. decode_public_key C s = Inr k \<or> decode_signing_key C s = Inr k \<or>
                decode_noise_public_key C s = Inr k \<longrightarrow> length k = 32)"
proof -
  have dec: "b64_decode C (b64_encode C bs) = Some bs" for bs
    using assms(1) by (simp add: b64_roundtrip_def)
  have "length (ed_public C sk) = 32" "ed_valid_public C (ed_public C sk)"
    using assms(2) by (simp_all add: ed_public_ok_def)
  then have "decode_public_key C (encode_public_key C (ed_public C sk)) = Inr (ed_public C sk)"
    by (simp add: decode_public_key_def encode_public_key_def dec)
  moreover have "decode_signing_key C (encode_signing_key C sk) = Inr sk"
    using assms(3) by (simp add: decode_signing_key_def encode_signing_key_def dec)
  moreover have "decode_noise_public_key C (encode_noise_public_key C nk) = Inr nk"
    using assms(4) by (simp add: decode_noise_public_key_def encode_noise_public_key_def dec)
  ultimately show ?thesis
    using decode_key_lengths by blast
qed

theorem key_codecs_roundtrip_witness:
  "decode_signing_key toy_crypto (encode_signing_key toy_crypto (replicate 32 7)) = Inr (replicate 32 7)"
  using key_codecs_roundtrip [OF toy_crypto_laws(2,3), of "replicate 32 7" "replicate 32 9"] by simp

end
