(* ===== verification/Host_Fs.thy ===== *)
theory Host_Fs
  imports Rust_Str
begin

text \<open>
  The file system as the server and the client use it through \<open>std::fs\<close>. A path is its list of
  components. Every call may fail: the oracle \<open>fault\<close> says for the n-th call whether the
  operating system refuses it (with an error other than a missing file) and, for a write, how
  many bytes had reached the file. A process that dies at a call leaves the host as a fault at that call does.
\<close>

section \<open>Paths\<close>

type_synonym path = "string list"

definition parent :: "path \<Rightarrow> path option" where
  "parent p = (if p = [] then None else Some (butlast p))"

text \<open>\<open>with_extension\<close>: a leading dot does not start an extension.\<close>

definition file_stem :: "string \<Rightarrow> string" where
  "file_stem name =
     (case rsplit_once CHR ''.'' name of
        None \<Rightarrow> name
      | Some (stem, _) \<Rightarrow> if stem = [] then name else stem)"

definition with_extension :: "path \<Rightarrow> string \<Rightarrow> path" where
  "with_extension p ext =
     (if p = [] then p else butlast p @ [file_stem (last p) @ ''.'' @ ext])"

definition extension :: "path \<Rightarrow> string option" where
  "extension p =
     (if p = [] then None
      else case rsplit_once CHR ''.'' (last p) of
             None \<Rightarrow> None
           | Some (stem, ext) \<Rightarrow> if stem = [] then None else Some ext)"

lemma parent_with_extension: "p \<noteq> [] \<Longrightarrow> parent (with_extension p ext) = parent p"
  by (simp add: parent_def with_extension_def)

text \<open>
  Joining a string to a path, as the kernel resolves it later: the string is split at slashes, an empty
  component and \<open>.\<close> stay, \<open>..\<close> goes up, and a leading slash starts at the root. Symbolic links are not
  modelled, so \<open>..\<close> removes the last component.
\<close>

fun walk :: "path \<Rightarrow> string list \<Rightarrow> path" where
  "walk base [] = base"
| "walk base (c # cs) =
     walk (if c = [] \<or> c = ''.'' then base else if c = ''..'' then butlast base else base @ [c]) cs"

definition path_join :: "path \<Rightarrow> string \<Rightarrow> path" where
  "path_join base s = walk (if s \<noteq> [] \<and> hd s = CHR ''/'' then [] else base) (split_on CHR ''/'' s)"

lemma walk_append: "walk base (xs @ ys) = walk (walk base xs) ys"
  by (induction xs arbitrary: base) simp_all

lemma path_join_plain:
  assumes "CHR ''/'' \<notin> set s" and "s \<noteq> []" and "s \<noteq> ''.''" and "s \<noteq> ''..''"
  shows "path_join base s = base @ [s]"
proof -
  have "hd s \<noteq> CHR ''/''" using assms(1,2) by (metis hd_in_set)
  then show ?thesis using assms by (simp add: path_join_def split_on_none)
qed

lemma split_on_suffix: "c \<notin> set e \<Longrightarrow> \<exists>xs x. split_on c (s @ e) = xs @ [x @ e]"
proof (induction s)
  case Nil
  then have "split_on c ([] @ e) = [] @ [[] @ e]" by (simp add: split_on_none)
  then show ?case by blast
next
  case (Cons a s)
  then obtain xs x where s: "split_on c (s @ e) = xs @ [x @ e]" by blast
  show ?case
  proof (cases "a = c")
    case True
    then have "split_on c ((a # s) @ e) = ([] # xs) @ [x @ e]" using s by simp
    then show ?thesis by blast
  next
    case False
    show ?thesis
    proof (cases xs)
      case Nil
      then have "split_on c ((a # s) @ e) = [] @ [(a # x) @ e]" using s False by simp
      then show ?thesis by blast
    next
      case (Cons l ls)
      then have "split_on c ((a # s) @ e) = ((a # l) # ls) @ [x @ e]" using s False by simp
      then show ?thesis by blast
    qed
  qed
qed

text \<open>Whatever the string, a name with a suffix of at least three characters ends in that suffix.\<close>

lemma path_join_suffix:
  assumes "CHR ''/'' \<notin> set e" and "2 < length e"
  shows "\<exists>p x. path_join base (s @ e) = p @ [x @ e]"
proof -
  obtain xs x where s: "split_on CHR ''/'' (s @ e) = xs @ [x @ e]" using split_on_suffix [OF assms(1)] by blast
  have "2 < length (x @ e)" using assms(2) by simp
  then have "x @ e \<noteq> []" "x @ e \<noteq> ''.''" "x @ e \<noteq> ''..''"
    by (metis list.size(3) not_less_zero, force, force)
  then show ?thesis by (auto simp: path_join_def s walk_append)
qed

section \<open>The host\<close>

datatype io_error = NotFound | OtherIo

record host =
  files :: "(path, bytes) hash_map"
  dirs :: "path list"
  tick :: nat
  fault :: "nat \<Rightarrow> nat option"

type_synonym 'a io = "(host, io_error, 'a) comp"

text \<open>One call: the oracle is asked first, then the call takes effect.\<close>

definition io_call :: "'a io \<Rightarrow> 'a io" where
  "io_call body h =
     (let h' = h\<lparr>tick := tick h + 1\<rparr> in
      case fault h (tick h) of
        Some _ \<Rightarrow> (Inl OtherIo, h')
      | None \<Rightarrow> body h')"

definition io_read :: "path \<Rightarrow> bytes io" where
  "io_read p = io_call (\<lambda>h.
     (case hm_get (files h) p of
        Some c \<Rightarrow> Inr c
      | None \<Rightarrow> if p \<in> set (dirs h) then Inl OtherIo else Inl NotFound, h))"

definition io_read_to_string :: "path \<Rightarrow> string io" where
  "io_read_to_string p = c_bind (io_read p) (\<lambda>c. c_lift (ok_or OtherIo (from_utf8 c)))"

definition path_prefixes :: "path \<Rightarrow> path list" where
  "path_prefixes p = map (\<lambda>n. take n p) [0..<Suc (length p)]"

definition io_create_dir_all :: "path \<Rightarrow> unit io" where
  "io_create_dir_all p = io_call (\<lambda>h.
     if \<exists>q \<in> set (path_prefixes p). hm_get (files h) q \<noteq> None then (Inl OtherIo, h)
     else (Inr (), h\<lparr>dirs := remdups (path_prefixes p @ dirs h)\<rparr>))"

definition parent_exists :: "host \<Rightarrow> path \<Rightarrow> bool" where
  "parent_exists h p = (case parent p of None \<Rightarrow> False | Some d \<Rightarrow> d \<in> set (dirs h))"

text \<open>\<open>File::create\<close> makes the file or truncates it.\<close>

definition io_create :: "path \<Rightarrow> unit io" where
  "io_create p = io_call (\<lambda>h.
     if p \<in> set (dirs h) then (Inl OtherIo, h)
     else if \<not> parent_exists h p then (Inl NotFound, h)
     else (Inr (), h\<lparr>files := hm_insert p [] (files h)\<rparr>))"

text \<open>\<open>write_all\<close> on a fresh handle; a fault leaves the bytes that had been written.\<close>

definition io_write_all :: "path \<Rightarrow> bytes \<Rightarrow> unit io" where
  "io_write_all p c h =
     (let h' = h\<lparr>tick := tick h + 1\<rparr> in
      case fault h (tick h) of
        Some n \<Rightarrow> (Inl OtherIo, h'\<lparr>files := hm_insert p (take n c) (files h')\<rparr>)
      | None \<Rightarrow> (Inr (), h'\<lparr>files := hm_insert p c (files h')\<rparr>))"

definition io_sync_all :: "path \<Rightarrow> unit io" where
  "io_sync_all p = io_call (\<lambda>h. (Inr (), h))"

text \<open>\<open>rename\<close> replaces the target in one step.\<close>

definition io_rename :: "path \<Rightarrow> path \<Rightarrow> unit io" where
  "io_rename p q = io_call (\<lambda>h.
     case hm_get (files h) p of
       None \<Rightarrow> (Inl NotFound, h)
     | Some c \<Rightarrow>
         if q \<in> set (dirs h) then (Inl OtherIo, h)
         else if \<not> parent_exists h q then (Inl NotFound, h)
         else (Inr (), h\<lparr>files := hm_insert q c (hm_remove p (files h))\<rparr>))"

definition io_write :: "path \<Rightarrow> bytes \<Rightarrow> unit io" where
  "io_write p c = c_bind (io_create p) (\<lambda>_. io_write_all p c)"

definition io_remove_file :: "path \<Rightarrow> unit io" where
  "io_remove_file p = io_call (\<lambda>h.
     case hm_get (files h) p of
       None \<Rightarrow> (Inl (if p \<in> set (dirs h) then OtherIo else NotFound), h)
     | Some _ \<Rightarrow> (Inr (), h\<lparr>files := hm_remove p (files h)\<rparr>))"

text \<open>\<open>exists()\<close> and \<open>is_dir()\<close> answer false when the call fails.\<close>

definition io_exists :: "path \<Rightarrow> host \<Rightarrow> bool \<times> host" where
  "io_exists p h =
     (fault h (tick h) = None \<and> (hm_get (files h) p \<noteq> None \<or> p \<in> set (dirs h)), h\<lparr>tick := tick h + 1\<rparr>)"

definition io_is_dir :: "path \<Rightarrow> host \<Rightarrow> bool \<times> host" where
  "io_is_dir p h = (fault h (tick h) = None \<and> p \<in> set (dirs h), h\<lparr>tick := tick h + 1\<rparr>)"

definition io_len :: "path \<Rightarrow> nat io" where
  "io_len p = io_call (\<lambda>h.
     (case hm_get (files h) p of Some c \<Rightarrow> Inr (length c) | None \<Rightarrow> Inl (if p \<in> set (dirs h) then OtherIo else NotFound), h))"

text \<open>The entries of a directory, in some order; reading each entry of the iterator may fail too.\<close>

definition dir_entries :: "host \<Rightarrow> path \<Rightarrow> path list" where
  "dir_entries h p = filter (\<lambda>q. q \<noteq> [] \<and> butlast q = p) (hm_keys (files h) @ dirs h)"

definition io_read_dir :: "path \<Rightarrow> path list io" where
  "io_read_dir p = io_call (\<lambda>h.
     (if p \<in> set (dirs h) then Inr (dir_entries h p)
      else Inl (if hm_get (files h) p = None then NotFound else OtherIo), h))"

definition io_entry :: "path \<Rightarrow> path io" where
  "io_entry q = io_call (\<lambda>h. (Inr q, h))"

text \<open>\<open>remove_dir_all\<close>; a fault leaves what had not been removed yet.\<close>

definition below :: "path \<Rightarrow> path \<Rightarrow> bool" where
  "below p q \<longleftrightarrow> take (length p) q = p"

definition io_remove_dir_all :: "path \<Rightarrow> unit io" where
  "io_remove_dir_all p h =
     (let h' = h\<lparr>tick := tick h + 1\<rparr>; inside = filter (below p) (hm_keys (files h)) in
      case fault h (tick h) of
        Some n \<Rightarrow> (Inl OtherIo, h'\<lparr>files := fold hm_remove (take n inside) (files h)\<rparr>)
      | None \<Rightarrow>
          if p \<in> set (dirs h)
          then (Inr (), h'\<lparr>files := fold hm_remove inside (files h), dirs := filter (\<lambda>d. \<not> below p d) (dirs h)\<rparr>)
          else (Inl (if hm_get (files h) p = None then NotFound else OtherIo), h'))"

section \<open>Facts\<close>

definition quiet :: "host \<Rightarrow> bool" where
  "quiet h \<longleftrightarrow> (\<forall>n. fault h n = None)"

lemma quietD [simp]: "quiet h \<Longrightarrow> fault h n = None"
  by (simp add: quiet_def)

text \<open>The content at a path \<open>p\<close>: what no call on other paths changes.\<close>

abbreviation content :: "host \<Rightarrow> path \<Rightarrow> bytes option" where
  "content h p \<equiv> hm_get (files h) p"

lemma io_call_cases:
  assumes "io_call body h = (r, h')"
  obtains (refused) "r = Inl OtherIo" "h' = h\<lparr>tick := tick h + 1\<rparr>"
  | (ran) "body (h\<lparr>tick := tick h + 1\<rparr>) = (r, h')"
proof (cases "fault h (tick h)")
  case None
  then show ?thesis using assms ran by (simp add: io_call_def Let_def)
next
  case (Some n)
  then show ?thesis using assms refused by (simp add: io_call_def Let_def)
qed

lemma keeps_io_read: "keeps (\<lambda>h. content h q = c) (io_read p)"
  unfolding io_read_def
  by (auto simp: keeps_def io_call_def Let_def split: option.splits)

lemma io_read_pure: "io_read p h = (r, h') \<Longrightarrow> h' = h\<lparr>tick := tick h + 1\<rparr>"
  by (auto simp: io_read_def io_call_def Let_def split: option.splits)

lemma io_read_Inr: "io_read p h = (Inr c, h') \<Longrightarrow> content h p = Some c"
  by (auto simp: io_read_def io_call_def Let_def split: option.splits if_splits)

lemma io_read_quiet: "fault h (tick h) = None \<Longrightarrow> content h p = Some c \<Longrightarrow>
    io_read p h = (Inr c, h\<lparr>tick := tick h + 1\<rparr>)"
  by (simp add: io_read_def io_call_def Let_def)

lemma io_read_to_string_pure: "io_read_to_string p h = (r, h') \<Longrightarrow> h' = h\<lparr>tick := tick h + 1\<rparr>"
  by (auto simp: io_read_to_string_def c_bind_def dest: io_read_pure split: prod.splits sum.splits)

lemma io_read_to_string_Inr:
  "io_read_to_string p h = (Inr s, h') \<Longrightarrow> \<exists>c. content h p = Some c \<and> from_utf8 c = Some s"
  by (auto simp: io_read_to_string_def comp_eqs result_eqs dest!: io_read_Inr)

lemma io_create_dir_all_files: "io_create_dir_all p h = (r, h') \<Longrightarrow> files h' = files h"
  by (auto simp: io_create_dir_all_def split: if_splits elim!: io_call_cases)

lemma keeps_io_create_dir_all: "keeps (\<lambda>h. content h q = c) (io_create_dir_all p)"
  by (simp add: keeps_def) (metis io_create_dir_all_files prod.collapse)

lemma keeps_io_create: "q \<noteq> p \<Longrightarrow> keeps (\<lambda>h. content h q = c) (io_create p)"
  by (auto simp: io_create_def keeps_def io_call_def Let_def split: option.splits)

lemma keeps_io_write_all: "q \<noteq> p \<Longrightarrow> keeps (\<lambda>h. content h q = c) (io_write_all p bs)"
  by (auto simp: io_write_all_def keeps_def Let_def split: option.splits)

lemma keeps_io_sync_all: "keeps (\<lambda>h. content h q = c) (io_sync_all p)"
  by (auto simp: io_sync_all_def keeps_def io_call_def Let_def split: option.splits)

lemma keeps_io_rename:
  "q \<noteq> p \<Longrightarrow> q \<noteq> p' \<Longrightarrow> keeps (\<lambda>h. content h q = c) (io_rename p p')"
  by (auto simp: io_rename_def keeps_def io_call_def Let_def split: option.splits)

lemma io_rename_Inl: "io_rename p q h = (Inl e, h') \<Longrightarrow> files h' = files h"
  by (auto simp: io_rename_def split: option.splits if_splits elim!: io_call_cases)

lemma io_rename_Inr:
  "io_rename p q h = (Inr u, h') \<Longrightarrow>
   \<exists>c. content h p = Some c \<and> content h' q = Some c \<and> (p \<noteq> q \<longrightarrow> content h' p = None)"
  by (auto simp: io_rename_def split: option.splits if_splits elim!: io_call_cases)

lemma io_write_all_Inr: "io_write_all p c h = (Inr u, h') \<Longrightarrow> content h' p = Some c"
  by (auto simp: io_write_all_def Let_def split: option.splits)

lemma io_sync_all_files: "io_sync_all p h = (r, h') \<Longrightarrow> files h' = files h"
  by (auto simp: io_sync_all_def elim!: io_call_cases)

lemma keeps_io_write: "q \<noteq> p \<Longrightarrow> keeps (\<lambda>h. content h q = c) (io_write p bs)"
  by (auto simp: io_write_def intro: keeps_io_create keeps_io_write_all)

lemmas keeps_io = keeps_io_read keeps_io_create_dir_all keeps_io_create keeps_io_write_all
  keeps_io_sync_all keeps_io_rename keeps_io_write

text \<open>Calls on a host that refuses nothing.\<close>

lemma quiet_steps:
  assumes "quiet h"
  shows "io_create_dir_all d h =
      (if \<exists>q \<in> set (path_prefixes d). content h q \<noteq> None
       then (Inl OtherIo, h\<lparr>tick := tick h + 1\<rparr>)
       else (Inr (), h\<lparr>tick := tick h + 1, dirs := remdups (path_prefixes d @ dirs h)\<rparr>))"
    and "io_write_all p c h = (Inr (), h\<lparr>tick := tick h + 1, files := hm_insert p c (files h)\<rparr>)"
    and "io_sync_all p h = (Inr (), h\<lparr>tick := tick h + 1\<rparr>)"
  using assms
  by (simp_all add: io_create_dir_all_def io_write_all_def io_sync_all_def io_call_def Let_def)

text \<open>Calls that only look leave the files as they are; a removal changes the removed paths only.\<close>

lemma io_exists_files: "io_exists p h = (b, h') \<Longrightarrow> files h' = files h"
  by (auto simp: io_exists_def)

lemma io_is_dir_files: "io_is_dir p h = (b, h') \<Longrightarrow> files h' = files h"
  by (auto simp: io_is_dir_def)

lemma keeps_io_look:
  "keeps (\<lambda>h. content h q = c) (io_len p)" "keeps (\<lambda>h. content h q = c) (io_read_dir p)"
  "keeps (\<lambda>h. content h q = c) (io_entry p)"
  by (auto simp: io_len_def io_read_dir_def io_entry_def keeps_def io_call_def Let_def split: option.splits)

lemma keeps_io_remove_file: "q \<noteq> p \<Longrightarrow> keeps (\<lambda>h. content h q = c) (io_remove_file p)"
  by (auto simp: io_remove_file_def keeps_def io_call_def Let_def split: option.splits)

lemma keeps_io_remove_dir_all: "\<not> below p q \<Longrightarrow> keeps (\<lambda>h. content h q = c) (io_remove_dir_all p)"
  by (auto simp: io_remove_dir_all_def keeps_def Let_def hm.get_removes dest!: in_set_takeD split: option.splits)

lemma keeps_io_read_to_string: "keeps (\<lambda>h. content h q = c) (io_read_to_string p)"
  by (auto simp: io_read_to_string_def intro: keeps_io_read)

end
