(* ===== verification/Server_Keys.thy ===== *)
theory Server_Keys
  imports Keys Host_Fs
begin

text \<open>
  \<open>ghostbro-server/src/keys.rs\<close>: the authorized clients file. The TOML parser is a parameter
  (\<open>toml_keys\<close>): it turns the text into the file's entries or fails.
\<close>

datatype ClientTier = Full | Decoy

record AuthorizedClientConfig =
  cfg_name :: string
  cfg_public_key :: string
  cfg_noise_public_key :: string
  cfg_tier :: ClientTier
  cfg_max_concurrent_sessions :: "u16 option"

record AuthorizedClient =
  client_name :: string
  client_public_key :: bytes
  client_noise_public_key :: bytes
  client_key_id :: key_id
  client_id :: u16
  client_tier :: ClientTier
  client_max_concurrent_sessions :: "u16 option"

type_synonym AuthorizedKeysFile = "AuthorizedClientConfig list"

datatype keys_load_error = KeysRead io_error | KeysParse

definition AuthorizedKeysFile_load ::
    "(string \<Rightarrow> AuthorizedKeysFile option) \<Rightarrow> path \<Rightarrow> (host, keys_load_error, AuthorizedKeysFile) comp" where
  "AuthorizedKeysFile_load toml_keys path =
     c_bind (c_map_err KeysRead (io_read_to_string path)) (\<lambda>contents.
       c_lift (ok_or KeysParse (toml_keys contents)))"

definition index_to_client_id :: "nat \<Rightarrow> u16" where
  "index_to_client_id index = (if index + 1 < 2 ^ 16 then word_of_nat (index + 1) else - 1)"

definition from_config :: "crypto \<Rightarrow> AuthorizedClientConfig \<Rightarrow> u16 \<Rightarrow> KeyError + AuthorizedClient" where
  "from_config C config cid =
     and_then (decode_public_key C (cfg_public_key config)) (\<lambda>public_key.
     and_then (decode_noise_public_key C (cfg_noise_public_key config)) (\<lambda>noise_public_key.
       let key_id = key_id_for_public_key C public_key in
       Inr \<lparr>client_name = cfg_name config, client_public_key = public_key,
            client_noise_public_key = noise_public_key, client_key_id = key_id, client_id = cid,
            client_tier = cfg_tier config,
            client_max_concurrent_sessions = cfg_max_concurrent_sessions config\<rparr>))"

definition into_clients :: "crypto \<Rightarrow> AuthorizedKeysFile \<Rightarrow> KeyError + AuthorizedClient list" where
  "into_clients C configs =
     collect_results (map (\<lambda>(index, config). from_config C config (index_to_client_id index))
       (enumerate 0 configs))"

definition key_id_from_slice :: "bytes \<Rightarrow> key_id option" where
  "key_id_from_slice bytes = (if length bytes \<noteq> KEY_ID_LEN then None else Some bytes)"

section \<open>Facts\<close>

lemma unat_index_to_client_id: "unat (index_to_client_id i) = min (i + 1) 65535"
proof (cases "i + 1 < 2 ^ 16")
  case True
  then have "unat (word_of_nat (i + 1) :: u16) = i + 1"
    by (subst unat_of_nat) simp
  with True show ?thesis
    unfolding index_to_client_id_def by simp
next
  case False
  then show ?thesis
    by (simp add: index_to_client_id_def unat_max_word)
qed

lemma index_to_client_id_inject:
  assumes "i < 65535" and "j < 65535"
  shows "index_to_client_id i = index_to_client_id j \<longleftrightarrow> i = j"
proof
  assume "index_to_client_id i = index_to_client_id j"
  then have "unat (index_to_client_id i) = unat (index_to_client_id j)" by simp
  with assms show "i = j" by (simp add: unat_index_to_client_id)
qed simp

lemma from_config_Inr:
  assumes "from_config C config cid = Inr c"
  shows "decode_public_key C (cfg_public_key config) = Inr (client_public_key c)"
    and "decode_noise_public_key C (cfg_noise_public_key config) = Inr (client_noise_public_key c)"
    and "client_key_id c = key_id_for_public_key C (client_public_key c)"
    and "client_id c = cid" and "client_name c = cfg_name config" and "client_tier c = cfg_tier config"
    and "client_max_concurrent_sessions c = cfg_max_concurrent_sessions config"
  using assms by (auto simp: from_config_def result_eqs)

lemma into_clients_Inr:
  assumes "into_clients C configs = Inr clients"
  shows "length clients = length configs"
    and "i < length configs \<Longrightarrow> from_config C (configs ! i) (index_to_client_id i) = Inr (clients ! i)"
proof -
  have eq: "map (\<lambda>(index, config). from_config C config (index_to_client_id index)) (enumerate 0 configs)
      = map Inr clients"
    using assms by (simp add: into_clients_def collect_results_Inr)
  then show len: "length clients = length configs"
    by (metis length_enumerate length_map)
  show "from_config C (configs ! i) (index_to_client_id i) = Inr (clients ! i)" if "i < length configs"
    using arg_cong [OF eq, of "\<lambda>l. l ! i"] that len
    by (simp add: nth_enumerate_eq)
qed

section \<open>Properties\<close>

text \<open>
  Reading the authorized clients: a successful load keeps every entry in file order with the
  key identifier derived from its own public key and the name, tier and session cap it was
  configured with; entry i gets client id i+1, capped at 65535, so the ids are pairwise different
  in a file of at most 65535 entries (and the last ones coincide in a longer one).
\<close>

theorem into_clients_assigns:
  assumes "into_clients C configs = Inr clients" and "i < length configs"
  shows "length clients = length configs \<and>
         client_key_id (clients ! i) = key_id_for_public_key C (client_public_key (clients ! i)) \<and>
         decode_public_key C (cfg_public_key (configs ! i)) = Inr (client_public_key (clients ! i)) \<and>
         client_name (clients ! i) = cfg_name (configs ! i) \<and>
         client_tier (clients ! i) = cfg_tier (configs ! i) \<and>
         client_max_concurrent_sessions (clients ! i) = cfg_max_concurrent_sessions (configs ! i) \<and>
         unat (client_id (clients ! i)) = min (i + 1) 65535 \<and>
         (length configs \<le> 65535 \<longrightarrow>
            (\<forall>j < length configs. client_id (clients ! j) = client_id (clients ! i) \<longrightarrow> j = i))"
proof -
  note all = into_clients_Inr [OF assms(1)]
  note mine = from_config_Inr [OF all(2) [OF assms(2)]]
  have "j = i" if "length configs \<le> 65535" "j < length configs"
    and "client_id (clients ! j) = client_id (clients ! i)" for j
    using that assms(2) mine(4) from_config_Inr(4) [OF all(2) [OF that(2)]]
    by (simp add: index_to_client_id_inject)
  with all(1) mine show ?thesis
    by (simp add: unat_index_to_client_id)
qed

theorem into_clients_assigns_witness:
  "\<exists>c d. into_clients toy_crypto
     [\<lparr>cfg_name = ''first'', cfg_public_key = str_of_bytes (replicate 32 1),
       cfg_noise_public_key = str_of_bytes (replicate 32 2), cfg_tier = Full,
       cfg_max_concurrent_sessions = None\<rparr>,
      \<lparr>cfg_name = ''second'', cfg_public_key = str_of_bytes (replicate 32 3),
       cfg_noise_public_key = str_of_bytes (replicate 32 4), cfg_tier = Decoy,
       cfg_max_concurrent_sessions = Some 2\<rparr>] = Inr [c, d] \<and>
   unat (client_id c) = 1 \<and> unat (client_id d) = 2 \<and> client_tier d = Decoy" (is "\<exists>c d. ?load = _ \<and> _")
proof -
  have "is_ok ?load"
    by (simp add: into_clients_def from_config_def decode_public_key_def decode_noise_public_key_def
        toy_crypto_def)
  then obtain cs where cs: "?load = Inr cs"
    by (auto simp: is_ok_def split: sum.splits)
  then obtain c d where "cs = [c, d]"
    using into_clients_Inr(1) [OF cs] by (auto simp: length_Suc_conv)
  with cs into_clients_assigns [OF cs, of 0] into_clients_assigns [OF cs, of 1] show ?thesis
    by auto
qed

end
