(* ===== verification/Seal.thy ===== *)
theory Seal
  imports Protocol Crypto_Env
begin

text \<open>
  \<open>ghostbro-common/src/seal.rs\<close>: the anonymous sealed box. The fresh ephemeral secret is an
  argument, since it comes from the operating system's generator.
\<close>

definition KEY_LABEL :: bytes where
  "KEY_LABEL = as_bytes ''ghostbro-spa-seal-key-v1''"

definition NONCE_LABEL :: bytes where
  "NONCE_LABEL = as_bytes ''ghostbro-spa-seal-nonce-v1''"

definition x25519_public_from_private :: "crypto \<Rightarrow> bytes \<Rightarrow> bytes" where
  "x25519_public_from_private C private_key = x25519_pub C private_key"

definition derive_key_nonce :: "crypto \<Rightarrow> bytes \<Rightarrow> bytes \<Rightarrow> bytes \<Rightarrow> bytes \<times> bytes" where
  "derive_key_nonce C shared ephemeral_pub server_pub =
     (let key = sha256 C (KEY_LABEL @ shared @ ephemeral_pub @ server_pub);
          nonce = sha256 C (NONCE_LABEL @ ephemeral_pub @ server_pub)
      in (key, take 12 nonce))"

definition ephemeral_public :: "crypto \<Rightarrow> bytes \<Rightarrow> bytes" where
  "ephemeral_public C ephemeral_secret = x25519_pub C ephemeral_secret"

definition seal_with_ephemeral :: "crypto \<Rightarrow> bytes \<Rightarrow> bytes \<Rightarrow> bytes \<Rightarrow> bytes" where
  "seal_with_ephemeral C plaintext server_pub ephemeral_secret =
     (let ephemeral_pub = x25519_pub C ephemeral_secret;
          shared = x25519_dh C ephemeral_secret server_pub;
          (key, nonce) = derive_key_nonce C shared ephemeral_pub server_pub;
          ciphertext = aead_encrypt C key nonce ephemeral_pub plaintext
      in ephemeral_pub @ ciphertext)"

definition seal :: "crypto \<Rightarrow> bytes \<Rightarrow> bytes \<Rightarrow> bytes \<Rightarrow> bytes" where
  "seal C fresh_ephemeral plaintext server_pub =
     seal_with_ephemeral C plaintext server_pub fresh_ephemeral"

record Opened =
  plaintext :: bytes
  opened_ephemeral :: bytes

definition seal_open :: "crypto \<Rightarrow> bytes \<Rightarrow> bytes \<Rightarrow> Opened option" where
  "seal_open C sealed_core server_private =
     (if length sealed_core < SPA_EPHEMERAL_LEN + SPA_AEAD_TAG_LEN then None
      else
        let ephemeral_pub = take SPA_EPHEMERAL_LEN sealed_core;
            ciphertext = drop SPA_EPHEMERAL_LEN sealed_core;
            server_pub = x25519_pub C server_private;
            shared = x25519_dh C server_private ephemeral_pub;
            (key, nonce) = derive_key_nonce C shared ephemeral_pub server_pub
        in case aead_decrypt C key nonce ephemeral_pub ciphertext of
             None \<Rightarrow> None
           | Some pt \<Rightarrow> Some \<lparr>plaintext = pt, opened_ephemeral = ephemeral_pub\<rparr>)"

lemma length_seal_with_ephemeral [len_simps]:
  "crypto_complete C \<Longrightarrow> length (seal_with_ephemeral C pt spub eph) = 48 + length pt"
  by (simp add: seal_with_ephemeral_def crypto_completeD Let_def split: prod.splits)

lemma seal_open_sealed:
  assumes "crypto_complete C"
  shows "seal_open C (seal_with_ephemeral C pt (x25519_pub C sk) eph) sk =
         Some \<lparr>plaintext = pt, opened_ephemeral = ephemeral_public C eph\<rparr>"
proof -
  note laws = crypto_completeD [OF assms]
  have "x25519_dh C sk (x25519_pub C eph) = x25519_dh C eph (x25519_pub C sk)"
    by (rule laws(5))
  then show ?thesis
    by (simp add: seal_open_def seal_with_ephemeral_def ephemeral_public_def Let_def laws
        SPA_EPHEMERAL_LEN_def SPA_AEAD_TAG_LEN_def split: prod.splits)
qed

lemma seal_open_shape:
  assumes "seal_open C core sk = Some opened"
  shows "48 \<le> length core" and "opened_ephemeral opened = take 32 core"
  using assms by (auto simp: seal_open_def Let_def SPA_EPHEMERAL_LEN_def SPA_AEAD_TAG_LEN_def
      split: if_splits prod.splits option.splits)

section \<open>Properties\<close>

text \<open>
  The holder of the server's static private key recovers exactly the plaintext and the
  ephemeral public key from a sealed box made for the matching public key, and the box is
  the plaintext's length plus 48 bytes (ephemeral key and authentication tag).
\<close>

theorem seal_open_roundtrip:
  assumes "crypto_complete C"
  shows "seal_open C (seal C eph msg (x25519_public_from_private C sk)) sk =
           Some \<lparr>plaintext = msg, opened_ephemeral = ephemeral_public C eph\<rparr> \<and>
         length (seal C eph msg (x25519_public_from_private C sk)) =
           length msg + SPA_EPHEMERAL_LEN + SPA_AEAD_TAG_LEN"
  using assms by (simp add: seal_def x25519_public_from_private_def seal_open_sealed
      length_seal_with_ephemeral SPA_EPHEMERAL_LEN_def SPA_AEAD_TAG_LEN_def)

theorem seal_open_roundtrip_witness:
  "seal_open toy_crypto (seal toy_crypto [9] [1, 2, 3] (x25519_public_from_private toy_crypto [5])) [5] =
   Some \<lparr>plaintext = [1, 2, 3], opened_ephemeral = ephemeral_public toy_crypto [9]\<rparr>"
  using seal_open_roundtrip [OF toy_crypto_complete, of "[9]" "[1, 2, 3]" "[5]"] by simp

end
