(* ===== verification/Spa_Packet.thy ===== *)
theory Spa_Packet
  imports Keys Seal
begin

text \<open>
  \<open>ghostbro-common/src/spa.rs\<close>: building, opening and verifying a single packet
  authorization. An \<open>Ipv4Addr\<close> is its 32-bit value, with \<open>octets\<close> the big-endian bytes. The
  random inputs (ephemeral secret, padding) are arguments.
\<close>

section \<open>Data\<close>

datatype SpaMode = Udp | Https

fun mode_flag_bit :: "SpaMode \<Rightarrow> u8" where
  "mode_flag_bit Udp = 0"
| "mode_flag_bit Https = SPA_FLAG_HTTPS"

definition mode_from_flags :: "u8 \<Rightarrow> SpaMode" where
  "mode_from_flags flags = (if flags AND SPA_FLAG_HTTPS = 0 then Udp else Https)"

datatype SpaAllowIp = Explicit u32 | PacketSource

fun allow_flag_bit :: "SpaAllowIp \<Rightarrow> u8" where
  "allow_flag_bit (Explicit _) = 0"
| "allow_flag_bit PacketSource = SPA_FLAG_USE_PACKET_SOURCE"

fun ip_bytes :: "SpaAllowIp \<Rightarrow> bytes" where
  "ip_bytes (Explicit ip) = to_be_bytes32 ip"
| "ip_bytes PacketSource = replicate ALLOW_IP_LEN 0"

record SpaPacket =
  mode :: SpaMode
  use_packet_source :: bool
  pkt_key_id :: key_id
  timestamp_ms :: u64
  counter :: u64
  allow_ip :: u32
  signature :: bytes
  ephemeral_pub :: bytes

datatype SpaError =
    InvalidLength nat
  | SealOpenFailed
  | InvalidVersion
  | InvalidFlags u8
  | BadSignature

section \<open>Operations\<close>

definition signed_message :: "bytes \<Rightarrow> bytes \<Rightarrow> bytes \<Rightarrow> bytes" where
  "signed_message signed_region eph_pub server_static_pubkey =
     signed_region @ eph_pub @ server_static_pubkey"

definition read_array :: "nat \<Rightarrow> bytes \<Rightarrow> nat \<Rightarrow> bytes \<times> nat" where
  "read_array n buf offset = (subslice buf offset (offset + n), offset + n)"

definition random_padding_len :: "u32 \<Rightarrow> nat" where
  "random_padding_len r = unat r mod (SPA_MAX_PADDING + 1)"

definition build_with_padding ::
    "crypto \<Rightarrow> bytes \<Rightarrow> bytes \<Rightarrow> SpaMode \<Rightarrow> u64 \<Rightarrow> u64 \<Rightarrow> SpaAllowIp \<Rightarrow> bytes \<Rightarrow> bytes \<Rightarrow> bytes" where
  "build_with_padding C ephemeral_secret signing_key m ts ctr allow padding server_static_pubkey =
     (let public_key = ed_public C signing_key;
          key_id = key_id_for_public_key C public_key;
          flags = mode_flag_bit m OR allow_flag_bit allow;
          signed_region = VERSION_PREFIX @ [flags] @ key_id @ to_be_bytes64 ts @ to_be_bytes64 ctr
                          @ ip_bytes allow;
          eph_pub = ephemeral_public C ephemeral_secret;
          sig = ed_sign C signing_key (signed_message signed_region eph_pub server_static_pubkey);
          inner = signed_region @ sig;
          wire = seal_with_ephemeral C inner server_static_pubkey ephemeral_secret
      in wire @ padding)"

text \<open>\<open>build\<close> draws the padding length from \<open>r\<close> and its bytes from \<open>fill\<close>.\<close>

definition build ::
    "crypto \<Rightarrow> u32 \<Rightarrow> (nat \<Rightarrow> bytes) \<Rightarrow> bytes \<Rightarrow> bytes \<Rightarrow> SpaMode \<Rightarrow> u64 \<Rightarrow> u64 \<Rightarrow> SpaAllowIp \<Rightarrow> bytes
     \<Rightarrow> bytes" where
  "build C r fill ephemeral_secret signing_key m ts ctr allow server_static_pubkey =
     (let padding = fill (random_padding_len r)
      in build_with_padding C ephemeral_secret signing_key m ts ctr allow padding server_static_pubkey)"

definition parse_inner :: "Opened \<Rightarrow> SpaError + SpaPacket" where
  "parse_inner opened =
     (let inner = plaintext opened in
      if subslice inner 0 2 \<noteq> VERSION_PREFIX then Inl InvalidVersion
      else
        let flags = inner ! 2 in
        if flags AND SPA_RESERVED_FLAGS \<noteq> 0 then Inl (InvalidFlags flags)
        else
          let (kid, o1) = read_array KEY_ID_LEN inner 3;
              (ts, o2) = read_array TIMESTAMP_LEN inner o1;
              (ctr, o3) = read_array COUNTER_LEN inner o2;
              (ip, o4) = read_array ALLOW_IP_LEN inner o3;
              (sig, o5) = read_array SIGNATURE_LEN inner o4
          in Inr \<lparr>mode = mode_from_flags flags,
                  use_packet_source = (flags AND SPA_FLAG_USE_PACKET_SOURCE \<noteq> 0),
                  pkt_key_id = kid, timestamp_ms = from_be_bytes ts, counter = from_be_bytes ctr,
                  allow_ip = from_be_bytes ip, signature = sig,
                  ephemeral_pub = opened_ephemeral opened\<rparr>)"

definition SpaPacket_open :: "crypto \<Rightarrow> bytes \<Rightarrow> bytes \<Rightarrow> SpaError + SpaPacket" where
  "SpaPacket_open C wire server_static_private =
     (if \<not> (SPA_MIN_LEN \<le> length wire \<and> length wire \<le> SPA_MAX_LEN)
      then Inl (InvalidLength (length wire))
      else
        let sealed_core = take SPA_SEALED_CORE_LEN wire in
        and_then (ok_or SealOpenFailed (seal_open C sealed_core server_static_private)) (\<lambda>opened.
          if length (plaintext opened) \<noteq> SPA_INNER_LEN then Inl SealOpenFailed
          else parse_inner opened))"

definition flags_byte :: "SpaPacket \<Rightarrow> u8" where
  "flags_byte p =
     mode_flag_bit (mode p) OR (if use_packet_source p then SPA_FLAG_USE_PACKET_SOURCE else 0)"

definition packet_signed_region :: "SpaPacket \<Rightarrow> bytes" where
  "packet_signed_region p =
     VERSION_PREFIX @ [flags_byte p] @ pkt_key_id p @ to_be_bytes64 (timestamp_ms p)
     @ to_be_bytes64 (counter p) @ to_be_bytes32 (allow_ip p)"

definition SpaPacket_verify :: "crypto \<Rightarrow> SpaPacket \<Rightarrow> bytes \<Rightarrow> bytes \<Rightarrow> SpaError + unit" where
  "SpaPacket_verify C p verifying_key server_static_pubkey =
     (let signed_region = packet_signed_region p in
      if ed_verify C verifying_key
           (signed_message signed_region (ephemeral_pub p) server_static_pubkey) (signature p)
      then Inr () else Inl BadSignature)"

section \<open>Flags\<close>

lemma u8_and_252: "(x :: u8) AND 252 = 0 \<longleftrightarrow> x \<in> {0, 1, 2, 3}"
proof -
  have "x = word_of_nat (unat x)" by simp
  moreover have "unat x \<in> set [0..<256]"
    using unat_u8_less [of x] by simp
  moreover have "\<forall>n \<in> set [0..<256]. (word_of_nat n :: u8) AND 252 = 0 \<longleftrightarrow>
      (word_of_nat n :: u8) \<in> {0, 1, 2, 3}"
    by code_simp
  ultimately show ?thesis by metis
qed

lemma reserved_free_iff: "x AND SPA_RESERVED_FLAGS = 0 \<longleftrightarrow> x \<in> {0, 1, 2, 3}"
proof -
  have "SPA_RESERVED_FLAGS = 252" by (simp add: spa_flag_defs)
  then show ?thesis using u8_and_252 [of x] by metis
qed

lemma built_flags:
  "(mode_flag_bit m OR allow_flag_bit a) AND SPA_RESERVED_FLAGS = 0"
  "mode_from_flags (mode_flag_bit m OR allow_flag_bit a) = m"
  "((mode_flag_bit m OR allow_flag_bit a) AND SPA_FLAG_USE_PACKET_SOURCE \<noteq> 0) \<longleftrightarrow> a = PacketSource"
  by (cases m; cases a; simp add: spa_flag_defs mode_from_flags_def)+

lemma flags_byte_parsed:
  assumes "flags AND SPA_RESERVED_FLAGS = 0"
  shows "mode_flag_bit (mode_from_flags flags) OR
           (if flags AND SPA_FLAG_USE_PACKET_SOURCE \<noteq> 0 then SPA_FLAG_USE_PACKET_SOURCE else 0) = flags"
proof -
  have "flags \<in> {0, 1, 2, 3}" using assms by (simp only: reserved_free_iff)
  then show ?thesis
    by (elim insertE emptyE) (simp_all add: mode_from_flags_def spa_flag_defs)
qed

section \<open>Layout\<close>

lemma length_ip_bytes [simp, len_simps]: "length (ip_bytes a) = 4"
  by (cases a) (simp_all add: ALLOW_IP_LEN_def)

lemma length_VERSION_PREFIX [simp, len_simps]: "length VERSION_PREFIX = 2"
  by (simp add: VERSION_PREFIX_def)

lemma ip_bytes_PacketSource: "ip_bytes PacketSource = to_be_bytes32 0"
  by (simp add: ALLOW_IP_LEN_def to_be_bytes32_def be_bytes_zero)

lemma from_ip_bytes [simp]:
  "from_be_bytes (ip_bytes (Explicit ip)) = ip" "from_be_bytes (ip_bytes PacketSource) = (0 :: u32)"
  by (simp_all only: ip_bytes.simps(1) ip_bytes_PacketSource from_to_be_bytes)

lemma inner_shape:
  assumes "length kid = 8" "length ts = 8" "length ctr = 8" "length ip = 4" "length sig = 64"
  shows "subslice (VERSION_PREFIX @ [fl] @ kid @ ts @ ctr @ ip @ sig) 0 2 = VERSION_PREFIX"
    and "(VERSION_PREFIX @ [fl] @ kid @ ts @ ctr @ ip @ sig) ! 2 = fl"
    and "subslice (VERSION_PREFIX @ [fl] @ kid @ ts @ ctr @ ip @ sig) 3 11 = kid"
    and "subslice (VERSION_PREFIX @ [fl] @ kid @ ts @ ctr @ ip @ sig) 11 19 = ts"
    and "subslice (VERSION_PREFIX @ [fl] @ kid @ ts @ ctr @ ip @ sig) 19 27 = ctr"
    and "subslice (VERSION_PREFIX @ [fl] @ kid @ ts @ ctr @ ip @ sig) 27 31 = ip"
    and "subslice (VERSION_PREFIX @ [fl] @ kid @ ts @ ctr @ ip @ sig) 31 95 = sig"
  using assms by (simp_all add: subslice_def VERSION_PREFIX_def nth_append)

lemma parse_inner_built:
  assumes "length kid = 8" "length ts = 8" "length ctr = 8" "length ip = 4" "length sig = 64"
    and "fl AND SPA_RESERVED_FLAGS = 0"
  shows "parse_inner \<lparr>plaintext = VERSION_PREFIX @ [fl] @ kid @ ts @ ctr @ ip @ sig, opened_ephemeral = e\<rparr> =
         Inr \<lparr>mode = mode_from_flags fl, use_packet_source = (fl AND SPA_FLAG_USE_PACKET_SOURCE \<noteq> 0),
              pkt_key_id = kid, timestamp_ms = from_be_bytes ts, counter = from_be_bytes ctr,
              allow_ip = from_be_bytes ip, signature = sig, ephemeral_pub = e\<rparr>"
  using assms(6) inner_shape [OF assms(1-5), of fl]
  by (simp add: parse_inner_def read_array_def spa_len_defs Let_def del: append_Cons append_Nil)

text \<open>
  A parsed record is canonical: serialising it again, as \<open>verify\<close> does, gives back exactly the
  bytes that were opened, so no two different inner records parse to the same packet.
\<close>

lemma parse_inner_canonical:
  assumes "parse_inner opened = Inr p" and "length (plaintext opened) = SPA_INNER_LEN"
  shows "packet_signed_region p @ signature p = plaintext opened"
    and "ephemeral_pub p = opened_ephemeral opened"
    and "length (pkt_key_id p) = 8" and "length (signature p) = 64"
proof -
  let ?x = "plaintext opened"
  have len: "length ?x = 95"
    using assms(2) by (simp add: spa_len_defs)
  have ver: "subslice ?x 0 2 = VERSION_PREFIX" and res: "?x ! 2 AND SPA_RESERVED_FLAGS = 0"
    and p: "p = \<lparr>mode = mode_from_flags (?x ! 2),
                 use_packet_source = (?x ! 2 AND SPA_FLAG_USE_PACKET_SOURCE \<noteq> 0),
                 pkt_key_id = subslice ?x 3 11, timestamp_ms = from_be_bytes (subslice ?x 11 19),
                 counter = from_be_bytes (subslice ?x 19 27), allow_ip = from_be_bytes (subslice ?x 27 31),
                 signature = subslice ?x 31 95, ephemeral_pub = opened_ephemeral opened\<rparr>"
    using assms(1) by (auto simp: parse_inner_def read_array_def spa_len_defs Let_def split: if_splits)
  have one: "[?x ! 2] = subslice ?x 2 3"
    using len by (simp add: subslice_def take_Suc_conv_app_nth hd_drop_conv_nth take_Suc hd_conv_nth)
  have fl: "flags_byte p = ?x ! 2"
    using flags_byte_parsed [OF res] by (simp add: p flags_byte_def)
  have "packet_signed_region p @ signature p =
      subslice ?x 0 2 @ subslice ?x 2 3 @ subslice ?x 3 11 @ subslice ?x 11 19 @ subslice ?x 19 27
      @ subslice ?x 27 31 @ subslice ?x 31 95"
    unfolding packet_signed_region_def fl one ver using len by (simp add: p to_from_be_bytes)
  also have "\<dots> = subslice ?x 0 95"
    by (simp add: subslice_join)
  also have "\<dots> = ?x"
    using subslice_full [of ?x] len by simp
  finally show "packet_signed_region p @ signature p = ?x" .
  show "ephemeral_pub p = opened_ephemeral opened" "length (pkt_key_id p) = 8" "length (signature p) = 64"
    using len by (simp_all add: p)
qed

lemma SpaPacket_open_Inr:
  assumes "SpaPacket_open C wire sk = Inr p"
  obtains opened where "SPA_MIN_LEN \<le> length wire" "length wire \<le> SPA_MAX_LEN"
    "seal_open C (take SPA_SEALED_CORE_LEN wire) sk = Some opened"
    "length (plaintext opened) = SPA_INNER_LEN" "parse_inner opened = Inr p"
  using assms by (auto simp: SpaPacket_open_def Let_def result_eqs split: if_splits)

lemma SpaPacket_open_key_id: "SpaPacket_open C wire sk = Inr p \<Longrightarrow> length (pkt_key_id p) = 8"
  by (elim SpaPacket_open_Inr) (rule parse_inner_canonical)

section \<open>Built packets\<close>

definition built_packet ::
    "crypto \<Rightarrow> bytes \<Rightarrow> bytes \<Rightarrow> SpaMode \<Rightarrow> u64 \<Rightarrow> u64 \<Rightarrow> SpaAllowIp \<Rightarrow> bytes \<Rightarrow> SpaPacket" where
  "built_packet C eph sk m ts ctr allow server_pub =
     \<lparr>mode = m, use_packet_source = (allow = PacketSource),
      pkt_key_id = key_id_for_public_key C (ed_public C sk), timestamp_ms = ts, counter = ctr,
      allow_ip = (case allow of Explicit ip \<Rightarrow> ip | PacketSource \<Rightarrow> 0),
      signature = ed_sign C sk (signed_message
        (VERSION_PREFIX @ [mode_flag_bit m OR allow_flag_bit allow] @
         key_id_for_public_key C (ed_public C sk) @ to_be_bytes64 ts @ to_be_bytes64 ctr @ ip_bytes allow)
        (ephemeral_public C eph) server_pub),
      ephemeral_pub = ephemeral_public C eph\<rparr>"

lemma length_build_with_padding:
  "crypto_complete C \<Longrightarrow>
   length (build_with_padding C eph sk m ts ctr allow padding spub) = SPA_SEALED_CORE_LEN + length padding"
  by (simp add: build_with_padding_def Let_def length_seal_with_ephemeral crypto_completeD
      crypto_complete_def ed_sign_len_def spa_len_defs)

lemma open_built:
  assumes C: "crypto_complete C" and pad: "length padding \<le> SPA_MAX_PADDING"
  shows "SpaPacket_open C (build_with_padding C eph sk m ts ctr allow padding (x25519_pub C priv)) priv =
         Inr (built_packet C eph sk m ts ctr allow (x25519_pub C priv))"
proof -
  let ?fl = "mode_flag_bit m OR allow_flag_bit allow"
  let ?kid = "key_id_for_public_key C (ed_public C sk)"
  let ?region = "VERSION_PREFIX @ [?fl] @ ?kid @ to_be_bytes64 ts @ to_be_bytes64 ctr @ ip_bytes allow"
  let ?sig = "ed_sign C sk (signed_message ?region (ephemeral_public C eph) (x25519_pub C priv))"
  let ?core = "seal_with_ephemeral C (?region @ ?sig) (x25519_pub C priv) eph"
  have kid: "length ?kid = 8" and sig: "length ?sig = 64"
    using C by (simp_all add: crypto_complete_def ed_sign_len_def)
  have wire: "build_with_padding C eph sk m ts ctr allow padding (x25519_pub C priv) = ?core @ padding"
    by (simp add: build_with_padding_def Let_def)
  have core: "length ?core = SPA_SEALED_CORE_LEN"
    using C kid sig by (simp add: length_seal_with_ephemeral spa_len_defs)
  have ip: "from_be_bytes (ip_bytes allow) = (case allow of Explicit ip \<Rightarrow> ip | PacketSource \<Rightarrow> 0)"
    by (cases allow) (simp_all del: ip_bytes.simps)
  have "parse_inner \<lparr>plaintext = ?region @ ?sig, opened_ephemeral = ephemeral_public C eph\<rparr> =
      Inr (built_packet C eph sk m ts ctr allow (x25519_pub C priv))"
    using parse_inner_built [OF kid _ _ _ sig built_flags(1),
        of "to_be_bytes64 ts" "to_be_bytes64 ctr" "ip_bytes allow" m allow "ephemeral_public C eph"]
    by (simp add: built_packet_def built_flags ip)
  then show ?thesis
    using pad kid sig core
    by (simp add: SpaPacket_open_def wire Let_def seal_open_sealed [OF C] spa_len_defs)
qed

lemma verify_built:
  assumes "crypto_complete C"
  shows "SpaPacket_verify C (built_packet C eph sk m ts ctr allow spub) (ed_public C sk) spub = Inr ()"
proof -
  have ip: "to_be_bytes32 (case allow of Explicit ip \<Rightarrow> ip | PacketSource \<Rightarrow> 0) = ip_bytes allow"
    by (cases allow) (simp_all add: ip_bytes_PacketSource del: ip_bytes.simps(2))
  have "(if allow = PacketSource then SPA_FLAG_USE_PACKET_SOURCE else 0) = allow_flag_bit allow"
    by (cases allow) simp_all
  then have "packet_signed_region (built_packet C eph sk m ts ctr allow spub) =
      VERSION_PREFIX @ [mode_flag_bit m OR allow_flag_bit allow] @
      key_id_for_public_key C (ed_public C sk) @ to_be_bytes64 ts @ to_be_bytes64 ctr @ ip_bytes allow"
    by (simp add: packet_signed_region_def built_packet_def flags_byte_def ip)
  then show ?thesis
    using crypto_completeD(7) [OF assms] by (simp add: SpaPacket_verify_def built_packet_def)
qed

lemma build_is_padded:
  assumes "\<And>n. length (fill n) = n"
  obtains padding where "length padding \<le> SPA_MAX_PADDING"
    and "build C r fill eph sk m ts ctr allow spub = build_with_padding C eph sk m ts ctr allow padding spub"
proof (rule that)
  show "length (fill (random_padding_len r)) \<le> SPA_MAX_PADDING"
    by (simp add: assms random_padding_len_def spa_len_defs less_Suc_eq_le [symmetric])
  show "build C r fill eph sk m ts ctr allow spub =
      build_with_padding C eph sk m ts ctr allow (fill (random_padding_len r)) spub"
    by (simp add: build_def)
qed

section \<open>Properties\<close>

text \<open>
  C32. A packet the client builds for a server opens at that server with every field as
  given (mode, address mode, key identifier, timestamp, counter, address), and its
  signature verifies under the client's public key and the server's public key.
\<close>

theorem build_open_verify:
  assumes "crypto_complete C" and "\<forall>n. length (fill n) = n"
  shows "\<exists>p. SpaPacket_open C (build C r fill eph sk m ts ctr allow (x25519_pub C priv)) priv = Inr p \<and>
         SpaPacket_verify C p (ed_public C sk) (x25519_pub C priv) = Inr () \<and>
         mode p = m \<and> use_packet_source p = (allow = PacketSource) \<and>
         pkt_key_id p = key_id_for_public_key C (ed_public C sk) \<and>
         timestamp_ms p = ts \<and> counter p = ctr \<and>
         (\<forall>ip. allow = Explicit ip \<longrightarrow> allow_ip p = ip)"
proof -
  obtain padding where "length padding \<le> SPA_MAX_PADDING"
    and "build C r fill eph sk m ts ctr allow (x25519_pub C priv) =
         build_with_padding C eph sk m ts ctr allow padding (x25519_pub C priv)"
    using build_is_padded assms(2) by metis
  then show ?thesis
    using open_built [OF assms(1)] verify_built [OF assms(1)]
    by (intro exI [of _ "built_packet C eph sk m ts ctr allow (x25519_pub C priv)"])
      (auto simp: built_packet_def)
qed

theorem build_open_verify_witness:
  "\<exists>p. SpaPacket_open toy_crypto (build toy_crypto 7 (\<lambda>n. replicate n 0) [9] [1] Udp 1000 42
          (Explicit 0xCB007107) (x25519_pub toy_crypto [5])) [5] = Inr p \<and>
       SpaPacket_verify toy_crypto p (ed_public toy_crypto [1]) (x25519_pub toy_crypto [5]) = Inr () \<and>
       counter p = 42 \<and> allow_ip p = 0xCB007107"
  using build_open_verify [OF toy_crypto_complete, of "\<lambda>n. replicate n 0" 7 "[9]" "[1]" Udp 1000 42
      "Explicit 0xCB007107" "[5]"] by auto

text \<open>
  Every built packet has a length the kernel pre-filter and the server accept: between 143
  and 176 bytes, whatever the random padding.
\<close>

theorem build_length_bounds:
  assumes "crypto_complete C" and "\<forall>n. length (fill n) = n"
  shows "SPA_MIN_LEN \<le> length (build C r fill eph sk m ts ctr allow spub) \<and>
         length (build C r fill eph sk m ts ctr allow spub) \<le> SPA_MAX_LEN \<and>
         SPA_MIN_LEN = BPF_SPA_MIN_LEN \<and> SPA_MAX_LEN = BPF_SPA_MAX_LEN"
proof -
  obtain padding where "length padding \<le> SPA_MAX_PADDING"
    and "build C r fill eph sk m ts ctr allow spub = build_with_padding C eph sk m ts ctr allow padding spub"
    using build_is_padded assms(2) by metis
  then show ?thesis
    using length_build_with_padding [OF assms(1)] spa_length_windows_agree
    by (simp add: spa_len_defs)
qed

theorem build_length_bounds_witness:
  "SPA_MIN_LEN \<le> length (build toy_crypto 40 (\<lambda>n. replicate n 1) [9] [1] Https 5 6 PacketSource [3]) \<and>
   length (build toy_crypto 40 (\<lambda>n. replicate n 1) [9] [1] Https 5 6 PacketSource [3]) \<le> SPA_MAX_LEN"
  using build_length_bounds [OF toy_crypto_complete, of "\<lambda>n. replicate n 1" 40 "[9]" "[1]" Https 5 6
      PacketSource "[3]"] by simp

text \<open>
  C33. An opened packet is canonical: the region \<open>verify\<close> signs over, followed by the
  signature, is exactly the decrypted inner record, and the bound ephemeral key is the one on
  the wire. So two records that open to equal packets carry equal inner bytes.
\<close>

theorem open_is_canonical:
  assumes "SpaPacket_open C wire priv = Inr p"
  shows "\<exists>opened. seal_open C (take SPA_SEALED_CORE_LEN wire) priv = Some opened \<and>
           packet_signed_region p @ signature p = plaintext opened \<and>
           ephemeral_pub p = take SPA_EPHEMERAL_LEN wire \<and>
           length (packet_signed_region p) = SPA_INNER_SIGNED_LEN"
proof -
  obtain opened where o: "seal_open C (take SPA_SEALED_CORE_LEN wire) priv = Some opened"
    and len: "length (plaintext opened) = SPA_INNER_LEN" and p: "parse_inner opened = Inr p"
    using assms by (rule SpaPacket_open_Inr)
  note canon = parse_inner_canonical [OF p len]
  have "length (packet_signed_region p) = SPA_INNER_SIGNED_LEN"
    using canon(3) by (simp add: packet_signed_region_def spa_len_defs)
  moreover have "ephemeral_pub p = take SPA_EPHEMERAL_LEN wire"
    using canon(2) seal_open_shape(2) [OF o] by (simp add: spa_len_defs min_def)
  ultimately show ?thesis
    using o canon(1) by blast
qed

theorem open_is_canonical_witness:
  "\<exists>p. SpaPacket_open toy_crypto (build_with_padding toy_crypto [9] [1] Udp 1000 42 PacketSource [7, 7]
         (x25519_pub toy_crypto [5])) [5] = Inr p \<and>
       length (packet_signed_region p) = SPA_INNER_SIGNED_LEN"
proof -
  have "SpaPacket_open toy_crypto (build_with_padding toy_crypto [9] [1] Udp 1000 42 PacketSource [7, 7]
         (x25519_pub toy_crypto [5])) [5] =
      Inr (built_packet toy_crypto [9] [1] Udp 1000 42 PacketSource (x25519_pub toy_crypto [5]))"
    by (rule open_built [OF toy_crypto_complete]) (simp add: spa_len_defs)
  then show ?thesis using open_is_canonical by blast
qed

end
