(* ===== verification/Spa_Verifier.thy ===== *)
theory Spa_Verifier
  imports Server_Keys Spa_Packet
begin

text \<open>
  \<open>ghostbro-server/src/spa.rs\<close>: the server's SPA verifier with its durable replay counters. The
  TOML form of the counter file is a parameter \<open>T\<close>, with the round trip of the \<open>toml\<close> crate as a
  named hypothesis.
\<close>

section \<open>Data\<close>

record toml_counters =
  toml_ser :: "(string, u64) hash_map \<Rightarrow> string option"
  toml_de :: "string \<Rightarrow> (string, u64) hash_map option"

text \<open>
  What \<open>toml\<close> promises for a table of counters with hexadecimal names: the text is a string that
  parses back to the same table, and serialising fails only on a value above the largest TOML
  integer.
\<close>

definition hex_names :: "(string, u64) hash_map \<Rightarrow> bool" where
  "hex_names m \<longleftrightarrow> hm_ok m \<and> (\<forall>k \<in> set (hm_keys m). set k \<subseteq> digit_char ` {..<16})"

definition toml_roundtrip :: "toml_counters \<Rightarrow> bool" where
  "toml_roundtrip T \<longleftrightarrow>
     (\<forall>m s. hex_names m \<longrightarrow> toml_ser T m = Some s \<longrightarrow> valid_str s \<and>
        (\<exists>m'. toml_de T s = Some m' \<and> hm_ok m' \<and> (\<forall>k. hm_get m' k = hm_get m k)))"

definition toml_total :: "toml_counters \<Rightarrow> bool" where
  "toml_total T \<longleftrightarrow>
     (\<forall>m. hex_names m \<longrightarrow> (\<forall>k v. hm_get m k = Some v \<longrightarrow> unat v < 2 ^ 63) \<longrightarrow> toml_ser T m \<noteq> None)"

record SpaVerifier =
  clients :: "(key_id, AuthorizedClient) hash_map"
  highest_counters :: "(key_id, u64) hash_map"
  time_window_ms :: u64
  counter_state_path :: "path option"
  server_static_private :: bytes
  server_static_pubkey :: bytes

record SpaAccept =
  acc_key_id :: key_id
  acc_client_id :: u16
  acc_client_name :: string
  acc_noise_public_key :: bytes
  acc_mode :: SpaMode
  acc_counter :: u64
  acc_max_concurrent_sessions :: "u16 option"

datatype counter_error =
    CounterMissing
  | CounterRead io_error
  | CounterParse
  | CounterBadKey string
  | CounterSerialize
  | CounterCreateDir io_error
  | CounterCreate io_error
  | CounterWrite io_error
  | CounterFsync io_error
  | CounterRename io_error

datatype SpaVerifyError =
    Parse SpaError
  | UnknownKey string
  | UnauthorizedTier string
  | TimestampOutsideWindow
  | SourceIpMismatch
  | ReplayedCounter
  | Persist counter_error

section \<open>The counter file\<close>

text \<open>The loop over the parsed entries, stopping at a malformed name.\<close>

fun insert_counters :: "(string \<times> u64) list \<Rightarrow> (key_id, u64) hash_map
    \<Rightarrow> counter_error + (key_id, u64) hash_map" where
  "insert_counters [] counters = Inr counters"
| "insert_counters ((key_id, ctr) # rest) counters =
     and_then (ok_or (CounterBadKey key_id) (key_id_from_hex key_id)) (\<lambda>k.
       insert_counters rest (hm_insert k ctr counters))"

definition parse_counters :: "toml_counters \<Rightarrow> string \<Rightarrow> counter_error + (key_id, u64) hash_map" where
  "parse_counters T contents =
     and_then (ok_or CounterParse (toml_de T contents)) (\<lambda>state. insert_counters state hm_empty)"

definition load_counter_state ::
    "toml_counters \<Rightarrow> path \<Rightarrow> bool \<Rightarrow> (host, counter_error, (key_id, u64) hash_map) comp" where
  "load_counter_state T path allow_missing_state h =
     (case io_read_to_string path h of
        (Inr contents, h') \<Rightarrow> (parse_counters T contents, h')
      | (Inl NotFound, h') \<Rightarrow>
          if allow_missing_state then (Inr hm_empty, h') else (Inl CounterMissing, h')
      | (Inl e, h') \<Rightarrow> (Inl (CounterRead e), h'))"

definition counter_table :: "(key_id, u64) hash_map \<Rightarrow> (string, u64) hash_map" where
  "counter_table counters = hm_collect (map (\<lambda>(key_id, ctr). (key_id_hex key_id, ctr)) counters)"

definition create_parent :: "path \<Rightarrow> (host, counter_error, unit) comp" where
  "create_parent path =
     (case parent path of
        None \<Rightarrow> c_lift (Inr ())
      | Some d \<Rightarrow> c_map_err CounterCreateDir (io_create_dir_all d))"

definition write_temp :: "path \<Rightarrow> bytes \<Rightarrow> (host, counter_error, unit) comp" where
  "write_temp temp_path contents =
     c_bind (c_map_err CounterCreate (io_create temp_path)) (\<lambda>_.
     c_bind (c_map_err CounterWrite (io_write_all temp_path contents)) (\<lambda>_.
       c_map_err CounterFsync (io_sync_all temp_path)))"

definition save_counter_state ::
    "toml_counters \<Rightarrow> path \<Rightarrow> (key_id, u64) hash_map \<Rightarrow> (host, counter_error, unit) comp" where
  "save_counter_state T path counters =
     c_bind (c_lift (ok_or CounterSerialize (toml_ser T (counter_table counters)))) (\<lambda>contents.
     c_bind (create_parent path) (\<lambda>_.
     let temp_path = with_extension path ''tmp'' in
     c_bind (write_temp temp_path (as_bytes contents)) (\<lambda>_.
       c_map_err CounterRename (io_rename temp_path path))))"

section \<open>The verifier\<close>

definition index_clients :: "AuthorizedClient list \<Rightarrow> (key_id, AuthorizedClient) hash_map" where
  "index_clients cs = hm_collect (map (\<lambda>client. (client_key_id client, client)) cs)"

definition from_counters ::
    "crypto \<Rightarrow> AuthorizedClient list \<Rightarrow> u64 \<Rightarrow> (key_id, u64) hash_map \<Rightarrow> path option \<Rightarrow> bytes \<Rightarrow> SpaVerifier" where
  "from_counters C cs time_window_seconds counters path private_key =
     \<lparr>clients = index_clients cs, highest_counters = counters,
      time_window_ms = saturating_mul time_window_seconds 1000, counter_state_path = path,
      server_static_private = private_key,
      server_static_pubkey = x25519_public_from_private C private_key\<rparr>"

definition SpaVerifier_new :: "crypto \<Rightarrow> AuthorizedClient list \<Rightarrow> u64 \<Rightarrow> bytes \<Rightarrow> SpaVerifier" where
  "SpaVerifier_new C cs time_window_seconds private_key =
     from_counters C cs time_window_seconds hm_empty None private_key"

definition SpaVerifier_load ::
    "crypto \<Rightarrow> toml_counters \<Rightarrow> AuthorizedClient list \<Rightarrow> u64 \<Rightarrow> path \<Rightarrow> bytes \<Rightarrow> bool
     \<Rightarrow> (host, counter_error, SpaVerifier) comp" where
  "SpaVerifier_load C T cs time_window_seconds path private_key allow_missing_state =
     c_bind (load_counter_state T path allow_missing_state) (\<lambda>counters.
       c_lift (Inr (from_counters C cs time_window_seconds counters (Some path) private_key)))"

definition reload_clients :: "AuthorizedClient list \<Rightarrow> SpaVerifier \<Rightarrow> key_id list \<times> SpaVerifier" where
  "reload_clients cs v =
     (let old_key_ids = hm_keys (clients v);
          v' = v\<lparr>clients := index_clients cs\<rparr>
      in (filter (\<lambda>key_id. hm_get (clients v') key_id = None) old_key_ids, v'))"

definition persist_counters :: "toml_counters \<Rightarrow> SpaVerifier \<Rightarrow> (host, SpaVerifyError, unit) comp" where
  "persist_counters T v =
     (case counter_state_path v of
        None \<Rightarrow> c_lift (Inr ())
      | Some path \<Rightarrow> c_map_err Persist (save_counter_state T path (highest_counters v)))"

text \<open>The checks of \<open>verify\<close> before its first effect, in the order of the code.\<close>

definition authorize ::
    "crypto \<Rightarrow> SpaVerifier \<Rightarrow> bytes \<Rightarrow> u32 \<Rightarrow> u64 \<Rightarrow> SpaVerifyError + (SpaPacket \<times> AuthorizedClient)" where
  "authorize C v payload observed_src_ip now_ms =
     and_then (map_err Parse (SpaPacket_open C payload (server_static_private v))) (\<lambda>packet.
     and_then (ok_or (UnknownKey (key_id_hex (pkt_key_id packet)))
                     (hm_get (clients v) (pkt_key_id packet))) (\<lambda>client.
     and_then (map_err Parse (SpaPacket_verify C packet (client_public_key client)
                                (server_static_pubkey v))) (\<lambda>_.
     and_then (ensure (client_tier client = Full) (UnauthorizedTier (client_name client))) (\<lambda>_.
     let drift = abs_diff now_ms (timestamp_ms packet) in
     and_then (ensure (drift \<le> time_window_ms v) TimestampOutsideWindow) (\<lambda>_.
     and_then (ensure (use_packet_source packet \<or> allow_ip packet = observed_src_ip)
                      SourceIpMismatch) (\<lambda>_.
     let highest_counter = case_option 0 id (hm_get (highest_counters v) (pkt_key_id packet)) in
     and_then (ensure (highest_counter < counter packet) ReplayedCounter) (\<lambda>_.
       Inr (packet, client))))))))"

definition SpaVerifier_verify ::
    "crypto \<Rightarrow> toml_counters \<Rightarrow> bytes \<Rightarrow> u32 \<Rightarrow> u64
     \<Rightarrow> (SpaVerifier \<times> host, SpaVerifyError, SpaAccept) comp" where
  "SpaVerifier_verify C T payload observed_src_ip now_ms = (\<lambda>(v, h).
     case authorize C v payload observed_src_ip now_ms of
       Inl e \<Rightarrow> (Inl e, (v, h))
     | Inr (packet, client) \<Rightarrow>
         let v' = v\<lparr>highest_counters :=
                      hm_insert (pkt_key_id packet) (counter packet) (highest_counters v)\<rparr> in
         case persist_counters T v' h of
           (Inl e, h') \<Rightarrow> (Inl e, (v', h'))
         | (Inr _, h') \<Rightarrow>
             (Inr \<lparr>acc_key_id = pkt_key_id packet, acc_client_id = client_id client,
                   acc_client_name = client_name client,
                   acc_noise_public_key = client_noise_public_key client,
                   acc_mode = mode packet, acc_counter = counter packet,
                   acc_max_concurrent_sessions = client_max_concurrent_sessions client\<rparr>,
              (v', h')))"

section \<open>Reading back what was saved\<close>

definition counter_of :: "(key_id, u64) hash_map \<Rightarrow> key_id \<Rightarrow> u64" where
  "counter_of m k = case_option 0 id (hm_get m k)"

definition ids_ok :: "(key_id, u64) hash_map \<Rightarrow> bool" where
  "ids_ok m \<longleftrightarrow> hm_ok m \<and> (\<forall>k v. hm_get m k = Some v \<longrightarrow> length k = 8)"

text \<open>The counters the file at a path holds for the next start.\<close>

definition stored_counters :: "toml_counters \<Rightarrow> host \<Rightarrow> path \<Rightarrow> (key_id, u64) hash_map option" where
  "stored_counters T h path =
     (case content h path of
        None \<Rightarrow> None
      | Some c \<Rightarrow> (case from_utf8 c of
            None \<Rightarrow> None
          | Some s \<Rightarrow> (case parse_counters T s of Inl _ \<Rightarrow> None | Inr m \<Rightarrow> Some m)))"

lemma counter_table_get: "hm_ok m \<Longrightarrow> hm_get (counter_table m) (key_id_hex k) = hm_get m k"
proof -
  assume m: "hm_ok m"
  let ?f = "\<lambda>(k, c). (key_id_hex k, c)"
  have fst_f: "map fst (map ?f m) = map key_id_hex (map fst m)"
    by (simp add: comp_def split_def)
  have "distinct (map fst (map ?f m))"
    using m hex.distinct_map_enc [of "map fst m"] unfolding fst_f hm_ok_def by simp
  then have "hm_get (counter_table m) (key_id_hex k) = map_of (map ?f m) (key_id_hex k)"
    by (simp add: counter_table_def hm_get_collect map_of_rev_distinct)
  also have "\<dots> = map_of m k"
    using key_id_hex_inject by (induction m) (auto split: prod.splits)
  finally show ?thesis by (simp add: hm_get_def)
qed

lemma counter_table_names: "hm_get (counter_table m) s = Some v \<Longrightarrow> \<exists>k. s = key_id_hex k \<and> k \<in> set (hm_keys m)"
  by (auto simp: counter_table_def hm_get_collect hm_keys_def dest!: map_of_SomeD) force

lemma hex_names_counter_table: "hex_names (counter_table m)"
  unfolding hex_names_def
proof
  show "hm_ok (counter_table m)" by (simp add: counter_table_def)
  show "\<forall>k \<in> set (hm_keys (counter_table m)). set k \<subseteq> digit_char ` {..<16}"
  proof
    fix s assume "s \<in> set (hm_keys (counter_table m))"
    then obtain k where "s = key_id_hex k"
      using counter_table_names by (fastforce simp: hm.in_keys_iff)
    then show "set s \<subseteq> digit_char ` {..<16}" by (simp only: set_key_id_hex)
  qed
qed

lemma insert_counters_Inr:
  assumes "insert_counters es r0 = Inr r" and "ids_ok r0"
  shows "ids_ok r"
  using assms
proof (induction es r0 rule: insert_counters.induct)
  case (2 key_id ctr rest counters)
  obtain k where k: "key_id_from_hex key_id = Some k" "insert_counters rest (hm_insert k ctr counters) = Inr r"
    using "2.prems"(1) by (auto simp: result_eqs)
  have "length k = 8" using k(1) by (rule length_key_id_from_hex)
  then have "ids_ok (hm_insert k ctr counters)"
    using "2.prems"(2) by (simp add: ids_ok_def)
  with k "2.IH" show ?case by simp
qed simp

lemma insert_counters_hex:
  assumes "distinct (map fst es)" and "\<forall>s \<in> set (map fst es). \<exists>k. s = key_id_hex k \<and> length k = 8"
  shows "\<exists>r. insert_counters es r0 = Inr r \<and>
    (\<forall>k. hm_get r k = (case map_of es (key_id_hex k) of Some v \<Rightarrow> Some v | None \<Rightarrow> hm_get r0 k))"
  using assms
proof (induction es arbitrary: r0)
  case (Cons e es)
  obtain s v where e: "e = (s, v)" by (cases e)
  obtain k where k: "s = key_id_hex k" "length k = 8"
    using Cons.prems(2) e by auto
  obtain r where r: "insert_counters es (hm_insert k v r0) = Inr r"
    and get: "\<And>k'. hm_get r k' = (case map_of es (key_id_hex k') of Some v \<Rightarrow> Some v
               | None \<Rightarrow> hm_get (hm_insert k v r0) k')"
    using Cons.IH [of "hm_insert k v r0"] Cons.prems by auto
  have "map_of es (key_id_hex k) = None"
    using Cons.prems(1) e k by (simp add: map_of_eq_None_iff)
  then show ?case
    using r get k by (auto simp: e key_id_hex_inject split: option.splits)
qed simp

lemma parse_saved_counters:
  assumes "toml_roundtrip T" and "ids_ok m" and "toml_ser T (counter_table m) = Some s"
  shows "valid_str s" and "\<exists>r. parse_counters T s = Inr r \<and> (\<forall>k. hm_get r k = hm_get m k)"
proof -
  have *: "valid_str s \<and> (\<exists>t. toml_de T s = Some t \<and> hm_ok t \<and> (\<forall>k. hm_get t k = hm_get (counter_table m) k))"
    using assms(1,3) hex_names_counter_table unfolding toml_roundtrip_def by blast
  then show "valid_str s" by blast
  obtain t where t: "toml_de T s = Some t" "hm_ok t"
    and get: "\<And>k. hm_get t k = hm_get (counter_table m) k"
    using * by blast
  have "\<exists>k. n = key_id_hex k \<and> length k = 8" if "n \<in> set (hm_keys t)" for n
    using that assms(2) counter_table_names get by (metis hm.in_keys_iff ids_ok_def)
  then obtain r where r: "insert_counters t hm_empty = Inr r"
    and rget: "\<And>k. hm_get r k = (case map_of t (key_id_hex k) of Some v \<Rightarrow> Some v | None \<Rightarrow> None)"
    using insert_counters_hex [of t hm_empty] t(2) unfolding hm_ok_def hm_keys_def
    by (metis hm.get_empty)
  have "hm_get r k = hm_get m k" for k
    using rget [of k] get [of "key_id_hex k"] counter_table_get [of m k] assms(2)
    by (simp add: hm_get_def ids_ok_def split: option.splits)
  then show "\<exists>r. parse_counters T s = Inr r \<and> (\<forall>k. hm_get r k = hm_get m k)"
    using r t by (simp add: parse_counters_def)
qed

section \<open>Saving\<close>

lemma keeps_create_parent: "keeps (\<lambda>h. content h q = c) (create_parent path)"
  by (auto simp: create_parent_def intro: keeps_io split: option.splits)

lemma keeps_write_temp: "q \<noteq> temp \<Longrightarrow> keeps (\<lambda>h. content h q = c) (write_temp temp bs)"
  unfolding write_temp_def by (intro keeps_bind keeps_map_err keeps_io)

lemma write_temp_Inr: "write_temp temp bs h = (Inr u, h') \<Longrightarrow> content h' temp = Some bs"
  by (auto simp: write_temp_def comp_eqs dest!: io_write_all_Inr io_sync_all_files)

lemma save_counter_state_Inr:
  assumes "save_counter_state T path m h = (Inr u, h')"
  obtains s where "toml_ser T (counter_table m) = Some s" "content h' path = Some (as_bytes s)"
proof -
  from assms obtain s h1 h2 where s: "toml_ser T (counter_table m) = Some s"
    and w: "write_temp (with_extension path ''tmp'') (as_bytes s) h1 = (Inr (), h2)"
    and r: "io_rename (with_extension path ''tmp'') path h2 = (Inr u, h')"
    by (auto simp: save_counter_state_def comp_eqs result_eqs Let_def)
  have "content h' path = Some (as_bytes s)"
    using write_temp_Inr [OF w] io_rename_Inr [OF r] by auto
  with s show thesis by (rule that)
qed

lemma save_counter_state_Inl:
  assumes "save_counter_state T path m h = (Inl e, h')" and "with_extension path ''tmp'' \<noteq> path"
  shows "content h' path = content h path"
proof -
  let ?temp = "with_extension path ''tmp''"
  let ?P = "\<lambda>h'. content h' path = content h path"
  have p: "?P h1" if "create_parent path h = (r, h1)" for r h1
    using keepsD [OF keeps_create_parent _ that] by blast
  have w: "?P h2" if "?P h1" "write_temp ?temp bs h1 = (r, h2)" for r bs h1 h2
    using keepsD [OF keeps_write_temp [OF assms(2) [symmetric]] _ that(2)] that(1) by blast
  have n: "?P h2" if "?P h1" "io_rename ?temp path h1 = (Inl d, h2)" for d h1 h2
    using that io_rename_Inl by metis
  from assms(1) consider "h' = h" | "create_parent path h = (Inl e, h')"
    | h1 s where "create_parent path h = (Inr (), h1)" "write_temp ?temp (as_bytes s) h1 = (Inl e, h')"
    | h1 s h2 d where "create_parent path h = (Inr (), h1)"
        "write_temp ?temp (as_bytes s) h1 = (Inr (), h2)" "io_rename ?temp path h2 = (Inl d, h')"
    by (auto simp: save_counter_state_def comp_eqs result_eqs Let_def)
  then show ?thesis
    by cases (use p w n in blast)+
qed

lemma save_stores:
  assumes "toml_roundtrip T" and "ids_ok m" and "save_counter_state T path m h = (Inr u, h')"
  shows "\<exists>r. stored_counters T h' path = Some r \<and> (\<forall>k. hm_get r k = hm_get m k)"
proof -
  obtain s where s: "toml_ser T (counter_table m) = Some s" "content h' path = Some (as_bytes s)"
    using assms(3) by (rule save_counter_state_Inr)
  obtain r where "parse_counters T s = Inr r" "\<forall>k. hm_get r k = hm_get m k"
    using parse_saved_counters(2) [OF assms(1,2) s(1)] by blast
  then show ?thesis
    using s(2) parse_saved_counters(1) [OF assms(1,2) s(1)]
    by (simp add: stored_counters_def from_utf8_as_bytes)
qed

lemma stored_counters_cong: "content h path = content h' path \<Longrightarrow> stored_counters T h path = stored_counters T h' path"
  by (simp add: stored_counters_def)

lemma stored_ids_ok: "stored_counters T h path = Some m \<Longrightarrow> ids_ok m"
  by (auto simp: stored_counters_def parse_counters_def result_eqs ids_ok_def
      dest!: insert_counters_Inr split: option.splits sum.splits)

lemma load_counter_state_content:
  "load_counter_state T path init h = (r, h') \<Longrightarrow> content h' = content h"
  by (auto simp: load_counter_state_def dest!: io_read_to_string_pure
      split: prod.splits sum.splits io_error.splits if_splits)

lemma load_counter_state_Inr:
  assumes "load_counter_state T path init h = (Inr m, h')"
  shows "stored_counters T h path = Some m \<or> (init \<and> m = hm_empty \<and> content h path = None)"
  using assms
  by (auto simp: load_counter_state_def stored_counters_def io_read_to_string_def io_read_def io_call_def
      c_bind_def Let_def ok_or_def split: prod.splits sum.splits io_error.splits if_splits option.splits)

section \<open>Outcomes of \<open>verify\<close>\<close>

definition accepts :: "crypto \<Rightarrow> SpaVerifier \<Rightarrow> u32 \<Rightarrow> u64 \<Rightarrow> bytes \<Rightarrow> SpaPacket \<Rightarrow> AuthorizedClient \<Rightarrow> bool" where
  "accepts C v ip now payload p c \<longleftrightarrow>
     SpaPacket_open C payload (server_static_private v) = Inr p \<and>
     hm_get (clients v) (pkt_key_id p) = Some c \<and>
     SpaPacket_verify C p (client_public_key c) (server_static_pubkey v) = Inr () \<and>
     client_tier c = Full \<and>
     \<bar>int (unat now) - int (unat (timestamp_ms p))\<bar> \<le> int (unat (time_window_ms v)) \<and>
     (use_packet_source p \<or> allow_ip p = ip) \<and>
     counter_of (highest_counters v) (pkt_key_id p) < counter p"

lemma drift_le_iff: "abs_diff x y \<le> w \<longleftrightarrow> \<bar>int (unat x) - int (unat y)\<bar> \<le> int (unat w)"
proof -
  have "abs_diff x y \<le> w \<longleftrightarrow> int (unat (abs_diff x y)) \<le> int (unat w)"
    by (simp only: word_le_nat_alt of_nat_le_iff)
  then show ?thesis by (simp only: unat_abs_diff)
qed

lemma authorize_Inr_iff: "authorize C v payload ip now = Inr (p, c) \<longleftrightarrow> accepts C v ip now payload p c"
  unfolding authorize_def accepts_def drift_le_iff [symmetric] counter_of_def Let_def
  by (auto simp: result_eqs)

lemma authorize_not_Persist: "authorize C v payload ip now \<noteq> Inl (Persist e)"
  by (auto simp: authorize_def Let_def result_eqs)

lemma verify_Inr:
  assumes "SpaVerifier_verify C T payload ip now (v, h) = (Inr a, (v', h'))"
  obtains p c where "accepts C v ip now payload p c"
    and "v' = v\<lparr>highest_counters := hm_insert (pkt_key_id p) (counter p) (highest_counters v)\<rparr>"
    and "persist_counters T v' h = (Inr (), h')"
    and "a = \<lparr>acc_key_id = pkt_key_id p, acc_client_id = client_id c, acc_client_name = client_name c,
              acc_noise_public_key = client_noise_public_key c, acc_mode = mode p,
              acc_counter = counter p,
              acc_max_concurrent_sessions = client_max_concurrent_sessions c\<rparr>"
proof -
  from assms obtain p c where pc: "authorize C v payload ip now = Inr (p, c)"
    by (auto simp: SpaVerifier_verify_def split: sum.splits)
  moreover from this have "accepts C v ip now payload p c"
    by (simp add: authorize_Inr_iff)
  ultimately show thesis
    using assms that [of p c] by (auto simp: SpaVerifier_verify_def Let_def split: sum.splits prod.splits)
qed

lemma verify_Inl:
  assumes "SpaVerifier_verify C T payload ip now (v, h) = (Inl e, (v', h'))"
  obtains (rejected) "authorize C v payload ip now = Inl e" "v' = v" "h' = h"
  | (unsaved) p c d where "accepts C v ip now payload p c"
      "v' = v\<lparr>highest_counters := hm_insert (pkt_key_id p) (counter p) (highest_counters v)\<rparr>"
      "persist_counters T v' h = (Inl e, h')" "e = Persist d"
proof (cases "authorize C v payload ip now")
  case (Inl e')
  then have "authorize C v payload ip now = Inl e" "v' = v" "h' = h"
    using assms by (simp_all add: SpaVerifier_verify_def)
  then show thesis by (rule rejected)
next
  case (Inr pc)
  obtain p c where pc: "pc = (p, c)" by (cases pc)
  have acc: "accepts C v ip now payload p c" using Inr by (simp add: pc authorize_Inr_iff)
  have v': "v' = v\<lparr>highest_counters := hm_insert (pkt_key_id p) (counter p) (highest_counters v)\<rparr>"
    and per: "persist_counters T v' h = (Inl e, h')"
    using assms Inr by (auto simp: SpaVerifier_verify_def pc Let_def split: sum.splits prod.splits)
  from per obtain d where "e = Persist d"
    by (auto simp: persist_counters_def comp_eqs split: option.splits)
  with acc v' per show thesis by (rule unsaved)
qed

lemma accepts_key_id: "accepts C v ip now payload p c \<Longrightarrow> length (pkt_key_id p) = 8"
  by (auto simp: accepts_def intro: SpaPacket_open_key_id)

lemma ids_ok_insert: "ids_ok m \<Longrightarrow> length k = 8 \<Longrightarrow> ids_ok (hm_insert k x m)"
  by (simp add: ids_ok_def)

lemma counter_of_insert: "counter_of (hm_insert k x m) k' = (if k' = k then x else counter_of m k')"
  by (simp add: counter_of_def)

section \<open>Runs with restarts\<close>

text \<open>
  The life of a server at one counter file: knocks, key reloads, stops and starts in any order,
  with any clock, any source addresses and any refused file operation. The log holds the accepted
  packets, newest first. A stop right after a failed knock is a crash inside it.
\<close>

inductive verifier_run :: "crypto \<Rightarrow> toml_counters \<Rightarrow> path \<Rightarrow> SpaVerifier option \<Rightarrow> host \<Rightarrow> SpaAccept list \<Rightarrow> bool"
  for C T path where
  init: "verifier_run C T path None h []"
| start: "verifier_run C T path None h log \<Longrightarrow>
    SpaVerifier_load C T cs window path key allow_missing h = (r, h') \<Longrightarrow>
    verifier_run C T path (case r of Inl _ \<Rightarrow> None | Inr v \<Rightarrow> Some v) h' log"
| stop: "verifier_run C T path (Some v) h log \<Longrightarrow> verifier_run C T path None h log"
| reload: "verifier_run C T path (Some v) h log \<Longrightarrow>
    verifier_run C T path (Some (snd (reload_clients cs v))) h log"
| knock: "verifier_run C T path (Some v) h log \<Longrightarrow>
    SpaVerifier_verify C T payload ip now (v, h) = (r, (v', h')) \<Longrightarrow>
    verifier_run C T path (Some v') h' (case r of Inl _ \<Rightarrow> log | Inr a \<Rightarrow> a # log)"

definition logged :: "SpaAccept list \<Rightarrow> (key_id \<Rightarrow> u64) \<Rightarrow> bool" where
  "logged log f \<longleftrightarrow> (\<forall>a \<in> set log. acc_counter a \<le> f (acc_key_id a))"

definition newer_first :: "SpaAccept list \<Rightarrow> bool" where
  "newer_first log \<longleftrightarrow>
     sorted_wrt (\<lambda>a b. acc_key_id a = acc_key_id b \<longrightarrow> acc_counter b < acc_counter a) log"

definition disk_ok :: "toml_counters \<Rightarrow> path \<Rightarrow> host \<Rightarrow> SpaAccept list \<Rightarrow> bool" where
  "disk_ok T path h log \<longleftrightarrow>
     log = [] \<or> (\<exists>m. stored_counters T h path = Some m \<and> logged log (counter_of m))"

definition memory_ok :: "path \<Rightarrow> SpaVerifier \<Rightarrow> SpaAccept list \<Rightarrow> bool" where
  "memory_ok path v log \<longleftrightarrow>
     counter_state_path v = Some path \<and> ids_ok (highest_counters v) \<and>
     logged log (counter_of (highest_counters v))"

definition run_ok :: "toml_counters \<Rightarrow> path \<Rightarrow> SpaVerifier option \<Rightarrow> host \<Rightarrow> SpaAccept list \<Rightarrow> bool" where
  "run_ok T path vo h log \<longleftrightarrow> newer_first log \<and> disk_ok T path h log \<and>
     (\<forall>v. vo = Some v \<longrightarrow> memory_ok path v log)"

lemma logged_mono: "logged log f \<Longrightarrow> (\<And>k. f k \<le> g k) \<Longrightarrow> logged log g"
  unfolding logged_def using order_trans by blast

lemma counter_of_cong: "(\<And>k. hm_get m k = hm_get m' k) \<Longrightarrow> counter_of m = counter_of m'"
  by (auto simp: counter_of_def)

lemma memory_ok_loaded:
  assumes "disk_ok T path h log"
    and "SpaVerifier_load C T cs window path key init h = (Inr v, h')"
  shows "memory_ok path v log" and "content h' = content h"
proof -
  obtain m where m: "load_counter_state T path init h = (Inr m, h')"
    and v: "v = from_counters C cs window m (Some path) key"
    using assms(2) by (auto simp: SpaVerifier_load_def comp_eqs)
  show "content h' = content h" using m by (rule load_counter_state_content)
  have "stored_counters T h path = Some m \<or> (m = hm_empty \<and> stored_counters T h path = None)"
    using load_counter_state_Inr [OF m] by (auto simp: stored_counters_def)
  then show "memory_ok path v log"
    using assms(1) stored_ids_ok [of T h path m]
    by (auto simp: memory_ok_def v from_counters_def disk_ok_def logged_def ids_ok_def)
qed

lemma accept_extends:
  assumes "toml_roundtrip T" and "newer_first log" and "memory_ok path v log"
    and "SpaVerifier_verify C T payload ip now (v, h) = (Inr a, (v', h'))"
  shows "newer_first (a # log)" and "memory_ok path v' (a # log)" and "disk_ok T path h' (a # log)"
proof -
  obtain p c where acc: "accepts C v ip now payload p c"
    and v': "v' = v\<lparr>highest_counters := hm_insert (pkt_key_id p) (counter p) (highest_counters v)\<rparr>"
    and per: "persist_counters T v' h = (Inr (), h')"
    and a: "acc_key_id a = pkt_key_id p" "acc_counter a = counter p"
    using assms(4) by (rule verify_Inr) simp
  have gt: "counter_of (highest_counters v) (pkt_key_id p) < counter p"
    using acc by (simp add: accepts_def)
  have old: "logged log (counter_of (highest_counters v))" and path: "counter_state_path v' = Some path"
    and ids: "ids_ok (highest_counters v')"
    using assms(3) accepts_key_id [OF acc] by (simp_all add: memory_ok_def v' ids_ok_insert)
  show "newer_first (a # log)"
    using assms(2) old gt by (auto simp: newer_first_def logged_def a dest: le_less_trans)
  have new: "logged (a # log) (counter_of (highest_counters v'))"
    using old gt by (auto simp: logged_def v' counter_of_insert a intro: order_trans less_imp_le)
  then show "memory_ok path v' (a # log)"
    using ids path by (simp add: memory_ok_def)
  have "save_counter_state T path (highest_counters v') h = (Inr (), h')"
    using per path by (simp add: persist_counters_def c_map_err_Inr)
  then obtain r where r: "stored_counters T h' path = Some r"
    and "\<And>k. hm_get r k = hm_get (highest_counters v') k"
    using save_stores [OF assms(1) ids] by blast
  then have "counter_of r = counter_of (highest_counters v')"
    by (intro counter_of_cong)
  with new r show "disk_ok T path h' (a # log)"
    by (simp add: disk_ok_def)
qed

lemma reject_keeps:
  assumes "with_extension path ''tmp'' \<noteq> path" and "memory_ok path v log" and "disk_ok T path h log"
    and "SpaVerifier_verify C T payload ip now (v, h) = (Inl e, (v', h'))"
  shows "memory_ok path v' log" and "disk_ok T path h' log"
proof -
  show "memory_ok path v' log"
    using assms(4)
  proof (cases rule: verify_Inl)
    case (unsaved p c d)
    have "counter_of (highest_counters v) k \<le> counter_of (highest_counters v') k" for k
      using unsaved(1) by (simp add: unsaved(2) counter_of_insert accepts_def less_imp_le)
    then show ?thesis
      using assms(2) accepts_key_id [OF unsaved(1)]
      by (auto simp: memory_ok_def unsaved(2) ids_ok_insert intro: logged_mono)
  qed (use assms(2) in simp)
  have "content h' path = content h path"
    using assms(4)
  proof (cases rule: verify_Inl)
    case (unsaved p c d)
    then have "\<exists>d. save_counter_state T path (highest_counters v') h = (Inl d, h')"
      using assms(2) by (auto simp: memory_ok_def persist_counters_def comp_eqs)
    then show ?thesis using save_counter_state_Inl assms(1) by blast
  qed simp
  then show "disk_ok T path h' log"
    using assms(3) stored_counters_cong [of h' path h] by (simp add: disk_ok_def)
qed

lemma verifier_run_ok:
  assumes "verifier_run C T path vo h log" and "toml_roundtrip T" and "with_extension path ''tmp'' \<noteq> path"
  shows "run_ok T path vo h log"
  using assms(1)
proof (induction rule: verifier_run.induct)
  case (init h)
  then show ?case by (simp add: run_ok_def newer_first_def disk_ok_def)
next
  case (start h log cs window key allow_missing r h')
  have "content h' path = content h path"
    using start.hyps(2) by (auto simp: SpaVerifier_load_def c_bind_def dest: load_counter_state_content
        split: prod.splits sum.splits)
  then have "disk_ok T path h' log"
    using start.IH stored_counters_cong [of h' path h] by (simp add: run_ok_def disk_ok_def)
  then show ?case
    using start memory_ok_loaded(1) by (auto simp: run_ok_def split: sum.splits)
next
  case (stop v h log)
  then show ?case by (simp add: run_ok_def)
next
  case (reload v h log cs)
  then show ?case by (simp add: run_ok_def memory_ok_def reload_clients_def Let_def)
next
  case (knock v h log payload ip now r v' h')
  have ok: "newer_first log" "memory_ok path v log" "disk_ok T path h log"
    using knock.IH by (simp_all add: run_ok_def)
  show ?case
  proof (cases r)
    case (Inl e)
    then show ?thesis
      using reject_keeps [OF assms(3) ok(2,3)] knock.hyps(2) ok(1) by (simp add: run_ok_def)
  next
    case (Inr a)
    then show ?thesis
      using accept_extends [OF assms(2) ok(1,2)] knock.hyps(2) by (simp add: run_ok_def)
  qed
qed

section \<open>Success of a save and of a knock\<close>

definition writable :: "path \<Rightarrow> host \<Rightarrow> bool" where
  "writable path h \<longleftrightarrow> path \<noteq> [] \<and> path \<notin> set (dirs h) \<and> with_extension path ''tmp'' \<notin> set (dirs h) \<and>
     (\<forall>q \<in> set (path_prefixes (butlast path)). content h q = None)"

lemma path_prefixes_length: "q \<in> set (path_prefixes p) \<Longrightarrow> length q \<le> length p"
  by (auto simp: path_prefixes_def)

lemma save_counter_state_ok:
  assumes "quiet h" and "writable path h" and "toml_ser T (counter_table m) = Some s"
  shows "\<exists>h'. save_counter_state T path m h = (Inr (), h')"
proof -
  let ?temp = "with_extension path ''tmp''"
  let ?h1 = "h\<lparr>tick := tick h + 1, dirs := remdups (path_prefixes (butlast path) @ dirs h)\<rparr>"
  let ?h2 = "?h1\<lparr>tick := tick h + 2, files := hm_insert ?temp [] (files h)\<rparr>"
  let ?h3 = "?h2\<lparr>tick := tick h + 3, files := hm_insert ?temp (as_bytes s) (files ?h2)\<rparr>"
  let ?h4 = "?h3\<lparr>tick := tick h + 4\<rparr>"
  have ne: "path \<noteq> []" and par: "parent path = Some (butlast path)" "parent ?temp = Some (butlast path)"
    using assms(2) by (auto simp: writable_def parent_def with_extension_def)
  have len: "length ?temp = length path"
    using ne by (simp add: with_extension_def)
  have "q \<notin> set (path_prefixes (butlast path))" if "length q = length path" for q
    using path_prefixes_length [of q "butlast path"] that ne by (cases path) auto
  then have nd: "path \<notin> set (dirs ?h1)" "?temp \<notin> set (dirs ?h1)"
    using assms(2) len by (auto simp: writable_def)
  have pe: "butlast path \<in> set (dirs ?h1)"
    by (auto simp: path_prefixes_def intro!: image_eqI [of _ _ "length (butlast path)"])
  have 1: "create_parent path h = (Inr (), ?h1)"
    using assms(1,2) par(1) by (simp add: create_parent_def c_map_err_def quiet_steps writable_def)
  have 2: "io_create ?temp ?h1 = (Inr (), ?h2)"
    using assms(1) par(2) nd(2) pe by (simp add: io_create_def io_call_def parent_exists_def)
  have 3: "io_write_all ?temp (as_bytes s) ?h2 = (Inr (), ?h3)"
    using assms(1) by (simp add: io_write_all_def)
  have 4: "io_sync_all ?temp ?h3 = (Inr (), ?h4)"
    using assms(1) by (simp add: io_sync_all_def io_call_def)
  have "\<exists>h5. io_rename ?temp path ?h4 = (Inr (), h5)"
    using assms(1) par(1) nd(1) pe by (simp add: io_rename_def io_call_def parent_exists_def)
  then obtain h5 where 5: "io_rename ?temp path ?h4 = (Inr (), h5)" by blast
  have w: "write_temp ?temp (as_bytes s) ?h1 = (Inr (), ?h4)"
    unfolding write_temp_def
    by (simp only: c_bind_step [of _ _ "()"] c_map_err_step 2 3 4)
  show ?thesis
    unfolding save_counter_state_def Let_def assms(3) ok_or_Some
    by (rule exI [of _ h5]) (simp only: c_bind_step [of _ _ s] c_bind_step [of _ _ "()"] c_lift_run 1 w c_map_err_step 5)
qed

lemma verify_accepts:
  assumes "accepts C v ip now payload p c" and "counter_state_path v = Some path"
    and "quiet h" and "writable path h"
    and "toml_ser T (counter_table (hm_insert (pkt_key_id p) (counter p) (highest_counters v))) \<noteq> None"
  obtains a v' h' where "SpaVerifier_verify C T payload ip now (v, h) = (Inr a, (v', h'))"
    and "acc_key_id a = pkt_key_id p" and "acc_counter a = counter p" and "acc_client_id a = client_id c"
proof -
  let ?v = "v\<lparr>highest_counters := hm_insert (pkt_key_id p) (counter p) (highest_counters v)\<rparr>"
  obtain h' where "save_counter_state T path (highest_counters ?v) h = (Inr (), h')"
    using save_counter_state_ok [OF assms(3,4)] assms(5) by fastforce
  then have per: "persist_counters T ?v h = (Inr (), h')"
    using assms(2) by (simp add: persist_counters_def c_map_err_Inr)
  have auth: "authorize C v payload ip now = Inr (p, c)"
    using assms(1) by (simp add: authorize_Inr_iff)
  let ?a = "\<lparr>acc_key_id = pkt_key_id p, acc_client_id = client_id c, acc_client_name = client_name c,
              acc_noise_public_key = client_noise_public_key c, acc_mode = mode p,
              acc_counter = counter p,
              acc_max_concurrent_sessions = client_max_concurrent_sessions c\<rparr>"
  show thesis
    by (rule that [of ?a ?v h']) (simp_all add: SpaVerifier_verify_def auth per)
qed

section \<open>A concrete counter format\<close>

text \<open>One line of \<open>name=value;\<close> per entry: an instance of the hypotheses on the TOML crate.\<close>

definition toy_line :: "string \<times> u64 \<Rightarrow> string" where
  "toy_line kv = fst kv @ ''='' @ nat_digits (unat (snd kv))"

definition toy_entry :: "string \<Rightarrow> (string \<times> u64) option" where
  "toy_entry l = (case split_once CHR ''='' l of
     None \<Rightarrow> None
   | Some (k, d) \<Rightarrow> map_option (\<lambda>n. (k, word_of_nat n)) (from_str_radix (2 ^ 64) 10 d))"

definition toy_toml :: toml_counters where
  "toy_toml =
     \<lparr>toml_ser = (\<lambda>m. if \<forall>kv \<in> set m. unat (snd kv) < 2 ^ 63
                      then Some (concat (map (\<lambda>kv. toy_line kv @ '';'') m)) else None),
      toml_de = (\<lambda>s. those (map toy_entry (butlast (split_on CHR '';'' s))))\<rparr>"

lemma split_on_lines:
  "(\<And>l. l \<in> set ls \<Longrightarrow> c \<notin> set l) \<Longrightarrow> split_on c (concat (map (\<lambda>l. l @ [c]) ls)) = ls @ [[]]"
  by (induction ls) (auto simp: split_on_append)

lemma digit_char_plain: "d < 16 \<Longrightarrow> digit_char d \<noteq> CHR '';'' \<and> digit_char d \<noteq> CHR ''='' \<and>
    (of_char (digit_char d) :: nat) < 128"
proof -
  have "\<forall>d \<in> set [0..<16]. digit_char d \<noteq> CHR '';'' \<and> digit_char d \<noteq> CHR ''='' \<and>
    (of_char (digit_char d) :: nat) < 128"
    by code_simp
  then show "d < 16 \<Longrightarrow> ?thesis" by auto
qed

lemma digits_plain:
  assumes "c \<in> digit_char ` {..<16}"
  shows "c \<noteq> CHR '';''" and "c \<noteq> CHR ''=''" and "(of_char c :: nat) < 128"
  using assms digit_char_plain by (metis imageE lessThan_iff)+

lemma toy_entry_line: "set k \<subseteq> digit_char ` {..<16} \<Longrightarrow> toy_entry (toy_line (k, v)) = Some (k, v)"
proof -
  assume "set k \<subseteq> digit_char ` {..<16}"
  then have "CHR ''='' \<notin> set k"
    using digits_plain(2) by blast
  then have "split_once CHR ''='' (toy_line (k, v)) = Some (k, nat_digits (unat v))"
    by (simp add: toy_line_def split_once_append)
  moreover have "from_str_radix (2 ^ 64) 10 (nat_digits (unat v)) = Some (unat v)"
    using unat_less_pow [of v] by (intro from_str_radix_nat_digits) simp
  ultimately show ?thesis by (simp add: toy_entry_def)
qed

lemma toy_line_chars:
  assumes "set k \<subseteq> digit_char ` {..<16}" and "c \<in> set (toy_line (k, v))"
  shows "c \<noteq> CHR '';''" and "(of_char c :: nat) < 128"
proof -
  have "c \<in> digit_char ` {..<16} \<or> c = CHR ''=''"
    using assms set_nat_digits [of "unat v"] by (auto simp: toy_line_def)
  then show "c \<noteq> CHR '';''" "(of_char c :: nat) < 128"
    using digits_plain by auto
qed

lemma those_map_Some: "(\<And>x. x \<in> set xs \<Longrightarrow> f x = Some (g x)) \<Longrightarrow> those (map f xs) = Some (map g xs)"
  by (induction xs) auto

lemma toy_toml_laws: "toml_roundtrip toy_toml" "toml_total toy_toml"
proof -
  show "toml_total toy_toml"
    by (auto simp: toml_total_def toy_toml_def hex_names_def hm_get_in_set not_less) (metis not_less)
  show "toml_roundtrip toy_toml"
    unfolding toml_roundtrip_def
  proof (intro allI impI)
    fix m :: "(string, u64) hash_map" and s
    assume m: "hex_names m" and s: "toml_ser toy_toml m = Some s"
    have hex: "set k \<subseteq> digit_char ` {..<16}" if "(k, v) \<in> set m" for k v
      using m that by (force simp: hex_names_def hm_keys_def)
    have s': "s = concat (map (\<lambda>l. l @ '';'') (map toy_line m))"
      using s by (simp add: toy_toml_def comp_def split: if_splits)
    have ls: "l \<in> set (map toy_line m) \<Longrightarrow> c \<in> set l \<Longrightarrow> c \<noteq> CHR '';'' \<and> (of_char c :: nat) < 128" for l c
      using hex toy_line_chars by fastforce
    have "split_on CHR '';'' s = map toy_line m @ [[]]"
      unfolding s' using ls by (intro split_on_lines) blast
    then have "toml_de toy_toml s = Some m"
      using hex toy_entry_line those_map_Some [of m "\<lambda>kv. toy_entry (toy_line kv)" id]
      by (auto simp: toy_toml_def comp_def)
    moreover have "valid_str s"
    proof -
      have "(of_char c :: nat) < 128" if c: "c \<in> set s" for c
      proof (cases "c = CHR '';''")
        case False
        then obtain l where "l \<in> set (map toy_line m)" "c \<in> set l"
          using c unfolding s' by (auto split: if_splits)
        then show ?thesis using ls by blast
      qed simp
      then show ?thesis unfolding valid_str_def by (intro utf8_valid_ascii) simp
    qed
    ultimately show "valid_str s \<and> (\<exists>m'. toml_de toy_toml s = Some m' \<and> hm_ok m' \<and> (\<forall>k. hm_get m' k = hm_get m k))"
      using m by (auto simp: hex_names_def)
  qed
qed


section \<open>A client's knock\<close>

lemma accepts_built:
  assumes "crypto_complete C" and "length padding \<le> SPA_MAX_PADDING"
    and "server_static_private v = priv" and "server_static_pubkey v = x25519_pub C priv"
    and "hm_get (clients v) (key_id_for_public_key C (ed_public C sk)) = Some c"
    and "client_public_key c = ed_public C sk" and "client_tier c = Full"
    and "\<bar>int (unat now) - int (unat ts)\<bar> \<le> int (unat (time_window_ms v))"
    and "allow = PacketSource \<or> allow = Explicit ip"
    and "counter_of (highest_counters v) (key_id_for_public_key C (ed_public C sk)) < ctr"
  shows "accepts C v ip now (build_with_padding C eph sk m ts ctr allow padding (x25519_pub C priv))
           (built_packet C eph sk m ts ctr allow (x25519_pub C priv)) c"
  using assms open_built [OF assms(1,2)] verify_built [OF assms(1), of eph sk m ts ctr allow "x25519_pub C priv"]
  by (auto simp: accepts_def built_packet_def)

definition demo_client :: AuthorizedClient where
  "demo_client =
     \<lparr>client_name = ''laptop'', client_public_key = ed_public toy_crypto [1],
      client_noise_public_key = replicate 32 9,
      client_key_id = key_id_for_public_key toy_crypto (ed_public toy_crypto [1]), client_id = 1,
      client_tier = Full, client_max_concurrent_sessions = Some 2\<rparr>"

definition demo_path :: path where
  "demo_path = [''srv'', ''counters.toml'']"

definition demo_host :: host where
  "demo_host = \<lparr>files = hm_empty, dirs = [[]], tick = 0, fault = (\<lambda>_. None)\<rparr>"

definition demo_verifier :: SpaVerifier where
  "demo_verifier = from_counters toy_crypto [demo_client] 300 hm_empty (Some demo_path) [5]"

definition demo_payload :: bytes where
  "demo_payload = build_with_padding toy_crypto [9] [1] Udp 1000 42 (Explicit 7) [] (x25519_pub toy_crypto [5])"

lemma demo_host_ok: "quiet demo_host" "writable demo_path demo_host" "content demo_host q = None"
  by (auto simp: demo_host_def demo_path_def quiet_def writable_def with_extension_def)

lemma demo_path_ok: "with_extension demo_path ''tmp'' \<noteq> demo_path"
  by (simp add: demo_path_def with_extension_def file_stem_def rsplit_once_def split_once_def)

lemma demo_get: "hm_get (clients demo_verifier) (client_key_id demo_client) = Some demo_client"
  by (simp add: demo_verifier_def from_counters_def index_clients_def hm_get_collect)

lemma demo_accepts:
  "accepts toy_crypto demo_verifier 7 1500 demo_payload
     (built_packet toy_crypto [9] [1] Udp 1000 42 (Explicit 7) (x25519_pub toy_crypto [5])) demo_client"
  unfolding demo_payload_def
  using demo_get
  by (intro accepts_built toy_crypto_complete)
    (simp_all add: demo_verifier_def from_counters_def demo_client_def x25519_public_from_private_def
      saturating_mul_def counter_of_def)

lemma demo_fields:
  "counter_state_path demo_verifier = Some demo_path" "highest_counters demo_verifier = hm_empty"
  by (simp_all add: demo_verifier_def from_counters_def)

lemma demo_knock:
  assumes "quiet h" and "writable demo_path h"
  obtains a v' h' where "SpaVerifier_verify toy_crypto toy_toml demo_payload 7 1500 (demo_verifier, h) = (Inr a, (v', h'))"
    and "acc_counter a = 42" and "acc_client_id a = 1" and "acc_key_id a = client_key_id demo_client"
proof -
  let ?p = "built_packet toy_crypto [9] [1] Udp 1000 42 (Explicit 7) (x25519_pub toy_crypto [5])"
  have p: "counter ?p = 42" "pkt_key_id ?p = client_key_id demo_client" "client_id demo_client = 1"
    by (simp_all add: built_packet_def demo_client_def)
  have ser: "toml_ser toy_toml (counter_table (hm_insert (pkt_key_id ?p) (counter ?p)
      (highest_counters demo_verifier))) \<noteq> None"
    by (simp add: toy_toml_def counter_table_def demo_fields p hm_simps)
  show thesis
    using verify_accepts [OF demo_accepts demo_fields(1) assms ser] that p by metis
qed

lemma demo_run:
  obtains v h a where "verifier_run toy_crypto toy_toml demo_path (Some v) h [a]" "acc_counter a = 42"
proof -
  let ?h = "demo_host\<lparr>tick := 1\<rparr>"
  have "SpaVerifier_load toy_crypto toy_toml [demo_client] 300 demo_path [5] True demo_host =
      (Inr demo_verifier, ?h)"
    by (simp add: SpaVerifier_load_def load_counter_state_def io_read_to_string_def io_read_def io_call_def
        c_bind_def demo_host_def demo_path_def demo_verifier_def)
  then have run: "verifier_run toy_crypto toy_toml demo_path (Some demo_verifier) ?h []"
    using verifier_run.start [OF verifier_run.init] by fastforce
  have "quiet ?h" "writable demo_path ?h"
    using demo_host_ok(1,2) by (simp_all add: quiet_def writable_def)
  then obtain a v' h' where k: "SpaVerifier_verify toy_crypto toy_toml demo_payload 7 1500
      (demo_verifier, ?h) = (Inr a, (v', h'))" and a: "acc_counter a = 42"
    by (rule demo_knock)
  show thesis
    using verifier_run.knock [OF run k] a that by simp
qed

lemma get_index_clients:
  assumes "distinct (map client_key_id cs)" and "c \<in> set cs"
  shows "hm_get (index_clients cs) (client_key_id c) = Some c"
proof -
  let ?kvs = "map (\<lambda>c. (client_key_id c, c)) cs"
  have "distinct (map fst ?kvs)" using assms(1) by (simp add: comp_def)
  moreover have "(client_key_id c, c) \<in> set ?kvs" using assms(2) by simp
  ultimately show ?thesis
    by (simp only: index_clients_def hm_get_collect map_of_rev_distinct map_of_is_SomeI)
qed

section \<open>Properties\<close>

text \<open>
  C5. An accepted knock passed every check: the payload opened under the server's key, its key
  is registered, the signature verifies under that client's key, the tier is full, the clock
  drift is within the window, the observed source is the signed address (unless the client
  signed the packet-source flag), and the counter is above the recorded one. The recorded
  counter is the packet's afterwards, in memory and in the counter file.
\<close>

theorem verify_accept_sound:
  assumes "SpaVerifier_verify C T payload ip now (v, h) = (Inr a, (v', h'))"
    and "counter_state_path v = Some path" and "toml_roundtrip T" and "ids_ok (highest_counters v)"
  shows "\<exists>p c. SpaPacket_open C payload (server_static_private v) = Inr p \<and>
     hm_get (clients v) (acc_key_id a) = Some c \<and>
     SpaPacket_verify C p (client_public_key c) (server_static_pubkey v) = Inr () \<and>
     client_tier c = Full \<and>
     \<bar>int (unat now) - int (unat (timestamp_ms p))\<bar> \<le> int (unat (time_window_ms v)) \<and>
     (use_packet_source p \<or> allow_ip p = ip) \<and>
     counter_of (highest_counters v) (acc_key_id a) < acc_counter a \<and>
     acc_key_id a = pkt_key_id p \<and> acc_counter a = counter p \<and> acc_client_id a = client_id c \<and>
     counter_of (highest_counters v') (acc_key_id a) = acc_counter a \<and>
     (\<exists>m. stored_counters T h' path = Some m \<and> counter_of m (acc_key_id a) = acc_counter a)"
proof -
  obtain p c where acc: "accepts C v ip now payload p c"
    and v': "v' = v\<lparr>highest_counters := hm_insert (pkt_key_id p) (counter p) (highest_counters v)\<rparr>"
    and per: "persist_counters T v' h = (Inr (), h')"
    and a: "acc_key_id a = pkt_key_id p" "acc_counter a = counter p" "acc_client_id a = client_id c"
    using assms(1) by (rule verify_Inr) simp
  have ids: "ids_ok (highest_counters v')"
    using assms(4) accepts_key_id [OF acc] by (simp add: v' ids_ok_insert)
  have "save_counter_state T path (highest_counters v') h = (Inr (), h')"
    using per assms(2) by (simp add: v' persist_counters_def c_map_err_Inr)
  then obtain m where m: "stored_counters T h' path = Some m"
    and eq: "\<And>k. hm_get m k = hm_get (highest_counters v') k"
    using save_stores [OF assms(3) ids] by blast
  have "counter_of m k = counter_of (highest_counters v') k" for k
    using eq by (simp add: counter_of_def)
  moreover have "counter_of (highest_counters v') (acc_key_id a) = acc_counter a"
    by (simp add: v' a counter_of_insert)
  ultimately show ?thesis
    using acc m a unfolding accepts_def by auto
qed

theorem verify_accept_sound_witness:
  "\<exists>a v' h' m. SpaVerifier_verify toy_crypto toy_toml demo_payload 7 1500 (demo_verifier, demo_host) =
       (Inr a, (v', h')) \<and> acc_counter a = 42 \<and>
     stored_counters toy_toml h' demo_path = Some m \<and> counter_of m (client_key_id demo_client) = 42"
proof -
  obtain a v' h' where k: "SpaVerifier_verify toy_crypto toy_toml demo_payload 7 1500
      (demo_verifier, demo_host) = (Inr a, (v', h'))" "acc_counter a = 42"
      "acc_key_id a = client_key_id demo_client"
    using demo_knock [OF demo_host_ok(1,2)] by metis
  have "ids_ok (highest_counters demo_verifier)"
    by (simp add: demo_fields ids_ok_def)
  with verify_accept_sound [OF k(1) demo_fields(1) toy_toml_laws(1)] k show ?thesis by auto
qed

text \<open>
  A knock whose packet opens but whose signature does not verify is answered with the
  signature error whatever the client's tier, clock, address or counter, and an answer about
  the tier is given only after a valid signature: the answers tell an unauthenticated sender
  nothing about a registered key's tier. Every refusal before the counter is recorded leaves the
  verifier and the files as they were.
\<close>

theorem verify_refusals:
  assumes "SpaVerifier_verify C T payload ip now (v, h) = (Inl e, (v', h'))"
  shows "(\<forall>p c. SpaPacket_open C payload (server_static_private v) = Inr p \<longrightarrow>
            hm_get (clients v) (pkt_key_id p) = Some c \<longrightarrow>
            SpaPacket_verify C p (client_public_key c) (server_static_pubkey v) = Inl BadSignature \<longrightarrow>
            e = Parse BadSignature) \<and>
         (\<forall>n. e = UnauthorizedTier n \<longrightarrow>
            (\<exists>p c. SpaPacket_open C payload (server_static_private v) = Inr p \<and>
               hm_get (clients v) (pkt_key_id p) = Some c \<and> n = client_name c \<and> client_tier c \<noteq> Full \<and>
               SpaPacket_verify C p (client_public_key c) (server_static_pubkey v) = Inr ())) \<and>
         ((\<nexists>d. e = Persist d) \<longrightarrow> v' = v \<and> h' = h)"
proof (intro conjI)
  show "\<forall>p c. SpaPacket_open C payload (server_static_private v) = Inr p \<longrightarrow>
      hm_get (clients v) (pkt_key_id p) = Some c \<longrightarrow>
      SpaPacket_verify C p (client_public_key c) (server_static_pubkey v) = Inl BadSignature \<longrightarrow>
      e = Parse BadSignature"
    using assms by (auto simp: SpaVerifier_verify_def authorize_def)
  show "(\<nexists>d. e = Persist d) \<longrightarrow> v' = v \<and> h' = h"
    using assms by (rule verify_Inl) auto
  show "\<forall>n. e = UnauthorizedTier n \<longrightarrow>
      (\<exists>p c. SpaPacket_open C payload (server_static_private v) = Inr p \<and>
         hm_get (clients v) (pkt_key_id p) = Some c \<and> n = client_name c \<and> client_tier c \<noteq> Full \<and>
         SpaPacket_verify C p (client_public_key c) (server_static_pubkey v) = Inr ())"
    using assms by (rule verify_Inl) (auto simp: authorize_def Let_def result_eqs)
qed

theorem verify_refusals_witness:
  "SpaVerifier_verify toy_crypto toy_toml demo_payload 8 1500 (demo_verifier, demo_host) =
     (Inl SourceIpMismatch, (demo_verifier, demo_host))"
proof -
  obtain p c where acc: "accepts toy_crypto demo_verifier 7 1500 demo_payload p c"
    and p: "use_packet_source p = False" "allow_ip p = 7"
    using demo_accepts by (fastforce simp: built_packet_def)
  have "abs_diff 1500 (timestamp_ms p) \<le> time_window_ms demo_verifier"
    using acc unfolding accepts_def drift_le_iff by blast
  then have "authorize toy_crypto demo_verifier demo_payload 8 1500 = Inl SourceIpMismatch"
    using p acc by (simp add: accepts_def authorize_def)
  then obtain v' h' where "SpaVerifier_verify toy_crypto toy_toml demo_payload 8 1500
      (demo_verifier, demo_host) = (Inl SourceIpMismatch, (v', h'))"
    by (simp add: SpaVerifier_verify_def)
  with verify_refusals [OF this] show ?thesis by auto
qed

text \<open>
  C1. No replay: in any run of the server with knocks, key reloads, stops, starts and failing
  file operations, the accepted packets of one key have strictly increasing counters, so no
  packet is accepted twice, across restarts included.
\<close>

theorem no_replay_across_restarts:
  assumes "verifier_run C T path vo h log" and "toml_roundtrip T" and "with_extension path ''tmp'' \<noteq> path"
  shows "sorted_wrt (\<lambda>a b. acc_key_id a = acc_key_id b \<longrightarrow> acc_counter b < acc_counter a) log \<and>
         distinct (map (\<lambda>a. (acc_key_id a, acc_counter a)) log)"
proof -
  have sorted: "newer_first log"
    using verifier_run_ok [OF assms] by (simp add: run_ok_def)
  then have "distinct (map (\<lambda>a. (acc_key_id a, acc_counter a)) log)"
    by (induction log) (auto simp: newer_first_def)
  with sorted show ?thesis by (simp add: newer_first_def)
qed

theorem no_replay_across_restarts_witness:
  "\<exists>vo h a. verifier_run toy_crypto toy_toml demo_path vo h [a] \<and> acc_counter a = 42 \<and>
     (\<forall>vo' h' b. verifier_run toy_crypto toy_toml demo_path vo' h' [b, a] \<longrightarrow>
        acc_key_id b = acc_key_id a \<longrightarrow> 42 < acc_counter b)"
proof -
  obtain v h a where run: "verifier_run toy_crypto toy_toml demo_path (Some v) h [a]" "acc_counter a = 42"
    by (rule demo_run)
  moreover have "42 < acc_counter b"
    if "verifier_run toy_crypto toy_toml demo_path vo' h' [b, a]" "acc_key_id b = acc_key_id a" for vo' h' b
    using no_replay_across_restarts [OF that(1) toy_toml_laws(1) demo_path_ok] that(2) run(2) by simp
  ultimately show ?thesis by blast
qed

text \<open>
  C10. Saving the counters is atomic: on success the file holds exactly the given counters (read
  back through the parser), and after an error at any of its file operations the live file is
  what it was.
\<close>

theorem save_counter_state_atomic:
  assumes "toml_roundtrip T" and "ids_ok m" and "with_extension path ''tmp'' \<noteq> path"
    and "save_counter_state T path m h = (r, h')"
  shows "case r of
      Inr _ \<Rightarrow> (\<exists>m'. stored_counters T h' path = Some m' \<and> (\<forall>k. hm_get m' k = hm_get m k))
    | Inl _ \<Rightarrow> content h' path = content h path"
  using save_stores [OF assms(1,2)] save_counter_state_Inl [OF _ assms(3)] assms(4)
  by (auto split: sum.splits)

theorem save_counter_state_atomic_witness:
  "\<exists>h'. save_counter_state toy_toml demo_path [(replicate 8 1, 7)] demo_host = (Inr (), h') \<and>
     (\<exists>m. stored_counters toy_toml h' demo_path = Some m \<and> hm_get m (replicate 8 1) = Some 7)"
proof -
  have ids: "ids_ok [(replicate 8 1, 7)]"
    by (simp add: ids_ok_def hm_ok_def hm_get_def split: if_splits)
  have "toml_ser toy_toml (counter_table [(replicate 8 1, 7)]) \<noteq> None"
    by (simp add: toy_toml_def counter_table_def hm_simps)
  then obtain h' where s: "save_counter_state toy_toml demo_path [(replicate 8 1, 7)] demo_host = (Inr (), h')"
    using save_counter_state_ok [OF demo_host_ok(1,2)] by fastforce
  with save_counter_state_atomic [OF toy_toml_laws(1) ids demo_path_ok s] show ?thesis
    by (auto simp: hm_get_def)
qed

text \<open>
  The server fails closed: a missing counter file stops the start unless the operator asked
  for a first run, a file that cannot be read or parsed always does, and a start that succeeds
  with a file present continues from exactly its counters.
\<close>

theorem load_fails_closed:
  assumes "SpaVerifier_load C T cs window path key init h = (r, h')" and "fault h (tick h) = None"
    and "path \<notin> set (dirs h)"
  shows "(content h path = None \<longrightarrow> \<not> init \<longrightarrow> r = Inl CounterMissing) \<and>
         (content h path \<noteq> None \<longrightarrow> stored_counters T h path = None \<longrightarrow> \<not> is_ok r) \<and>
         (\<forall>v. r = Inr v \<longrightarrow> content h path \<noteq> None \<longrightarrow>
            stored_counters T h path = Some (highest_counters v))"
  using assms
  by (auto simp: SpaVerifier_load_def load_counter_state_def stored_counters_def io_read_to_string_def
      io_read_def io_call_def c_bind_def from_counters_def ok_or_def
      split: option.splits sum.splits if_splits io_error.splits)

theorem load_fails_closed_witness:
  "fst (SpaVerifier_load toy_crypto toy_toml [demo_client] 300 demo_path [5] False demo_host) =
     Inl CounterMissing"
proof -
  obtain r h' where l: "SpaVerifier_load toy_crypto toy_toml [demo_client] 300 demo_path [5] False demo_host = (r, h')"
    by (cases "SpaVerifier_load toy_crypto toy_toml [demo_client] 300 demo_path [5] False demo_host")
  then show ?thesis
    using load_fails_closed [OF l] demo_host_ok by (simp add: demo_host_def demo_path_def)
qed

text \<open>
  C30. Reloading the authorized keys returns exactly the identifiers that were registered and no
  longer are, each once; a packet of such a key is refused as unknown from then on, while the replay
  counters stay.
\<close>

theorem reload_revokes:
  assumes "reload_clients cs v = (removed, v')" and "hm_ok (clients v)"
  shows "set removed = set (hm_keys (clients v)) - client_key_id ` set cs \<and> distinct removed \<and>
         highest_counters v' = highest_counters v \<and>
         (\<forall>payload ip now h p. SpaPacket_open C payload (server_static_private v') = Inr p \<longrightarrow>
            pkt_key_id p \<in> set removed \<longrightarrow>
            SpaVerifier_verify C T payload ip now (v', h) =
              (Inl (UnknownKey (key_id_hex (pkt_key_id p))), (v', h)))"
proof -
  have v': "v' = v\<lparr>clients := index_clients cs\<rparr>"
    and removed: "removed = filter (\<lambda>k. hm_get (index_clients cs) k = None) (hm_keys (clients v))"
    using assms(1) by (auto simp: reload_clients_def Let_def)
  have gone: "hm_get (index_clients cs) k = None \<longleftrightarrow> k \<notin> client_key_id ` set cs" for k
    by (auto simp: index_clients_def hm_get_collect map_of_eq_None_iff image_image)
  have "SpaVerifier_verify C T payload ip now (v', h) =
        (Inl (UnknownKey (key_id_hex (pkt_key_id p))), (v', h))"
    if "SpaPacket_open C payload (server_static_private v') = Inr p" "pkt_key_id p \<in> set removed"
    for payload ip now h p
    using that by (simp add: SpaVerifier_verify_def authorize_def v' removed)
  moreover have "set removed = set (hm_keys (clients v)) - client_key_id ` set cs"
    by (auto simp: removed gone)
  moreover have "distinct removed"
    using assms(2) by (simp add: removed hm.distinct_keys)
  ultimately show ?thesis by (simp add: v')
qed

theorem reload_revokes_witness:
  "fst (SpaVerifier_verify toy_crypto toy_toml demo_payload 7 1500
      (snd (reload_clients [] demo_verifier), demo_host)) =
   Inl (UnknownKey (key_id_hex (client_key_id demo_client)))"
proof -
  obtain removed v' where r: "reload_clients [] demo_verifier = (removed, v')"
    by (cases "reload_clients [] demo_verifier")
  have ok: "hm_ok (clients demo_verifier)"
    by (simp add: demo_verifier_def from_counters_def index_clients_def)
  obtain p where p: "SpaPacket_open toy_crypto demo_payload (server_static_private demo_verifier) = Inr p"
    "pkt_key_id p = client_key_id demo_client"
    using demo_accepts by (auto simp: accepts_def built_packet_def demo_client_def)
  have "client_key_id demo_client \<in> set (hm_keys (clients demo_verifier))"
    using demo_get by (auto simp: hm.in_keys_iff)
  moreover have "server_static_private v' = server_static_private demo_verifier"
    using r by (auto simp: reload_clients_def Let_def)
  ultimately show ?thesis
    using reload_revokes [OF r ok, of toy_crypto toy_toml] p r by simp
qed

text \<open>
  Completeness: a packet built by a registered client of the full tier for this server, with
  the clock within the window, the signed address (or the packet-source flag) matching and a
  counter above the recorded one, is accepted, when the counter file is writable.
\<close>

theorem built_knock_accepted:
  assumes "crypto_complete C" and "toml_total T" and "quiet h" and "writable path h"
    and "v = from_counters C cs window counters (Some path) priv"
    and "distinct (map client_key_id cs)" and "c \<in> set cs" and "client_public_key c = ed_public C sk"
    and "client_key_id c = key_id_for_public_key C (ed_public C sk)" and "client_tier c = Full"
    and "\<bar>int (unat now) - int (unat ts)\<bar> \<le> int (unat (time_window_ms v))"
    and "allow = PacketSource \<or> allow = Explicit ip" and "\<forall>n. length (fill n) = n"
    and "counter_of counters (client_key_id c) < ctr" and "unat ctr < 2 ^ 63"
    and "ids_ok counters" and "\<forall>k x. hm_get counters k = Some x \<longrightarrow> unat x < 2 ^ 63"
  shows "\<exists>a v' h'. SpaVerifier_verify C T (build C r fill eph sk m ts ctr allow (x25519_pub C priv)) ip now (v, h)
           = (Inr a, (v', h')) \<and> acc_key_id a = client_key_id c \<and> acc_client_id a = client_id c \<and> acc_counter a = ctr"
proof -
  let ?spub = "x25519_pub C priv"
  obtain padding where pad: "length padding \<le> SPA_MAX_PADDING"
    and wire: "build C r fill eph sk m ts ctr allow ?spub = build_with_padding C eph sk m ts ctr allow padding ?spub"
    using build_is_padded assms(13) by metis
  let ?p = "built_packet C eph sk m ts ctr allow ?spub"
  have get: "hm_get (clients v) (client_key_id c) = Some c"
    using get_index_clients [OF assms(6,7)] by (simp add: assms(5) from_counters_def)
  have acc: "accepts C v ip now (build_with_padding C eph sk m ts ctr allow padding ?spub) ?p c"
    using assms get pad by (intro accepts_built)
      (simp_all add: from_counters_def x25519_public_from_private_def)
  have "hex_names (counter_table (hm_insert (client_key_id c) ctr counters))"
    by (rule hex_names_counter_table)
  moreover have "unat x < 2 ^ 63"
    if x: "hm_get (counter_table (hm_insert (client_key_id c) ctr counters)) s = Some x" for s x
  proof -
    obtain k where "s = key_id_hex k" using counter_table_names [OF x] by blast
    then have "hm_get (hm_insert (client_key_id c) ctr counters) k = Some x"
      using x counter_table_get assms(16) by (simp add: ids_ok_def)
    then show ?thesis using assms(15,17) by (auto split: if_splits)
  qed
  ultimately have ser: "toml_ser T (counter_table (hm_insert (client_key_id c) ctr counters)) \<noteq> None"
    using assms(2) unfolding toml_total_def by blast
  have p: "pkt_key_id ?p = client_key_id c" "counter ?p = ctr"
    by (simp_all add: built_packet_def assms(9))
  show ?thesis
    unfolding wire
    using verify_accepts [OF acc _ assms(3,4), of T] ser p assms(5)
    by (simp add: from_counters_def) metis
qed

theorem built_knock_accepted_witness:
  "\<exists>a v' h'. SpaVerifier_verify toy_crypto toy_toml
       (build toy_crypto 3 (\<lambda>n. replicate n 0) [9] [1] Https 1000 5 PacketSource (x25519_pub toy_crypto [5]))
       99 2000 (demo_verifier, demo_host) = (Inr a, (v', h')) \<and> acc_counter a = 5"
proof -
  have "\<exists>a v' h'. SpaVerifier_verify toy_crypto toy_toml
       (build toy_crypto 3 (\<lambda>n. replicate n 0) [9] [1] Https 1000 5 PacketSource (x25519_pub toy_crypto [5]))
       99 2000 (demo_verifier, demo_host) = (Inr a, (v', h')) \<and> acc_key_id a = client_key_id demo_client \<and>
       acc_client_id a = client_id demo_client \<and> acc_counter a = 5"
    by (rule built_knock_accepted [OF toy_crypto_complete toy_toml_laws(2) demo_host_ok(1,2) demo_verifier_def])
      (simp_all add: demo_client_def demo_verifier_def from_counters_def counter_of_def ids_ok_def
        saturating_mul_def)
  then show ?thesis by blast
qed

text \<open>
  One oversized counter blocks everybody: TOML has no integer above 2^63 - 1, so a validly
  signed knock with such a counter fails to save, but the counter stays in memory; every later
  knock of every client that passes the checks then fails to save as well, until a restart.
\<close>

theorem oversized_counter_blocks:
  assumes large: "\<forall>m s x. hm_get m s = Some x \<longrightarrow> 2 ^ 63 \<le> unat x \<longrightarrow> toml_ser T m = None"
    and "accepts C v ip now payload p c" and "2 ^ 63 \<le> unat (counter p)"
    and "counter_state_path v = Some path" and "hm_ok (highest_counters v)"
  shows "\<exists>v'. SpaVerifier_verify C T payload ip now (v, h) = (Inl (Persist CounterSerialize), (v', h)) \<and>
     (\<forall>payload2 ip2 now2 h2 p2 c2. accepts C v' ip2 now2 payload2 p2 c2 \<longrightarrow>
        fst (SpaVerifier_verify C T payload2 ip2 now2 (v', h2)) = Inl (Persist CounterSerialize))"
proof -
  let ?v = "v\<lparr>highest_counters := hm_insert (pkt_key_id p) (counter p) (highest_counters v)\<rparr>"
  have blocked: "persist_counters T w h = (Inl (Persist CounterSerialize), h)"
    if "counter_state_path w = Some path" "hm_ok (highest_counters w)"
      "hm_get (highest_counters w) k = Some x" "2 ^ 63 \<le> unat x" for w k x h
  proof -
    have "toml_ser T (counter_table (highest_counters w)) = None"
      using large that counter_table_get by metis
    then show ?thesis
      using that(1) by (simp add: persist_counters_def save_counter_state_def c_map_err_def c_bind_def)
  qed
  have "authorize C v payload ip now = Inr (p, c)"
    using assms(2) by (simp only: authorize_Inr_iff)
  then have "SpaVerifier_verify C T payload ip now (v, h) = (Inl (Persist CounterSerialize), (?v, h))"
    using assms(3-5) blocked [of ?v "pkt_key_id p" "counter p" h] by (simp add: SpaVerifier_verify_def)
  moreover have "fst (SpaVerifier_verify C T payload2 ip2 now2 (?v, h2)) = Inl (Persist CounterSerialize)"
    if acc: "accepts C ?v ip2 now2 payload2 p2 c2" for payload2 ip2 now2 h2 p2 c2
  proof -
    let ?w = "?v\<lparr>highest_counters := hm_insert (pkt_key_id p2) (counter p2) (highest_counters ?v)\<rparr>"
    have "2 ^ 63 \<le> unat (counter_of (highest_counters ?w) (pkt_key_id p))"
      using acc assms(3) unfolding accepts_def
      by (auto simp: counter_of_insert word_less_nat_alt split: if_splits)
    moreover have "\<exists>x. hm_get (highest_counters ?w) (pkt_key_id p) = Some x" by simp
    ultimately have "persist_counters T ?w h2 = (Inl (Persist CounterSerialize), h2)"
      using blocked [of ?w "pkt_key_id p"] assms(4,5) by (auto simp: counter_of_def)
    moreover have "authorize C ?v payload2 ip2 now2 = Inr (p2, c2)"
      using acc by (simp only: authorize_Inr_iff)
    ultimately show ?thesis by (simp add: SpaVerifier_verify_def)
  qed
  ultimately show ?thesis by blast
qed

theorem oversized_counter_blocks_witness:
  "\<exists>v'. SpaVerifier_verify toy_crypto toy_toml
      (build_with_padding toy_crypto [9] [1] Udp 1000 (- 1) (Explicit 7) [] (x25519_pub toy_crypto [5]))
      7 1500 (demo_verifier, demo_host) = (Inl (Persist CounterSerialize), (v', demo_host)) \<and>
     (\<forall>payload2 ip2 now2 h2 p2 c2. accepts toy_crypto v' ip2 now2 payload2 p2 c2 \<longrightarrow>
        fst (SpaVerifier_verify toy_crypto toy_toml payload2 ip2 now2 (v', h2)) = Inl (Persist CounterSerialize))"
proof (rule oversized_counter_blocks)
  show "\<forall>m s x. hm_get m s = Some x \<longrightarrow> 2 ^ 63 \<le> unat x \<longrightarrow> toml_ser toy_toml m = None"
  proof (intro allI impI)
    fix m :: "(string, u64) hash_map" and s x
    assume "hm_get m s = Some x" and large: "2 ^ 63 \<le> unat x"
    then have "(s, x) \<in> set m" by (simp add: hm_get_def map_of_SomeD)
    with large have "\<not> (\<forall>kv \<in> set m. unat (snd kv) < 2 ^ 63)" by force
    then show "toml_ser toy_toml m = None" by (simp only: toy_toml_def toml_counters.simps if_False)
  qed
  show "accepts toy_crypto demo_verifier 7 1500
      (build_with_padding toy_crypto [9] [1] Udp 1000 (- 1) (Explicit 7) [] (x25519_pub toy_crypto [5]))
      (built_packet toy_crypto [9] [1] Udp 1000 (- 1) (Explicit 7) (x25519_pub toy_crypto [5])) demo_client"
    using demo_get
    by (intro accepts_built toy_crypto_complete)
      (simp_all add: demo_verifier_def from_counters_def demo_client_def x25519_public_from_private_def
        saturating_mul_def counter_of_def word_less_nat_alt unat_max_word)
  show "2 ^ 63 \<le> unat (counter (built_packet toy_crypto [9] [1] Udp 1000 (- 1) (Explicit 7) (x25519_pub toy_crypto [5])))"
    by (simp add: built_packet_def unat_max_word)
  show "counter_state_path demo_verifier = Some demo_path" "hm_ok (highest_counters demo_verifier)"
    by (simp_all add: demo_fields)
qed

section \<open>Widths\<close>

text \<open>
  The arrays of fixed size in the source are lists here; a verifier is well typed when every list has
  the width of its array and the index of clients is by their own identifier.
\<close>

definition verifier_typed :: "SpaVerifier \<Rightarrow> bool" where
  "verifier_typed v \<longleftrightarrow> hm_ok (clients v) \<and> ids_ok (highest_counters v) \<and>
     (\<forall>k c. hm_get (clients v) k = Some c \<longrightarrow> length k = KEY_ID_LEN \<and> client_key_id c = k \<and>
        length (client_public_key c) = 32 \<and> length (client_noise_public_key c) = 32)"

lemma index_clients_typed:
  assumes "sha256_len C" and "into_clients C file = Inr cs" and "hm_get (index_clients cs) k = Some c"
  shows "length k = KEY_ID_LEN \<and> client_key_id c = k \<and> length (client_public_key c) = 32 \<and> length (client_noise_public_key c) = 32"
proof -
  have c: "c \<in> set cs" "client_key_id c = k"
    using assms(3) by (auto simp: index_clients_def hm_get_collect dest!: map_of_SomeD)
  then obtain i where "i < length cs" "cs ! i = c" by (meson in_set_conv_nth)
  then have "from_config C (file ! i) (index_to_client_id i) = Inr c"
    using into_clients_Inr [OF assms(2)] by metis
  then show ?thesis
    using c(2) assms(1)
    by (auto simp: from_config_def decode_public_key_def decode_noise_public_key_def result_eqs Let_def
        key_id_for_public_key_def sha256_len_def KEY_ID_LEN_def split: if_splits)
qed



end
