(* ===== verification/Ebpf_Runtime.thy ===== *)
theory Ebpf_Runtime
  imports Xdp Spa_Verifier
begin

text \<open>
  \<open>ghostbro-server/src/ebpf.rs\<close>: the user-space side of the filter. It drains the ring buffer and the
  HTTPS queue, verifies each candidate, writes the allow map, mirrors it for the proxy, purges the
  entries of revoked keys and reaps expired ones. The allow map is the kernel's own map of
  \<open>Xdp\<close>; the calls of the \<open>aya\<close> crate on it are the parameter record \<open>aya\<close>.
\<close>

section \<open>Data\<close>

record AllowedSource =
  src_entry :: AllowEntry
  src_noise_public_key :: bytes
  src_max_concurrent_sessions :: "u16 option"

record HttpsSpaCandidate =
  cand_src_ip :: u32
  cand_payload :: bytes

datatype rt_error = ClockFailed | AllowInsertFailed u32 | AllowRemoveFailed u32 | WatchFailed

type_synonym allow_map = "(u32, AllowEntry) hash_map"

record aya =
  aya_insert :: "u32 \<Rightarrow> AllowEntry \<Rightarrow> allow_map \<Rightarrow> allow_map option"
  aya_remove :: "u32 \<Rightarrow> allow_map \<Rightarrow> allow_map option"

text \<open>
  The kernel's map calls: an insertion that succeeds stores the entry and may evict others;
  removing a key that is not there is an error.
\<close>

definition aya_ok :: "aya \<Rightarrow> bool" where
  "aya_ok A \<longleftrightarrow>
     (\<forall>k e m m'. aya_insert A k e m = Some m' \<longrightarrow>
        hm_get m' k = Some e \<and> (\<forall>k'. k' \<noteq> k \<longrightarrow> hm_get m' k' = hm_get m k' \<or> hm_get m' k' = None)) \<and>
     (\<forall>k m. aya_remove A k m = (if hm_get m k = None then None else Some (hm_remove k m)))"

definition plain_aya :: aya where
  "plain_aya =
     \<lparr>aya_insert = (\<lambda>k e m. Some (hm_insert k e m)),
      aya_remove = (\<lambda>k m. if hm_get m k = None then None else Some (hm_remove k m))\<rparr>"

lemma plain_aya_ok: "aya_ok plain_aya"
  by (simp add: aya_ok_def plain_aya_def)

text \<open>Readings of the two clocks, one per call.\<close>

record clocks =
  wall :: "nat \<Rightarrow> nat option"
  mono :: "nat \<Rightarrow> (int \<times> int) option"

record runtime =
  rt_maps :: xdp_maps
  allowed_sources :: "(u32, AllowedSource) hash_map"
  rt_verifier :: SpaVerifier
  rt_host :: host
  rt_tick :: nat

type_synonym 'a rt = "(runtime, rt_error, 'a) comp"

section \<open>Clocks\<close>

definition wall_clock_now_ms :: "nat option \<Rightarrow> rt_error + u64" where
  "wall_clock_now_ms since_epoch =
     and_then (ok_or ClockFailed since_epoch) (\<lambda>ms. Inr (if ms < 2 ^ 64 then word_of_nat ms else - 1))"

definition try_u64 :: "int \<Rightarrow> u64 option" where
  "try_u64 i = (if 0 \<le> i \<and> i < 2 ^ 64 then Some (word_of_int i) else None)"

definition monotonic_now_ns :: "(int \<times> int) option \<Rightarrow> rt_error + u64" where
  "monotonic_now_ns timespec =
     and_then (ok_or ClockFailed timespec) (\<lambda>(tv_sec, tv_nsec).
     and_then (ok_or ClockFailed (try_u64 tv_sec)) (\<lambda>sec.
     and_then (ok_or ClockFailed (try_u64 tv_nsec)) (\<lambda>nsec.
       Inr (saturating_add (saturating_mul sec 1000000000) nsec))))"

definition read_wall :: "clocks \<Rightarrow> u64 rt" where
  "read_wall K s = (wall_clock_now_ms (wall K (rt_tick s)), s\<lparr>rt_tick := rt_tick s + 1\<rparr>)"

definition read_mono :: "clocks \<Rightarrow> u64 rt" where
  "read_mono K s = (monotonic_now_ns (mono K (rt_tick s)), s\<lparr>rt_tick := rt_tick s + 1\<rparr>)"

section \<open>The allow map\<close>

definition allow_insert :: "aya \<Rightarrow> u32 \<Rightarrow> AllowEntry \<Rightarrow> unit rt" where
  "allow_insert A src_ip entry s =
     (case aya_insert A src_ip entry (ALLOW_MAP (rt_maps s)) of
        None \<Rightarrow> (Inl (AllowInsertFailed src_ip), s)
      | Some m \<Rightarrow> (Inr (), s\<lparr>rt_maps := (rt_maps s)\<lparr>ALLOW_MAP := m\<rparr>\<rparr>))"

definition allow_source :: "aya \<Rightarrow> clocks \<Rightarrow> u32 \<Rightarrow> SpaAccept \<Rightarrow> u64 \<Rightarrow> unit rt" where
  "allow_source A K src_ip acc allow_ttl_seconds =
     c_bind (read_mono K) (\<lambda>now.
     let expiry = saturating_add now (saturating_mul allow_ttl_seconds 1000000000);
         entry = \<lparr>expiry_ns = expiry, ae_key_id = acc_key_id acc, ae_client_id = acc_client_id acc, ae_pad = 0\<rparr>
     in c_bind (allow_insert A src_ip entry) (\<lambda>_ s.
          (Inr (), s\<lparr>allowed_sources := hm_insert src_ip
             \<lparr>src_entry = entry, src_noise_public_key = acc_noise_public_key acc,
              src_max_concurrent_sessions = acc_max_concurrent_sessions acc\<rparr> (allowed_sources s)\<rparr>)))"

text \<open>One step of the removal loops: the kernel entry first, then the mirror.\<close>

definition remove_source :: "aya \<Rightarrow> u32 \<Rightarrow> unit rt" where
  "remove_source A src_ip s =
     (case aya_remove A src_ip (ALLOW_MAP (rt_maps s)) of
        None \<Rightarrow> (Inl (AllowRemoveFailed src_ip), s)
      | Some m \<Rightarrow> (Inr (), s\<lparr>rt_maps := (rt_maps s)\<lparr>ALLOW_MAP := m\<rparr>,
                            allowed_sources := hm_remove src_ip (allowed_sources s)\<rparr>))"

fun remove_sources :: "aya \<Rightarrow> u32 list \<Rightarrow> unit rt" where
  "remove_sources A [] = c_lift (Inr ())"
| "remove_sources A (ip # ips) = c_bind (remove_source A ip) (\<lambda>_. remove_sources A ips)"

definition purge_key_id :: "aya \<Rightarrow> key_id \<Rightarrow> unit rt" where
  "purge_key_id A key_id s =
     (let sources_to_purge =
            map fst (filter (\<lambda>(src_ip, source). ae_key_id (src_entry source) = key_id) (allowed_sources s))
      in if sources_to_purge = [] then (Inr (), s) else remove_sources A sources_to_purge s)"

definition expired_sources :: "(u32, AllowedSource) hash_map \<Rightarrow> u64 \<Rightarrow> u32 list" where
  "expired_sources sources now_ns =
     map fst (filter (\<lambda>(src_ip, source). expiry_ns (src_entry source) \<le> now_ns) sources)"

definition reap_expired_sources :: "aya \<Rightarrow> clocks \<Rightarrow> unit rt" where
  "reap_expired_sources A K =
     c_bind (read_mono K) (\<lambda>now_ns s.
       let expired = expired_sources (allowed_sources s) now_ns
       in if expired = [] then (Inr (), s) else remove_sources A expired s)"

text \<open>
  The proxy shares the mirror: a connection looks its address up and drops the mirrored entry
  (not the kernel's) when it has expired (the start of \<open>handle_connection\<close> in \<open>noise.rs\<close>).
\<close>

datatype source_error = NoAllowEntry | AllowExpired | SourceClock

definition lookup_source :: "clocks \<Rightarrow> u32 \<Rightarrow> (runtime, source_error, AllowedSource) comp" where
  "lookup_source K src_ip s =
     (case hm_get (allowed_sources s) src_ip of
        None \<Rightarrow> (Inl NoAllowEntry, s)
      | Some source \<Rightarrow>
          (case read_mono K s of
             (Inl _, s1) \<Rightarrow> (Inl SourceClock, s1)
           | (Inr now, s1) \<Rightarrow>
               if expiry_ns (src_entry source) \<le> now
               then (Inl AllowExpired, s1\<lparr>allowed_sources := hm_remove src_ip (allowed_sources s1)\<rparr>)
               else (Inr source, s1)))"

section \<open>Candidates and reloads\<close>

definition parse_spa_event :: "bytes \<Rightarrow> SpaEvent option" where
  "parse_spa_event bs =
     (if length bs \<noteq> event_size then None
      else Some \<lparr>ev_src_ip = from_be_bytes (rev (subslice bs 0 4)),
                 ev_src_port = from_be_bytes (rev (subslice bs 4 6)),
                 ev_payload_len = from_be_bytes (rev (subslice bs 6 8)),
                 ev_payload = drop 8 bs\<rparr>)"

text \<open>The verdict on one candidate: a refusal is logged and does not end the loop.\<close>

definition verify_candidate ::
    "crypto \<Rightarrow> toml_counters \<Rightarrow> aya \<Rightarrow> clocks \<Rightarrow> u64 \<Rightarrow> u32 \<Rightarrow> bytes \<Rightarrow> SpaAccept option rt" where
  "verify_candidate C T A K allow_ttl_seconds src_ip payload =
     c_bind (read_wall K) (\<lambda>now s.
       case SpaVerifier_verify C T payload src_ip now (rt_verifier s, rt_host s) of
         (Inl _, (v, h)) \<Rightarrow> (Inr None, s\<lparr>rt_verifier := v, rt_host := h\<rparr>)
       | (Inr acc, (v, h)) \<Rightarrow>
           c_bind (allow_source A K src_ip acc allow_ttl_seconds) (\<lambda>_. c_lift (Inr (Some acc)))
             (s\<lparr>rt_verifier := v, rt_host := h\<rparr>))"

definition ring_item :: "crypto \<Rightarrow> toml_counters \<Rightarrow> aya \<Rightarrow> clocks \<Rightarrow> u64 \<Rightarrow> bytes \<Rightarrow> SpaAccept option rt" where
  "ring_item C T A K ttl item =
     (case parse_spa_event item of
        None \<Rightarrow> c_lift (Inr None)
      | Some event \<Rightarrow>
          let payload_len = unat (ev_payload_len event) in
          if BPF_SPA_MAX_LEN < payload_len then c_lift (Inr None)
          else verify_candidate C T A K ttl (ev_src_ip event) (take payload_len (ev_payload event)))"

definition next_ring_item :: "runtime \<Rightarrow> (bytes \<times> runtime) option" where
  "next_ring_item s =
     (case SPA_RING (rt_maps s) of
        [] \<Rightarrow> None
      | item # rest \<Rightarrow> Some (item, s\<lparr>rt_maps := (rt_maps s)\<lparr>SPA_RING := rest\<rparr>\<rparr>))"

definition reload_authorized_keys ::
    "crypto \<Rightarrow> (string \<Rightarrow> AuthorizedKeysFile option) \<Rightarrow> path \<Rightarrow> runtime \<Rightarrow> key_id list option \<times> runtime" where
  "reload_authorized_keys C toml_keys path s =
     (case AuthorizedKeysFile_load toml_keys path (rt_host s) of
        (Inl _, h) \<Rightarrow> (None, s\<lparr>rt_host := h\<rparr>)
      | (Inr file, h) \<Rightarrow>
          (case into_clients C file of
             Inl _ \<Rightarrow> (None, s\<lparr>rt_host := h\<rparr>)
           | Inr cs \<Rightarrow>
               (case reload_clients cs (rt_verifier s) of
                  (removed, v) \<Rightarrow> (Some removed, s\<lparr>rt_host := h, rt_verifier := v\<rparr>))))"

fun purge_keys :: "aya \<Rightarrow> key_id list \<Rightarrow> unit rt" where
  "purge_keys A [] = c_lift (Inr ())"
| "purge_keys A (k # ks) = c_bind (purge_key_id A k) (\<lambda>_. purge_keys A ks)"

definition reload_step ::
    "crypto \<Rightarrow> (string \<Rightarrow> AuthorizedKeysFile option) \<Rightarrow> path \<Rightarrow> aya \<Rightarrow> unit rt" where
  "reload_step C toml_keys path A s =
     (case reload_authorized_keys C toml_keys path s of
        (None, s') \<Rightarrow> (Inr (), s')
      | (Some removed, s') \<Rightarrow> purge_keys A removed s')"

section \<open>The loop\<close>

text \<open>
  \<open>drain_ring\<close> takes events until the ring is empty; new ones arrive only between iterations, so
  the recursion is over the ring. One iteration of \<open>run_spa\<close> then handles the queued HTTPS
  candidates, the pending reload signals, and the reaping when its deadline has passed.
\<close>

fun drain_items :: "crypto \<Rightarrow> toml_counters \<Rightarrow> aya \<Rightarrow> clocks \<Rightarrow> u64 \<Rightarrow> bytes list \<Rightarrow> unit rt" where
  "drain_items C T A K ttl [] s = (Inr (), s)"
| "drain_items C T A K ttl (_ # others) s =
     (case next_ring_item s of
        None \<Rightarrow> (Inr (), s)
      | Some (item, s1) \<Rightarrow>
          c_bind (ring_item C T A K ttl item) (\<lambda>_. drain_items C T A K ttl others) s1)"

definition drain_ring :: "crypto \<Rightarrow> toml_counters \<Rightarrow> aya \<Rightarrow> clocks \<Rightarrow> u64 \<Rightarrow> unit rt" where
  "drain_ring C T A K ttl s = drain_items C T A K ttl (SPA_RING (rt_maps s)) s"

fun drain_https :: "crypto \<Rightarrow> toml_counters \<Rightarrow> aya \<Rightarrow> clocks \<Rightarrow> u64 \<Rightarrow> HttpsSpaCandidate list \<Rightarrow> unit rt" where
  "drain_https C T A K ttl [] = c_lift (Inr ())"
| "drain_https C T A K ttl (c # cs) =
     c_bind (verify_candidate C T A K ttl (cand_src_ip c) (cand_payload c)) (\<lambda>_. drain_https C T A K ttl cs)"

fun drain_reloads ::
    "crypto \<Rightarrow> (string \<Rightarrow> AuthorizedKeysFile option) \<Rightarrow> path \<Rightarrow> aya \<Rightarrow> nat \<Rightarrow> unit rt" where
  "drain_reloads C toml_keys path A 0 = c_lift (Inr ())"
| "drain_reloads C toml_keys path A (Suc n) =
     c_bind (reload_step C toml_keys path A) (\<lambda>_. drain_reloads C toml_keys path A n)"

definition spa_iteration ::
    "crypto \<Rightarrow> toml_counters \<Rightarrow> (string \<Rightarrow> AuthorizedKeysFile option) \<Rightarrow> path \<Rightarrow> aya \<Rightarrow> clocks \<Rightarrow> u64
     \<Rightarrow> HttpsSpaCandidate list \<Rightarrow> nat \<Rightarrow> bool \<Rightarrow> unit rt" where
  "spa_iteration C T toml_keys path A K ttl https reloads reap_due =
     c_bind (drain_ring C T A K ttl) (\<lambda>_.
     c_bind (drain_https C T A K ttl https) (\<lambda>_.
     c_bind (drain_reloads C toml_keys path A reloads) (\<lambda>_.
       if reap_due then reap_expired_sources A K else c_lift (Inr ()))))"

definition format_ipv4 :: "u32 \<Rightarrow> string" where
  "format_ipv4 ip =
     (let octets = to_be_bytes32 ip
      in nat_digits (unat (octets ! 0)) @ ''.'' @ nat_digits (unat (octets ! 1)) @ ''.'' @
         nat_digits (unat (octets ! 2)) @ ''.'' @ nat_digits (unat (octets ! 3)))"

section \<open>Invariant\<close>

text \<open>
  Every mirrored source is backed by one of the calls \<open>ks\<close> of the verifier that the server has made: a
  packet observed from that very address passed all checks of the verifier as it was then, and the
  source carries what that verifier's table has for the client; and so is every kernel entry. The kernel's map
  holds nothing that the mirror does not, except entries that had expired at time \<open>t\<close>, the latest
  time at which the proxy dropped a mirrored entry; so revocation and reaping, which read the
  mirror, miss no live kernel entry.
\<close>

text \<open>
  A call of the verifier: the verifier the server had at that moment, with its clients, window and
  counters, the address and the payload it was called with, and what the clock said.
\<close>

record knock =
  kn_verifier :: SpaVerifier
  kn_ip :: u32
  kn_now :: u64
  kn_payload :: bytes

definition justified :: "crypto \<Rightarrow> bytes \<Rightarrow> knock list \<Rightarrow> u32 \<Rightarrow> AllowedSource \<Rightarrow> bool" where
  "justified C priv ks ip src \<longleftrightarrow>
     (\<exists>k p c. k \<in> set ks \<and> kn_ip k = ip \<and> server_static_private (kn_verifier k) = priv \<and>
        accepts C (kn_verifier k) ip (kn_now k) (kn_payload k) p c \<and>
        ae_key_id (src_entry src) = pkt_key_id p \<and> ae_client_id (src_entry src) = client_id c \<and>
        src_noise_public_key src = client_noise_public_key c \<and>
        src_max_concurrent_sessions src = client_max_concurrent_sessions c)"

definition mirror_covers :: "u64 \<Rightarrow> runtime \<Rightarrow> bool" where
  "mirror_covers t s \<longleftrightarrow> (\<forall>ip e. hm_get (ALLOW_MAP (rt_maps s)) ip = Some e \<longrightarrow>
     (\<exists>src. hm_get (allowed_sources s) ip = Some src \<and> src_entry src = e) \<or> expiry_ns e \<le> t)"

definition all_justified :: "crypto \<Rightarrow> bytes \<Rightarrow> knock list \<Rightarrow> runtime \<Rightarrow> bool" where
  "all_justified C priv ks s \<longleftrightarrow>
     (\<forall>ip src. hm_get (allowed_sources s) ip = Some src \<longrightarrow> justified C priv ks ip src) \<and>
     (\<forall>ip e. hm_get (ALLOW_MAP (rt_maps s)) ip = Some e \<longrightarrow>
        (\<exists>src. src_entry src = e \<and> justified C priv ks ip src))"

definition rt_inv :: "crypto \<Rightarrow> bytes \<Rightarrow> knock list \<Rightarrow> u64 \<Rightarrow> runtime \<Rightarrow> bool" where
  "rt_inv C priv ks t s \<longleftrightarrow> mirror_covers t s \<and> hm_ok (allowed_sources s) \<and>
     server_static_private (rt_verifier s) = priv \<and> all_justified C priv ks s"

lemmas rt_inv_defs = rt_inv_def mirror_covers_def all_justified_def

lemma aya_insert_Some:
  assumes "aya_ok A" and "aya_insert A k e m = Some m'"
  shows "hm_get m' k = Some e" and "k' \<noteq> k \<Longrightarrow> hm_get m' k' = hm_get m k' \<or> hm_get m' k' = None"
proof -
  have "hm_get m' k = Some e \<and> (\<forall>k'. k' \<noteq> k \<longrightarrow> hm_get m' k' = hm_get m k' \<or> hm_get m' k' = None)"
    using assms unfolding aya_ok_def by metis
  then show "hm_get m' k = Some e" and "k' \<noteq> k \<Longrightarrow> hm_get m' k' = hm_get m k' \<or> hm_get m' k' = None"
    by auto
qed

lemma aya_remove_eq: "aya_ok A \<Longrightarrow> aya_remove A k m = (if hm_get m k = None then None else Some (hm_remove k m))"
  by (simp add: aya_ok_def)

lemma justified_mono: "justified C priv ks ip src \<Longrightarrow> justified C priv (ks @ ks') ip src"
  by (auto simp: justified_def)

lemma rt_inv_mono: "rt_inv C priv ks t s \<Longrightarrow> rt_inv C priv (ks @ ks') t s"
  unfolding rt_inv_def all_justified_def by (metis justified_mono)

lemma rt_inv_cong:
  assumes "rt_inv C priv ks t s" and "ALLOW_MAP (rt_maps s') = ALLOW_MAP (rt_maps s)"
    and "allowed_sources s' = allowed_sources s"
    and "server_static_private (rt_verifier s') = server_static_private (rt_verifier s)"
  shows "rt_inv C priv ks t s'"
  using assms by (simp add: rt_inv_defs)

lemma keeps_read_clocks: "keeps (rt_inv C priv ks t) (read_wall K)" "keeps (rt_inv C priv ks t) (read_mono K)"
  by (auto simp: keeps_def read_wall_def read_mono_def elim: rt_inv_cong)

lemma remove_source_inv:
  assumes "aya_ok A"
  shows "keeps (rt_inv C priv ks t) (remove_source A ip)"
  by (auto simp: keeps_def remove_source_def rt_inv_defs aya_remove_eq [OF assms])

lemma remove_sources_inv: "aya_ok A \<Longrightarrow> keeps (rt_inv C priv ks t) (remove_sources A ips)"
  by (induction ips) (auto intro: remove_source_inv)

lemma purge_key_id_inv: "aya_ok A \<Longrightarrow> keeps (rt_inv C priv ks t) (purge_key_id A k)"
  using remove_sources_inv [of A C priv ks t] by (auto simp: keeps_def purge_key_id_def Let_def)

lemma purge_keys_inv: "aya_ok A \<Longrightarrow> keeps (rt_inv C priv ks t) (purge_keys A keys)"
  by (induction keys) (auto intro: purge_key_id_inv)

lemma reap_inv: "aya_ok A \<Longrightarrow> keeps (rt_inv C priv ks t) (reap_expired_sources A K)"
  unfolding reap_expired_sources_def
proof (intro keeps_bind keeps_read_clocks)
  fix now
  assume "aya_ok A"
  then show "keeps (rt_inv C priv ks t) (\<lambda>s. let expired = expired_sources (allowed_sources s) now
       in if expired = [] then (Inr (), s) else remove_sources A expired s)"
    using remove_sources_inv [of A C priv ks t] by (auto simp: keeps_def Let_def)
qed

lemma verify_private:
  assumes "SpaVerifier_verify C T payload ip now (v, h) = (r, (v', h'))"
  shows "server_static_private v' = server_static_private v"
proof (cases r)
  case (Inl e)
  with assms show ?thesis by (auto elim: verify_Inl)
next
  case (Inr a)
  with assms show ?thesis by (auto elim: verify_Inr)
qed

lemma allow_source_inv:
  assumes A: "aya_ok A" and inv: "rt_inv C priv ks t s"
    and j: "\<And>e. justified C priv ks ip \<lparr>src_entry = \<lparr>expiry_ns = e, ae_key_id = acc_key_id acc,
         ae_client_id = acc_client_id acc, ae_pad = 0\<rparr>,
       src_noise_public_key = acc_noise_public_key acc,
       src_max_concurrent_sessions = acc_max_concurrent_sessions acc\<rparr>"
  shows "rt_inv C priv ks t (snd (allow_source A K ip acc ttl s))"
proof (cases "read_mono K s")
  case (Pair r s1)
  have s1: "rt_inv C priv ks t s1"
    using keepsD [OF keeps_read_clocks(2) inv Pair] .
  show ?thesis
  proof (cases r)
    case (Inr now)
    let ?e = "\<lparr>expiry_ns = saturating_add now (saturating_mul ttl 1000000000), ae_key_id = acc_key_id acc,
         ae_client_id = acc_client_id acc, ae_pad = 0\<rparr>"
    show ?thesis
    proof (cases "aya_insert A ip ?e (ALLOW_MAP (rt_maps s1))")
      case None
      then show ?thesis
        using s1 by (simp add: allow_source_def c_bind_def Pair Inr allow_insert_def Let_def)
    next
      case (Some m)
      let ?src = "\<lparr>src_entry = ?e, src_noise_public_key = acc_noise_public_key acc,
          src_max_concurrent_sessions = acc_max_concurrent_sessions acc\<rparr>"
      let ?s2 = "s1\<lparr>rt_maps := (rt_maps s1)\<lparr>ALLOW_MAP := m\<rparr>,
          allowed_sources := hm_insert ip ?src (allowed_sources s1)\<rparr>"
      have "mirror_covers t ?s2"
        unfolding mirror_covers_def
      proof (intro allI impI)
        fix ip' e assume e: "hm_get (ALLOW_MAP (rt_maps ?s2)) ip' = Some e"
        show "(\<exists>src. hm_get (allowed_sources ?s2) ip' = Some src \<and> src_entry src = e) \<or> expiry_ns e \<le> t"
        proof (cases "ip' = ip")
          case True
          then show ?thesis using e aya_insert_Some(1) [OF A Some] by simp
        next
          case False
          then have "hm_get (ALLOW_MAP (rt_maps s1)) ip' = Some e"
            using e aya_insert_Some(2) [OF A Some, of ip'] by simp
          then show ?thesis using s1 False by (simp add: rt_inv_defs)
        qed
      qed
      moreover have "all_justified C priv ks ?s2"
        unfolding all_justified_def
      proof (intro conjI allI impI)
        fix ip' src assume "hm_get (allowed_sources ?s2) ip' = Some src"
        then show "justified C priv ks ip' src"
          using s1 j by (auto simp: rt_inv_def all_justified_def split: if_splits)
      next
        fix ip' e assume e: "hm_get (ALLOW_MAP (rt_maps ?s2)) ip' = Some e"
        show "\<exists>src. src_entry src = e \<and> justified C priv ks ip' src"
        proof (cases "ip' = ip")
          case True
          then have "src_entry ?src = e" using e aya_insert_Some(1) [OF A Some] by simp
          then show ?thesis using j True by blast
        next
          case False
          then have "hm_get (ALLOW_MAP (rt_maps s1)) ip' = Some e"
            using e aya_insert_Some(2) [OF A Some, of ip'] by simp
          then show ?thesis using s1 by (simp add: rt_inv_def all_justified_def)
        qed
      qed
      ultimately have "rt_inv C priv ks t ?s2"
        using s1 by (simp add: rt_inv_def)
      then show ?thesis
        by (simp add: allow_source_def c_bind_def Pair Inr allow_insert_def Let_def Some)
    qed
  next
    case (Inl e)
    then show ?thesis using s1 by (simp add: allow_source_def c_bind_def Pair)
  qed
qed

lemma verify_candidate_inv:
  assumes A: "aya_ok A" and inv: "rt_inv C priv ks t s" and now: "wall_clock_now_ms (wall K (rt_tick s)) = Inr now"
    and step: "verify_candidate C T A K ttl ip payload s = (q, s')"
  shows "rt_inv C priv (ks @ [\<lparr>kn_verifier = rt_verifier s, kn_ip = ip, kn_now = now, kn_payload = payload\<rparr>]) t s'"
proof -
  let ?k = "\<lparr>kn_verifier = rt_verifier s, kn_ip = ip, kn_now = now, kn_payload = payload\<rparr>"
  let ?ks = "ks @ [?k]"
  obtain r v h where ver: "SpaVerifier_verify C T payload ip now (rt_verifier s, rt_host s) = (r, (v, h))"
    by (metis prod.collapse)
  let ?s = "s\<lparr>rt_tick := rt_tick s + 1, rt_verifier := v, rt_host := h\<rparr>"
  have inv': "rt_inv C priv ?ks t ?s"
    by (rule rt_inv_cong [OF rt_inv_mono [OF inv]]) (simp_all add: verify_private [OF ver])
  show ?thesis
  proof (cases r)
    case (Inl e)
    then show ?thesis using step inv' now ver by (auto simp: verify_candidate_def c_bind_def read_wall_def)
  next
    case (Inr acc)
    obtain p c where acc: "accepts C (rt_verifier s) ip now payload p c"
      and a: "acc = \<lparr>acc_key_id = pkt_key_id p, acc_client_id = client_id c, acc_client_name = client_name c,
            acc_noise_public_key = client_noise_public_key c, acc_mode = mode p,
            acc_counter = counter p,
            acc_max_concurrent_sessions = client_max_concurrent_sessions c\<rparr>"
      using ver Inr by (auto elim: verify_Inr)
    have priv: "server_static_private (rt_verifier s) = priv" using inv by (simp add: rt_inv_def)
    have "rt_inv C priv ?ks t (snd (allow_source A K ip acc ttl ?s))"
      by (rule allow_source_inv [OF A inv'], unfold justified_def, rule exI [of _ ?k], rule exI [of _ p], rule exI [of _ c])
        (use acc priv in \<open>simp add: a\<close>)
    moreover have "s' = snd (allow_source A K ip acc ttl ?s)"
      using step now ver Inr by (auto simp: verify_candidate_def c_bind_def read_wall_def split: prod.splits sum.splits)
    ultimately show ?thesis by simp
  qed
qed

lemma reload_authorized_keys_frame:
  "reload_authorized_keys C toml_keys path s = (r, s') \<Longrightarrow>
   rt_maps s' = rt_maps s \<and> allowed_sources s' = allowed_sources s \<and>
   server_static_private (rt_verifier s') = server_static_private (rt_verifier s)"
  by (auto simp: reload_authorized_keys_def reload_clients_def Let_def split: prod.splits sum.splits)

lemma reload_step_inv: "aya_ok A \<Longrightarrow> keeps (rt_inv C priv ks t) (reload_step C toml_keys path A)"
  unfolding keeps_def
proof (intro allI impI)
  fix s assume A: "aya_ok A" and inv: "rt_inv C priv ks t s"
  obtain r s' where r: "reload_authorized_keys C toml_keys path s = (r, s')"
    by (cases "reload_authorized_keys C toml_keys path s")
  have "rt_inv C priv ks t s'"
    using reload_authorized_keys_frame [OF r] inv by (auto elim: rt_inv_cong)
  then show "rt_inv C priv ks t (snd (reload_step C toml_keys path A s))"
    using purge_keys_inv [OF A] by (cases r) (auto simp: reload_step_def r keeps_def)
qed

section \<open>Runs\<close>

text \<open>
  The server from its start: frames handled by the kernel, connections of the proxy and the steps of
  the loop in any order. A step that ends with an error ends the run: \<open>run_spa\<close> returns it and the process
  exits. \<open>ks\<close> are the calls of the verifier so far.
\<close>

inductive spa_run :: "crypto \<Rightarrow> toml_counters \<Rightarrow> (string \<Rightarrow> AuthorizedKeysFile option) \<Rightarrow> path \<Rightarrow> aya \<Rightarrow> u64
    \<Rightarrow> bytes \<Rightarrow> knock list \<Rightarrow> u64 \<Rightarrow> runtime \<Rightarrow> bool"
  for C T toml_keys path A ttl priv where
  boot: "ALLOW_MAP (rt_maps s) = hm_empty \<Longrightarrow> allowed_sources s = hm_empty \<Longrightarrow>
    server_static_private (rt_verifier s) = priv \<Longrightarrow> spa_run C T toml_keys path A ttl priv [] 0 s"
| frame: "spa_run C T toml_keys path A ttl priv ks t s \<Longrightarrow> xdp_wf c \<Longrightarrow>
    spa_run C T toml_keys path A ttl priv ks t (s\<lparr>rt_maps := snd (ghostbro_xdp k c (rt_maps s))\<rparr>)"
| connect: "spa_run C T toml_keys path A ttl priv ks t s \<Longrightarrow>
    monotonic_now_ns (mono K (rt_tick s)) = Inr now \<Longrightarrow>
    spa_run C T toml_keys path A ttl priv ks (max t now) (snd (lookup_source K ip s))"
| take_event: "spa_run C T toml_keys path A ttl priv ks t s \<Longrightarrow> next_ring_item s = Some (item, s') \<Longrightarrow>
    spa_run C T toml_keys path A ttl priv ks t s'"
| candidate: "spa_run C T toml_keys path A ttl priv ks t s \<Longrightarrow> wall_clock_now_ms (wall K (rt_tick s)) = Inr now \<Longrightarrow>
    verify_candidate C T A K ttl ip payload s = (Inr r, s') \<Longrightarrow>
    spa_run C T toml_keys path A ttl priv
      (ks @ [\<lparr>kn_verifier = rt_verifier s, kn_ip = ip, kn_now = now, kn_payload = payload\<rparr>]) t s'"
| reload: "spa_run C T toml_keys path A ttl priv ks t s \<Longrightarrow> reload_step C toml_keys path A s = (Inr (), s') \<Longrightarrow>
    spa_run C T toml_keys path A ttl priv ks t s'"
| reap: "spa_run C T toml_keys path A ttl priv ks t s \<Longrightarrow> reap_expired_sources A K s = (Inr (), s') \<Longrightarrow>
    spa_run C T toml_keys path A ttl priv ks t s'"

text \<open>The iterations of the loop are such steps.\<close>

lemma verify_candidate_run:
  "establishes (\<lambda>s. \<exists>ks'. spa_run C T toml_keys path A ttl priv (ks @ ks') t s)
     (\<lambda>s. \<exists>ks'. spa_run C T toml_keys path A ttl priv (ks @ ks') t s) (\<lambda>_. True) (verify_candidate C T A K ttl ip payload)"
  unfolding establishes_def
proof (intro allI impI)
  fix s r s' assume "\<exists>ks'. spa_run C T toml_keys path A ttl priv (ks @ ks') t s"
    and v: "verify_candidate C T A K ttl ip payload s = (r, s')"
  then obtain ks' where run: "spa_run C T toml_keys path A ttl priv (ks @ ks') t s" by blast
  show "if isl r then True else \<exists>ks'. spa_run C T toml_keys path A ttl priv (ks @ ks') t s'"
  proof (cases r)
    case (Inr x)
    then obtain now where "wall_clock_now_ms (wall K (rt_tick s)) = Inr now"
      using v by (auto simp: verify_candidate_def comp_eqs read_wall_def)
    from spa_run.candidate [OF run this v [unfolded Inr]] show ?thesis using Inr by (metis append.assoc isl_def)
  qed simp
qed

lemma step_run:
  assumes "\<And>ks t s s'. spa_run C T toml_keys path A ttl priv ks t s \<Longrightarrow> m s = (Inr (), s') \<Longrightarrow> spa_run C T toml_keys path A ttl priv ks t s'"
  shows "establishes (\<lambda>s. \<exists>ks'. spa_run C T toml_keys path A ttl priv (ks @ ks') t s)
     (\<lambda>s. \<exists>ks'. spa_run C T toml_keys path A ttl priv (ks @ ks') t s) (\<lambda>_. True) m"
  unfolding establishes_def using assms by (metis isl_def old.sum.exhaust old.unit.exhaust)

lemma establishes_lift: "establishes P P (\<lambda>_. True) (c_lift x)" "establishes P P (\<lambda>_. True) (Pair x)"
  by (auto simp: establishes_def)

lemma drain_items_run:
  "establishes (\<lambda>s. \<exists>ks'. spa_run C T toml_keys path A ttl priv (ks @ ks') t s)
     (\<lambda>s. \<exists>ks'. spa_run C T toml_keys path A ttl priv (ks @ ks') t s) (\<lambda>_. True) (drain_items C T A K ttl items)"
proof (induction items)
  case (Cons i items)
  let ?P = "\<lambda>s. \<exists>ks'. spa_run C T toml_keys path A ttl priv (ks @ ks') t s"
  have item: "establishes ?P ?P (\<lambda>_. True) (ring_item C T A K ttl item)" for item
    unfolding ring_item_def Let_def
    by (auto intro: verify_candidate_run establishes_lift split: option.split)
  have rest: "establishes ?P ?P (\<lambda>_. True) (c_bind (ring_item C T A K ttl item) (\<lambda>_. drain_items C T A K ttl items))" for item
    by (rule establishes_bind [OF item Cons.IH])
  show ?case
    unfolding establishes_def
  proof (intro allI impI)
    fix s r s' assume P: "?P s" and d: "drain_items C T A K ttl (i # items) s = (r, s')"
    show "if isl r then True else ?P s'"
    proof (cases "next_ring_item s")
      case (Some x)
      obtain item s1 where x: "x = (item, s1)" by (cases x)
      have "?P s1" using P spa_run.take_event Some x by metis
      then show ?thesis using rest d Some x unfolding establishes_def by simp
    qed (use P d in auto)
  qed
qed (simp add: establishes_def)

lemma spa_iteration_run:
  assumes "spa_run C T toml_keys path A ttl priv ks t s"
    and "spa_iteration C T toml_keys path A K ttl https reloads due s = (Inr (), s')"
  shows "\<exists>ks'. spa_run C T toml_keys path A ttl priv (ks @ ks') t s'"
proof -
  let ?P = "\<lambda>s. \<exists>ks'. spa_run C T toml_keys path A ttl priv (ks @ ks') t s"
  have ring: "establishes ?P ?P (\<lambda>_. True) (drain_ring C T A K ttl)"
    using drain_items_run by (auto simp: establishes_def drain_ring_def)
  have web: "establishes ?P ?P (\<lambda>_. True) (drain_https C T A K ttl https)"
    by (induction https) (auto intro: establishes_lift establishes_bind verify_candidate_run)
  have re: "establishes ?P ?P (\<lambda>_. True) (drain_reloads C toml_keys path A reloads)"
    by (induction reloads) (auto intro: establishes_lift establishes_bind step_run spa_run.reload)
  have reap: "establishes ?P ?P (\<lambda>_. True) (if due then reap_expired_sources A K else c_lift (Inr ()))"
    by (auto intro: establishes_lift step_run spa_run.reap)
  have "establishes ?P ?P (\<lambda>_. True) (spa_iteration C T toml_keys path A K ttl https reloads due)"
    unfolding spa_iteration_def
    by (rule establishes_bind [OF ring], rule establishes_bind [OF web], rule establishes_bind [OF re], rule reap)
  moreover have "?P s" using assms(1) by (metis append_Nil2)
  ultimately show ?thesis using assms(2) unfolding establishes_def by (metis isl_def sum.distinct(1))
qed

text \<open>The index \<open>t\<close> is the latest clock reading of a proxy connection.\<close>

lemma lookup_source_inv:
  assumes inv: "rt_inv C priv ks t s" and now: "monotonic_now_ns (mono K (rt_tick s)) = Inr now"
  shows "rt_inv C priv ks (max t now) (snd (lookup_source K ip s))"
proof -
  have up: "rt_inv C priv ks (max t now) s"
    using inv by (auto simp: rt_inv_def mirror_covers_def le_max_iff_disj)
  let ?s1 = "s\<lparr>rt_tick := rt_tick s + 1\<rparr>"
  have s1: "rt_inv C priv ks (max t now) ?s1"
    using up by (rule rt_inv_cong) simp_all
  show ?thesis
  proof (cases "hm_get (allowed_sources s) ip")
    case None
    then show ?thesis using up by (simp add: lookup_source_def)
  next
    case (Some src)
    show ?thesis
    proof (cases "expiry_ns (src_entry src) \<le> now")
      case True
      let ?s2 = "?s1\<lparr>allowed_sources := hm_remove ip (allowed_sources s)\<rparr>"
      have "mirror_covers (max t now) ?s2"
        unfolding mirror_covers_def
      proof (intro allI impI)
        fix ip' e assume e: "hm_get (ALLOW_MAP (rt_maps ?s2)) ip' = Some e"
        then have "(\<exists>src. hm_get (allowed_sources s) ip' = Some src \<and> src_entry src = e) \<or> expiry_ns e \<le> max t now"
          using s1 by (auto simp: rt_inv_def mirror_covers_def)
        then show "(\<exists>src. hm_get (allowed_sources ?s2) ip' = Some src \<and> src_entry src = e) \<or> expiry_ns e \<le> max t now"
          using Some True by (cases "ip' = ip") (auto simp: le_max_iff_disj)
      qed
      then have "rt_inv C priv ks (max t now) ?s2"
        using s1 by (auto simp: rt_inv_def all_justified_def)
      then show ?thesis using True now Some by (simp add: lookup_source_def read_mono_def)
    next
      case False
      then show ?thesis using s1 now Some by (simp add: lookup_source_def read_mono_def)
    qed
  qed
qed

lemma admit_candidate_allow: "ALLOW_MAP (admit_candidate k c po pl ip sp cfg m) = ALLOW_MAP m"
  by (auto simp: admit_candidate_def emit_maps dest!: rate_limit_maps global_rate_maps
      split: prod.splits bool.splits)

lemma ghostbro_xdp_allow:
  assumes wf: "xdp_wf c"
  shows "hm_get (ALLOW_MAP (snd (ghostbro_xdp k c m))) ip = hm_get (ALLOW_MAP m) ip \<or>
         hm_get (ALLOW_MAP (snd (ghostbro_xdp k c m))) ip = None"
proof -
  have off: "unat (word_of_nat (transport (ctx_pkt c)) :: u64) \<le> 74"
    using unat_transport by simp
  have "hm_get (ALLOW_MAP m') ip = hm_get (ALLOW_MAP m) ip \<or> hm_get (ALLOW_MAP m') ip = None"
    if "is_allowed k x m = (b, m')" for x b m'
    using that by (auto simp: is_allowed_def Let_def split: option.splits if_splits)
  then show ?thesis
    by (auto simp: ghostbro_xdp_snd try_ghostbro_xdp_eq [OF wf] Let_def handle_tcp_eq [OF wf off]
        handle_udp_eq [OF wf off] admit_candidate_allow split: prod.splits)
qed

lemma spa_run_inv:
  assumes "spa_run C T toml_keys path A ttl priv ks t s" and "aya_ok A"
  shows "rt_inv C priv ks t s"
  using assms(1)
proof (induction rule: spa_run.induct)
  case (boot s)
  then show ?case by (simp add: rt_inv_defs)
next
  case (frame ks t s c k)
  have "hm_get (ALLOW_MAP (snd (ghostbro_xdp k c (rt_maps s)))) ip = Some e \<Longrightarrow>
      hm_get (ALLOW_MAP (rt_maps s)) ip = Some e" for ip e
    using ghostbro_xdp_allow [OF frame.hyps(2), of k "rt_maps s" ip] by auto
  then show ?case
    using frame.IH by (auto simp: rt_inv_defs)
next
  case (connect ks t s K now ip)
  then show ?case by (intro lookup_source_inv)
next
  case (take_event ks t s item s')
  then show ?case by (auto simp: next_ring_item_def split: list.splits elim: rt_inv_cong)
next
  case (candidate ks t s K now ip payload r s')
  then show ?case by (intro verify_candidate_inv [OF assms(2)])
next
  case (reload ks t s s')
  then show ?case using keepsD [OF reload_step_inv [OF assms(2)]] by blast
next
  case (reap ks t s K s')
  then show ?case using keepsD [OF reap_inv [OF assms(2)]] by blast
qed

section \<open>Removal\<close>

lemma remove_source_Inr:
  assumes "aya_ok A" and "remove_source A ip s = (Inr u, s')"
  shows "hm_get (ALLOW_MAP (rt_maps s)) ip \<noteq> None"
    and "ALLOW_MAP (rt_maps s') = hm_remove ip (ALLOW_MAP (rt_maps s))"
    and "allowed_sources s' = hm_remove ip (allowed_sources s)"
  using assms(2) by (auto simp: remove_source_def aya_remove_eq [OF assms(1)] split: if_splits)

lemma remove_sources_Inr:
  assumes "aya_ok A" and "remove_sources A ips s = (Inr u, s')"
  shows "ALLOW_MAP (rt_maps s') = fold hm_remove ips (ALLOW_MAP (rt_maps s)) \<and>
    allowed_sources s' = fold hm_remove ips (allowed_sources s) \<and>
    (\<forall>ip \<in> set ips. hm_get (ALLOW_MAP (rt_maps s)) ip \<noteq> None)"
  using assms(2)
proof (induction ips arbitrary: s)
  case (Cons ip ips)
  then obtain s1 where 1: "remove_source A ip s = (Inr (), s1)" and 2: "remove_sources A ips s1 = (Inr u, s')"
    by (auto simp: c_bind_Inr)
  have "hm_get (ALLOW_MAP (rt_maps s)) j \<noteq> None" if "hm_get (ALLOW_MAP (rt_maps s1)) j \<noteq> None" for j
    using that remove_source_Inr(2) [OF assms(1) 1] by (simp split: if_splits)
  then show ?case
    using Cons.IH [OF 2] remove_source_Inr [OF assms(1) 1] by auto
qed simp

lemma remove_sources_Inl:
  assumes "remove_sources A ips s = (Inl e, s')"
  shows "\<exists>ip. e = AllowRemoveFailed ip"
  using assms
proof (induction ips arbitrary: s)
  case (Cons ip ips)
  then show ?case
    by (auto simp: c_bind_Inl remove_source_def split: option.splits)
qed simp

lemma remove_sources_ok:
  assumes "aya_ok A" and "distinct ips" and "\<forall>ip \<in> set ips. hm_get (ALLOW_MAP (rt_maps s)) ip \<noteq> None"
  shows "\<exists>s'. remove_sources A ips s = (Inr (), s')"
  using assms(2,3)
proof (induction ips arbitrary: s)
  case (Cons ip ips)
  let ?s1 = "s\<lparr>rt_maps := (rt_maps s)\<lparr>ALLOW_MAP := hm_remove ip (ALLOW_MAP (rt_maps s))\<rparr>,
       allowed_sources := hm_remove ip (allowed_sources s)\<rparr>"
  have "remove_source A ip s = (Inr (), ?s1)"
    using Cons.prems(2) by (auto simp: remove_source_def aya_remove_eq [OF assms(1)])
  moreover have "\<exists>s'. remove_sources A ips ?s1 = (Inr (), s')"
    using Cons.prems by (intro Cons.IH) auto
  ultimately show ?case by (simp add: c_bind_def)
qed simp

lemma in_expired_sources:
  assumes "hm_ok m"
  shows "ip \<in> set (expired_sources m now) \<longleftrightarrow> (\<exists>src. hm_get m ip = Some src \<and> expiry_ns (src_entry src) \<le> now)"
    and "distinct (expired_sources m now)"
proof -
  show "ip \<in> set (expired_sources m now) \<longleftrightarrow> (\<exists>src. hm_get m ip = Some src \<and> expiry_ns (src_entry src) \<le> now)"
    using assms by (force simp: expired_sources_def hm_get_in_set)
  show "distinct (expired_sources m now)"
    using assms by (simp add: expired_sources_def hm_ok_def distinct_map_filter)
qed

lemma reap_Inr_cases:
  assumes "aya_ok A" and "monotonic_now_ns (mono K (rt_tick s)) = Inr now"
    and "reap_expired_sources A K s = (Inr (), s')"
  shows "ALLOW_MAP (rt_maps s') = fold hm_remove (expired_sources (allowed_sources s) now) (ALLOW_MAP (rt_maps s))"
    and "allowed_sources s' = fold hm_remove (expired_sources (allowed_sources s) now) (allowed_sources s)"
    and "\<forall>ip \<in> set (expired_sources (allowed_sources s) now). hm_get (ALLOW_MAP (rt_maps s)) ip \<noteq> None"
proof -
  let ?s1 = "s\<lparr>rt_tick := rt_tick s + 1\<rparr>"
  have "remove_sources A (expired_sources (allowed_sources s) now) ?s1 = (Inr (), s')"
    using assms(2,3) by (auto simp: reap_expired_sources_def c_bind_def read_mono_def Let_def split: if_splits)
  from remove_sources_Inr [OF assms(1) this]
  show "ALLOW_MAP (rt_maps s') = fold hm_remove (expired_sources (allowed_sources s) now) (ALLOW_MAP (rt_maps s))"
    and "allowed_sources s' = fold hm_remove (expired_sources (allowed_sources s) now) (allowed_sources s)"
    and "\<forall>ip \<in> set (expired_sources (allowed_sources s) now). hm_get (ALLOW_MAP (rt_maps s)) ip \<noteq> None"
    by simp_all
qed

section \<open>Events\<close>

lemma parse_event_bytes:
  assumes "length payload + length rest = BPF_SPA_MAX_LEN"
  shows "parse_spa_event (event_bytes ip port payload rest) =
    Some \<lparr>ev_src_ip = ip, ev_src_port = port, ev_payload_len = word_of_nat (length payload),
          ev_payload = payload @ rest\<rparr>"
proof -
  let ?a = "rev (to_be_bytes32 ip)" and ?b = "rev (to_be_bytes16 port)"
    and ?d = "rev (to_be_bytes16 (word_of_nat (length payload)))"
  let ?e = "?a @ ?b @ ?d @ payload @ rest"
  have "subslice ?e 0 4 = ?a" "subslice ?e 4 6 = ?b" "subslice ?e 6 8 = ?d" "drop 8 ?e = payload @ rest"
    by (simp_all add: subslice_def)
  moreover have "length ?e = event_size"
    using assms by (simp add: event_size_def)
  ultimately show ?thesis
    unfolding parse_spa_event_def event_bytes_def by simp
qed

section \<open>Properties\<close>

definition demo_runtime :: "u64 \<Rightarrow> runtime" where
  "demo_runtime expiry =
     \<lparr>rt_maps = demo_maps\<lparr>ALLOW_MAP := [(7, \<lparr>expiry_ns = expiry, ae_key_id = replicate 8 1,
        ae_client_id = 1, ae_pad = 0\<rparr>)]\<rparr>,
      allowed_sources = [(7, \<lparr>src_entry = \<lparr>expiry_ns = expiry, ae_key_id = replicate 8 1,
        ae_client_id = 1, ae_pad = 0\<rparr>, src_noise_public_key = replicate 32 2,
        src_max_concurrent_sessions = None\<rparr>)],
      rt_verifier = demo_verifier, rt_host = demo_host, rt_tick = 0\<rparr>"

lemma demo_runtime_ok: "hm_ok (allowed_sources (demo_runtime e))"
  by (simp add: demo_runtime_def hm_ok_def)

definition demo_clocks :: clocks where
  "demo_clocks = \<lparr>wall = (\<lambda>_. Some 1500), mono = (\<lambda>_. Some (100, 0))\<rparr>"

text \<open>
  C2. No entry without a knock: at every point of a run of the server, with the kernel handling any
  frames and the proxy any connections in between, an address in the kernel's allow map was granted by
  one of the calls of the verifier in that run: a packet seen from this address passed every check of
  the verifier the server had at that moment (opened under the server's key, signed by a client in its
  table, of the full tier, in the time window at that moment, with a counter above the highest it had
  seen, and bound to this very address unless the client signed the packet-source flag), and the
  entry carries that client's key and client identifier. A live entry is also in the proxy's mirror, and
  every mirrored source carries the key identifier, the Noise key and the session limit of a client
  whose packet was accepted in this way.
\<close>

theorem allow_map_only_by_knock:
  assumes "spa_run C T toml_keys path A ttl priv ks t s" and "aya_ok A"
    and "hm_get (ALLOW_MAP (rt_maps s)) ip = Some e"
  shows "(\<exists>k \<in> set ks. \<exists>p c. kn_ip k = ip \<and> server_static_private (kn_verifier k) = priv \<and>
        accepts C (kn_verifier k) ip (kn_now k) (kn_payload k) p c \<and> ae_key_id e = pkt_key_id p \<and> ae_client_id e = client_id c) \<and>
    (t < expiry_ns e \<longrightarrow> (\<exists>src. hm_get (allowed_sources s) ip = Some src \<and> src_entry src = e)) \<and>
    (\<forall>src. hm_get (allowed_sources s) ip = Some src \<longrightarrow>
       (\<exists>k \<in> set ks. \<exists>p c. kn_ip k = ip \<and> server_static_private (kn_verifier k) = priv \<and>
          accepts C (kn_verifier k) ip (kn_now k) (kn_payload k) p c \<and> ae_key_id (src_entry src) = pkt_key_id p \<and>
          src_noise_public_key src = client_noise_public_key c \<and>
          src_max_concurrent_sessions src = client_max_concurrent_sessions c))"
proof -
  have inv: "rt_inv C priv ks t s"
    using spa_run_inv [OF assms(1,2)] .
  have "\<exists>src0. src_entry src0 = e \<and> justified C priv ks ip src0"
    using inv assms(3) by (simp add: rt_inv_def all_justified_def)
  then have "\<exists>k \<in> set ks. \<exists>p c. kn_ip k = ip \<and> server_static_private (kn_verifier k) = priv \<and>
      accepts C (kn_verifier k) ip (kn_now k) (kn_payload k) p c \<and> ae_key_id e = pkt_key_id p \<and> ae_client_id e = client_id c"
    unfolding justified_def by blast
  moreover have "t < expiry_ns e \<longrightarrow> (\<exists>src. hm_get (allowed_sources s) ip = Some src \<and> src_entry src = e)"
    using inv assms(3) by (fastforce simp: rt_inv_def mirror_covers_def)
  moreover have "\<exists>k \<in> set ks. \<exists>p c. kn_ip k = ip \<and> server_static_private (kn_verifier k) = priv \<and>
          accepts C (kn_verifier k) ip (kn_now k) (kn_payload k) p c \<and> ae_key_id (src_entry src) = pkt_key_id p \<and>
          src_noise_public_key src = client_noise_public_key c \<and>
          src_max_concurrent_sessions src = client_max_concurrent_sessions c"
    if "hm_get (allowed_sources s) ip = Some src" for src
  proof -
    have "justified C priv ks ip src"
      using inv that by (simp add: rt_inv_def all_justified_def)
    then show ?thesis unfolding justified_def by blast
  qed
  ultimately show ?thesis by blast
qed

definition demo_start :: runtime where
  "demo_start = \<lparr>rt_maps = demo_maps, allowed_sources = hm_empty, rt_verifier = demo_verifier,
      rt_host = demo_host, rt_tick = 0\<rparr>"

lemma demo_granted:
  obtains ks s where "spa_run toy_crypto toy_toml (\<lambda>_. None) [] plain_aya 60 [5] ks 0 s"
    and "hm_get (ALLOW_MAP (rt_maps s)) 7 = Some \<lparr>expiry_ns = 160000000000,
           ae_key_id = client_key_id demo_client, ae_client_id = 1, ae_pad = 0\<rparr>"
proof -
  obtain a v' h' where k: "SpaVerifier_verify toy_crypto toy_toml demo_payload 7 1500 (demo_verifier, demo_host)
      = (Inr a, (v', h'))" and a: "acc_client_id a = 1" "acc_key_id a = client_key_id demo_client"
    using demo_knock [OF demo_host_ok(1,2)] by metis
  let ?it = "spa_iteration toy_crypto toy_toml (\<lambda>_. None) [] plain_aya demo_clocks 60
      [\<lparr>cand_src_ip = 7, cand_payload = demo_payload\<rparr>] 0 False demo_start"
  have it: "fst ?it = Inr ()" "hm_get (ALLOW_MAP (rt_maps (snd ?it))) 7 = Some \<lparr>expiry_ns = 160000000000,
           ae_key_id = client_key_id demo_client, ae_client_id = 1, ae_pad = 0\<rparr>"
    by (simp_all add: spa_iteration_def drain_ring_def demo_start_def demo_maps_def c_bind_def
        verify_candidate_def read_wall_def wall_clock_now_ms_def demo_clocks_def k allow_source_def read_mono_def
        monotonic_now_ns_def try_u64_def saturating_mul_def saturating_add_def allow_insert_def plain_aya_def a Let_def)
  have "spa_run toy_crypto toy_toml (\<lambda>_. None) [] plain_aya 60 [5] [] 0 demo_start"
    by (rule spa_run.boot) (simp_all add: demo_start_def demo_maps_def demo_verifier_def from_counters_def)
  moreover have "?it = (Inr (), snd ?it)"
    using it(1) by (metis prod.collapse)
  ultimately obtain ks where "spa_run toy_crypto toy_toml (\<lambda>_. None) [] plain_aya 60 [5] ks 0 (snd ?it)"
    using spa_iteration_run by fastforce
  then show thesis using it(2) by (rule that)
qed

theorem allow_map_only_by_knock_witness:
  "\<exists>ks s src k p c. spa_run toy_crypto toy_toml (\<lambda>_. None) [] plain_aya 60 [5] ks 0 s \<and>
     hm_get (allowed_sources s) 7 = Some src \<and> expiry_ns (src_entry src) = 160000000000 \<and>
     k \<in> set ks \<and> accepts toy_crypto (kn_verifier k) 7 (kn_now k) (kn_payload k) p c \<and> client_id c = 1"
proof -
  obtain ks s where "spa_run toy_crypto toy_toml (\<lambda>_. None) [] plain_aya 60 [5] ks 0 s"
    and "hm_get (ALLOW_MAP (rt_maps s)) 7 = Some \<lparr>expiry_ns = 160000000000,
           ae_key_id = client_key_id demo_client, ae_client_id = 1, ae_pad = 0\<rparr>"
    by (rule demo_granted)
  moreover from allow_map_only_by_knock [OF this(1) plain_aya_ok this(2)]
  obtain src k p c where "hm_get (allowed_sources s) 7 = Some src" "expiry_ns (src_entry src) = 160000000000"
    "k \<in> set ks" "accepts toy_crypto (kn_verifier k) 7 (kn_now k) (kn_payload k) p c" "client_id c = 1"
    by auto
  ultimately show ?thesis by blast
qed

text \<open>
  Revocation: when purging a key succeeds, no live kernel entry and no mirrored source of that
  key is left and every other source keeps its mirrored entry, in every state that satisfies the
  invariant of a run.
\<close>

theorem purge_key_id_revokes:
  assumes "aya_ok A" and "rt_inv C priv ks t s" and "purge_key_id A k s = (Inr (), s')"
  shows "(\<forall>ip e. hm_get (ALLOW_MAP (rt_maps s')) ip = Some e \<longrightarrow> t < expiry_ns e \<longrightarrow> ae_key_id e \<noteq> k) \<and>
    (\<forall>ip src. hm_get (allowed_sources s') ip = Some src \<longleftrightarrow>
       hm_get (allowed_sources s) ip = Some src \<and> ae_key_id (src_entry src) \<noteq> k)"
proof -
  let ?ips = "map fst (filter (\<lambda>(src_ip, source). ae_key_id (src_entry source) = k) (allowed_sources s))"
  have ok: "hm_ok (allowed_sources s)" and cov: "mirror_covers t s"
    using assms(2) by (simp_all add: rt_inv_def)
  have rem: "remove_sources A ?ips s = (Inr (), s')"
    using assms(3) by (auto simp: purge_key_id_def Let_def split: if_splits)
  have mem: "ip \<in> set ?ips \<longleftrightarrow> (\<exists>src. hm_get (allowed_sources s) ip = Some src \<and> ae_key_id (src_entry src) = k)" for ip
    using ok by (force simp: hm_get_in_set)
  have "hm_get (allowed_sources s') ip = Some src \<longleftrightarrow>
       hm_get (allowed_sources s) ip = Some src \<and> ae_key_id (src_entry src) \<noteq> k" for ip src
    using remove_sources_Inr [OF assms(1) rem] mem [of ip] by (auto simp: hm.get_removes)
  moreover have "ae_key_id e \<noteq> k" if e: "hm_get (ALLOW_MAP (rt_maps s')) ip = Some e" and live: "t < expiry_ns e" for ip e
  proof -
    have "ip \<notin> set ?ips" and "hm_get (ALLOW_MAP (rt_maps s)) ip = Some e"
      using e remove_sources_Inr [OF assms(1) rem] by (auto simp: hm.get_removes split: if_splits)
    then show ?thesis using cov mem [of ip] live unfolding mirror_covers_def by (auto simp: not_le [symmetric])
  qed
  ultimately show ?thesis by blast
qed

theorem purge_key_id_revokes_witness:
  "\<exists>s s'. hm_get (ALLOW_MAP (rt_maps s)) 7 \<noteq> None \<and>
     purge_key_id plain_aya (client_key_id demo_client) s = (Inr (), s') \<and>
     (\<forall>e. hm_get (ALLOW_MAP (rt_maps s')) 7 = Some e \<longrightarrow> 0 < expiry_ns e \<longrightarrow> ae_key_id e \<noteq> client_key_id demo_client)"
proof -
  obtain ks s where run: "spa_run toy_crypto toy_toml (\<lambda>_. None) [] plain_aya 60 [5] ks 0 s"
    and e: "hm_get (ALLOW_MAP (rt_maps s)) 7 = Some \<lparr>expiry_ns = 160000000000,
           ae_key_id = client_key_id demo_client, ae_client_id = 1, ae_pad = 0\<rparr>"
    by (rule demo_granted)
  let ?s = "s\<lparr>allowed_sources := filter (\<lambda>(ip, src). hm_get (ALLOW_MAP (rt_maps s)) ip \<noteq> None) (allowed_sources s)\<rparr>"
  have inv: "rt_inv toy_crypto [5] ks 0 s" using spa_run_inv [OF run plain_aya_ok] .
  then have ok: "hm_ok (allowed_sources s)" by (simp add: rt_inv_def)
  have ok': "hm_ok (allowed_sources ?s)"
    using ok by (simp add: hm_ok_def distinct_map_filter)
  have get: "hm_get (allowed_sources ?s) ip = Some src \<longleftrightarrow>
      hm_get (allowed_sources s) ip = Some src \<and> hm_get (ALLOW_MAP (rt_maps s)) ip \<noteq> None" for ip src
    using ok ok' by (auto simp: hm_get_in_set)
  have "rt_inv toy_crypto [5] ks 0 ?s"
    using inv ok' get by (simp add: rt_inv_defs)
  moreover have "\<exists>s'. purge_key_id plain_aya (client_key_id demo_client) ?s = (Inr (), s')"
  proof -
    let ?ips = "map fst (filter (\<lambda>(src_ip, source). ae_key_id (src_entry source) = client_key_id demo_client) (allowed_sources ?s))"
    have "distinct ?ips" using ok' unfolding hm_ok_def by (rule distinct_map_filter)
    then have "\<exists>s'. remove_sources plain_aya ?ips ?s = (Inr (), s')"
      by (rule remove_sources_ok [OF plain_aya_ok]) auto
    then show ?thesis by (simp add: purge_key_id_def Let_def)
  qed
  ultimately obtain s' where inv2: "rt_inv toy_crypto [5] ks 0 ?s"
    and p: "purge_key_id plain_aya (client_key_id demo_client) ?s = (Inr (), s')" by blast
  show ?thesis
    using purge_key_id_revokes [OF plain_aya_ok inv2 p] p e
    by (intro exI [of _ ?s] exI [of _ s']) simp
qed

text \<open>
  Reaping: while every mirrored entry is still in the kernel map, a reap at time \<open>now\<close> succeeds
  and removes exactly the sources whose expiry has passed, from the mirror and from the kernel
  map.
\<close>

theorem reap_removes_expired:
  assumes "aya_ok A" and "hm_ok (allowed_sources s)" and "monotonic_now_ns (mono K (rt_tick s)) = Inr now"
    and "\<forall>ip src. hm_get (allowed_sources s) ip = Some src \<longrightarrow> hm_get (ALLOW_MAP (rt_maps s)) ip = Some (src_entry src)"
  shows "\<exists>s'. reap_expired_sources A K s = (Inr (), s') \<and>
    (\<forall>ip src. hm_get (allowed_sources s') ip = Some src \<longleftrightarrow>
       hm_get (allowed_sources s) ip = Some src \<and> now < expiry_ns (src_entry src)) \<and>
    (\<forall>ip. hm_get (ALLOW_MAP (rt_maps s')) ip =
       (case hm_get (allowed_sources s) ip of
          None \<Rightarrow> hm_get (ALLOW_MAP (rt_maps s)) ip
        | Some src \<Rightarrow> if expiry_ns (src_entry src) \<le> now then None else Some (src_entry src)))"
proof -
  let ?ips = "expired_sources (allowed_sources s) now"
  have "\<forall>ip \<in> set ?ips. hm_get (ALLOW_MAP (rt_maps s)) ip \<noteq> None"
    using assms(2,4) by (auto simp: in_expired_sources)
  then obtain s' where "remove_sources A ?ips (s\<lparr>rt_tick := rt_tick s + 1\<rparr>) = (Inr (), s')"
    using remove_sources_ok [OF assms(1) in_expired_sources(2) [OF assms(2)], of now "s\<lparr>rt_tick := rt_tick s + 1\<rparr>"] by auto
  then have reap: "\<exists>s'. reap_expired_sources A K s = (Inr (), s')"
    using assms(3) by (auto simp: reap_expired_sources_def c_bind_def read_mono_def Let_def)
  then obtain s' where s': "reap_expired_sources A K s = (Inr (), s')" by blast
  note r = reap_Inr_cases [OF assms(1,3) s']
  have exp: "ip \<in> set ?ips \<longleftrightarrow> (\<exists>src. hm_get (allowed_sources s) ip = Some src \<and> expiry_ns (src_entry src) \<le> now)" for ip
    by (rule in_expired_sources(1) [OF assms(2)])
  have "hm_get (allowed_sources s') ip = Some src \<longleftrightarrow>
      hm_get (allowed_sources s) ip = Some src \<and> now < expiry_ns (src_entry src)" for ip src
    using exp [of ip] by (auto simp: r(2) hm.get_removes not_le [symmetric])
  moreover have "hm_get (ALLOW_MAP (rt_maps s')) ip =
       (case hm_get (allowed_sources s) ip of
          None \<Rightarrow> hm_get (ALLOW_MAP (rt_maps s)) ip
        | Some src \<Rightarrow> if expiry_ns (src_entry src) \<le> now then None else Some (src_entry src))" for ip
    using exp [of ip] assms(4) by (cases "hm_get (allowed_sources s) ip") (simp_all add: r(1) hm.get_removes)
  ultimately show ?thesis using s' by blast
qed

theorem reap_removes_expired_witness:
  "\<exists>s'. reap_expired_sources plain_aya demo_clocks (demo_runtime 7) = (Inr (), s') \<and>
     hm_get (allowed_sources s') 7 = None"
proof -
  have mono: "monotonic_now_ns (mono demo_clocks (rt_tick (demo_runtime 7))) = Inr 100000000000"
    by (simp add: demo_clocks_def monotonic_now_ns_def try_u64_def saturating_mul_def saturating_add_def)
  have "\<forall>ip src. hm_get (allowed_sources (demo_runtime 7)) ip = Some src \<longrightarrow>
      hm_get (ALLOW_MAP (rt_maps (demo_runtime 7))) ip = Some (src_entry src)"
    by (auto simp: demo_runtime_def hm_get_def)
  from reap_removes_expired [OF plain_aya_ok demo_runtime_ok mono this]
  obtain s' where "reap_expired_sources plain_aya demo_clocks (demo_runtime 7) = (Inr (), s')"
    and left: "\<And>ip src. hm_get (allowed_sources s') ip = Some src \<longleftrightarrow>
       hm_get (allowed_sources (demo_runtime 7)) ip = Some src \<and> 100000000000 < expiry_ns (src_entry src)"
    by blast
  moreover have "hm_get (allowed_sources s') 7 = None"
    using left [of 7] by (cases "hm_get (allowed_sources s') 7")
      (auto simp: demo_runtime_def hm_get_def)
  ultimately show ?thesis by blast
qed

text \<open>
  An expired client can stop the server: once the kernel filter has itself removed an expired
  entry (a frame for the proxy port from that address after the expiry), the next reap whose clock
  is past the expiry ends with the error of removing an absent key, which \<open>run_spa\<close> returns.
\<close>

theorem expired_client_stops_server:
  assumes "aya_ok A" and "hm_ok (allowed_sources s)"
    and "hm_get (allowed_sources s) (source_ip p) = Some src" and "src_entry src = e"
    and "hm_get (ALLOW_MAP (rt_maps s)) (source_ip p) = Some e"
    and "xdp_wf c" and "ctx_pkt c = p" and "ipv4_frame p" and "p ! 23 = IP_PROTO_TCP"
    and "transport p + 20 \<le> length p" and "be16 p (transport p + 2) = proxy_port (load_config (rt_maps s))"
    and "expiry_ns e \<le> ktime_allow k"
    and "s1 = s\<lparr>rt_maps := snd (ghostbro_xdp k c (rt_maps s))\<rparr>"
    and "monotonic_now_ns (mono K (rt_tick s)) = Inr now" and "expiry_ns e \<le> now"
  shows "\<exists>ip s2. reap_expired_sources A K s1 = (Inl (AllowRemoveFailed ip), s2)"
proof -
  have off: "unat (word_of_nat (transport p) :: u64) \<le> 74"
    using unat_transport [of p] by simp
  have "ALLOW_MAP (rt_maps s1) = hm_remove (source_ip p) (ALLOW_MAP (rt_maps s))"
    using assms(5,7-13) unat_transport(1) [of p]
    by (auto simp: ghostbro_xdp_def try_ghostbro_xdp_eq [OF assms(6)] handle_tcp_eq [OF assms(6) off]
        ipv4_frame_def is_allowed_def Let_def)
  then have gone: "hm_get (ALLOW_MAP (rt_maps s1)) (source_ip p) = None" by simp
  have s1: "allowed_sources s1 = allowed_sources s" "rt_tick s1 = rt_tick s"
    using assms(13) by simp_all
  have exp: "source_ip p \<in> set (expired_sources (allowed_sources s1) now)"
    using assms(2-4,15) by (auto simp: s1 in_expired_sources)
  obtain r s2 where r: "reap_expired_sources A K s1 = (r, s2)" by (cases "reap_expired_sources A K s1")
  show ?thesis
  proof (cases r)
    case (Inr u)
    then show ?thesis
      using bspec [OF reap_Inr_cases(3) [OF assms(1), of K s1 now s2] exp] r gone assms(14) s1 by simp
  next
    case (Inl d)
    have "remove_sources A (expired_sources (allowed_sources s1) now) (s1\<lparr>rt_tick := rt_tick s1 + 1\<rparr>) = (Inl d, s2)"
      using r Inl assms(14) exp s1
      by (auto simp: reap_expired_sources_def c_bind_def read_mono_def Let_def split: if_splits)
    then show ?thesis
      using remove_sources_Inl r Inl by metis
  qed
qed

theorem expired_client_stops_server_witness:
  "\<exists>ip s2. reap_expired_sources plain_aya demo_clocks
     ((demo_runtime 7)\<lparr>rt_maps := snd (ghostbro_xdp (demo_kernel 50)
        (demo_ctx (demo_frame 6 ([0, 99, 0x20, 0xFB] @ replicate 16 0))) (rt_maps (demo_runtime 7)))\<rparr>) =
     (Inl (AllowRemoveFailed ip), s2)"
proof -
  let ?p = "demo_frame 6 ([0, 99, 0x20, 0xFB] @ replicate 16 0)"
  have wf: "xdp_wf (demo_ctx ?p)" by (simp add: xdp_wf_def demo_ctx_def demo_frame_def)
  have mono: "monotonic_now_ns (mono demo_clocks (rt_tick (demo_runtime 7))) = Inr 100000000000"
    by (simp add: demo_clocks_def monotonic_now_ns_def try_u64_def saturating_mul_def saturating_add_def)
  have ip: "source_ip ?p = 7" by code_simp
  have f: "ipv4_frame ?p" "?p ! 23 = IP_PROTO_TCP" "transport ?p + 20 \<le> length ?p"
    "be16 ?p (transport ?p + 2) = proxy_port (load_config demo_maps)"
    by code_simp+
  have "load_config (rt_maps (demo_runtime 7)) = load_config demo_maps"
    by (simp add: load_config_def demo_runtime_def)
  then have port: "be16 ?p (transport ?p + 2) = proxy_port (load_config (rt_maps (demo_runtime 7)))"
    by (simp only: f(4))
  let ?e = "\<lparr>expiry_ns = 7, ae_key_id = replicate 8 1, ae_client_id = 1, ae_pad = 0\<rparr>"
  have src: "hm_get (allowed_sources (demo_runtime 7)) (source_ip ?p) =
      Some \<lparr>src_entry = ?e, src_noise_public_key = replicate 32 2, src_max_concurrent_sessions = None\<rparr>"
    unfolding ip by (simp add: demo_runtime_def hm_get_def)
  have e: "hm_get (ALLOW_MAP (rt_maps (demo_runtime 7))) (source_ip ?p) = Some ?e"
    unfolding ip by (simp add: demo_runtime_def hm_get_def)
  show ?thesis
    by (rule expired_client_stops_server [OF plain_aya_ok demo_runtime_ok src _ e wf _ f(1-3) port _ refl mono])
      (simp_all add: demo_ctx_def demo_kernel_def)
qed

text \<open>
  The ring buffer carries packets unchanged: the event the kernel writes for a datagram with
  an admissible payload parses in user space to the same source address, port and payload, and
  the verifier gets exactly the payload bytes, without the stale bytes of the slot.
\<close>

theorem ring_event_roundtrip:
  assumes "length payload + length rest = BPF_SPA_MAX_LEN"
  shows "\<exists>ev. parse_spa_event (event_bytes ip port payload rest) = Some ev \<and> ev_src_ip ev = ip \<and>
    ev_src_port ev = port \<and> take (unat (ev_payload_len ev)) (ev_payload ev) = payload \<and>
    ring_item C T A K ttl (event_bytes ip port payload rest) = verify_candidate C T A K ttl ip payload"
proof -
  have "length payload \<le> 176" using assms by (simp add: BPF_SPA_MAX_LEN_def)
  then have "unat (word_of_nat (length payload) :: u16) = length payload"
    by (simp add: unat_of_nat)
  with \<open>length payload \<le> 176\<close> show ?thesis
    by (simp add: parse_event_bytes [OF assms] ring_item_def BPF_SPA_MAX_LEN_def)
qed

theorem ring_event_roundtrip_witness:
  "\<exists>ev. parse_spa_event (event_bytes 0x7F000001 12345 [1, 2, 3] (replicate 173 9)) = Some ev \<and>
     ev_src_port ev = 12345 \<and> take (unat (ev_payload_len ev)) (ev_payload ev) = [1, 2, 3]"
proof -
  have "length [1, 2, 3 :: u8] + length (replicate 173 (9 :: u8)) = BPF_SPA_MAX_LEN"
    by (simp add: BPF_SPA_MAX_LEN_def)
  from ring_event_roundtrip [OF this] show ?thesis by metis
qed

end
