(* ===== verification/Net_Addr.thy ===== *)
theory Net_Addr
  imports Rust_Str
begin

text \<open>
  \<open>std::net::IpAddr\<close> and the classifications of it that the sources use. An IPv4 address is its
  32-bit value, an IPv6 address its sixteen bytes.
\<close>

datatype ip_addr = V4 u32 | V6 bytes

definition v4_octet :: "u32 \<Rightarrow> nat \<Rightarrow> nat" where
  "v4_octet a i = unat a div 256 ^ (3 - i) mod 256"

definition is_unspecified :: "ip_addr \<Rightarrow> bool" where
  "is_unspecified ip = (case ip of V4 a \<Rightarrow> a = 0 | V6 bs \<Rightarrow> bs = replicate 16 0)"

definition is_multicast :: "ip_addr \<Rightarrow> bool" where
  "is_multicast ip =
     (case ip of V4 a \<Rightarrow> 224 \<le> v4_octet a 0 \<and> v4_octet a 0 \<le> 239 | V6 bs \<Rightarrow> bs \<noteq> [] \<and> hd bs = 255)"

definition is_loopback :: "ip_addr \<Rightarrow> bool" where
  "is_loopback ip =
     (case ip of V4 a \<Rightarrow> v4_octet a 0 = 127 | V6 bs \<Rightarrow> bs = replicate 15 0 @ [1])"

definition is_private :: "u32 \<Rightarrow> bool" where
  "is_private a \<longleftrightarrow> v4_octet a 0 = 10 \<or> (v4_octet a 0 = 172 \<and> 16 \<le> v4_octet a 1 \<and> v4_octet a 1 \<le> 31) \<or>
     (v4_octet a 0 = 192 \<and> v4_octet a 1 = 168)"

definition is_link_local :: "u32 \<Rightarrow> bool" where
  "is_link_local a \<longleftrightarrow> v4_octet a 0 = 169 \<and> v4_octet a 1 = 254"

definition is_unique_local :: "bytes \<Rightarrow> bool" where
  "is_unique_local bs \<longleftrightarrow> bs \<noteq> [] \<and> hd bs AND 0xFE = 0xFC"

definition is_unicast_link_local :: "bytes \<Rightarrow> bool" where
  "is_unicast_link_local bs \<longleftrightarrow> 2 \<le> length bs \<and> hd bs = 0xFE \<and> bs ! 1 AND 0xC0 = 0x80"

text \<open>\<open>::ffff:a.b.c.d\<close>: an IPv4 address in IPv6 form; a socket connected to it reaches the IPv4 host.\<close>

definition v4_mapped :: "u32 \<Rightarrow> ip_addr" where
  "v4_mapped a = V6 (replicate 10 0 @ [255, 255] @ to_be_bytes32 a)"

section \<open>Reading socket addresses\<close>

text \<open>
  \<open>str::parse::<SocketAddr>\<close>: a parser takes a string and leaves a rest. The port and the scope
  identifier are decimal with any number of digits; an IPv4 octet has at most three and no leading
  zero; an IPv6 group has at most four hexadecimal digits, and an IPv4 address may stand for the last
  two groups of an address.
\<close>

type_synonym 'a parser = "string \<Rightarrow> ('a \<times> string) option"

definition read_char :: "char \<Rightarrow> unit parser" where
  "read_char c s = (case s of [] \<Rightarrow> None | d # r \<Rightarrow> if d = c then Some ((), r) else None)"

fun take_digits :: "nat \<Rightarrow> string \<Rightarrow> nat list \<times> string" where
  "take_digits radix [] = ([], [])"
| "take_digits radix (c # cs) =
     (case digit_value c of
        None \<Rightarrow> ([], c # cs)
      | Some d \<Rightarrow> if d < radix then (case take_digits radix cs of (ds, r) \<Rightarrow> (d # ds, r)) else ([], c # cs))"

definition read_number :: "nat \<Rightarrow> nat \<Rightarrow> nat option \<Rightarrow> bool \<Rightarrow> nat parser" where
  "read_number bound radix max_digits allow_zero_prefix s =
     (case take_digits radix s of
        (ds, r) \<Rightarrow>
          let n = foldl (\<lambda>acc d. acc * radix + d) 0 ds in
          if ds = [] \<or> (case max_digits of None \<Rightarrow> False | Some m \<Rightarrow> m < length ds) \<or>
             (\<not> allow_zero_prefix \<and> hd ds = 0 \<and> 1 < length ds) \<or> bound \<le> n
          then None else Some (n, r))"

definition read_ipv4 :: "u32 parser" where
  "read_ipv4 s =
     Option.bind (read_number 256 10 (Some 3) False s) (\<lambda>(a, s).
     Option.bind (read_char CHR ''.'' s) (\<lambda>(_, s).
     Option.bind (read_number 256 10 (Some 3) False s) (\<lambda>(b, s).
     Option.bind (read_char CHR ''.'' s) (\<lambda>(_, s).
     Option.bind (read_number 256 10 (Some 3) False s) (\<lambda>(c, s).
     Option.bind (read_char CHR ''.'' s) (\<lambda>(_, s).
     Option.bind (read_number 256 10 (Some 3) False s) (\<lambda>(d, s).
       Some (word_of_nat (((a * 256 + b) * 256 + c) * 256 + d), s))))))))"

text \<open>Groups of an IPv6 address: up to \<open>limit\<close> of them, the first without a leading colon.\<close>

definition sep_colon :: "bool \<Rightarrow> 'a parser \<Rightarrow> 'a parser" where
  "sep_colon first p s = (if first then p s else Option.bind (read_char CHR '':'' s) (\<lambda>(_, s). p s))"

fun read_groups :: "nat \<Rightarrow> bool \<Rightarrow> string \<Rightarrow> nat list \<times> bool \<times> string" where
  "read_groups 0 first s = ([], False, s)"
| "read_groups (Suc n) first s =
     (case (if n = 0 then None else sep_colon first read_ipv4 s) of
        Some (a, r) \<Rightarrow> ([unat a div 65536, unat a mod 65536], True, r)
      | None \<Rightarrow>
          (case sep_colon first (read_number 65536 16 (Some 4) True) s of
             None \<Rightarrow> ([], False, s)
           | Some (g, r) \<Rightarrow> (case read_groups n False r of (gs, v4, r') \<Rightarrow> (g # gs, v4, r'))))"

definition groups_bytes :: "nat list \<Rightarrow> bytes" where
  "groups_bytes gs = concat (map (be_bytes 2) gs)"

definition read_ipv6 :: "bytes parser" where
  "read_ipv6 s =
     (case read_groups 8 True s of
        (head, head_ipv4, r) \<Rightarrow>
          if length head = 8 then Some (groups_bytes head, r)
          else if head_ipv4 then None
          else
            Option.bind (read_char CHR '':'' r) (\<lambda>(_, r).
            Option.bind (read_char CHR '':'' r) (\<lambda>(_, r).
              case read_groups (7 - length head) True r of
                (tail, _, r') \<Rightarrow>
                  Some (groups_bytes (head @ replicate (8 - length head - length tail) 0 @ tail), r'))))"

type_synonym sock_addr = "ip_addr \<times> u16"

definition read_port :: "u16 parser" where
  "read_port s =
     Option.bind (read_char CHR '':'' s) (\<lambda>(_, s).
     Option.bind (read_number 65536 10 None True s) (\<lambda>(n, s). Some (word_of_nat n, s)))"

definition read_scope_id :: "unit parser" where
  "read_scope_id s =
     (case Option.bind (read_char CHR ''%'' s) (\<lambda>(_, s). read_number (2 ^ 32) 10 None True s) of
        None \<Rightarrow> Some ((), s)
      | Some (_, r) \<Rightarrow> Some ((), r))"

definition read_socket_addr_v4 :: "sock_addr parser" where
  "read_socket_addr_v4 s =
     Option.bind (read_ipv4 s) (\<lambda>(a, s). Option.bind (read_port s) (\<lambda>(p, s). Some ((V4 a, p), s)))"

definition read_socket_addr_v6 :: "sock_addr parser" where
  "read_socket_addr_v6 s =
     Option.bind (read_char CHR ''['' s) (\<lambda>(_, s).
     Option.bind (read_ipv6 s) (\<lambda>(a, s).
     Option.bind (read_scope_id s) (\<lambda>(_, s).
     Option.bind (read_char CHR '']'' s) (\<lambda>(_, s).
     Option.bind (read_port s) (\<lambda>(p, s). Some ((V6 a, p), s))))))"

definition parse_socket_addr :: "string \<Rightarrow> sock_addr option" where
  "parse_socket_addr s =
     (case (case read_socket_addr_v4 s of Some x \<Rightarrow> Some x | None \<Rightarrow> read_socket_addr_v6 s) of
        Some (a, []) \<Rightarrow> Some a
      | _ \<Rightarrow> None)"

text \<open>\<open>Display\<close> of an IPv4 address.\<close>

definition show_ipv4 :: "u32 \<Rightarrow> string" where
  "show_ipv4 a = join ''.'' (map (\<lambda>i. nat_digits (v4_octet a i)) [0, 1, 2, 3])"

section \<open>Printed addresses are read back\<close>

text \<open>The decimal digits of a number.\<close>

definition digits_of :: "nat \<Rightarrow> nat list \<Rightarrow> bool" where
  "digits_of n ds \<longleftrightarrow> nat_digits n = map digit_char ds \<and> (\<forall>d \<in> set ds. d < 10) \<and> foldl (\<lambda>acc d. acc * 10 + d) 0 ds = n \<and>
     ds \<noteq> [] \<and> (hd ds = 0 \<longrightarrow> n = 0 \<and> length ds = 1) \<and> (\<forall>k > 0. n < 10 ^ k \<longrightarrow> length ds \<le> k)"

lemma digits_exist: "\<exists>ds. digits_of n ds"
proof (induction n rule: nat_digits.induct)
  case (1 n)
  show ?case
  proof (cases "n < 10")
    case True
    then show ?thesis by (intro exI [of _ "[n]"]) (auto simp: nat_digits.simps digits_of_def)
  next
    case False
    obtain ds where ds: "digits_of (n div 10) ds" using "1.IH" [OF False] ..
    have "length (ds @ [n mod 10]) \<le> k" if k: "0 < k" "n < 10 ^ k" for k
    proof (cases "k = 1")
      case True
      then show ?thesis using k False by simp
    next
      case k1: False
      then obtain j where j: "k = Suc j" "0 < j" using k(1) by (cases k) auto
      then have "n div 10 < 10 ^ j" using k(2) by (simp add: div_less_iff_less_mult mult.commute)
      then show ?thesis using ds j by (simp add: digits_of_def)
    qed
    moreover have "n div 10 \<noteq> 0" using False by simp
    ultimately show ?thesis
      using ds False
      by (intro exI [of _ "ds @ [n mod 10]"]) (simp add: nat_digits.simps [of n] digits_of_def)
  qed
qed

lemma take_digits_map:
  assumes "\<forall>d \<in> set ds. d < 10" and "rest = [] \<or> digit_value (hd rest) = None"
  shows "take_digits 10 (map digit_char ds @ rest) = (ds, rest)"
  using assms
proof (induction ds)
  case Nil
  then show ?case by (cases rest) auto
next
  case (Cons d ds)
  then show ?case by (simp add: digit_value_digit_char)
qed

lemma read_number_digits:
  assumes "n < bound" and "rest = [] \<or> digit_value (hd rest) = None"
    and "case m of None \<Rightarrow> True | Some k \<Rightarrow> 0 < k \<and> n < 10 ^ k"
  shows "read_number bound 10 m z (nat_digits n @ rest) = Some (n, rest)"
proof -
  obtain ds where "digits_of n ds" using digits_exist ..
  then have ds: "nat_digits n = map digit_char ds" "\<forall>d \<in> set ds. d < 10" "foldl (\<lambda>acc d. acc * 10 + d) 0 ds = n"
      "ds \<noteq> []" "hd ds = 0 \<longrightarrow> n = 0 \<and> length ds = 1" "\<forall>k > 0. n < 10 ^ k \<longrightarrow> length ds \<le> k"
    by (simp_all only: digits_of_def) blast+
  have m: "(case m of None \<Rightarrow> False | Some k \<Rightarrow> k < length ds) = False"
  proof (cases m)
    case (Some k)
    then show ?thesis using assms(3) ds(6) [rule_format, of k] by simp
  qed simp
  have z: "(\<not> z \<and> hd ds = 0 \<and> 1 < length ds) = False" using ds(5) by auto
  show ?thesis
    unfolding read_number_def ds(1) take_digits_map [OF ds(2) assms(2)] prod.case Let_def ds(3) m z
    using assms(1) ds(4) by simp
qed

lemma unat_octets: "((v4_octet a 0 * 256 + v4_octet a 1) * 256 + v4_octet a 2) * 256 + v4_octet a 3 = unat a"
proof -
  have lt: "unat a < 256 ^ 4" using unat_less_pow [of a] by simp
  let ?n = "unat a"
  have "?n div 256 ^ 3 mod 256 = ?n div 256 ^ 3" using lt by (simp add: div_less_iff_less_mult)
  moreover have "?n div 256 ^ 3 * 256 + ?n div 256 ^ 2 mod 256 = ?n div 256 ^ 2"
    using div_mult_mod_eq [of "?n div 256 ^ 2" 256] by (simp add: div_mult2_eq [symmetric])
  moreover have "?n div 256 ^ 2 * 256 + ?n div 256 mod 256 = ?n div 256"
    using div_mult_mod_eq [of "?n div 256" 256] by (simp add: div_mult2_eq [symmetric])
  moreover have "?n div 256 * 256 + ?n mod 256 = ?n" by simp
  ultimately show ?thesis by (simp add: v4_octet_def)
qed

lemma read_ipv4_show:
  assumes "rest = [] \<or> digit_value (hd rest) = None"
  shows "read_ipv4 (show_ipv4 a @ rest) = Some (a, rest)"
proof -
  have dot: "digit_value CHR ''.'' = None" by code_simp
  have o: "v4_octet a i < 256" "v4_octet a i < 10 ^ 3" for i
    by (simp add: v4_octet_def) (simp add: v4_octet_def less_trans [of _ 256])
  have r: "read_number 256 10 (Some 3) False (nat_digits (v4_octet a i) @ CHR ''.'' # t) = Some (v4_octet a i, CHR ''.'' # t)"
    "rest = [] \<or> digit_value (hd rest) = None \<Longrightarrow> read_number 256 10 (Some 3) False (nat_digits (v4_octet a i) @ rest) = Some (v4_octet a i, rest)"
    for i t using read_number_digits [OF o(1)] o(2) dot by simp_all
  have "(word_of_nat (((v4_octet a 0 * 256 + v4_octet a 1) * 256 + v4_octet a 2) * 256 + v4_octet a 3) :: u32) = a"
    by (simp only: unat_octets) simp
  then show ?thesis
    using assms by (simp add: read_ipv4_def show_ipv4_def r read_char_def)
qed

lemma parse_shown_addr: "parse_socket_addr (show_ipv4 a @ CHR '':'' # nat_digits (unat p)) = Some (V4 a, p)"
proof -
  have "unat p < 65536" using unat_less_pow [of p] by simp
  then have "read_port (CHR '':'' # nat_digits (unat p)) = Some (p, [])"
    using read_number_digits [of "unat p" 65536 "[]" None True] by (simp add: read_port_def read_char_def)
  moreover have "digit_value CHR '':'' = None" by code_simp
  ultimately show ?thesis
    using read_ipv4_show [of "CHR '':'' # nat_digits (unat p)" a] by (simp add: parse_socket_addr_def read_socket_addr_v4_def)
qed

lemma parse_shown_host: "parse_socket_addr (show_ipv4 a) = None"
proof -
  have "\<exists>d t. show_ipv4 a = digit_char d # t \<and> d < 10"
  proof -
    obtain ds where "digits_of (v4_octet a 0) ds" using digits_exist ..
    then have "nat_digits (v4_octet a 0) = map digit_char ds" "\<forall>d \<in> set ds. d < 10" "ds \<noteq> []"
      by (simp_all add: digits_of_def)
    then show ?thesis by (cases ds) (auto simp: show_ipv4_def)
  qed
  then obtain d t where d: "show_ipv4 a = digit_char d # t" "d < 10" by blast
  have "digit_char d \<noteq> CHR ''[''"
    using digit_value_digit_char [of d] d(2) by (auto simp: digit_value_def)
  then have "read_socket_addr_v6 (show_ipv4 a) = None" by (simp add: d read_socket_addr_v6_def read_char_def)
  then show ?thesis
    using read_ipv4_show [of "[]" a] by (simp add: parse_socket_addr_def read_socket_addr_v4_def read_port_def read_char_def)
qed

end
