(* ===== verification/Noise.thy ===== *)
theory Noise
  imports Ebpf_Runtime Net_Addr "HOL-Library.Sublist"
begin

text \<open>
  \<open>ghostbro-server/src/noise.rs\<close>: concurrent-session slots, length-prefixed frames, the encrypted
  stream handed to the SOCKS5 server, the static key file, and the connection handler. The Noise
  implementation (\<open>snow\<close>) is a record of functions. A TCP stream is what will arrive on it, with
  a script that says how the operating system hands it out, call by call.
\<close>

definition MAX_FRAME_LEN :: nat where "MAX_FRAME_LEN = 16 * 1024"
definition NOISE_TAG_LEN :: nat where "NOISE_TAG_LEN = 16"

definition max_plaintext_len :: nat where
  "max_plaintext_len = MAX_FRAME_LEN - NOISE_TAG_LEN"

lemmas frame_len_defs = MAX_FRAME_LEN_def NOISE_TAG_LEN_def max_plaintext_len_def

section \<open>Session slots\<close>

type_synonym session_counts = "(key_id, u32) hash_map"

definition acquire_session :: "session_counts \<Rightarrow> key_id \<Rightarrow> u16 option \<Rightarrow> bool \<times> session_counts" where
  "acquire_session counts key max_sessions =
     (let counts = (case hm_get counts key of None \<Rightarrow> hm_insert key 0 counts | Some _ \<Rightarrow> counts);
          count = (case hm_get counts key of None \<Rightarrow> 0 | Some c \<Rightarrow> c)
      in case max_sessions of
           Some m \<Rightarrow>
             if 0 < m \<and> ucast m \<le> count then (False, counts)
             else (True, hm_insert key (count + 1) counts)
         | None \<Rightarrow> (True, hm_insert key (count + 1) counts))"

definition drop_session :: "key_id \<Rightarrow> session_counts \<Rightarrow> session_counts" where
  "drop_session key counts =
     (case hm_get counts key of
        None \<Rightarrow> counts
      | Some count \<Rightarrow>
          let count' = saturating_sub count 1
          in if count' = 0 then hm_remove key counts else hm_insert key count' counts)"

section \<open>Frames\<close>

datatype frame_error = FrameLenEof | FrameTooLong nat | FrameEof | FrameUnencodable nat

definition read_frame_optional :: "(bytes, frame_error, bytes option) comp" where
  "read_frame_optional rx =
     (if length rx < 2 then (Inr None, [])
      else
        let len = unat (from_be_bytes (take 2 rx) :: u16); rx = drop 2 rx in
        if MAX_FRAME_LEN < len then (Inl (FrameTooLong len), rx)
        else if length rx < len then (Inl FrameEof, [])
        else (Inr (Some (take len rx)), drop len rx))"

definition read_frame :: "(bytes, frame_error, bytes) comp" where
  "read_frame = c_bind read_frame_optional (\<lambda>f. c_lift (ok_or FrameLenEof f))"

definition frame_wire :: "bytes \<Rightarrow> bytes" where
  "frame_wire frame = to_be_bytes16 (word_of_nat (length frame)) @ frame"

definition write_frame :: "bytes \<Rightarrow> (bytes, frame_error, unit) comp" where
  "write_frame frame tx =
     (if 2 ^ 16 \<le> length frame then (Inl (FrameUnencodable (length frame)), tx)
      else (Inr (), tx @ frame_wire frame))"

section \<open>The encrypted stream\<close>

text \<open>
  \<open>poll_read\<close> and \<open>poll_write\<close> of the socket: one script entry per call. \<open>Avail n\<close> hands out at
  most \<open>n\<close> bytes, and none at the end of the stream; an exhausted script is pending.
\<close>

datatype io_event = Blocked | Failed | Avail nat

record tcp =
  rx :: bytes
  rx_script :: "io_event list"
  tx :: bytes
  tx_script :: "io_event list"

datatype 'a poll = Pending | Ready 'a

datatype stream_error = Io | UnexpectedEof | InvalidData | WriteZero

text \<open>
  The cipher states of a Noise transport, by message number: what \<open>snow\<close> gives for the n-th
  message in each direction.
\<close>

record noise_cipher =
  cipher_enc :: "nat \<Rightarrow> bytes \<Rightarrow> bytes"
  cipher_dec :: "nat \<Rightarrow> bytes \<Rightarrow> bytes option"

text \<open>A message fits the output buffer and the 65535 bytes of a Noise message, or is refused.\<close>

definition write_message :: "noise_cipher \<Rightarrow> nat \<Rightarrow> nat \<Rightarrow> bytes \<Rightarrow> bytes option" where
  "write_message N n buf_len pt =
     (if length pt + NOISE_TAG_LEN \<le> buf_len \<and> length pt + NOISE_TAG_LEN \<le> 65535
      then Some (cipher_enc N n pt) else None)"

text \<open>
  The stream's state. \<open>read_len\<close> and \<open>encrypted_read\<close> are the filled parts of the code's two read
  buffers; \<open>frame_len\<close> is the length of the second one once it has been sized.
\<close>

record NoiseFramedStream =
  stream :: tcp
  recv_nonce :: nat
  send_nonce :: nat
  plain :: bytes
  read_len :: bytes
  frame_len :: "nat option"
  encrypted_read :: bytes
  pending_write :: bytes

definition NoiseFramedStream_new :: "tcp \<Rightarrow> nat \<Rightarrow> nat \<Rightarrow> bytes \<Rightarrow> NoiseFramedStream" where
  "NoiseFramedStream_new s rn sn initial_plaintext =
     \<lparr>stream = s, recv_nonce = rn, send_nonce = sn, plain = initial_plaintext, read_len = [],
      frame_len = None, encrypted_read = [], pending_write = []\<rparr>"

datatype fill = Filled | FillPending | FillFailed | FillEof

text \<open>One read loop: read until the buffer holds \<open>target\<close> bytes.\<close>

fun poll_fill :: "io_event list \<Rightarrow> nat \<Rightarrow> bytes \<Rightarrow> bytes \<Rightarrow> fill \<times> bytes \<times> bytes \<times> io_event list" where
  "poll_fill script target acc r =
     (if target \<le> length acc then (Filled, acc, r, script)
      else case script of
             [] \<Rightarrow> (FillPending, acc, r, [])
           | Blocked # script' \<Rightarrow> (FillPending, acc, r, script')
           | Failed # script' \<Rightarrow> (FillFailed, acc, r, script')
           | Avail n # script' \<Rightarrow>
               let got = min (max n 1) (min (target - length acc) (length r)) in
               if got = 0 then (FillEof, acc, r, script')
               else poll_fill script' target (acc @ take got r) (drop got r))"

declare poll_fill.simps [simp del]

definition poll_read_outer_frame ::
    "NoiseFramedStream \<Rightarrow> (stream_error + bytes option) poll \<times> NoiseFramedStream" where
  "poll_read_outer_frame s =
     (case poll_fill (rx_script (stream s)) 2 (read_len s) (rx (stream s)) of
        (FillPending, l, r, sc) \<Rightarrow>
          (Pending, s\<lparr>read_len := l, stream := (stream s)\<lparr>rx := r, rx_script := sc\<rparr>\<rparr>)
      | (FillFailed, l, r, sc) \<Rightarrow>
          (Ready (Inl Io), s\<lparr>read_len := l, stream := (stream s)\<lparr>rx := r, rx_script := sc\<rparr>\<rparr>)
      | (FillEof, l, r, sc) \<Rightarrow>
          (Ready (if l = [] then Inr None else Inl UnexpectedEof),
           s\<lparr>read_len := l, stream := (stream s)\<lparr>rx := r, rx_script := sc\<rparr>\<rparr>)
      | (Filled, l, r, sc) \<Rightarrow>
          let s1 = s\<lparr>read_len := l, stream := (stream s)\<lparr>rx := r, rx_script := sc\<rparr>\<rparr>;
              len = unat (from_be_bytes l :: u16)
          in if (frame_len s1 = None \<or> frame_len s1 = Some 0) \<and> MAX_FRAME_LEN < len
             then (Ready (Inl InvalidData), s1)
             else
               let fl = (case frame_len s1 of None \<Rightarrow> len | Some n \<Rightarrow> if n = 0 then len else n) in
               case poll_fill sc fl (encrypted_read s1) r of
                 (FillPending, e, r', sc') \<Rightarrow>
                   (Pending, s1\<lparr>frame_len := Some fl, encrypted_read := e,
                               stream := (stream s1)\<lparr>rx := r', rx_script := sc'\<rparr>\<rparr>)
               | (FillFailed, e, r', sc') \<Rightarrow>
                   (Ready (Inl Io), s1\<lparr>frame_len := Some fl, encrypted_read := e,
                               stream := (stream s1)\<lparr>rx := r', rx_script := sc'\<rparr>\<rparr>)
               | (FillEof, e, r', sc') \<Rightarrow>
                   (Ready (Inl UnexpectedEof), s1\<lparr>frame_len := Some fl, encrypted_read := e,
                               stream := (stream s1)\<lparr>rx := r', rx_script := sc'\<rparr>\<rparr>)
               | (Filled, e, r', sc') \<Rightarrow>
                   (Ready (Inr (Some e)), s1\<lparr>frame_len := None, encrypted_read := [], read_len := [],
                               stream := (stream s1)\<lparr>rx := r', rx_script := sc'\<rparr>\<rparr>))"

fun flush_loop :: "io_event list \<Rightarrow> bytes \<Rightarrow> bytes \<Rightarrow> (stream_error + unit) poll \<times> bytes \<times> bytes \<times> io_event list" where
  "flush_loop script pending out =
     (if pending = [] then (Ready (Inr ()), [], out, script)
      else case script of
             [] \<Rightarrow> (Pending, pending, out, [])
           | Blocked # script' \<Rightarrow> (Pending, pending, out, script')
           | Failed # script' \<Rightarrow> (Ready (Inl Io), pending, out, script')
           | Avail n # script' \<Rightarrow>
               if n = 0 then (Ready (Inl WriteZero), pending, out, script')
               else flush_loop script' (drop n pending) (out @ take n pending))"

declare flush_loop.simps [simp del]

definition poll_flush_pending :: "NoiseFramedStream \<Rightarrow> (stream_error + unit) poll \<times> NoiseFramedStream" where
  "poll_flush_pending s =
     (case flush_loop (tx_script (stream s)) (pending_write s) (tx (stream s)) of
        (r, pending, out, script) \<Rightarrow>
          (r, s\<lparr>pending_write := pending, stream := (stream s)\<lparr>tx := out, tx_script := script\<rparr>\<rparr>))"

text \<open>
  \<open>poll_read\<close> into a buffer with \<open>room\<close> bytes left; the loop takes at most one frame per script
  entry, so the script bounds it.
\<close>

fun poll_read_loop :: "noise_cipher \<Rightarrow> nat \<Rightarrow> nat \<Rightarrow> NoiseFramedStream
    \<Rightarrow> (stream_error + bytes) poll \<times> NoiseFramedStream" where
  "poll_read_loop N 0 room s = (Pending, s)"
| "poll_read_loop N (Suc fuel) room s =
     (if plain s \<noteq> []
      then let len = min (length (plain s)) room
           in (Ready (Inr (take len (plain s))), s\<lparr>plain := drop len (plain s)\<rparr>)
      else case poll_read_outer_frame s of
             (Pending, s1) \<Rightarrow> (Pending, s1)
           | (Ready (Inl e), s1) \<Rightarrow> (Ready (Inl e), s1)
           | (Ready (Inr None), s1) \<Rightarrow> (Ready (Inr []), s1)
           | (Ready (Inr (Some encrypted)), s1) \<Rightarrow>
               (case cipher_dec N (recv_nonce s1) encrypted of
                  None \<Rightarrow> (Ready (Inl InvalidData), s1)
                | Some pt \<Rightarrow>
                    poll_read_loop N fuel room (s1\<lparr>plain := pt, recv_nonce := recv_nonce s1 + 1\<rparr>)))"

definition poll_read :: "noise_cipher \<Rightarrow> nat \<Rightarrow> NoiseFramedStream
    \<Rightarrow> (stream_error + bytes) poll \<times> NoiseFramedStream" where
  "poll_read N room s =
     (case poll_flush_pending s of
        (Pending, s1) \<Rightarrow> (Pending, s1)
      | (Ready (Inl e), s1) \<Rightarrow> (Ready (Inl e), s1)
      | (Ready (Inr _), s1) \<Rightarrow> poll_read_loop N (length (rx_script (stream s1)) + 2) room s1)"

definition poll_write :: "noise_cipher \<Rightarrow> bytes \<Rightarrow> NoiseFramedStream
    \<Rightarrow> (stream_error + nat) poll \<times> NoiseFramedStream" where
  "poll_write N buf s =
     (case poll_flush_pending s of
        (Pending, s1) \<Rightarrow> (Pending, s1)
      | (Ready (Inl e), s1) \<Rightarrow> (Ready (Inl e), s1)
      | (Ready (Inr _), s1) \<Rightarrow>
          if buf = [] then (Ready (Inr 0), s1)
          else
            let plaintext_len = min (length buf) max_plaintext_len in
            case write_message N (send_nonce s1) MAX_FRAME_LEN (take plaintext_len buf) of
              None \<Rightarrow> (Ready (Inl InvalidData), s1)
            | Some encrypted \<Rightarrow>
                let s2 = s1\<lparr>send_nonce := send_nonce s1 + 1\<rparr> in
                if 2 ^ 16 \<le> length encrypted then (Ready (Inl InvalidData), s2)
                else
                  let s3 = s2\<lparr>pending_write := frame_wire encrypted\<rparr> in
                  case poll_flush_pending s3 of
                    (Ready (Inl e), s4) \<Rightarrow> (Ready (Inl e), s4)
                  | (_, s4) \<Rightarrow> (Ready (Inr plaintext_len), s4))"

definition poll_flush :: "NoiseFramedStream \<Rightarrow> (stream_error + unit) poll \<times> NoiseFramedStream" where
  "poll_flush s = poll_flush_pending s"

definition poll_write_vectored :: "noise_cipher \<Rightarrow> bytes list \<Rightarrow> NoiseFramedStream
    \<Rightarrow> (stream_error + nat) poll \<times> NoiseFramedStream" where
  "poll_write_vectored N bufs s =
     (case filter (\<lambda>b. b \<noteq> []) bufs of
        [] \<Rightarrow> (Ready (Inr 0), s)
      | buf # _ \<Rightarrow> poll_write N buf s)"

section \<open>Facts about frames\<close>

lemma unat_len16: "n < 2 ^ 16 \<Longrightarrow> unat (from_be_bytes (to_be_bytes16 (word_of_nat n)) :: u16) = n"
  by (simp add: unat_of_nat)

lemma length_frame_wire [simp, len_simps]: "length (frame_wire f) = length f + 2"
  by (simp add: frame_wire_def)

lemma read_frame_wire:
  assumes "length f \<le> MAX_FRAME_LEN"
  shows "read_frame (frame_wire f @ rest) = (Inr f, rest)"
proof -
  have "length f < 2 ^ 16" using assms by (simp add: MAX_FRAME_LEN_def)
  then have "unat (from_be_bytes (take 2 (frame_wire f @ rest)) :: u16) = length f"
    using unat_len16 by (simp add: frame_wire_def del: from_to_be_bytes)
  moreover have "drop 2 (frame_wire f @ rest) = f @ rest"
    by (simp add: frame_wire_def)
  ultimately show ?thesis
    using assms by (simp add: read_frame_def read_frame_optional_def c_bind_def Let_def)
qed

section \<open>Facts about the read loops\<close>

lemma poll_fill_eqs:
  "target \<le> length acc \<Longrightarrow> poll_fill script target acc r = (Filled, acc, r, script)"
  "\<not> target \<le> length acc \<Longrightarrow> poll_fill [] target acc r = (FillPending, acc, r, [])"
  "\<not> target \<le> length acc \<Longrightarrow> poll_fill (Blocked # script) target acc r = (FillPending, acc, r, script)"
  "\<not> target \<le> length acc \<Longrightarrow> poll_fill (Failed # script) target acc r = (FillFailed, acc, r, script)"
  "\<not> target \<le> length acc \<Longrightarrow> poll_fill (Avail n # script) target acc r =
     (let got = min (max n 1) (min (target - length acc) (length r)) in
      if got = 0 then (FillEof, acc, r, script) else poll_fill script target (acc @ take got r) (drop got r))"
  by (simp_all add: poll_fill.simps [of script] poll_fill.simps [of "[]"] poll_fill.simps [of "_ # _"])

lemma poll_fill_facts:
  assumes "poll_fill script target acc r = (res, acc', r', script')"
  shows "acc' @ r' = acc @ r \<and> length script' \<le> length script \<and>
    (res = Filled \<longrightarrow> target \<le> length acc' \<and> (length acc \<le> target \<longrightarrow> length acc' = target) \<and>
       (length acc < target \<longrightarrow> length script' < length script)) \<and>
    (res \<noteq> Filled \<longrightarrow> length acc' < target) \<and> (res = FillEof \<longrightarrow> r' = [])"
  using assms
proof (induction script arbitrary: acc r)
  case Nil
  then show ?case by (cases "target \<le> length acc") (auto simp: poll_fill_eqs)
next
  case (Cons ev script)
  show ?case
  proof (cases "target \<le> length acc")
    case True
    then show ?thesis using Cons.prems by (auto simp: poll_fill_eqs)
  next
    case False
    show ?thesis
    proof (cases ev)
      case (Avail n)
      let ?got = "min (max n 1) (min (target - length acc) (length r))"
      show ?thesis
      proof (cases "?got = 0")
        case True
        then have "r = []" using False by (auto simp: min_def max_def split: if_splits)
        then show ?thesis using Cons.prems False by (auto simp: poll_fill_eqs Avail)
      next
        case got: False
        then have p: "poll_fill script target (acc @ take ?got r) (drop ?got r) = (res, acc', r', script')"
          using Cons.prems unfolding Avail poll_fill_eqs(5) [OF False] Let_def by (simp only: if_False)
        have "length (acc @ take ?got r) \<le> target" using False by simp
        with Cons.IH [OF p] show ?thesis by auto
      qed
    qed (use Cons.prems False in \<open>auto simp: poll_fill_eqs\<close>)
  qed
qed

definition unparsed :: "NoiseFramedStream \<Rightarrow> bytes" where
  "unparsed s = read_len s @ encrypted_read s @ rx (stream s)"

text \<open>The read buffers between two polls.\<close>

definition read_ok :: "NoiseFramedStream \<Rightarrow> bool" where
  "read_ok s \<longleftrightarrow>
     (case frame_len s of
        None \<Rightarrow> length (read_len s) < 2 \<and> encrypted_read s = []
      | Some n \<Rightarrow> length (read_len s) = 2 \<and> n = unat (from_be_bytes (read_len s) :: u16) \<and>
                  length (encrypted_read s) < n \<and> n \<le> MAX_FRAME_LEN)"

definition same_rest :: "NoiseFramedStream \<Rightarrow> NoiseFramedStream \<Rightarrow> bool" where
  "same_rest s s' \<longleftrightarrow> plain s' = plain s \<and> recv_nonce s' = recv_nonce s \<and> send_nonce s' = send_nonce s \<and>
     pending_write s' = pending_write s \<and> tx (stream s') = tx (stream s) \<and>
     tx_script (stream s') = tx_script (stream s)"

lemma wire_split: "length l = 2 \<Longrightarrow> length e = unat (from_be_bytes l :: u16) \<Longrightarrow> l @ e = frame_wire e"
  by (simp add: frame_wire_def to_from_be_bytes)

lemma poll_read_outer_frame_facts:
  assumes "poll_read_outer_frame s = (res, s')" and "read_ok s"
  shows "same_rest s s' \<and> length (rx_script (stream s')) \<le> length (rx_script (stream s)) \<and>
    (res = Pending \<longrightarrow> read_ok s' \<and> unparsed s' = unparsed s) \<and>
    (\<forall>f. res = Ready (Inr (Some f)) \<longrightarrow> read_ok s' \<and> length f \<le> MAX_FRAME_LEN \<and>
       unparsed s = frame_wire f @ unparsed s' \<and>
       length (rx_script (stream s')) < length (rx_script (stream s))) \<and>
    (res = Ready (Inr None) \<longrightarrow> read_ok s' \<and> unparsed s = [] \<and> unparsed s' = []) \<and>
    (res = Ready (Inl UnexpectedEof) \<longrightarrow> unparsed s \<noteq> [] \<and> unparsed s' = unparsed s \<and> rx (stream s') = [] \<and>
       (length (unparsed s) < 2 \<or> (\<exists>n. n = unat (from_be_bytes (take 2 (unparsed s)) :: u16) \<and>
          length (unparsed s) < 2 + n))) \<and>
    (res = Ready (Inl InvalidData) \<longrightarrow> unparsed s' = unparsed s \<and> 2 \<le> length (unparsed s) \<and>
       MAX_FRAME_LEN < unat (from_be_bytes (take 2 (unparsed s)) :: u16)) \<and>
    res \<noteq> Ready (Inl WriteZero)"
proof -
  obtain f1 l r sc where p1: "poll_fill (rx_script (stream s)) 2 (read_len s) (rx (stream s)) = (f1, l, r, sc)"
    by (metis prod_cases4)
  note q1 = poll_fill_facts [OF p1]
  have len2: "length (read_len s) \<le> 2" and enc: "frame_len s = None \<Longrightarrow> encrypted_read s = []"
    using assms(2) by (auto simp: read_ok_def split: option.splits)
  show ?thesis
  proof (cases "f1 = Filled")
    case False
    then have none: "frame_len s = None"
      using p1 assms(2) poll_fill_eqs(1) [of 2 "read_len s"] by (auto simp: read_ok_def split: option.splits)
    have "length l < 2" "l @ r = read_len s @ rx (stream s)" using False q1 by auto
    then show ?thesis
      using assms p1 q1 False none enc
      by (cases f1) (auto simp: poll_read_outer_frame_def read_ok_def unparsed_def same_rest_def split: if_splits)
  next
    case True
    have l2: "length l = 2" and lr: "l @ r = read_len s @ rx (stream s)"
      using True q1 len2 by auto
    let ?len = "unat (from_be_bytes l :: u16)"
    have l_eq: "l = read_len s" "r = rx (stream s)" "frame_len s = Some ?len" if "frame_len s \<noteq> None"
    proof -
      from that assms(2) have "length (read_len s) = 2" by (auto simp: read_ok_def split: option.splits)
      with l2 lr show "l = read_len s" "r = rx (stream s)" by auto
      with that assms(2) show "frame_len s = Some ?len" by (auto simp: read_ok_def split: option.splits)
    qed
    have un: "unparsed s = l @ encrypted_read s @ r"
    proof (cases "frame_len s")
      case None
      then show ?thesis using enc lr by (simp add: unparsed_def)
    next
      case (Some n)
      then show ?thesis using l_eq by (simp add: unparsed_def)
    qed
    let ?s1 = "s\<lparr>read_len := l, stream := (stream s)\<lparr>rx := r, rx_script := sc\<rparr>\<rparr>"
    have fl: "(case frame_len s of None \<Rightarrow> ?len | Some n \<Rightarrow> if n = 0 then ?len else n) = ?len"
      using l_eq(3) by (auto split: option.splits)
    have big: "(frame_len s = None \<or> frame_len s = Some 0) \<and> MAX_FRAME_LEN < ?len \<longleftrightarrow> MAX_FRAME_LEN < ?len"
      using l_eq(3) assms(2) by (auto simp: read_ok_def split: option.splits)
    have el: "length (encrypted_read s) \<le> ?len" 
      using l_eq(3) assms(2) enc by (cases "frame_len s") (auto simp: read_ok_def)
    have lt: "frame_len s \<noteq> None \<Longrightarrow> length (encrypted_read s) < ?len"
      using l_eq(3) assms(2) by (auto simp: read_ok_def)
    show ?thesis
    proof (cases "MAX_FRAME_LEN < ?len")
      case huge: True
      then have "res = Ready (Inl InvalidData)" "s' = ?s1"
        using assms(1) p1 True big by (simp_all add: poll_read_outer_frame_def Let_def)
      then show ?thesis
        using huge un l2 q1 by (auto simp: unparsed_def same_rest_def)
    next
      case fits: False
      obtain f2 e r' sc' where p2: "poll_fill sc ?len (encrypted_read s) r = (f2, e, r', sc')"
        by (metis prod_cases4)
      note q2 = poll_fill_facts [OF p2]
      have er: "e @ r' = encrypted_read s @ r" using q2 by blast
      have eq: "(res, s') =
        (case f2 of
           FillPending \<Rightarrow> (Pending, ?s1\<lparr>frame_len := Some ?len, encrypted_read := e,
               stream := (stream ?s1)\<lparr>rx := r', rx_script := sc'\<rparr>\<rparr>)
         | FillFailed \<Rightarrow> (Ready (Inl Io), ?s1\<lparr>frame_len := Some ?len, encrypted_read := e,
               stream := (stream ?s1)\<lparr>rx := r', rx_script := sc'\<rparr>\<rparr>)
         | FillEof \<Rightarrow> (Ready (Inl UnexpectedEof), ?s1\<lparr>frame_len := Some ?len, encrypted_read := e,
               stream := (stream ?s1)\<lparr>rx := r', rx_script := sc'\<rparr>\<rparr>)
         | Filled \<Rightarrow> (Ready (Inr (Some e)), ?s1\<lparr>frame_len := None, encrypted_read := [], read_len := [],
               stream := (stream ?s1)\<lparr>rx := r', rx_script := sc'\<rparr>\<rparr>))"
        using assms(1) p1 p2 True fits big fl
        by (simp add: poll_read_outer_frame_def Let_def split: fill.splits)
      show ?thesis
      proof (cases f2)
        case Filled
        then have r: "res = Ready (Inr (Some e))" and s': "s' = ?s1\<lparr>frame_len := None, encrypted_read := [], read_len := [],
               stream := (stream ?s1)\<lparr>rx := r', rx_script := sc'\<rparr>\<rparr>"
          using eq by simp_all
        have elen: "length e = ?len" using Filled q2 el by simp
        have "unparsed s = frame_wire e @ r'"
          using un er wire_split [OF l2 elen] by (metis append.assoc)
        moreover have "length sc' < length (rx_script (stream s))"
        proof (cases "frame_len s")
          case None
          then have "length sc < length (rx_script (stream s))"
            using assms(2) q1 True by (simp add: read_ok_def)
          then show ?thesis using q2 by simp
        next
          case (Some n)
          then show ?thesis using lt q2 q1 Filled by simp
        qed
        ultimately show ?thesis
          using r s' elen fits by (simp add: read_ok_def unparsed_def same_rest_def)
      qed (use eq q2 q1 un er l2 fits in \<open>auto simp: read_ok_def unparsed_def same_rest_def\<close>)
    qed
  qed
qed

section \<open>Messages in flight\<close>

fun enc_from :: "noise_cipher \<Rightarrow> nat \<Rightarrow> bytes list \<Rightarrow> bytes list" where
  "enc_from N n [] = []"
| "enc_from N n (m # ms) = cipher_enc N n m # enc_from N (Suc n) ms"

definition wire_of :: "noise_cipher \<Rightarrow> nat \<Rightarrow> bytes list \<Rightarrow> bytes" where
  "wire_of N n ms = concat (map frame_wire (enc_from N n ms))"

text \<open>
  A \<open>noise_cipher\<close> is one endpoint's transport: it encrypts with its sending state and decrypts with
  its receiving state, which are different keys. What \<open>snow\<close> promises relates the two ends of one
  session, a direction at a time: \<open>B\<close> decrypts what \<open>A\<close> encrypted as its n-th message, and the
  message is 16 bytes longer than its plaintext.
\<close>

definition delivers :: "noise_cipher \<Rightarrow> noise_cipher \<Rightarrow> bool" where
  "delivers A B \<longleftrightarrow> (\<forall>n m. cipher_dec B n (cipher_enc A n m) = Some m \<and>
     length (cipher_enc A n m) = length m + NOISE_TAG_LEN)"

lemma deliversD:
  "delivers A B \<Longrightarrow> cipher_dec B n (cipher_enc A n m) = Some m"
  "delivers A B \<Longrightarrow> length (cipher_enc A n m) = length m + NOISE_TAG_LEN"
  by (simp_all add: delivers_def)

lemma enc_from_append: "enc_from N n (ms @ ms') = enc_from N n ms @ enc_from N (n + length ms) ms'"
  by (induction ms arbitrary: n) simp_all

lemma wire_of_simps:
  "wire_of N n [] = []"
  "wire_of N n (m # ms) = frame_wire (cipher_enc N n m) @ wire_of N (Suc n) ms"
  by (simp_all add: wire_of_def)

lemma wire_of_snoc: "wire_of N n (ms @ [m]) = wire_of N n ms @ frame_wire (cipher_enc N (n + length ms) m)"
  by (simp add: wire_of_def enc_from_append)

definition in_flight :: "noise_cipher \<Rightarrow> NoiseFramedStream \<Rightarrow> bytes list \<Rightarrow> bool" where
  "in_flight N s ms \<longleftrightarrow> read_ok s \<and> unparsed s = wire_of N (recv_nonce s) ms \<and>
     (\<forall>m \<in> set ms. length m \<le> max_plaintext_len)"

lemma frame_wire_nonempty [simp]: "frame_wire f \<noteq> []"
  using length_frame_wire [of f] by (metis add_is_0 list.size(3) numeral_2_eq_2 nat.distinct(1))

lemma frame_wire_inject:
  assumes "frame_wire f @ x = frame_wire g @ y" and "length f < 2 ^ 16" and "length g < 2 ^ 16"
  shows "f = g \<and> x = y"
proof -
  have "take 2 (frame_wire f @ x) = take 2 (frame_wire g @ y)" using assms(1) by simp
  then have "to_be_bytes16 (word_of_nat (length f)) = to_be_bytes16 (word_of_nat (length g))"
    by (simp add: frame_wire_def)
  then have "length f = length g"
    using unat_len16 [OF assms(2)] unat_len16 [OF assms(3)] by metis
  with assms(1) show ?thesis by (simp add: frame_wire_def)
qed

lemma cipher_enc_small: "delivers N B \<Longrightarrow> length m \<le> max_plaintext_len \<Longrightarrow> length (cipher_enc N n m) \<le> MAX_FRAME_LEN"
  by (simp add: deliversD frame_len_defs)

lemma read_state_updates [simp]:
  "read_ok (s\<lparr>plain := x\<rparr>) = read_ok s" "read_ok (s\<lparr>recv_nonce := n\<rparr>) = read_ok s"
  "unparsed (s\<lparr>plain := x\<rparr>) = unparsed s" "unparsed (s\<lparr>recv_nonce := n\<rparr>) = unparsed s"
  by (cases "frame_len s"; simp add: read_ok_def unparsed_def)+

text \<open>A poll for a frame while whole messages are in flight.\<close>

lemma poll_frame_in_flight:
  assumes "delivers N B" and "in_flight N s ms" and "poll_read_outer_frame s = (res, s')"
  shows "same_rest s s' \<and>
    (res = Pending \<longrightarrow> in_flight N s' ms) \<and>
    (\<forall>f. res = Ready (Inr (Some f)) \<longrightarrow> (\<exists>m ms'. ms = m # ms' \<and> f = cipher_enc N (recv_nonce s) m \<and>
       in_flight N (s'\<lparr>plain := m, recv_nonce := recv_nonce s + 1\<rparr>) ms' \<and>
       length (rx_script (stream s')) < length (rx_script (stream s)))) \<and>
    (res = Ready (Inr None) \<longrightarrow> ms = [] \<and> in_flight N s' []) \<and>
    (\<forall>e. res = Ready (Inl e) \<longrightarrow> e = Io)"
proof -
  have ok: "read_ok s" and un: "unparsed s = wire_of N (recv_nonce s) ms"
    and small: "\<forall>m \<in> set ms. length m \<le> max_plaintext_len"
    using assms(2) by (simp_all add: in_flight_def)
  note facts = poll_read_outer_frame_facts [OF assms(3) ok]
  have rn: "recv_nonce s' = recv_nonce s" using facts by (simp add: same_rest_def)
  have "\<exists>m ms'. ms = m # ms' \<and> f = cipher_enc N (recv_nonce s) m \<and>
       in_flight N (s'\<lparr>plain := m, recv_nonce := recv_nonce s + 1\<rparr>) ms'"
    if f: "res = Ready (Inr (Some f))" for f
  proof -
    have lf: "length f \<le> MAX_FRAME_LEN" and eq: "unparsed s = frame_wire f @ unparsed s'" and ok': "read_ok s'"
      using facts f by auto
    then obtain m ms' where ms: "ms = m # ms'"
      using un by (cases ms) (auto simp: wire_of_simps)
    have "frame_wire f @ unparsed s' = frame_wire (cipher_enc N (recv_nonce s) m) @ wire_of N (Suc (recv_nonce s)) ms'"
      using eq un ms by (simp add: wire_of_simps)
    moreover have "length (cipher_enc N (recv_nonce s) m) \<le> MAX_FRAME_LEN"
      using cipher_enc_small [OF assms(1)] small ms by simp
    ultimately have "f = cipher_enc N (recv_nonce s) m \<and> unparsed s' = wire_of N (Suc (recv_nonce s)) ms'"
      using lf by (intro frame_wire_inject) (simp_all add: MAX_FRAME_LEN_def)
    then show ?thesis
      using ms ok' small by (auto simp: in_flight_def)
  qed
  moreover have "e = Io" if e: "res = Ready (Inl e)" for e
  proof (cases ms)
    case Nil
    then have "unparsed s = []" using un by (simp add: wire_of_simps)
    then show ?thesis
      using facts e by (cases e) auto
  next
    case (Cons m ms')
    let ?c = "cipher_enc N (recv_nonce s) m"
    have "length ?c \<le> MAX_FRAME_LEN" using cipher_enc_small [OF assms(1)] small Cons by simp
    moreover have "take 2 (unparsed s) = to_be_bytes16 (word_of_nat (length ?c))"
      using un Cons by (simp add: wire_of_simps frame_wire_def)
    ultimately have "unat (from_be_bytes (take 2 (unparsed s)) :: u16) = length ?c"
      using unat_len16 [of "length ?c"] by (simp add: MAX_FRAME_LEN_def)
    moreover have "2 + length ?c \<le> length (unparsed s)"
      using un Cons by (simp add: wire_of_simps)
    ultimately show ?thesis
      using facts e \<open>length ?c \<le> MAX_FRAME_LEN\<close> by (cases e) auto
  qed
  moreover have "ms = []" if "res = Ready (Inr None)"
    using facts that un by (cases ms) (auto simp: wire_of_simps)
  moreover have "in_flight N s' ms" if "res = Pending"
    using facts that un small rn by (simp add: in_flight_def)
  moreover have "in_flight N s' []" if "res = Ready (Inr None)"
    using facts that by (simp add: in_flight_def wire_of_simps)
  ultimately show ?thesis using facts by auto
qed


lemma poll_read_loop_delivers:
  assumes "delivers A B" and "in_flight A s ms" and "length (rx_script (stream s)) + 2 \<le> fuel"
    and "poll_read_loop B fuel room s = (res, s')"
  shows "\<exists>ms'. case res of
      Pending \<Rightarrow> in_flight A s' ms' \<and> plain s' @ concat ms' = plain s @ concat ms
    | Ready (Inr bs) \<Rightarrow> in_flight A s' ms' \<and> bs @ plain s' @ concat ms' = plain s @ concat ms \<and>
        (bs = [] \<longrightarrow> 0 < room \<longrightarrow> plain s @ concat ms = [])
    | Ready (Inl e) \<Rightarrow> e = Io"
  using assms(2-)
proof (induction fuel arbitrary: s ms)
  case (Suc fuel)
  show ?case
  proof (cases "plain s = []")
    case False
    let ?len = "min (length (plain s)) room"
    have r: "res = Ready (Inr (take ?len (plain s)))" and s': "s' = s\<lparr>plain := drop ?len (plain s)\<rparr>"
      using Suc.prems(3) False by (simp_all add: Let_def)
    have "in_flight A s' ms"
      using Suc.prems(1) by (simp add: s' in_flight_def)
    then show ?thesis
      unfolding r using False by (intro exI [of _ ms]) (auto simp: s' min_def)
  next
    case True
    obtain res1 s1 where p: "poll_read_outer_frame s = (res1, s1)" by (cases "poll_read_outer_frame s")
    note f = poll_frame_in_flight [OF assms(1) Suc.prems(1) p]
    have p1: "plain s1 = plain s" "recv_nonce s1 = recv_nonce s" using f by (simp_all add: same_rest_def)
    show ?thesis
    proof (cases res1)
      case Pending
      then show ?thesis using Suc.prems(3) True p f p1 by auto
    next
      case (Ready x)
      show ?thesis
      proof (cases x)
        case (Inl e)
        then show ?thesis using Suc.prems(3) True p f Ready by auto
      next
        case (Inr y)
        show ?thesis
        proof (cases y)
          case None
          then have "ms = []" "in_flight A s1 []" using f Ready Inr by auto
          then show ?thesis using Suc.prems(3) True p p1 Ready Inr None by (intro exI [of _ "[]"]) auto
        next
          case (Some enc)
          then obtain m ms' where ms: "ms = m # ms'" and enc: "enc = cipher_enc A (recv_nonce s) m"
            and fl: "in_flight A (s1\<lparr>plain := m, recv_nonce := recv_nonce s + 1\<rparr>) ms'"
            and less: "length (rx_script (stream s1)) < length (rx_script (stream s))"
            using f Ready Inr by auto
          let ?s2 = "s1\<lparr>plain := m, recv_nonce := recv_nonce s + 1\<rparr>"
          have "poll_read_loop B fuel room ?s2 = (res, s')"
            using Suc.prems(3) True p p1 Ready Inr Some enc deliversD(1) [OF assms(1)] by simp
          moreover have eq: "plain ?s2 @ concat ms' = plain s @ concat ms"
            using True ms by simp
          moreover have "length (rx_script (stream ?s2)) + 2 \<le> fuel"
            using less Suc.prems(2) by simp
          ultimately show ?thesis
            using Suc.IH [OF fl] unfolding eq by blast
        qed
      qed
    qed
  qed
qed simp

section \<open>Flushing and writing\<close>

lemma flush_loop_eqs:
  "flush_loop script [] out = (Ready (Inr ()), [], out, script)"
  "pending \<noteq> [] \<Longrightarrow> flush_loop [] pending out = (Pending, pending, out, [])"
  "pending \<noteq> [] \<Longrightarrow> flush_loop (Blocked # script) pending out = (Pending, pending, out, script)"
  "pending \<noteq> [] \<Longrightarrow> flush_loop (Failed # script) pending out = (Ready (Inl Io), pending, out, script)"
  "pending \<noteq> [] \<Longrightarrow> flush_loop (Avail n # script) pending out =
     (if n = 0 then (Ready (Inl WriteZero), pending, out, script)
      else flush_loop script (drop n pending) (out @ take n pending))"
  by (simp_all add: flush_loop.simps [of script] flush_loop.simps [of "[]"] flush_loop.simps [of "_ # _"])

lemma flush_loop_facts:
  "flush_loop script pending out = (res, pending', out', script') \<Longrightarrow>
   out' @ pending' = out @ pending \<and> (res = Ready (Inr ()) \<longrightarrow> pending' = []) \<and>
   (\<forall>e. res = Ready (Inl e) \<longrightarrow> e = Io \<or> e = WriteZero)"
proof (induction script arbitrary: pending out)
  case Nil
  then show ?case by (cases "pending = []") (auto simp: flush_loop_eqs)
next
  case (Cons ev script)
  show ?case
  proof (cases "pending = []")
    case True
    then show ?thesis using Cons.prems by (auto simp: flush_loop_eqs)
  next
    case False
    show ?thesis
    proof (cases ev)
      case (Avail n)
      show ?thesis
      proof (cases "n = 0")
        case True
        then show ?thesis using Cons.prems False Avail by (auto simp: flush_loop_eqs)
      next
        case n: False
        then have "flush_loop script (drop n pending) (out @ take n pending) = (res, pending', out', script')"
          using Cons.prems False Avail by (simp add: flush_loop_eqs)
        from Cons.IH [OF this] show ?thesis by simp
      qed
    qed (use Cons.prems False in \<open>auto simp: flush_loop_eqs\<close>)
  qed
qed

lemma poll_flush_pending_facts:
  assumes "poll_flush_pending s = (res, s')"
  shows "tx (stream s') @ pending_write s' = tx (stream s) @ pending_write s \<and>
    (res = Ready (Inr ()) \<longrightarrow> pending_write s' = []) \<and>
    (\<forall>e. res = Ready (Inl e) \<longrightarrow> e = Io \<or> e = WriteZero) \<and>
    unparsed s' = unparsed s \<and> plain s' = plain s \<and> recv_nonce s' = recv_nonce s \<and>
    send_nonce s' = send_nonce s \<and> (read_ok s \<longrightarrow> read_ok s')"
proof -
  obtain r p out sc where f: "flush_loop (tx_script (stream s)) (pending_write s) (tx (stream s)) = (r, p, out, sc)"
    by (metis prod_cases4)
  from assms have "res = r" "s' = s\<lparr>pending_write := p, stream := (stream s)\<lparr>tx := out, tx_script := sc\<rparr>\<rparr>"
    by (simp_all add: poll_flush_pending_def f)
  then show ?thesis
    using flush_loop_facts [OF f] by (cases "frame_len s") (simp_all add: unparsed_def read_ok_def)
qed

lemma in_flight_flush:
  assumes "poll_flush_pending s = (res, s')" and "in_flight N s ms"
  shows "in_flight N s' ms"
  using poll_flush_pending_facts [OF assms(1)] assms(2) by (simp add: in_flight_def)

definition sent :: "NoiseFramedStream \<Rightarrow> bytes" where
  "sent s = tx (stream s) @ pending_write s"

lemma poll_write_facts:
  assumes "delivers N B" and "poll_write N buf s = (res, s')"
  shows "(res = Pending \<longrightarrow> sent s' = sent s \<and> send_nonce s' = send_nonce s) \<and>
    (\<forall>n. res = Ready (Inr n) \<longrightarrow> n \<le> length buf \<and> n \<le> max_plaintext_len \<and> (buf \<noteq> [] \<longrightarrow> 0 < n) \<and>
       (if buf = [] then sent s' = sent s \<and> send_nonce s' = send_nonce s
        else sent s' = sent s @ frame_wire (cipher_enc N (send_nonce s) (take n buf)) \<and>
             send_nonce s' = Suc (send_nonce s)))"
proof -
  obtain r1 s1 where f1: "poll_flush_pending s = (r1, s1)" by (cases "poll_flush_pending s")
  note p1 = poll_flush_pending_facts [OF f1]
  show ?thesis
  proof (cases "r1 = Ready (Inr ()) \<and> buf \<noteq> []")
    case False
    then show ?thesis
      using assms(2) f1 p1 by (cases r1) (auto simp: poll_write_def sent_def split: sum.splits)
  next
    case True
    let ?n = "min (length buf) max_plaintext_len"
    let ?c = "cipher_enc N (send_nonce s) (take ?n buf)"
    have n: "0 < ?n" "?n \<le> max_plaintext_len" using True by (simp_all add: frame_len_defs)
    have w: "write_message N (send_nonce s1) MAX_FRAME_LEN (take ?n buf) = Some ?c"
      using n(2) p1 by (simp add: write_message_def frame_len_defs)
    have c: "length ?c < 2 ^ 16"
      using deliversD(2) [OF assms(1)] n(2) by (simp add: frame_len_defs)
    let ?s3 = "s1\<lparr>send_nonce := Suc (send_nonce s), pending_write := frame_wire ?c\<rparr>"
    obtain r4 s4 where f4: "poll_flush_pending ?s3 = (r4, s4)" by (cases "poll_flush_pending ?s3")
    note p4 = poll_flush_pending_facts [OF f4]
    have eq: "(res, s') = (case r4 of Ready (Inl e) \<Rightarrow> (Ready (Inl e), s4) | _ \<Rightarrow> (Ready (Inr ?n), s4))"
      using assms(2) f1 True w c f4 p1
      by (simp add: poll_write_def Let_def split: poll.splits sum.splits)
    have "tx (stream s1) = tx (stream s) @ pending_write s"
      using p1 True by (metis append_Nil2)
    then have "sent s4 = sent s @ frame_wire ?c"
      using p4 by (simp add: sent_def)
    then show ?thesis
      using eq True n p4 by (auto split: poll.splits sum.splits)
  qed
qed

section \<open>The static key file\<close>

datatype key_file_error =
    KeyRead io_error | KeyDecode | KeyLength nat | KeyMissing | KeyGenerate | KeyWrite io_error | PubWrite io_error

definition public_key_path :: "path \<Rightarrow> path" where
  "public_key_path path =
     (if extension path = Some ''key'' then with_extension path ''pub'' else with_extension path ''noise.pub'')"

definition write_private_key_file :: "path \<Rightarrow> bytes \<Rightarrow> unit io" where
  "write_private_key_file path contents = c_bind (io_create path) (\<lambda>_. io_write_all path contents)"

text \<open>\<open>fresh\<close> is the key pair the generator would return, \<open>opt_in\<close> the environment variable.\<close>

definition load_or_generate_static_key ::
    "crypto \<Rightarrow> bool \<Rightarrow> (bytes \<times> bytes) option \<Rightarrow> path \<Rightarrow> (host, key_file_error, bytes) comp" where
  "load_or_generate_static_key C opt_in fresh path h =
     (case io_read_to_string path h of
        (Inr contents, h1) \<Rightarrow>
          (and_then (ok_or KeyDecode (b64_decode C (trim contents))) (\<lambda>key.
             if length key \<noteq> 32 then Inl (KeyLength (length key)) else Inr key), h1)
      | (Inl NotFound, h1) \<Rightarrow>
          if \<not> opt_in then (Inl KeyMissing, h1)
          else
            c_bind (c_lift (ok_or KeyGenerate fresh)) (\<lambda>(private_key, public_key).
            c_bind (c_map_err KeyWrite (write_private_key_file path (as_bytes (b64_encode C private_key @ [CHR 0x0A])))) (\<lambda>_.
            c_bind (c_map_err PubWrite (io_write (public_key_path path) (as_bytes (b64_encode C public_key @ [CHR 0x0A])))) (\<lambda>_.
              c_lift (Inr private_key)))) h1
      | (Inl e, h1) \<Rightarrow> (Inl (KeyRead e), h1))"

definition load_static_private_key ::
    "crypto \<Rightarrow> bool \<Rightarrow> (bytes \<times> bytes) option \<Rightarrow> path \<Rightarrow> (host, key_file_error, bytes) comp" where
  "load_static_private_key C opt_in fresh path =
     c_bind (load_or_generate_static_key C opt_in fresh path) (\<lambda>key.
       c_lift (if length key = 32 then Inr key else Inl (KeyLength (length key))))"

definition load_static_public_key ::
    "crypto \<Rightarrow> bool \<Rightarrow> (bytes \<times> bytes) option \<Rightarrow> path \<Rightarrow> (host, key_file_error, bytes) comp" where
  "load_static_public_key C opt_in fresh path =
     c_bind (load_static_private_key C opt_in fresh path) (\<lambda>key.
       c_lift (Inr (derive_noise_public_from_private C key)))"

section \<open>Connections\<close>

text \<open>
  The responder side of the XK handshake in \<open>snow\<close>: what each of the three messages does to the
  handshake state, and the transport it ends in. \<open>xk_read3\<close> also gives the initiator's static key.
\<close>

record 'h snow =
  xk_read1 :: "bytes \<Rightarrow> bytes \<Rightarrow> bytes \<Rightarrow> 'h option"
  xk_write2 :: "'h \<Rightarrow> ('h \<times> bytes) option"
  xk_read3 :: "'h \<Rightarrow> bytes \<Rightarrow> ('h \<times> bytes option) option"
  xk_transport :: "'h \<Rightarrow> noise_cipher option"

datatype conn_error =
    ConnNotV4 | ConnSource source_error | ConnFrame frame_error | ConnNoise | ConnNoStatic
  | ConnStaticMismatch | ConnSessionLimit

datatype conn_outcome = Socks5 bytes noise_cipher | Relayed bytes | Echoed bytes

record 'r conn =
  conn_rx :: bytes
  conn_tx :: bytes
  conn_runtime :: runtime
  conn_sessions :: session_counts
  conn_relay :: 'r

type_synonym ('r, 'a) conn_comp = "('r conn, conn_error, 'a) comp"

definition conn_read_frame :: "('r, bytes) conn_comp" where
  "conn_read_frame st = (case read_frame (conn_rx st) of (r, rest) \<Rightarrow> (map_err ConnFrame r, st\<lparr>conn_rx := rest\<rparr>))"

definition conn_write_frame :: "bytes \<Rightarrow> ('r, unit) conn_comp" where
  "conn_write_frame f st = (case write_frame f (conn_tx st) of (r, out) \<Rightarrow> (map_err ConnFrame r, st\<lparr>conn_tx := out\<rparr>))"

definition conn_lookup :: "clocks \<Rightarrow> u32 \<Rightarrow> ('r, AllowedSource) conn_comp" where
  "conn_lookup K ip st =
     (case lookup_source K ip (conn_runtime st) of (r, s) \<Rightarrow> (map_err ConnSource r, st\<lparr>conn_runtime := s\<rparr>))"

definition verify_client_noise_static :: "bytes option \<Rightarrow> bytes \<Rightarrow> conn_error + unit" where
  "verify_client_noise_static remote_static expected =
     and_then (ok_or ConnNoStatic remote_static) (\<lambda>remote.
       let matches = length remote = length expected \<and> remote = expected
       in if \<not> matches then Inl ConnStaticMismatch else Inr ())"

definition read_encrypted_frame :: "noise_cipher \<Rightarrow> nat \<Rightarrow> ('r, bytes) conn_comp" where
  "read_encrypted_frame N n =
     c_bind conn_read_frame (\<lambda>encrypted. c_lift (ok_or ConnNoise (cipher_dec N n encrypted)))"

definition write_encrypted_frame :: "noise_cipher \<Rightarrow> nat \<Rightarrow> bytes \<Rightarrow> ('r, unit) conn_comp" where
  "write_encrypted_frame N n pt =
     c_bind (c_lift (ok_or ConnNoise (write_message N n MAX_FRAME_LEN pt))) conn_write_frame"

definition handle_ghost_relay ::
    "(key_id \<Rightarrow> bytes \<Rightarrow> 'r \<Rightarrow> bytes \<times> 'r) \<Rightarrow> key_id \<Rightarrow> bytes \<Rightarrow> noise_cipher \<Rightarrow> ('r, conn_outcome) conn_comp" where
  "handle_ghost_relay dispatch key request N st =
     (case dispatch key request (conn_relay st) of
        (response, r) \<Rightarrow>
          c_bind (write_encrypted_frame N 0 response) (\<lambda>_. c_lift (Inr (Relayed response)))
            (st\<lparr>conn_relay := r\<rparr>))"

definition handshake :: "'h snow \<Rightarrow> bytes \<Rightarrow> key_id \<Rightarrow> ('r, 'h \<times> bytes option) conn_comp" where
  "handshake S static_key key =
     c_bind conn_read_frame (\<lambda>msg1.
     c_bind (c_lift (ok_or ConnNoise (xk_read1 S static_key key msg1))) (\<lambda>h1.
     c_bind (c_lift (ok_or ConnNoise (xk_write2 S h1))) (\<lambda>(h2, msg2).
     c_bind (conn_write_frame msg2) (\<lambda>_.
     c_bind conn_read_frame (\<lambda>msg3.
       c_lift (ok_or ConnNoise (xk_read3 S h2 msg3)))))))"

text \<open>After the slot is taken: the transport and the first application frame.\<close>

definition serve_session ::
    "'h snow \<Rightarrow> (key_id \<Rightarrow> bytes \<Rightarrow> 'r \<Rightarrow> bytes \<times> 'r) \<Rightarrow> AllowedSource \<Rightarrow> 'h \<Rightarrow> ('r, conn_outcome) conn_comp" where
  "serve_session S dispatch source h =
     c_bind (c_lift (ok_or ConnNoise (xk_transport S h))) (\<lambda>N.
     c_bind (read_encrypted_frame N 0) (\<lambda>pt.
       if pt \<noteq> [] \<and> hd pt = PROTOCOL_SOCKS5 then c_lift (Inr (Socks5 pt N))
       else if pt \<noteq> [] \<and> hd pt = PROTOCOL_GHOST_RELAY
       then handle_ghost_relay dispatch (ae_key_id (src_entry source)) pt N
       else c_bind (write_encrypted_frame N 0 pt) (\<lambda>_. c_lift (Inr (Echoed pt)))))"

text \<open>The slot guard: acquire, run the session, and release on every way out.\<close>

definition with_session :: "key_id \<Rightarrow> u16 option \<Rightarrow> ('r, 'a) conn_comp \<Rightarrow> ('r, 'a) conn_comp" where
  "with_session key max_sessions body st =
     (case acquire_session (conn_sessions st) key max_sessions of
        (False, counts) \<Rightarrow> (Inl ConnSessionLimit, st\<lparr>conn_sessions := counts\<rparr>)
      | (True, counts) \<Rightarrow>
          (case body (st\<lparr>conn_sessions := counts\<rparr>) of
             (r, st') \<Rightarrow> (r, st'\<lparr>conn_sessions := drop_session key (conn_sessions st')\<rparr>)))"

definition handle_connection ::
    "'h snow \<Rightarrow> (key_id \<Rightarrow> bytes \<Rightarrow> 'r \<Rightarrow> bytes \<times> 'r) \<Rightarrow> clocks \<Rightarrow> bytes \<Rightarrow> ip_addr \<Rightarrow> ('r, conn_outcome) conn_comp" where
  "handle_connection S dispatch K static_key peer_ip =
     (case peer_ip of
        V6 _ \<Rightarrow> c_lift (Inl ConnNotV4)
      | V4 src_ip \<Rightarrow>
          c_bind (conn_lookup K src_ip) (\<lambda>source.
          c_bind (handshake S static_key (ae_key_id (src_entry source))) (\<lambda>(h, remote_static).
          c_bind (c_lift (verify_client_noise_static remote_static (src_noise_public_key source))) (\<lambda>_.
            with_session (ae_key_id (src_entry source)) (src_max_concurrent_sessions source)
              (serve_session S dispatch source h)))))"

section \<open>Both ends of a tunnel\<close>

text \<open>
  The writing end: any calls of \<open>poll_write\<close> and \<open>poll_flush\<close> that do not fail; \<open>acc\<close> is what the
  callers were told was accepted. The reading end: calls of \<open>poll_read\<close> on a stream that will
  deliver the given bytes; \<open>out\<close> is what the callers got.
\<close>

inductive writer_run :: "noise_cipher \<Rightarrow> NoiseFramedStream \<Rightarrow> bytes \<Rightarrow> bool" for N where
  open_writer: "tx t = [] \<Longrightarrow> writer_run N (NoiseFramedStream_new t 0 0 []) []"
| write_some: "writer_run N s acc \<Longrightarrow> poll_write N buf s = (Ready (Inr n), s') \<Longrightarrow>
    writer_run N s' (acc @ take n buf)"
| write_wait: "writer_run N s acc \<Longrightarrow> poll_write N buf s = (Pending, s') \<Longrightarrow> writer_run N s' acc"
| flush: "writer_run N s acc \<Longrightarrow> poll_flush s = (r, s') \<Longrightarrow> writer_run N s' acc"

inductive reader_run :: "noise_cipher \<Rightarrow> bytes \<Rightarrow> NoiseFramedStream \<Rightarrow> bytes \<Rightarrow> bool" for N wire where
  open_reader: "rx t = wire \<Longrightarrow> reader_run N wire (NoiseFramedStream_new t 0 0 []) []"
| read_some: "reader_run N wire s out \<Longrightarrow> poll_read N room s = (Ready (Inr bs), s') \<Longrightarrow>
    reader_run N wire s' (out @ bs)"
| read_wait: "reader_run N wire s out \<Longrightarrow> poll_read N room s = (Pending, s') \<Longrightarrow> reader_run N wire s' out"

lemma writer_run_wire:
  assumes "writer_run N s acc" and "delivers N B"
  shows "\<exists>ms. sent s = wire_of N 0 ms \<and> concat ms = acc \<and> send_nonce s = length ms \<and>
    (\<forall>m \<in> set ms. m \<noteq> [] \<and> length m \<le> max_plaintext_len)"
  using assms(1)
proof (induction rule: writer_run.induct)
  case (open_writer t)
  then show ?case
    by (intro exI [of _ "[]"]) (simp add: sent_def NoiseFramedStream_new_def wire_of_simps)
next
  case (write_some s acc buf n s')
  then obtain ms where ms: "sent s = wire_of N 0 ms" "concat ms = acc" "send_nonce s = length ms"
      "\<forall>m \<in> set ms. m \<noteq> [] \<and> length m \<le> max_plaintext_len"
    by blast
  note w = poll_write_facts [OF assms(2) write_some.hyps(2)]
  show ?case
  proof (cases "buf = []")
    case True
    then show ?thesis using w ms by (intro exI [of _ ms]) simp
  next
    case False
    then show ?thesis
      using w ms by (intro exI [of _ "ms @ [take n buf]"]) (auto simp: wire_of_snoc)
  qed
next
  case (write_wait s acc buf s')
  then show ?case using poll_write_facts [OF assms(2) write_wait.hyps(2)] by simp
next
  case (flush s acc r s')
  then show ?case
    using poll_flush_pending_facts [of s r s'] by (simp add: poll_flush_def sent_def)
qed

lemma poll_read_delivers:
  assumes "delivers A B" and "in_flight A s ms" and "poll_read B room s = (res, s')"
  shows "\<exists>ms'. case res of
      Pending \<Rightarrow> in_flight A s' ms' \<and> plain s' @ concat ms' = plain s @ concat ms
    | Ready (Inr bs) \<Rightarrow> in_flight A s' ms' \<and> bs @ plain s' @ concat ms' = plain s @ concat ms \<and>
        (bs = [] \<longrightarrow> 0 < room \<longrightarrow> plain s @ concat ms = [])
    | Ready (Inl e) \<Rightarrow> e = Io \<or> e = WriteZero"
proof -
  obtain r1 s1 where f: "poll_flush_pending s = (r1, s1)" by (cases "poll_flush_pending s")
  note p = poll_flush_pending_facts [OF f]
  note fl = in_flight_flush [OF f assms(2)]
  have pl: "plain s1 @ concat ms = plain s @ concat ms" using p by simp
  consider (pend) "r1 = Pending" | (err) e where "r1 = Ready (Inl e)" | (ok) "r1 = Ready (Inr ())"
    by (cases r1; metis (full_types) sum.exhaust old.unit.exhaust)
  then show ?thesis
  proof cases
    case pend
    then show ?thesis using assms(3) f fl pl by (auto simp: poll_read_def)
  next
    case err
    then show ?thesis using assms(3) f p by (auto simp: poll_read_def)
  next
    case ok
    then have "poll_read_loop B (length (rx_script (stream s1)) + 2) room s1 = (res, s')"
      using assms(3) f by (simp add: poll_read_def)
    from poll_read_loop_delivers [OF assms(1) fl order_refl this] show ?thesis
      unfolding pl by (auto split: poll.splits sum.splits)
  qed
qed

lemma reader_run_in_flight:
  assumes "reader_run B wire s out" and "delivers A B" and "wire = wire_of A 0 ms"
    and "\<forall>m \<in> set ms. length m \<le> max_plaintext_len"
  shows "\<exists>ms'. in_flight A s ms' \<and> out @ plain s @ concat ms' = concat ms"
  using assms(1)
proof (induction rule: reader_run.induct)
  case (open_reader t)
  then show ?case
    using assms(3,4) by (intro exI [of _ ms])
      (simp add: in_flight_def NoiseFramedStream_new_def read_ok_def unparsed_def)
next
  case (read_some s out room bs s')
  then obtain ms1 where "in_flight A s ms1" "out @ plain s @ concat ms1 = concat ms" by blast
  moreover from poll_read_delivers [OF assms(2) this(1) read_some.hyps(2)]
  obtain ms' where "in_flight A s' ms'" "bs @ plain s' @ concat ms' = plain s @ concat ms1" by auto
  ultimately show ?case by (intro exI [of _ ms']) simp
next
  case (read_wait s out room s')
  then obtain ms1 where "in_flight A s ms1" "out @ plain s @ concat ms1 = concat ms" by blast
  with poll_read_delivers [OF assms(2) this(1) read_wait.hyps(2)] show ?case by auto
qed

section \<open>Session runs\<close>

inductive session_run :: "(key_id \<Rightarrow> u16 option) \<Rightarrow> session_counts \<Rightarrow> key_id list \<Rightarrow> bool" for cap where
  none: "session_run cap hm_empty []"
| admitted: "session_run cap c l \<Longrightarrow> acquire_session c k (cap k) = (True, c') \<Longrightarrow>
    length l + 1 < 2 ^ 32 \<Longrightarrow> session_run cap c' (k # l)"
| refused: "session_run cap c l \<Longrightarrow> acquire_session c k (cap k) = (False, c') \<Longrightarrow> session_run cap c' l"
| closed: "session_run cap c l \<Longrightarrow> k \<in> set l \<Longrightarrow> session_run cap (drop_session k c) (remove1 k l)"

definition counts_live :: "session_counts \<Rightarrow> key_id list \<Rightarrow> bool" where
  "counts_live c l \<longleftrightarrow> (\<forall>k. case_option 0 unat (hm_get c k) = count_list l k \<and> hm_get c k \<noteq> Some 0)"

lemma counts_live_get: "counts_live c l \<Longrightarrow> case_option 0 unat (hm_get c k) = count_list l k"
  by (simp add: counts_live_def)

lemma acquire_session_eq:
  assumes "counts_live c l"
  shows "acquire_session c k cp =
    (if \<exists>m. cp = Some m \<and> 0 < m \<and> unat m \<le> count_list l k then (False, c)
     else (True, hm_insert k (case_option 0 id (hm_get c k) + 1) (if hm_get c k = None then hm_insert k 0 c else c)))"
proof -
  have up: "unat (ucast m :: u32) = unat m" for m :: u16 by (rule unat_ucast_up) simp
  have g: "case_option 0 unat (hm_get c k) = count_list l k" using counts_live_get [OF assms] .
  have le: "ucast m \<le> (case_option 0 id (hm_get c k) :: u32) \<longleftrightarrow> unat m \<le> count_list l k" for m :: u16
    using g by (simp add: word_le_nat_alt up split: option.splits)
  show ?thesis
  proof (cases "hm_get c k")
    case None
    then have "count_list l k = 0" using g by simp
    moreover have pos: "\<not> ((0 :: u16) < m \<and> unat m = 0)" for m by (auto simp: word_less_nat_alt)
    moreover have "(ucast m :: u32) \<le> 0 \<longleftrightarrow> unat m = 0" for m :: u16
      by (simp only: word_le_nat_alt up) simp
    ultimately show ?thesis
      using None by (cases cp) (simp_all add: acquire_session_def pos)
  next
    case (Some n)
    then show ?thesis
      using le by (cases cp) (auto simp: acquire_session_def)
  qed
qed

lemma session_run_ok:
  assumes "session_run cap c l"
  shows "counts_live c l \<and> length l < 2 ^ 32 \<and> (\<forall>k m. cap k = Some m \<longrightarrow> 0 < m \<longrightarrow> count_list l k \<le> unat m)"
  using assms
proof (induction rule: session_run.induct)
  case none
  then show ?case by (simp add: counts_live_def)
next
  case (admitted c l k c')
  then have live: "counts_live c l" by blast
  have c': "c' = hm_insert k (case_option 0 id (hm_get c k) + 1) (if hm_get c k = None then hm_insert k 0 c else c)"
    and lim: "\<not> (\<exists>m. cap k = Some m \<and> 0 < m \<and> unat m \<le> count_list l k)"
    using admitted.hyps(2) unfolding acquire_session_eq [OF live] by (auto split: if_splits)
  have "count_list l k \<le> length l" by (rule count_le_length)
  then have small: "count_list l k + 1 < 2 ^ 32" using admitted.hyps(3) by simp
  have u: "unat (case_option 0 id (hm_get c k) :: u32) = count_list l k"
    using counts_live_get [OF live, of k] by (simp split: option.splits)
  have one: "unat (case_option 0 id (hm_get c k) + 1 :: u32) = count_list l k + 1"
    using small u by (subst unat_plus_small) simp_all
  have nz: "case_option 0 id (hm_get c k) + 1 \<noteq> (0 :: u32)"
    using one by (metis add_is_0 one_neq_zero unsigned_0)
  have "counts_live c' (k # l)"
    unfolding counts_live_def
  proof
    fix k'
    show "case_option 0 unat (hm_get c' k') = count_list (k # l) k' \<and> hm_get c' k' \<noteq> Some 0"
      using live one nz by (cases "k' = k") (auto simp: c' counts_live_def)
  qed
  moreover have "count_list (k # l) k' \<le> unat m" if "cap k' = Some m" "0 < m" for k' m
    using admitted.IH that lim by (cases "k' = k") auto
  ultimately show ?case using admitted.hyps(3) by simp
next
  case (refused c l k c')
  then show ?case using acquire_session_eq [of c l k "cap k"] by (auto split: if_splits)
next
  case (closed c l k)
  then have live: "counts_live c l" by blast
  have pos: "0 < count_list l k" using closed.hyps(2) by (simp add: count_list_0_iff zero_less_iff_neq_zero)
  obtain n where n: "hm_get c k = Some n" "unat n = count_list l k"
    using counts_live_get [OF live, of k] pos by (cases "hm_get c k") simp_all
  have cr: "count_list (remove1 k l) k' = count_list l k' - (if k' = k then 1 else 0)" for k'
    by (induction l) auto
  have dec: "unat (saturating_sub n 1) = count_list l k - 1" using n(2) by (simp add: unat_dec)
  have "counts_live (drop_session k c) (remove1 k l)"
    unfolding counts_live_def
  proof
    fix k'
    show "case_option 0 unat (hm_get (drop_session k c) k') = count_list (remove1 k l) k' \<and>
        hm_get (drop_session k c) k' \<noteq> Some 0"
      using live n dec cr [of k']
      by (cases "k' = k"; cases "saturating_sub n 1 = 0") (auto simp: drop_session_def counts_live_def)
  qed
  moreover have "count_list (remove1 k l) k' \<le> unat m" if "cap k' = Some m" "0 < m" for k' m
  proof -
    have "count_list l k' \<le> unat m" using closed.IH that by blast
    then show ?thesis using cr [of k'] by simp
  qed
  moreover have "length (remove1 k l) < 2 ^ 32"
    using closed.IH by (auto simp: length_remove1)
  ultimately show ?case by blast
qed


section \<open>Properties\<close>

text \<open>Two ends of a toy session: a server's and a client's. Neither decrypts what it encrypted itself.\<close>

definition toy_tagged :: "u8 \<Rightarrow> bytes \<Rightarrow> bytes option" where
  "toy_tagged b c = (if take 16 c = replicate 16 b then Some (drop 16 c) else None)"

definition toy_cipher :: noise_cipher where
  "toy_cipher = \<lparr>cipher_enc = (\<lambda>n m. replicate 16 1 @ m), cipher_dec = (\<lambda>n c. toy_tagged 0 c)\<rparr>"

definition toy_peer :: noise_cipher where
  "toy_peer = \<lparr>cipher_enc = (\<lambda>n m. replicate 16 0 @ m), cipher_dec = (\<lambda>n c. toy_tagged 1 c)\<rparr>"

lemma toy_tagged_own [simp]: "toy_tagged b (replicate 16 b @ m) = Some m"
  by (simp add: toy_tagged_def)

lemma toy_delivers: "delivers toy_cipher toy_peer" "delivers toy_peer toy_cipher"
  by (simp_all add: delivers_def toy_cipher_def toy_peer_def NOISE_TAG_LEN_def)

lemma toy_not_own: "cipher_dec toy_cipher n (cipher_enc toy_cipher n m) = None"
  by (simp add: toy_cipher_def toy_tagged_def)

text \<open>One message written to a connection that takes it at once.\<close>

lemma toy_writer:
  "\<exists>w. writer_run toy_cipher w [1, 2, 3] \<and> pending_write w = [] \<and> tx (stream w) = frame_wire (replicate 16 1 @ [1, 2, 3])"
proof -
  let ?t = "\<lparr>rx = [], rx_script = [], tx = [], tx_script = [Avail 100]\<rparr>"
  let ?s = "NoiseFramedStream_new ?t 0 0 []"
  obtain res w where p: "poll_write toy_cipher [1, 2, 3] ?s = (res, w)" by (cases "poll_write toy_cipher [1, 2, 3] ?s")
  have "res = Ready (Inr 3) \<and> pending_write w = [] \<and> tx (stream w) = frame_wire (replicate 16 1 @ [1, 2, 3])"
    using p by (auto simp: poll_write_def poll_flush_pending_def flush_loop_eqs NoiseFramedStream_new_def
        write_message_def toy_cipher_def frame_len_defs)
  then show ?thesis
    using writer_run.write_some [OF writer_run.open_writer, of ?t toy_cipher "[1, 2, 3]" 3 w] p by auto
qed

text \<open>
  The tunnel delivers the byte stream unchanged: whatever sizes the callers write and read
  with, however the sockets fragment, delay or accept the bytes, what the reader has got is a
  prefix of what the writer was told was accepted, and at the end of the stream it is all of it.
\<close>

theorem tunnel_end_to_end:
  assumes "delivers A B" and "writer_run A w acc" and "pending_write w = []"
    and "reader_run B (tx (stream w)) r out"
  shows "prefix out acc \<and>
    (\<forall>room r'. 0 < room \<longrightarrow> poll_read B room r = (Ready (Inr []), r') \<longrightarrow> out = acc)"
proof -
  obtain ms where ms: "sent w = wire_of A 0 ms" "concat ms = acc" "\<forall>m \<in> set ms. length m \<le> max_plaintext_len"
    using writer_run_wire [OF assms(2,1)] by blast
  have "tx (stream w) = wire_of A 0 ms" using ms(1) assms(3) by (simp add: sent_def)
  then obtain ms' where fl: "in_flight A r ms'" and out: "out @ plain r @ concat ms' = acc"
    using reader_run_in_flight [OF assms(4,1) _ ms(3)] ms(2) by blast
  have "out = acc" if "0 < room" "poll_read B room r = (Ready (Inr []), r')" for room r'
    using poll_read_delivers [OF assms(1) fl that(2)] that(1) out by auto
  moreover have "prefix out acc" using out by auto
  ultimately show ?thesis by blast
qed

theorem tunnel_end_to_end_witness:
  "\<exists>w. writer_run toy_cipher w [1, 2, 3] \<and> tx (stream w) = frame_wire (replicate 16 1 @ [1, 2, 3]) \<and>
     (\<forall>r out. reader_run toy_peer (tx (stream w)) r out \<longrightarrow> prefix out [1, 2, 3])"
proof -
  obtain w where w: "writer_run toy_cipher w [1, 2, 3]" "pending_write w = []"
      "tx (stream w) = frame_wire (replicate 16 1 @ [1, 2, 3])"
    using toy_writer by blast
  then show ?thesis
    using tunnel_end_to_end [OF toy_delivers(1) w(1,2)] by blast
qed

text \<open>
  C34. Concurrent sessions: with any number of connections opening and closing in any order, a key
  with a positive limit never has more open sessions than its limit, the count is exactly the
  number of open sessions, and a connection is refused only when the limit is reached.
\<close>

theorem session_limit:
  assumes "session_run cap c l" and "cap k = Some m" and "0 < m"
  shows "count_list l k \<le> unat m \<and> case_option 0 unat (hm_get c k) = count_list l k \<and>
    (fst (acquire_session c k (cap k)) \<longleftrightarrow> count_list l k < unat m)"
proof -
  note ok = session_run_ok [OF assms(1)]
  have live: "counts_live c l" using ok by blast
  show ?thesis
    using ok assms(2,3) counts_live_get [OF live, of k]
    by (auto simp: acquire_session_eq [OF live])
qed

theorem session_limit_witness:
  "\<exists>c. session_run (\<lambda>_. Some 1) c [[7]] \<and> \<not> fst (acquire_session c [7] (Some 1))"
proof -
  obtain c where a: "acquire_session hm_empty [7] (Some 1) = (True, c)"
    by (simp add: acquire_session_def)
  have run: "session_run (\<lambda>_. Some 1) c [[7]]"
    by (rule session_run.admitted [OF session_run.none]) (use a in simp_all)
  from session_limit [OF run, where k = "[7]" and m = 1] run show ?thesis by auto
qed

lemma conn_frame_relay:
  "conn_read_frame st = (r, st') \<Longrightarrow> (\<exists>rest. st' = st\<lparr>conn_rx := rest\<rparr>)"
  "conn_write_frame f st = (q, st') \<Longrightarrow> (\<exists>out. st' = st\<lparr>conn_tx := out\<rparr>)"
  by (auto simp: conn_read_frame_def conn_write_frame_def split: prod.splits)

lemma handle_ghost_relay_Inr:
  assumes "handle_ghost_relay dispatch key req N st = (Inr out, st')"
  shows "out = Relayed (fst (dispatch key req (conn_relay st)))"
  using assms by (cases "dispatch key req (conn_relay st)") (auto simp: handle_ghost_relay_def comp_eqs)

lemma read_encrypted_frame_relay:
  "read_encrypted_frame N n st = (r, st') \<Longrightarrow> conn_relay st' = conn_relay st"
  by (auto simp: read_encrypted_frame_def c_bind_def c_lift_def dest!: conn_frame_relay split: prod.splits sum.splits)

lemma conn_lookup_relay: "conn_lookup K ip st = (r, st') \<Longrightarrow> conn_relay st' = conn_relay st"
  by (auto simp: conn_lookup_def split: prod.splits)

lemma write_encrypted_frame_relay:
  "write_encrypted_frame N n pt st = (r, st') \<Longrightarrow> conn_relay st' = conn_relay st"
  by (auto simp: write_encrypted_frame_def c_bind_def c_lift_def dest!: conn_frame_relay split: prod.splits sum.splits)

lemma handshake_relay: "handshake S static_key key st = (r, st') \<Longrightarrow> conn_relay st' = conn_relay st"
  by (auto simp: handshake_def c_bind_def c_lift_def dest!: conn_frame_relay split: prod.splits sum.splits)

text \<open>
  What a connection's received bytes prove: they open with two frames that take the responder
  through the handshake under the key identifier, ending in \<open>h\<close> with the initiator's static key
  \<open>rs\<close>; \<open>later\<close> is what follows them. And the request they ask: the next frame, decrypted by the
  transport of \<open>h\<close>.
\<close>

definition handshake_on ::
    "'h snow \<Rightarrow> bytes \<Rightarrow> key_id \<Rightarrow> bytes \<Rightarrow> 'h \<Rightarrow> bytes option \<Rightarrow> bytes \<Rightarrow> bool" where
  "handshake_on S static_key key received h rs later \<longleftrightarrow>
     (\<exists>msg1 rest h1 h2 msg2 msg3. read_frame received = (Inr msg1, rest) \<and>
        xk_read1 S static_key key msg1 = Some h1 \<and> xk_write2 S h1 = Some (h2, msg2) \<and>
        read_frame rest = (Inr msg3, later) \<and> xk_read3 S h2 msg3 = Some (h, rs))"

definition asks_on :: "'h snow \<Rightarrow> 'h \<Rightarrow> bytes \<Rightarrow> bytes \<Rightarrow> bool" where
  "asks_on S h later request \<longleftrightarrow>
     (\<exists>N enc rest. xk_transport S h = Some N \<and> read_frame later = (Inr enc, rest) \<and> cipher_dec N 0 enc = Some request)"

lemma conn_lookup_rx: "conn_lookup K ip st = (r, st') \<Longrightarrow> conn_rx st' = conn_rx st"
  by (auto simp: conn_lookup_def split: prod.splits)

lemma conn_read_frame_Inr:
  "conn_read_frame st = (Inr f, st') \<longleftrightarrow> (\<exists>rest. read_frame (conn_rx st) = (Inr f, rest) \<and> st' = st\<lparr>conn_rx := rest\<rparr>)"
  by (auto simp: conn_read_frame_def result_eqs split: prod.splits)

lemma handshake_received:
  assumes "handshake S static_key key st = (Inr (h, remote), st')"
  shows "handshake_on S static_key key (conn_rx st) h remote (conn_rx st')"
proof -
  obtain msg1 st1 h1 h2 msg2 st2 msg3 where
      r1: "conn_read_frame st = (Inr msg1, st1)" and x1: "xk_read1 S static_key key msg1 = Some h1"
    and x2: "xk_write2 S h1 = Some (h2, msg2)" and w: "conn_write_frame msg2 st1 = (Inr (), st2)"
    and r3: "conn_read_frame st2 = (Inr msg3, st')" and x3: "xk_read3 S h2 msg3 = Some (h, remote)"
    using assms by (auto simp: handshake_def comp_eqs result_eqs split: prod.splits)
  have "conn_rx st2 = conn_rx st1" using conn_frame_relay(2) [OF w] by auto
  then show ?thesis
    using r1 x1 x2 r3 x3 unfolding handshake_on_def conn_read_frame_Inr by auto
qed

lemma read_encrypted_frame_received:
  "read_encrypted_frame N n st = (Inr pt, st') \<Longrightarrow>
   \<exists>enc rest. read_frame (conn_rx st) = (Inr enc, rest) \<and> cipher_dec N n enc = Some pt"
  by (auto simp: read_encrypted_frame_def comp_eqs result_eqs conn_read_frame_Inr)

lemma served_by_dispatch:
  assumes "serve_session S dispatch src h st = (Inr (Relayed response), st')"
  shows "\<exists>request. asks_on S h (conn_rx st) request \<and> response = fst (dispatch (ae_key_id (src_entry src)) request (conn_relay st))"
proof -
  obtain N pt st1 where N: "xk_transport S h = Some N" and r: "read_encrypted_frame N 0 st = (Inr pt, st1)"
    and h: "handle_ghost_relay dispatch (ae_key_id (src_entry src)) pt N st1 = (Inr (Relayed response), st')"
    using assms by (auto simp: serve_session_def comp_eqs result_eqs split: if_splits)
  have "asks_on S h (conn_rx st) pt"
    using read_encrypted_frame_received [OF r] N unfolding asks_on_def by blast
  with handle_ghost_relay_Inr [OF h] read_encrypted_frame_relay [OF r] show ?thesis by auto
qed

lemma handle_ghost_relay_relay:
  assumes "handle_ghost_relay dispatch key req N st = (r, st')"
  shows "conn_relay st' = snd (dispatch key req (conn_relay st))"
proof (cases "dispatch key req (conn_relay st)")
  case (Pair resp x)
  show ?thesis
    using assms write_encrypted_frame_relay [of N 0 resp "st\<lparr>conn_relay := x\<rparr>"] Pair
    by (auto simp: handle_ghost_relay_def c_bind_def c_lift_def split: prod.splits sum.splits)
qed

lemma serve_session_relay:
  assumes "serve_session S dispatch src h st = (r, st')"
  shows "conn_relay st' = conn_relay st \<or>
    (\<exists>request. asks_on S h (conn_rx st) request \<and>
       conn_relay st' = snd (dispatch (ae_key_id (src_entry src)) request (conn_relay st)))"
proof (cases "xk_transport S h")
  case None
  then show ?thesis using assms by (simp add: serve_session_def c_bind_def c_lift_def)
next
  case (Some N)
  obtain q st1 where rd: "read_encrypted_frame N 0 st = (q, st1)" by fastforce
  note same = read_encrypted_frame_relay [OF rd]
  show ?thesis
  proof (cases q)
    case (Inl e)
    then show ?thesis using assms Some rd same by (simp add: serve_session_def c_bind_def c_lift_def)
  next
    case (Inr pt)
    obtain w st2 where wr: "write_encrypted_frame N 0 pt st1 = (w, st2)" by fastforce
    consider "conn_relay st' = conn_relay st1" | "handle_ghost_relay dispatch (ae_key_id (src_entry src)) pt N st1 = (r, st')"
      using assms Some rd Inr wr write_encrypted_frame_relay [OF wr]
      by (auto simp: serve_session_def c_bind_def c_lift_def split: if_splits sum.splits)
    then show ?thesis
    proof cases
      case 2
      have "asks_on S h (conn_rx st) pt"
        using read_encrypted_frame_received [OF rd [unfolded Inr]] Some unfolding asks_on_def by blast
      with handle_ghost_relay_relay [OF 2] show ?thesis unfolding same by blast
    qed (simp add: same)
  qed
qed

text \<open>
  The relay's state changes only inside a served session: a connection that changes it has a live
  grant, its received bytes complete the handshake with the grant's Noise key, and the change is the
  request those bytes carry, under the grant's key identifier.
\<close>

lemma handle_connection_relay:
  assumes "handle_connection S dispatch K static_key peer st = (r, st')" and "conn_relay st' \<noteq> conn_relay st"
  obtains ip src request h later where "peer = V4 ip" "hm_get (allowed_sources (conn_runtime st)) ip = Some src"
    "handshake_on S static_key (ae_key_id (src_entry src)) (conn_rx st) h (Some (src_noise_public_key src)) later"
    "asks_on S h later request"
    "conn_relay st' = snd (dispatch (ae_key_id (src_entry src)) request (conn_relay st))"
proof -
  obtain ip where peer: "peer = V4 ip"
    using assms by (cases peer) (auto simp: handle_connection_def c_lift_def)
  obtain l st1 where look: "conn_lookup K ip st = (l, st1)" by fastforce
  note s1 = conn_lookup_relay [OF look]
  obtain src where l: "l = Inr src"
    using assms s1 look by (cases l) (auto simp: handle_connection_def peer c_bind_def)
  have src: "hm_get (allowed_sources (conn_runtime st)) ip = Some src"
    using look l by (auto simp: conn_lookup_def lookup_source_def read_mono_def result_eqs
        split: option.splits prod.splits sum.splits if_splits)
  obtain q st2 where hs: "handshake S static_key (ae_key_id (src_entry src)) st1 = (q, st2)" by fastforce
  note s2 = handshake_relay [OF hs]
  obtain h remote where q: "q = Inr (h, remote)"
    using assms s1 s2 look l hs by (cases q) (auto simp: handle_connection_def peer c_bind_def)
  have x: "handshake_on S static_key (ae_key_id (src_entry src)) (conn_rx st) h remote (conn_rx st2)"
    using handshake_received [OF hs [unfolded q]] conn_lookup_rx [OF look] by simp
  have ver: "verify_client_noise_static remote (src_noise_public_key src) = Inr ()"
  proof (cases "verify_client_noise_static remote (src_noise_public_key src)")
    case (Inl e)
    then show ?thesis using assms s1 s2 look l hs q by (simp add: handle_connection_def peer c_bind_def c_lift_def)
  qed simp
  then have rs: "remote = Some (src_noise_public_key src)"
    by (auto simp: verify_client_noise_static_def result_eqs Let_def split: if_splits)
  have ses: "with_session (ae_key_id (src_entry src)) (src_max_concurrent_sessions src) (serve_session S dispatch src h) st2 = (r, st')"
    using assms(1) look l hs q ver by (simp add: handle_connection_def peer c_bind_def c_lift_def)
  obtain b counts where a: "acquire_session (conn_sessions st2) (ae_key_id (src_entry src)) (src_max_concurrent_sessions src) = (b, counts)"
    by fastforce
  then have b using ses assms(2) s1 s2 by (cases b) (auto simp: with_session_def)
  obtain r3 st3 where sv: "serve_session S dispatch src h (st2\<lparr>conn_sessions := counts\<rparr>) = (r3, st3)" by fastforce
  have "conn_relay st' = conn_relay st3" using ses a \<open>b\<close> sv by (auto simp: with_session_def)
  then obtain request where "asks_on S h (conn_rx st2) request"
      "conn_relay st' = snd (dispatch (ae_key_id (src_entry src)) request (conn_relay st))"
    using serve_session_relay [OF sv] s1 s2 assms(2) by auto
  then show thesis using that peer src x unfolding rs by blast
qed

text \<open>
  C4. Nobody is served without the knocking client's identity: a connection that gets as far as
  being served comes from an IPv4 address with an unexpired mirrored grant, completed the
  handshake under the grant's key identifier with the frames it sent, and presented as its static key
  exactly the Noise key bound to that grant; and a relay response is what the relay answers under that
  key identifier to the request the connection carries.
\<close>

theorem served_only_with_identity:
  assumes "handle_connection S dispatch K static_key peer st = (Inr outcome, st')"
  shows "\<exists>ip src now h rs later. peer = V4 ip \<and> hm_get (allowed_sources (conn_runtime st)) ip = Some src \<and>
    monotonic_now_ns (mono K (rt_tick (conn_runtime st))) = Inr now \<and> now < expiry_ns (src_entry src) \<and>
    handshake_on S static_key (ae_key_id (src_entry src)) (conn_rx st) h (Some rs) later \<and>
    rs = src_noise_public_key src \<and>
    (\<forall>response. outcome = Relayed response \<longrightarrow>
       (\<exists>request. asks_on S h later request \<and> response = fst (dispatch (ae_key_id (src_entry src)) request (conn_relay st))))"
proof -
  obtain ip where peer: "peer = V4 ip"
    using assms by (cases peer) (auto simp: handle_connection_def)
  obtain src st1 h remote st2 where
      look: "conn_lookup K ip st = (Inr src, st1)"
    and hs: "handshake S static_key (ae_key_id (src_entry src)) st1 = (Inr (h, remote), st2)"
    and ver: "verify_client_noise_static remote (src_noise_public_key src) = Inr ()"
    and ses: "with_session (ae_key_id (src_entry src)) (src_max_concurrent_sessions src)
       (serve_session S dispatch src h) st2 = (Inr outcome, st')"
    using assms by (auto simp: handle_connection_def peer comp_eqs)
  obtain now where src: "hm_get (allowed_sources (conn_runtime st)) ip = Some src"
    and now: "monotonic_now_ns (mono K (rt_tick (conn_runtime st))) = Inr now" "now < expiry_ns (src_entry src)"
    using look by (auto simp: conn_lookup_def lookup_source_def read_mono_def result_eqs not_le
        split: option.splits prod.splits sum.splits if_splits)
  note relay1 = conn_lookup_relay [OF look] and relay2 = handshake_relay [OF hs]
  have x: "handshake_on S static_key (ae_key_id (src_entry src)) (conn_rx st) h remote (conn_rx st2)"
    using handshake_received [OF hs] conn_lookup_rx [OF look] by simp
  have rs: "remote = Some (src_noise_public_key src)"
    using ver by (auto simp: verify_client_noise_static_def result_eqs Let_def split: if_splits)
  have "\<exists>request. asks_on S h (conn_rx st2) request \<and> response = fst (dispatch (ae_key_id (src_entry src)) request (conn_relay st))"
    if "outcome = Relayed response" for response
  proof -
    obtain counts st3 where "serve_session S dispatch src h (st2\<lparr>conn_sessions := counts\<rparr>) = (Inr outcome, st3)"
      using ses by (auto simp: with_session_def split: prod.splits bool.splits)
    from served_by_dispatch [OF this [unfolded that]] show ?thesis
      using relay1 relay2 by simp
  qed
  then show ?thesis
    using peer src now x unfolding rs by blast
qed

definition toy_snow :: "bytes \<Rightarrow> unit snow" where
  "toy_snow client_key = \<lparr>xk_read1 = (\<lambda>_ _ _. Some ()), xk_write2 = (\<lambda>_. Some ((), [2])),
     xk_read3 = (\<lambda>_ m. if m = [3] then Some ((), Some client_key) else None), xk_transport = (\<lambda>_. Some toy_cipher)\<rparr>"

definition demo_conn :: "nat conn" where
  "demo_conn = \<lparr>conn_rx = frame_wire [1] @ frame_wire [3] @ frame_wire (replicate 16 0 @ [PROTOCOL_GHOST_RELAY]),
     conn_tx = [], conn_runtime = demo_runtime 200000000000, conn_sessions = hm_empty, conn_relay = 0\<rparr>"

lemma demo_conn_served:
  "\<exists>st'. handle_connection (toy_snow (replicate 32 2)) (\<lambda>key req n. (key, n + 1)) demo_clocks [] (V4 7) demo_conn =
     (Inr (Relayed (replicate 8 1)), st')"
proof -
  have mono: "monotonic_now_ns (Some (100, 0)) = Inr 100000000000"
    by (simp add: monotonic_now_ns_def try_u64_def saturating_mul_def saturating_add_def)
  have rf: "conn_read_frame st = (Inr f, st\<lparr>conn_rx := rest\<rparr>)"
    if "conn_rx st = frame_wire f @ rest" "length f \<le> MAX_FRAME_LEN" for st :: "nat conn" and f rest
    using read_frame_wire [OF that(2)] that(1) by (simp add: conn_read_frame_def)
  obtain c where acq: "acquire_session hm_empty (replicate 8 1) None = (True, c)"
    by (simp add: acquire_session_def Let_def)
  show ?thesis
    by (simp add: acq handle_connection_def conn_lookup_def lookup_source_def read_mono_def demo_conn_def demo_runtime_def
        demo_clocks_def mono c_bind_def c_lift_def handshake_def rf [of _ "[1]"] rf [of _ "[3]"]
        rf [of _ "replicate 16 0 @ [PROTOCOL_GHOST_RELAY]" "[]", unfolded append_Nil2] MAX_FRAME_LEN_def toy_snow_def
        conn_write_frame_def write_frame_def verify_client_noise_static_def with_session_def
        serve_session_def read_encrypted_frame_def toy_cipher_def PROTOCOL_SOCKS5_def PROTOCOL_GHOST_RELAY_def
        handle_ghost_relay_def write_encrypted_frame_def write_message_def NOISE_TAG_LEN_def hm_get_def)
qed

theorem served_only_with_identity_witness:
  "hm_get (allowed_sources (conn_runtime demo_conn)) 7 \<noteq> None \<and>
   (\<exists>request. replicate 8 1 = fst ((\<lambda>key req n :: nat. (key, n + 1)) (replicate 8 1) (request :: bytes) (conn_relay demo_conn)))"
proof -
  obtain st' where "handle_connection (toy_snow (replicate 32 2)) (\<lambda>key req n. (key, n + 1)) demo_clocks [] (V4 7) demo_conn =
     (Inr (Relayed (replicate 8 1)), st')"
    using demo_conn_served by blast
  from served_only_with_identity [OF this] show ?thesis
    by (auto simp: demo_conn_def demo_runtime_def hm_get_def)
qed

text \<open>
  C35. The server never mints an identity by accident: with an identity file present the key is its
  32 decoded bytes or the start fails, and no file is written; without one the start fails and
  writes nothing unless the operator opted in, and then the returned key is the one written.
\<close>

theorem identity_fails_closed:
  assumes "load_or_generate_static_key C opt_in fresh path h = (r, h')" and "fault h (tick h) = None"
  shows "(content h path \<noteq> None \<longrightarrow> content h' = content h \<and> (\<forall>k. r = Inr k \<longrightarrow> length k = 32 \<and>
            (\<exists>s. from_utf8 (the (content h path)) = Some s \<and> b64_decode C (trim s) = Some k))) \<and>
         (content h path = None \<longrightarrow> \<not> opt_in \<longrightarrow> \<not> is_ok r \<and> content h' = content h) \<and>
         (content h path = None \<longrightarrow> (\<forall>k. r = Inr k \<longrightarrow> opt_in \<and> (\<exists>pub. fresh = Some (k, pub)) \<and>
            (public_key_path path \<noteq> path \<longrightarrow> content h' path = Some (as_bytes (b64_encode C k @ [CHR 0x0A])))))"
proof (intro conjI impI allI)
  assume c: "content h path \<noteq> None"
  then obtain bs where bs: "content h path = Some bs" by blast
  have rd: "io_read_to_string path h = (ok_or OtherIo (from_utf8 bs), h\<lparr>tick := tick h + 1\<rparr>)"
    using bs assms(2) by (simp add: io_read_to_string_def c_bind_def io_read_quiet)
  show "content h' = content h"
    using assms(1) rd by (auto simp: load_or_generate_static_key_def split: sum.splits option.splits io_error.splits
        simp: ok_or_def)
  fix k assume "r = Inr k"
  then show "length k = 32" "\<exists>s. from_utf8 (the (content h path)) = Some s \<and> b64_decode C (trim s) = Some k"
    using assms(1) rd bs by (auto simp: load_or_generate_static_key_def result_eqs ok_or_def
        split: sum.splits option.splits io_error.splits if_splits)
next
  assume c: "content h path = None" and no: "\<not> opt_in"
  then show "\<not> is_ok r" "content h' = content h"
    using assms by (auto simp: load_or_generate_static_key_def io_read_to_string_def io_read_def io_call_def
        c_bind_def split: if_splits)
next
  fix k assume c: "content h path = None" and r: "r = Inr k"
  have w: "opt_in \<and> (\<exists>pub h1 h2 u. fresh = Some (k, pub) \<and>
      write_private_key_file path (as_bytes (b64_encode C k @ [CHR 0x0A])) h1 = (Inr (), h2) \<and>
      io_write (public_key_path path) (as_bytes (b64_encode C pub @ [CHR 0x0A])) h2 = (Inr u, h'))"
    using assms c r
    by (auto simp: load_or_generate_static_key_def io_read_to_string_def io_read_def io_call_def
        comp_eqs result_eqs Let_def split: if_splits prod.splits sum.splits io_error.splits)
  then show "opt_in" "\<exists>pub. fresh = Some (k, pub)" by blast+
  assume ne: "public_key_path path \<noteq> path"
  from w obtain pub h1 h2 u where
      1: "write_private_key_file path (as_bytes (b64_encode C k @ [CHR 0x0A])) h1 = (Inr (), h2)"
    and 2: "io_write (public_key_path path) (as_bytes (b64_encode C pub @ [CHR 0x0A])) h2 = (Inr u, h')"
    by blast
  have "content h2 path = Some (as_bytes (b64_encode C k @ [CHR 0x0A]))"
    using 1 by (auto simp: write_private_key_file_def comp_eqs dest: io_write_all_Inr)
  then show "content h' path = Some (as_bytes (b64_encode C k @ [CHR 0x0A]))"
    using keepsD [OF keeps_io_write _ 2] ne by metis
qed

theorem identity_fails_closed_witness:
  "\<not> is_ok (fst (load_or_generate_static_key toy_crypto False (Some ([1], [2])) [''server.key''] demo_host))"
proof -
  obtain r h' where l: "load_or_generate_static_key toy_crypto False (Some ([1], [2])) [''server.key''] demo_host = (r, h')"
    by (cases "load_or_generate_static_key toy_crypto False (Some ([1], [2])) [''server.key''] demo_host")
  from identity_fails_closed [OF l] l demo_host_ok show ?thesis by simp
qed

lemma acquire_first: "\<exists>counts. acquire_session hm_empty key cap = (True, counts)"
proof -
  have "counts_live hm_empty []" by (simp add: counts_live_def hm_simps)
  from acquire_session_eq [OF this, of key cap] show ?thesis by (auto simp: word_less_nat_alt)
qed

lemma toy_session_served:
  assumes "hm_get (allowed_sources (conn_runtime st)) 7 = Some src" and "100000000000 < expiry_ns (src_entry src)"
    and "conn_sessions st = hm_empty" and "pt \<noteq> []" and "hd pt = PROTOCOL_GHOST_RELAY" and "length pt + 16 \<le> MAX_FRAME_LEN"
    and "conn_rx st = frame_wire [1] @ frame_wire [3] @ frame_wire (replicate 16 0 @ pt)"
  shows "conn_relay (snd (handle_connection (toy_snow (src_noise_public_key src)) dispatch demo_clocks [] (V4 7) st)) =
    snd (dispatch (ae_key_id (src_entry src)) pt (conn_relay st))"
proof -
  let ?key = "ae_key_id (src_entry src)" and ?pk = "src_noise_public_key src"
  have rf: "conn_read_frame st = (Inr f, st\<lparr>conn_rx := rest\<rparr>)"
    if "conn_rx st = frame_wire f @ rest" "length f \<le> MAX_FRAME_LEN" for st :: "'a conn" and f rest
    using read_frame_wire [OF that(2)] that(1) by (simp add: conn_read_frame_def)
  let ?st1 = "st\<lparr>conn_runtime := conn_runtime st\<lparr>rt_tick := rt_tick (conn_runtime st) + 1\<rparr>\<rparr>"
  have look: "conn_lookup demo_clocks 7 st = (Inr src, ?st1)"
    using assms(1,2) by (simp add: conn_lookup_def lookup_source_def read_mono_def demo_clocks_def
        monotonic_now_ns_def try_u64_def saturating_mul_def saturating_add_def not_le)
  obtain st2 where hs: "handshake (toy_snow ?pk) [] ?key ?st1 = (Inr ((), Some ?pk), st2)"
    and st2: "conn_sessions st2 = hm_empty" "conn_relay st2 = conn_relay st" "conn_rx st2 = frame_wire (replicate 16 0 @ pt)"
    by (simp add: handshake_def c_bind_def c_lift_def rf [of _ "[1]"] rf [of _ "[3]"] MAX_FRAME_LEN_def assms(3,7) toy_snow_def
        conn_write_frame_def write_frame_def)
  obtain counts where acq: "acquire_session hm_empty ?key (src_max_concurrent_sessions src) = (True, counts)"
    using acquire_first by blast
  let ?st3 = "st2\<lparr>conn_sessions := counts\<rparr>"
  have "read_encrypted_frame toy_cipher 0 ?st3 = (Inr pt, ?st3\<lparr>conn_rx := []\<rparr>)"
    using rf [of ?st3 "replicate 16 0 @ pt" "[]"] st2(3) assms(6)
    by (simp add: read_encrypted_frame_def c_bind_def c_lift_def toy_cipher_def)
  then have sv: "serve_session (toy_snow ?pk) dispatch src () ?st3 = handle_ghost_relay dispatch ?key pt toy_cipher (?st3\<lparr>conn_rx := []\<rparr>)"
    using assms(4,5) by (simp add: serve_session_def c_bind_def c_lift_def toy_snow_def PROTOCOL_SOCKS5_def PROTOCOL_GHOST_RELAY_def)
  obtain r st4 where g: "handle_ghost_relay dispatch ?key pt toy_cipher (?st3\<lparr>conn_rx := []\<rparr>) = (r, st4)" by fastforce
  have "conn_relay st4 = snd (dispatch ?key pt (conn_relay st))"
    using handle_ghost_relay_relay [OF g] st2(2) by simp
  then show ?thesis
    using look hs sv g acq st2(1)
    by (simp add: handle_connection_def c_bind_def c_lift_def verify_client_noise_static_def with_session_def)
qed

end
