(* ===== verification/Relay_Policy.thy ===== *)
theory Relay_Policy
  imports Keys Net_Addr Crypto_Env
begin

text \<open>
  What the relay is willing to fetch (\<open>ghostbro-server/src/relay.rs\<close>): URL and name validation, the
  address guard, the pinned HTTP client with its redirect policy, package specifications, registry
  resolution and digest verification. URL parsing, name resolution, HTTP and JSON parsing are the
  fields of a record; the n-th lookup and the n-th request may answer differently.
\<close>

section \<open>The network the relay sees\<close>

record url =
  url_text :: string
  url_scheme :: string
  url_host :: "string option"
  url_port :: "u16 option"

datatype json = JNull | JBool bool | JNum int | JStr string | JArr "json list" | JObj "(string \<times> json) list"

text \<open>A reply; \<open>hr_location\<close> is the parsed target when the reply is a redirect.\<close>

record http_reply =
  hr_status :: u16
  hr_content_type :: "string option"
  hr_content_length :: "u64 option"
  hr_location :: "url option"
  hr_body :: "bytes option"

record relay_net =
  url_parse :: "string \<Rightarrow> url option"
  url_join :: "url \<Rightarrow> string \<Rightarrow> url option"
  dns :: "nat \<Rightarrow> string \<Rightarrow> u16 \<Rightarrow> string + ip_addr list"
  http :: "nat \<Rightarrow> ip_addr list \<Rightarrow> url \<Rightarrow> string + http_reply"
  json_parse :: "bytes \<Rightarrow> json option"
  net_crypto :: crypto
  sha512 :: "bytes \<Rightarrow> bytes"

text \<open>The run of the network: how many lookups and requests there were, and to whom each request went.\<close>

record net_state =
  lookups :: nat
  contacts :: "(url \<times> ip_addr list) list"

type_synonym 'a net_comp = "(net_state, string, 'a) comp"

definition net_lookup :: "'x relay_net_scheme \<Rightarrow> string \<Rightarrow> u16 \<Rightarrow> ip_addr list net_comp" where
  "net_lookup E host port s = (dns E (lookups s) host port, s\<lparr>lookups := lookups s + 1\<rparr>)"

definition net_request :: "'x relay_net_scheme \<Rightarrow> ip_addr list \<Rightarrow> url \<Rightarrow> http_reply net_comp" where
  "net_request E addrs u s = (http E (length (contacts s)) addrs u, s\<lparr>contacts := contacts s @ [(u, addrs)]\<rparr>)"

section \<open>Printing addresses\<close>

definition show_v4 :: "u32 \<Rightarrow> string" where
  "show_v4 a = join ''.'' (map (\<lambda>i. nat_digits (v4_octet a i)) [0..<4])"

fun hex_digits :: "nat \<Rightarrow> string" where
  "hex_digits n = (if n < 16 then [digit_char n] else hex_digits (n div 16) @ [digit_char (n mod 16)])"

declare hex_digits.simps [simp del]

fun v6_segments :: "bytes \<Rightarrow> nat list" where
  "v6_segments (a # b # rest) = (unat a * 256 + unat b) # v6_segments rest"
| "v6_segments _ = []"

text \<open>The first longest run of zero segments: its start and length.\<close>

fun longest_zeros :: "nat \<Rightarrow> nat \<Rightarrow> nat \<Rightarrow> nat \<times> nat \<Rightarrow> nat list \<Rightarrow> nat \<times> nat" where
  "longest_zeros i start len best [] = best"
| "longest_zeros i start len best (x # xs) =
     (if x = 0
      then let start = (if len = 0 then i else start); len = len + 1;
               best = (if snd best < len then (start, len) else best)
           in longest_zeros (i + 1) start len best xs
      else longest_zeros (i + 1) 0 0 best xs)"

definition show_v6 :: "bytes \<Rightarrow> string" where
  "show_v6 bs =
     (if take 12 bs = replicate 10 0 @ [255, 255] then ''::ffff:'' @ show_v4 (from_be_bytes (drop 12 bs))
      else
        let segs = v6_segments bs;
            (start, len) = longest_zeros 0 0 0 (0, 0) segs;
            group = (\<lambda>xs. join '':'' (map hex_digits xs))
        in if 1 < len then group (take start segs) @ ''::'' @ group (drop (start + len) segs)
           else group segs)"

definition show_ip :: "ip_addr \<Rightarrow> string" where
  "show_ip ip = (case ip of V4 a \<Rightarrow> show_v4 a | V6 bs \<Rightarrow> show_v6 bs)"

section \<open>The address guard\<close>

definition is_private_ip :: "ip_addr \<Rightarrow> bool" where
  "is_private_ip ip =
     (case ip of V4 a \<Rightarrow> is_private a \<or> is_link_local a | V6 bs \<Rightarrow> is_unique_local bs \<or> is_unicast_link_local bs)"

definition disallowed :: "bool \<Rightarrow> ip_addr \<Rightarrow> bool" where
  "disallowed allow_loopback ip \<longleftrightarrow> is_unspecified ip \<or> is_multicast ip \<or>
     (\<not> allow_loopback \<and> is_loopback ip) \<or> (\<not> allow_loopback \<and> is_private_ip ip)"

fun guard_addrs :: "bool \<Rightarrow> ip_addr list \<Rightarrow> string + ip_addr list" where
  "guard_addrs allow_loopback [] = Inr []"
| "guard_addrs allow_loopback (ip # ips) =
     (if disallowed allow_loopback ip then Inl (''relay URL resolves to disallowed address '' @ show_ip ip)
      else and_then (guard_addrs allow_loopback ips) (\<lambda>validated. Inr (ip # validated)))"

definition resolve_guard :: "'x relay_net_scheme \<Rightarrow> bool \<Rightarrow> url \<Rightarrow> ip_addr list net_comp" where
  "resolve_guard E allow_loopback parsed =
     c_bind (c_lift (ok_or ''relay URL missing host'' (url_host parsed))) (\<lambda>host.
     c_bind (c_lift (ok_or ''relay URL missing port'' (url_port parsed))) (\<lambda>port.
     c_bind (net_lookup E host port) (\<lambda>addrs.
       c_lift (and_then (guard_addrs allow_loopback addrs) (\<lambda>validated.
         if validated = [] then Inl ''relay URL host did not resolve'' else Inr validated)))))"

definition validate_public_url :: "'x relay_net_scheme \<Rightarrow> string \<Rightarrow> bool \<Rightarrow> unit net_comp" where
  "validate_public_url E u allow_loopback =
     c_bind (c_lift (ok_or ''invalid relay URL'' (url_parse E u))) (\<lambda>parsed.
       if url_scheme parsed \<in> {''http'', ''https''}
       then c_bind (resolve_guard E allow_loopback parsed) (\<lambda>_. c_lift (Inr ()))
       else c_lift (Inl (''unsupported relay URL scheme '' @ url_scheme parsed)))"

definition validate_git_url :: "'x relay_net_scheme \<Rightarrow> string \<Rightarrow> bool \<Rightarrow> unit net_comp" where
  "validate_git_url E u allow_loopback =
     c_bind (c_lift (ok_or ''invalid git URL'' (url_parse E u))) (\<lambda>parsed.
       if url_scheme parsed \<in> {''http'', ''https'', ''git''}
       then c_bind (resolve_guard E allow_loopback parsed) (\<lambda>_. c_lift (Inr ()))
       else c_lift (Inl (''unsupported git URL scheme '' @ url_scheme parsed)))"

section \<open>The pinned client\<close>

text \<open>
  A request-scoped client: the host it is pinned to with the validated addresses, and the redirect
  policy's setting. The redirect policy sees how many URLs were visited before.
\<close>

record http_client =
  hc_pin :: "(string \<times> ip_addr list) option"
  hc_allow_loopback :: bool

definition redirect_policy :: "'x relay_net_scheme \<Rightarrow> bool \<Rightarrow> nat \<Rightarrow> url \<Rightarrow> unit net_comp" where
  "redirect_policy E allow_loopback previous u =
     (if 5 \<le> previous then c_lift (Inl ''too many redirects'')
      else c_bind (resolve_guard E allow_loopback u) (\<lambda>_. c_lift (Inr ())))"

definition validate_and_pin :: "'x relay_net_scheme \<Rightarrow> string \<Rightarrow> bool \<Rightarrow> (http_client \<times> url) net_comp" where
  "validate_and_pin E u allow_loopback =
     c_bind (c_lift (ok_or ''invalid relay URL'' (url_parse E u))) (\<lambda>parsed.
       if url_scheme parsed \<in> {''http'', ''https''}
       then
         c_bind (resolve_guard E allow_loopback parsed) (\<lambda>addrs.
         c_bind (c_lift (ok_or ''relay URL missing host'' (url_host parsed))) (\<lambda>host.
           c_lift (Inr (\<lparr>hc_pin = Some (host, addrs), hc_allow_loopback = allow_loopback\<rparr>, parsed))))
       else c_lift (Inl (''unsupported relay URL scheme '' @ url_scheme parsed)))"

text \<open>
  \<open>send\<close> of the client: a pinned host uses the pinned addresses and every other host the
  resolver; a redirect is followed when the policy says so. \<open>visited\<close> counts the URLs so far.
\<close>

definition client_addrs :: "'x relay_net_scheme \<Rightarrow> http_client \<Rightarrow> url \<Rightarrow> ip_addr list net_comp" where
  "client_addrs E client u =
     c_bind (c_lift (ok_or ''no host'' (url_host u))) (\<lambda>host.
       case hc_pin client of
         Some (pinned, addrs) \<Rightarrow>
           if host = pinned then c_lift (Inr addrs)
           else c_bind (c_lift (ok_or ''no port'' (url_port u))) (net_lookup E host)
       | None \<Rightarrow> c_bind (c_lift (ok_or ''no port'' (url_port u))) (net_lookup E host))"

function client_send :: "'x relay_net_scheme \<Rightarrow> http_client \<Rightarrow> nat \<Rightarrow> url \<Rightarrow> net_state \<Rightarrow> (string + http_reply) \<times> net_state" where
  "client_send E client visited u s =
     (case c_bind (client_addrs E client u) (\<lambda>addrs. net_request E addrs u) s of
        (Inl e, s1) \<Rightarrow> (Inl e, s1)
      | (Inr reply, s1) \<Rightarrow>
          (case hr_location reply of
             None \<Rightarrow> (Inr reply, s1)
           | Some next \<Rightarrow>
               (case redirect_policy E (hc_allow_loopback client) visited next s1 of
                  (Inl e, s2) \<Rightarrow> (Inl e, s2)
                | (Inr _, s2) \<Rightarrow> client_send E client (visited + 1) next s2)))"
  by pat_completeness auto
termination
  by (relation "measure (\<lambda>(E, client, visited, u, s). 5 - visited)")
    (auto simp: redirect_policy_def split: if_splits)

declare client_send.simps [simp del]

definition http_get_bytes :: "'x relay_net_scheme \<Rightarrow> bool \<Rightarrow> string \<Rightarrow> nat \<Rightarrow> (u16 \<times> string option \<times> bytes) net_comp" where
  "http_get_bytes E allow_loopback u max_len =
     c_bind (validate_and_pin E u allow_loopback) (\<lambda>(client, parsed).
     c_bind (c_map_err (\<lambda>_. ''failed to fetch '' @ u) (client_send E client 1 parsed)) (\<lambda>response.
     c_bind (c_lift (case hr_content_length response of
               None \<Rightarrow> Inr ()
             | Some len \<Rightarrow>
                 ensure (unat len \<le> max_len)
                   (''response body advertises '' @ nat_digits (unat len) @ '' bytes, exceeds limit '' @ nat_digits max_len))) (\<lambda>_.
     c_bind (c_lift (ok_or ''failed to read relay body'' (hr_body response))) (\<lambda>body.
       c_lift (if max_len < length body
               then Inl (''response body '' @ nat_digits (length body) @ '' bytes exceeds limit '' @ nat_digits max_len)
               else Inr (hr_status response, hr_content_type response, body))))))"

section \<open>Registries\<close>

definition json_get :: "string \<Rightarrow> json \<Rightarrow> json option" where
  "json_get key v = (case v of JObj members \<Rightarrow> map_of members key | _ \<Rightarrow> None)"

definition as_str :: "json \<Rightarrow> string option" where
  "as_str v = (case v of JStr s \<Rightarrow> Some s | _ \<Rightarrow> None)"

definition as_array :: "json \<Rightarrow> json list option" where
  "as_array v = (case v of JArr xs \<Rightarrow> Some xs | _ \<Rightarrow> None)"

definition REGISTRY_HOSTS :: "string list" where
  "REGISTRY_HOSTS = [''pypi.org'', ''registry.npmjs.org'', ''crates.io'']"

definition assert_registry_host :: "'x relay_net_scheme \<Rightarrow> string \<Rightarrow> string + unit" where
  "assert_registry_host E u =
     and_then (ok_or ''invalid registry URL'' (url_parse E u)) (\<lambda>parsed.
     and_then (ok_or ''registry URL missing host'' (url_host parsed)) (\<lambda>host.
       if list_ex (\<lambda>allowed. eq_ignore_ascii_case host allowed) REGISTRY_HOSTS then Inr ()
       else Inl (''registry host '' @ host @ '' is not an allowed package registry'')))"

definition get_json :: "'x relay_net_scheme \<Rightarrow> bool \<Rightarrow> string \<Rightarrow> json net_comp" where
  "get_json E allow_loopback u =
     c_bind (c_lift (assert_registry_host E u)) (\<lambda>_.
     c_bind (validate_and_pin E u allow_loopback) (\<lambda>(client, parsed).
     c_bind (c_map_err (\<lambda>_. ''failed to query registry '' @ u) (client_send E client 1 parsed)) (\<lambda>response.
     c_bind (c_lift (ok_or ''failed to read registry body'' (hr_body response))) (\<lambda>bs.
       c_lift (if \<not> (200 \<le> hr_status response \<and> hr_status response < 300)
               then Inl (''registry '' @ u @ '' returned HTTP '' @ nat_digits (unat (hr_status response)))
               else ok_or (''failed to parse registry JSON '' @ u) (json_parse E bs))))))"

text \<open>The hosts a crate may be downloaded from.\<close>

definition crates_download_url :: "'x relay_net_scheme \<Rightarrow> string \<Rightarrow> string + string" where
  "crates_download_url E dl_path =
     and_then (ok_or ''invalid crates base URL'' (url_parse E ''https://crates.io/'')) (\<lambda>base.
     and_then (ok_or (''invalid crates dl_path '' @ dl_path) (url_join E base dl_path)) (\<lambda>joined.
     and_then (ok_or ''crates download URL missing host'' (url_host joined)) (\<lambda>host.
       if host \<notin> set [''crates.io'', ''static.crates.io'']
       then Inl (''crates dl_path resolved to unexpected host '' @ host)
       else Inr (url_text joined))))"

section \<open>Digests\<close>

datatype ExpectedDigest = NoDigest | Sha256 string | Sha512 bytes

definition hex_lower :: "bytes \<Rightarrow> string" where
  "hex_lower bs = concat (map hex_byte bs)"

definition verify_digest :: "'x relay_net_scheme \<Rightarrow> ExpectedDigest \<Rightarrow> bytes \<Rightarrow> string + unit" where
  "verify_digest E digest body =
     (case digest of
        NoDigest \<Rightarrow> Inl ''package download rejected: registry provided no usable digest''
      | Sha256 expected \<Rightarrow>
          let actual = hex_lower (sha256 (net_crypto E) body) in
          if eq_ignore_ascii_case actual expected then Inr ()
          else Inl (''package sha256 mismatch: expected '' @ expected @ '', got '' @ actual)
      | Sha512 expected \<Rightarrow>
          if sha512 E body = expected then Inr () else Inl ''package sha512 integrity mismatch'')"

definition parse_sri_sha512 :: "'x relay_net_scheme \<Rightarrow> string \<Rightarrow> bytes option" where
  "parse_sri_sha512 E integrity =
     (case filter (\<lambda>x. x \<noteq> None) (map (strip_prefix ''sha512-'') (split_whitespace integrity)) of
        Some encoded # _ \<Rightarrow>
          (case b64_decode (net_crypto E) encoded of
             None \<Rightarrow> None
           | Some decoded \<Rightarrow> if length decoded = 64 then Some decoded else None)
      | _ \<Rightarrow> None)"

section \<open>Package specifications\<close>

datatype Ecosystem = Pypi | Npm | Crates

record PackageSpec =
  ecosystem :: Ecosystem
  pkg_name :: string
  pkg_version :: "string option"

record ResolvedPackage =
  res_url :: string
  res_digest :: ExpectedDigest

definition validate_package_name :: "string \<Rightarrow> string + unit" where
  "validate_package_name name =
     (if name = [] \<or> 256 < length name then Inl ''invalid package name length''
      else if contains_str name ''..'' then Inl (''package name may not contain '' @ [CHR 0x27] @ ''..'' @ [CHR 0x27])
      else if \<not> list_all (\<lambda>c. is_ascii_alphanumeric c \<or> c \<in> set ''-_./@'') name
      then Inl ''package name contains disallowed characters''
      else Inr ())"

definition validate_package_version :: "string \<Rightarrow> string + unit" where
  "validate_package_version version =
     (if 128 < length version then Inl ''invalid package version length''
      else if \<not> list_all (\<lambda>c. is_ascii_alphanumeric c \<or> c \<in> set ''-_.+'') version
      then Inl ''package version contains disallowed characters''
      else Inr ())"

definition non_empty :: "string \<Rightarrow> string option" where
  "non_empty v = (let trimmed = trim v in if trimmed \<noteq> [] then Some trimmed else None)"

definition parse_ecosystem :: "string \<Rightarrow> string + Ecosystem" where
  "parse_ecosystem eco =
     (let e = to_ascii_lowercase eco in
      if e = ''pypi'' \<or> e = ''pip'' then Inr Pypi
      else if e = ''npm'' then Inr Npm
      else if e = ''crates'' \<or> e = ''cargo'' then Inr Crates
      else Inl (''unsupported package ecosystem '' @ e))"

definition PackageSpec_parse :: "string \<Rightarrow> string \<Rightarrow> string \<Rightarrow> string + PackageSpec" where
  "PackageSpec_parse eco name version =
     and_then (parse_ecosystem eco) (\<lambda>ecosys.
     and_then (validate_package_name name) (\<lambda>_.
     and_then (case non_empty version of None \<Rightarrow> Inr () | Some v \<Rightarrow> validate_package_version v) (\<lambda>_.
       if ecosys = Crates \<and> non_empty version = None then Inl ''crates packages require an explicit version''
       else Inr \<lparr>ecosystem = ecosys, pkg_name = name, pkg_version = non_empty version\<rparr>)))"

definition PackageSpec_encode :: "PackageSpec \<Rightarrow> string" where
  "PackageSpec_encode spec =
     (let eco = (case ecosystem spec of Pypi \<Rightarrow> ''pypi'' | Npm \<Rightarrow> ''npm'' | Crates \<Rightarrow> ''crates'') in
      case pkg_version spec of
        Some version \<Rightarrow> eco @ '':'' @ pkg_name spec @ ''@'' @ version
      | None \<Rightarrow> eco @ '':'' @ pkg_name spec)"

definition PackageSpec_decode :: "string \<Rightarrow> string + PackageSpec" where
  "PackageSpec_decode encoded =
     and_then (ok_or ''malformed package spec, missing ecosystem'' (split_once CHR '':'' encoded)) (\<lambda>(eco, rest).
       let (name, version) =
         (case rsplit_once CHR ''@'' rest of
            Some (name, version) \<Rightarrow> if name \<noteq> [] then (name, version) else (rest, [])
          | None \<Rightarrow> (rest, []))
       in PackageSpec_parse eco name version)"

section \<open>Resolution\<close>

definition resolve_pypi :: "'x relay_net_scheme \<Rightarrow> bool \<Rightarrow> PackageSpec \<Rightarrow> ResolvedPackage net_comp" where
  "resolve_pypi E allow_loopback spec =
     (let u = (case pkg_version spec of
                 Some version \<Rightarrow> ''https://pypi.org/pypi/'' @ pkg_name spec @ ''/'' @ version @ ''/json''
               | None \<Rightarrow> ''https://pypi.org/pypi/'' @ pkg_name spec @ ''/json'')
      in c_bind (get_json E allow_loopback u) (\<lambda>j. c_lift (
           and_then (ok_or ''pypi response missing urls array'' (Option.bind (json_get ''urls'' j) as_array)) (\<lambda>urls.
           and_then (ok_or ''pypi package has no downloadable artifacts''
             (case find (\<lambda>entry. Option.bind (json_get ''packagetype'' entry) as_str = Some ''bdist_wheel'') urls of
                Some entry \<Rightarrow> Some entry
              | None \<Rightarrow> (case urls of [] \<Rightarrow> None | x # _ \<Rightarrow> Some x))) (\<lambda>chosen.
           and_then (ok_or ''pypi artifact missing url'' (Option.bind (json_get ''url'' chosen) as_str)) (\<lambda>download.
             Inr \<lparr>res_url = download,
                  res_digest = (case Option.bind (Option.bind (json_get ''digests'' chosen) (json_get ''sha256'')) as_str of
                                  Some v \<Rightarrow> Sha256 v | None \<Rightarrow> NoDigest)\<rparr>))))))"

definition resolve_npm :: "'x relay_net_scheme \<Rightarrow> bool \<Rightarrow> PackageSpec \<Rightarrow> ResolvedPackage net_comp" where
  "resolve_npm E allow_loopback spec =
     c_bind (get_json E allow_loopback (''https://registry.npmjs.org/'' @ pkg_name spec)) (\<lambda>j. c_lift (
       and_then (case pkg_version spec of
           Some version \<Rightarrow> Inr version
         | None \<Rightarrow> ok_or ''npm package missing dist-tags.latest''
             (Option.bind (Option.bind (json_get ''dist-tags'' j) (json_get ''latest'')) as_str)) (\<lambda>version.
       and_then (ok_or (''npm version '' @ version @ '' not found'')
           (Option.bind (Option.bind (json_get ''versions'' j) (json_get version)) (json_get ''dist''))) (\<lambda>dist.
       and_then (ok_or ''npm dist missing tarball'' (Option.bind (json_get ''tarball'' dist) as_str)) (\<lambda>tarball.
         Inr \<lparr>res_url = tarball,
              res_digest = (case Option.bind (Option.bind (json_get ''integrity'' dist) as_str) (parse_sri_sha512 E) of
                              Some d \<Rightarrow> Sha512 d | None \<Rightarrow> NoDigest)\<rparr>)))))"

definition resolve_crates :: "'x relay_net_scheme \<Rightarrow> bool \<Rightarrow> PackageSpec \<Rightarrow> ResolvedPackage net_comp" where
  "resolve_crates E allow_loopback spec =
     c_bind (c_lift (ok_or ''crates packages require a version'' (pkg_version spec))) (\<lambda>version.
     c_bind (get_json E allow_loopback (''https://crates.io/api/v1/crates/'' @ pkg_name spec @ ''/'' @ version)) (\<lambda>j. c_lift (
       and_then (ok_or ''crates response missing version object'' (json_get ''version'' j)) (\<lambda>version_obj.
       and_then (ok_or ''crates version missing dl_path'' (Option.bind (json_get ''dl_path'' version_obj) as_str)) (\<lambda>dl_path.
       and_then (crates_download_url E dl_path) (\<lambda>u.
         Inr \<lparr>res_url = u,
              res_digest = (case Option.bind (json_get ''checksum'' version_obj) as_str of
                              Some v \<Rightarrow> Sha256 v | None \<Rightarrow> NoDigest)\<rparr>))))))"

definition resolve_package :: "'x relay_net_scheme \<Rightarrow> bool \<Rightarrow> PackageSpec \<Rightarrow> ResolvedPackage net_comp" where
  "resolve_package E allow_loopback spec =
     (case ecosystem spec of
        Pypi \<Rightarrow> resolve_pypi E allow_loopback spec
      | Npm \<Rightarrow> resolve_npm E allow_loopback spec
      | Crates \<Rightarrow> resolve_crates E allow_loopback spec)"

section \<open>Fetching one package\<close>

record JobOutcome =
  out_body :: bytes
  out_http_status :: "u16 option"
  out_content_type :: "string option"

definition run_web_fetch :: "'x relay_net_scheme \<Rightarrow> bool \<Rightarrow> nat \<Rightarrow> string \<Rightarrow> JobOutcome net_comp" where
  "run_web_fetch E allow_loopback max_object_len source =
     c_bind (validate_public_url E source allow_loopback) (\<lambda>_.
     c_bind (http_get_bytes E allow_loopback source max_object_len) (\<lambda>(status, content_type, body).
       c_lift (Inr \<lparr>out_body = body, out_http_status = Some status, out_content_type = content_type\<rparr>)))"

definition run_package :: "'x relay_net_scheme \<Rightarrow> bool \<Rightarrow> nat \<Rightarrow> string \<Rightarrow> JobOutcome net_comp" where
  "run_package E allow_loopback max_object_len source =
     c_bind (c_lift (PackageSpec_decode source)) (\<lambda>spec.
     c_bind (resolve_package E allow_loopback spec) (\<lambda>resolved.
     c_bind (http_get_bytes E allow_loopback (res_url resolved) max_object_len) (\<lambda>(status, content_type, body).
       if 400 \<le> status then c_lift (Inl (''package download returned HTTP '' @ nat_digits (unat status)))
       else c_bind (c_lift (verify_digest E (res_digest resolved) body)) (\<lambda>_.
         c_lift (Inr \<lparr>out_body = body, out_http_status = Some status, out_content_type = content_type\<rparr>)))))"

section \<open>Facts about the guard\<close>

lemma guard_addrs_Inr: "guard_addrs b ips = Inr v \<longleftrightarrow> v = ips \<and> (\<forall>ip \<in> set ips. \<not> disallowed b ip)"
  by (induction ips arbitrary: v) (auto simp: result_eqs)

lemma net_lookup_contacts: "net_lookup E h p s = (r, s') \<Longrightarrow> contacts s' = contacts s"
  by (auto simp: net_lookup_def)

lemma resolve_guard_contacts: "resolve_guard E b u s = (r, s') \<Longrightarrow> contacts s' = contacts s"
  by (auto simp: resolve_guard_def c_bind_def net_lookup_def split: prod.splits sum.splits)

lemma redirect_policy_contacts: "redirect_policy E b n u s = (r, s') \<Longrightarrow> contacts s' = contacts s"
  by (auto simp: redirect_policy_def c_bind_def dest!: resolve_guard_contacts split: if_splits prod.splits sum.splits)

lemma client_addrs_contacts: "client_addrs E c u s = (r, s') \<Longrightarrow> contacts s' = contacts s"
  by (auto simp: client_addrs_def c_bind_def net_lookup_def split: if_splits prod.splits sum.splits option.splits)

text \<open>A URL whose host the resolver maps to allowed addresses only, and to some.\<close>

definition guarded_url :: "'x relay_net_scheme \<Rightarrow> bool \<Rightarrow> nat \<Rightarrow> url \<Rightarrow> ip_addr list \<Rightarrow> bool" where
  "guarded_url E b n u ips \<longleftrightarrow> (\<exists>h p. url_host u = Some h \<and> url_port u = Some p \<and> dns E n h p = Inr ips) \<and>
     ips \<noteq> [] \<and> (\<forall>ip \<in> set ips. \<not> disallowed b ip)"

lemma resolve_guard_Inr: "resolve_guard E b u s = (Inr ips, s') \<Longrightarrow> guarded_url E b (lookups s) u ips"
  by (auto simp: resolve_guard_def comp_eqs result_eqs net_lookup_def guard_addrs_Inr guarded_url_def split: if_splits)

lemma redirect_policy_Inr: "redirect_policy E b n u s = (Inr x, s') \<Longrightarrow> n < 5 \<and> (\<exists>ips. guarded_url E b (lookups s) u ips)"
  by (auto simp: redirect_policy_def comp_eqs dest: resolve_guard_Inr split: if_splits)

lemma validate_and_pin_Inr:
  assumes "validate_and_pin E addr b s = (Inr (client, u), s')"
  shows "contacts s' = contacts s \<and> url_parse E addr = Some u \<and> url_scheme u \<in> {''http'', ''https''} \<and>
    (\<exists>h ips. url_host u = Some h \<and> client = \<lparr>hc_pin = Some (h, ips), hc_allow_loopback = b\<rparr> \<and>
       guarded_url E b (lookups s) u ips)"
proof -
  obtain h ips where g: "resolve_guard E b u s = (Inr ips, s')" and "url_host u = Some h"
    "client = \<lparr>hc_pin = Some (h, ips), hc_allow_loopback = b\<rparr>" "url_parse E addr = Some u" "url_scheme u \<in> {''http'', ''https''}"
    using assms by (auto simp: validate_and_pin_def comp_eqs result_eqs split: if_splits)
  then show ?thesis
    using resolve_guard_contacts [OF g] resolve_guard_Inr [OF g] by blast
qed

text \<open>One hop, then the rest.\<close>

lemma client_send_cases:
  assumes "client_send E client n u s = (r, s')"
  obtains (unsent) "contacts s' = contacts s"
  | (last) addrs s0 where "client_addrs E client u s = (Inr addrs, s0)" "contacts s' = contacts s @ [(u, addrs)]"
  | (hop) addrs u' ips and s0 s1 s2 :: net_state where "client_addrs E client u s = (Inr addrs, s0)"
      "contacts s1 = contacts s @ [(u, addrs)]" "n < 5" "guarded_url E (hc_allow_loopback client) (lookups s1) u' ips"
      "contacts s2 = contacts s1" "client_send E client (n + 1) u' s2 = (r, s')"
proof -
  obtain ra s0 where a: "client_addrs E client u s = (ra, s0)" by (cases "client_addrs E client u s")
  note c0 = client_addrs_contacts [OF a]
  show ?thesis
  proof (cases ra)
    case (Inl e)
    then show ?thesis using assms a c0 unsent by (simp add: client_send.simps [of E client n] c_bind_def)
  next
    case (Inr addrs)
    let ?s1 = "s0\<lparr>contacts := contacts s0 @ [(u, addrs)]\<rparr>"
    show ?thesis
    proof (cases "\<exists>reply u'. http E (length (contacts s0)) addrs u = Inr reply \<and> hr_location reply = Some u' \<and>
        (\<exists>x s2. redirect_policy E (hc_allow_loopback client) n u' ?s1 = (Inr x, s2))")
      case True
      then obtain reply u' x s2 where "http E (length (contacts s0)) addrs u = Inr reply" "hr_location reply = Some u'"
        and p: "redirect_policy E (hc_allow_loopback client) n u' ?s1 = (Inr x, s2)" by blast
      then have "client_send E client (n + 1) u' s2 = (r, s')"
        using assms a Inr by (simp add: client_send.simps [of E client n] c_bind_def net_request_def)
      moreover obtain ips where "n < 5" "guarded_url E (hc_allow_loopback client) (lookups ?s1) u' ips"
        using redirect_policy_Inr [OF p] by blast
      ultimately show ?thesis
        using hop [of addrs s0 ?s1 u' ips s2] a Inr c0 redirect_policy_contacts [OF p] by simp
    next
      case False
      then have "contacts s' = contacts s @ [(u, addrs)]"
        using assms a Inr c0
        by (auto simp: client_send.simps [of E client n] c_bind_def net_request_def dest!: redirect_policy_contacts
            split: sum.splits option.splits prod.splits)
      then show ?thesis using last a Inr by blast
    qed
  qed
qed

lemma client_send_requests:
  "client_send E client n u s = (r, s') \<Longrightarrow> length (contacts s') \<le> length (contacts s) + Suc (5 - n)"
proof (induction "5 - n" arbitrary: n u s rule: less_induct)
  case less
  from less.prems show ?case
  proof (cases rule: client_send_cases)
    case (hop addrs u' ips s0 s1 s2)
    then have "length (contacts s') \<le> length (contacts s2) + Suc (5 - (n + 1))"
      using less.hyps [of "n + 1" u' s2] by simp
    then show ?thesis using hop by simp
  qed auto
qed

lemma client_send_first:
  assumes "client_send E client n u s = (r, s')" and "url_host u = Some h" and "hc_pin client = Some (h, ips)"
  shows "contacts s' = contacts s \<or> (\<exists>new. contacts s' = contacts s @ (u, ips) # new)"
proof -
  have mono: "client_send E client m v t = (q, t') \<Longrightarrow> \<exists>new. contacts t' = contacts t @ new" for m v t q t'
  proof (induction "5 - m" arbitrary: m v t rule: less_induct)
    case less
    from less.prems show ?case
    proof (cases rule: client_send_cases)
      case (hop addrs u' ips s0 s1 s2)
      then show ?thesis using less.hyps [of "m + 1" u' s2] by fastforce
    qed auto
  qed
  have a: "client_addrs E client u s = (Inr ips, s)"
    using assms(2,3) by (simp add: client_addrs_def c_bind_def)
  from assms(1) show ?thesis
  proof (cases rule: client_send_cases)
    case (hop addrs u' ips' s0 s1 s2)
    then show ?thesis using a mono [OF hop(6)] by auto
  qed (use a in auto)
qed

lemma client_send_stable:
  assumes "\<And>m k. dns E m = dns E k"
  shows "client_send E client n u s = (r, s') \<Longrightarrow> guarded_url E b 0 u ips \<Longrightarrow>
    hc_pin client = Some (h, pins) \<Longrightarrow> (\<forall>ip \<in> set pins. \<not> disallowed b ip) \<Longrightarrow> hc_allow_loopback client = b \<Longrightarrow>
    (v, as) \<in> set (contacts s') \<Longrightarrow> (v, as) \<in> set (contacts s) \<or> (\<forall>ip \<in> set as. \<not> disallowed b ip)"
proof (induction "5 - n" arbitrary: n u s ips rule: less_induct)
  case less
  have d: "dns E m = dns E 0" for m by (rule assms)
  have addrs: "\<forall>ip \<in> set as. \<not> disallowed b ip" if "client_addrs E client u s = (Inr as, s0)" for as s0
    using that less.prems(2-4) d [of "lookups s"]
    by (auto simp: client_addrs_def guarded_url_def net_lookup_def comp_eqs result_eqs split: if_splits)
  from less.prems(1) show ?case
  proof (cases rule: client_send_cases)
    case (hop addrs u' ips' s0 s1 s2)
    have "guarded_url E b 0 u' ips'" using hop(4) d [of "lookups s1"] less.prems(5) by (simp add: guarded_url_def)
    moreover have "5 - (n + 1) < 5 - n" using hop(3) by simp
    ultimately have "(v, as) \<in> set (contacts s2) \<or> (\<forall>ip \<in> set as. \<not> disallowed b ip)"
      using less.hyps hop(6) less.prems(3-6) by blast
    then show ?thesis
      using addrs [OF hop(1)] hop(2,5) by auto
  qed (use addrs less.prems(6) in auto)
qed

section \<open>Properties\<close>

text \<open>
  C9. The relay's SSRF guard on a fetch: whatever the resolver and the servers answer, a fetch makes
  at most five requests, the first goes only to addresses that passed the guard (the client is
  pinned to them), and when the resolver's answers do not change during the fetch no request of the
  redirect chain goes to a disallowed address either.
\<close>

theorem fetch_guarded:
  assumes "http_get_bytes E b addr max_len s = (r, s')" and "contacts s = []"
  shows "length (contacts s') \<le> 5 \<and>
    (\<forall>u ips rest. contacts s' = (u, ips) # rest \<longrightarrow> ips \<noteq> [] \<and> (\<forall>ip \<in> set ips. \<not> disallowed b ip)) \<and>
    ((\<forall>m k. dns E m = dns E k) \<longrightarrow> (\<forall>(u, ips) \<in> set (contacts s'). \<forall>ip \<in> set ips. \<not> disallowed b ip))"
proof -
  obtain rp s1 where p: "validate_and_pin E addr b s = (rp, s1)" by (cases "validate_and_pin E addr b s")
  show ?thesis
  proof (cases rp)
    case (Inl e)
    have "contacts s1 = []"
      using p assms(2) by (auto simp: validate_and_pin_def c_bind_def dest!: resolve_guard_contacts
          split: if_splits prod.splits sum.splits)
    then show ?thesis
      using assms(1) p Inl by (simp add: http_get_bytes_def c_bind_def)
  next
    case (Inr cu)
    obtain client u where cu: "cu = (client, u)" by (cases cu)
    obtain h ips where v: "contacts s1 = []" "url_host u = Some h" "client = \<lparr>hc_pin = Some (h, ips), hc_allow_loopback = b\<rparr>"
        "guarded_url E b (lookups s) u ips"
      using validate_and_pin_Inr [of E addr b s client u s1] p Inr cu assms(2) by auto
    obtain rs s2 where send: "client_send E client 1 u s1 = (rs, s2)" by (cases "client_send E client 1 u s1")
    have s2: "s' = s2"
      using assms(1) p Inr cu send by (cases rs) (auto simp: http_get_bytes_def c_bind_def c_map_err_def
          split: prod.splits sum.splits)
    have n: "length (contacts s2) \<le> 5" using client_send_requests [OF send] v(1) by simp
    have first: "contacts s2 = [] \<or> (\<exists>new. contacts s2 = (u, ips) # new)"
      using client_send_first [OF send v(2)] v(1,3) by simp
    have g: "ips \<noteq> [] \<and> (\<forall>ip \<in> set ips. \<not> disallowed b ip)" using v(4) by (simp add: guarded_url_def)
    have stable: "\<not> disallowed b ip"
      if eq: "\<forall>m k. dns E m = dns E k" and mem: "(w, as) \<in> set (contacts s2)" "ip \<in> set as" for w as ip
    proof -
      have "guarded_url E b 0 u ips" using v(4) eq by (metis guarded_url_def)
      from client_send_stable [OF _ send this _ _ _ mem(1), of h ips] eq g v(1,3) mem(2) show ?thesis by auto
    qed
    from n first g stable s2 show ?thesis by auto
  qed
qed

definition page_url :: url where
  "page_url = \<lparr>url_text = ''http://a/'', url_scheme = ''http'', url_host = Some ''a'', url_port = Some 80\<rparr>"

definition hop_url :: url where
  "hop_url = \<lparr>url_text = ''http://b/'', url_scheme = ''http'', url_host = Some ''b'', url_port = Some 80\<rparr>"

definition page :: "url option \<Rightarrow> http_reply" where
  "page loc = \<lparr>hr_status = 200, hr_content_type = None, hr_content_length = None, hr_location = loc, hr_body = Some [1]\<rparr>"

text \<open>A web where \<open>a\<close> redirects to \<open>b\<close>, and \<open>b\<close> resolves to the given addresses, lookup by lookup.\<close>

definition demo_net :: "(nat \<Rightarrow> ip_addr) \<Rightarrow> relay_net" where
  "demo_net b_addr = \<lparr>url_parse = (\<lambda>t. Some page_url), url_join = (\<lambda>_ _. None),
     dns = (\<lambda>n h p. Inr [if h = ''a'' then V4 0x08080808 else b_addr n]),
     http = (\<lambda>n as u. Inr (page (if url_host u = Some ''a'' then Some hop_url else None))),
     json_parse = (\<lambda>_. None), net_crypto = toy_crypto, sha512 = (\<lambda>m. m)\<rparr>"

lemma demo_addresses:
  "\<not> disallowed False (V4 0x08080808)" "\<not> disallowed False (V4 0x01010101)"
  "disallowed False (V4 0xA9FEA9FE)" "disallowed False (V4 0x7F000001)"
  by (simp_all add: disallowed_def is_unspecified_def is_multicast_def is_loopback_def is_private_ip_def
      is_private_def is_link_local_def v4_octet_def)

lemma demo_fetch:
  assumes "\<not> disallowed False (f 1)"
  shows "http_get_bytes (demo_net f) False ''http://a/'' 10 \<lparr>lookups = 0, contacts = []\<rparr> =
    (Inr (200, None, [1]), \<lparr>lookups = 3, contacts = [(page_url, [V4 0x08080808]), (hop_url, [f 2])]\<rparr>)"
    using assms demo_addresses(1)
    by (simp add: http_get_bytes_def validate_and_pin_def resolve_guard_def net_lookup_def net_request_def
        client_send.simps client_addrs_def redirect_policy_def c_bind_def c_map_err_def demo_net_def page_url_def
        hop_url_def page_def numeral_2_eq_2)

theorem fetch_guarded_witness:
  "fst (http_get_bytes (demo_net (\<lambda>_. V4 0x01010101)) False ''http://a/'' 10 \<lparr>lookups = 0, contacts = []\<rparr>) = Inr (200, None, [1]) \<and>
   \<not> disallowed False (V4 0x01010101)"
proof -
  note f = demo_fetch [of "\<lambda>_. V4 0x01010101", OF demo_addresses(2)]
  from fetch_guarded [OF f] f show ?thesis by (auto simp: demo_net_def)
qed

text \<open>
  The guard is not closed against rebinding on a redirect: only the first host is pinned, so a
  redirect target that resolves to a public address for the policy and to the cloud metadata
  address 169.254.169.254 at the connection is contacted there.
\<close>

theorem redirect_rebinds:
  "\<exists>s'. http_get_bytes (demo_net (\<lambda>n. if n = 1 then V4 0x01010101 else V4 0xA9FEA9FE)) False ''http://a/'' 10
      \<lparr>lookups = 0, contacts = []\<rparr> = (Inr (200, None, [1]), s') \<and>
     (hop_url, [V4 0xA9FEA9FE]) \<in> set (contacts s') \<and> disallowed False (V4 0xA9FEA9FE)"
  using demo_fetch [of "\<lambda>n. if n = 1 then V4 0x01010101 else V4 0xA9FEA9FE"] demo_addresses by simp

text \<open>
  IPv4-mapped IPv6 addresses pass the guard, whatever IPv4 address they carry: the guard
  classifies the IPv6 form only.
\<close>

theorem mapped_address_passes:
  "guard_addrs False [v4_mapped a] = Inr [v4_mapped a] \<and> disallowed False (V4 0x7F000001)"
proof -
  obtain bs where bs: "v4_mapped a = V6 bs" "hd bs = 0" "bs \<noteq> []" "bs ! 10 = 255"
    by (simp add: v4_mapped_def nth_append hd_append)
  then have "\<not> disallowed False (v4_mapped a)"
    by (auto simp: disallowed_def is_unspecified_def is_multicast_def is_loopback_def is_private_ip_def
        is_unique_local_def is_unicast_link_local_def nth_append)
  then show ?thesis using demo_addresses by simp
qed

section \<open>Package specifications and digests\<close>

lemma alnum_bounds: "is_ascii_alphanumeric c \<Longrightarrow> (of_char c :: nat) < 128 \<and> \<not> ws_scalar (of_char c)"
  by (auto simp: is_ascii_alphanumeric_def is_ascii_digit_def is_ascii_lower_def is_ascii_upper_def ws_scalar_def)

lemma version_chars:
  assumes "validate_package_version v = Inr u"
  shows "trim v = v" and "CHR ''@'' \<notin> set v"
proof -
  have cs: "\<forall>c \<in> set v. is_ascii_alphanumeric c \<or> c \<in> set ''-_.+''"
    using assms by (auto simp: validate_package_version_def list_all_iff split: if_splits)
  have "(of_char c :: nat) < 128 \<and> \<not> ws_scalar (of_char c)" if "c \<in> set ''-_.+''" for c
    using that by (auto simp: ws_scalar_def)
  then show "trim v = v" using cs alnum_bounds by (intro trim_id) blast
  show "CHR ''@'' \<notin> set v"
    using cs by (auto simp: is_ascii_alphanumeric_def is_ascii_digit_def is_ascii_lower_def is_ascii_upper_def)
qed

lemma trim_trim_non_empty: "non_empty v = Some w \<Longrightarrow> w \<noteq> []"
  by (auto simp: non_empty_def Let_def split: if_splits)

lemma parse_ecosystem_name:
  "parse_ecosystem (case e of Pypi \<Rightarrow> ''pypi'' | Npm \<Rightarrow> ''npm'' | Crates \<Rightarrow> ''crates'') = Inr e"
proof -
  have "parse_ecosystem ''pypi'' = Inr Pypi" "parse_ecosystem ''npm'' = Inr Npm" "parse_ecosystem ''crates'' = Inr Crates"
    by code_simp+
  then show ?thesis by (cases e) simp_all
qed

text \<open>
  Package specifications survive the job metadata: a specification accepted from a client is
  decoded from its encoding unchanged, provided it has a version or its name has no \<open>@\<close> after the
  first character.
\<close>

theorem package_spec_roundtrip:
  assumes "PackageSpec_parse eco name version = Inr spec"
    and "pkg_version spec \<noteq> None \<or> CHR ''@'' \<notin> set (tl name)"
  shows "PackageSpec_decode (PackageSpec_encode spec) = Inr spec"
proof -
  let ?eco = "case ecosystem spec of Pypi \<Rightarrow> ''pypi'' | Npm \<Rightarrow> ''npm'' | Crates \<Rightarrow> ''crates''"
  have name: "validate_package_name name = Inr ()" "name \<noteq> []" "pkg_name spec = name" "pkg_version spec = non_empty version"
    and ver: "\<And>v. non_empty version = Some v \<Longrightarrow> validate_package_version v = Inr ()"
    and cr: "ecosystem spec = Crates \<longrightarrow> non_empty version \<noteq> None"
    using assms(1) by (auto simp: PackageSpec_parse_def result_eqs validate_package_name_def split: if_splits option.splits)
  have colon: "CHR '':'' \<notin> set ?eco" by (cases "ecosystem spec") auto
  have eta: "spec = \<lparr>ecosystem = ecosystem spec, pkg_name = name, pkg_version = non_empty version\<rparr>"
    using name by (cases spec) simp
  show ?thesis
  proof (cases "non_empty version")
    case (Some v)
    note v = version_chars [OF ver [OF Some]] trim_trim_non_empty [OF Some]
    have ne: "non_empty v = Some v" using v by (simp add: non_empty_def)
    have "PackageSpec_encode spec = ?eco @ CHR '':'' # (name @ CHR ''@'' # v)"
      using Some name by (simp add: PackageSpec_encode_def)
    then have "PackageSpec_decode (PackageSpec_encode spec) = PackageSpec_parse ?eco name v"
      using name(2) v(2) by (simp add: PackageSpec_decode_def split_once_append [OF colon] rsplit_once_append)
    then show ?thesis
      using name ver [OF Some] cr eta Some ne
      by (simp add: PackageSpec_parse_def parse_ecosystem_name)
  next
    case None
    then have at: "CHR ''@'' \<notin> set (tl name)" using assms(2) name(4) by simp
    have "(case rsplit_once CHR ''@'' name of Some (n, v) \<Rightarrow> if n \<noteq> [] then (n, v) else (name, []) | None \<Rightarrow> (name, [])) = (name, [])"
    proof (cases "rsplit_once CHR ''@'' name")
      case (Some nv)
      obtain n v where nv: "nv = (n, v)" by (cases nv)
      have "n = []" using rsplit_once_Some [OF Some [unfolded nv]] at by (cases n) auto
      then show ?thesis using Some nv by simp
    qed simp
    moreover have "PackageSpec_encode spec = ?eco @ CHR '':'' # name"
      using None name by (simp add: PackageSpec_encode_def)
    ultimately have "PackageSpec_decode (PackageSpec_encode spec) = PackageSpec_parse ?eco name []"
      by (simp add: PackageSpec_decode_def split_once_append [OF colon])
    moreover have "non_empty [] = None" by (simp add: non_empty_def trim_def)
    ultimately show ?thesis
      using name cr eta None by (simp add: PackageSpec_parse_def parse_ecosystem_name)
  qed
qed

lemmas package_eval = PackageSpec_parse_def parse_ecosystem_def to_ascii_lowercase_def to_ascii_lower_def
  validate_package_name_def validate_package_version_def non_empty_def contains_str_def is_ascii_alphanumeric_def
  is_ascii_digit_def is_ascii_lower_def is_ascii_upper_def trim_def utf8_width_def is_whitespace_def utf8_decode_def
  ws_scalar_def Let_def

theorem package_spec_roundtrip_witness:
  "PackageSpec_decode ''pypi:requests@2.31.0'' = PackageSpec_parse ''pip'' ''requests'' '' 2.31.0 ''"
proof -
  have p: "PackageSpec_parse ''pip'' ''requests'' '' 2.31.0 '' =
      Inr \<lparr>ecosystem = Pypi, pkg_name = ''requests'', pkg_version = Some ''2.31.0''\<rparr>"
    by (simp add: package_eval)
  from package_spec_roundtrip [OF p] p show ?thesis by (simp add: PackageSpec_encode_def)
qed

text \<open>
  The encoding is not a round trip without a version: the accepted specification of the name
  \<open>a@b\<close> is stored as what decodes to version \<open>b\<close> of \<open>a\<close>.
\<close>

theorem package_spec_confusion:
  "\<exists>spec spec'. PackageSpec_parse ''npm'' ''a@b'' '''' = Inr spec \<and>
     PackageSpec_decode (PackageSpec_encode spec) = Inr spec' \<and>
     pkg_name spec' = ''a'' \<and> pkg_version spec' = Some ''b'' \<and> pkg_version spec = None"
proof -
  have "PackageSpec_parse ''npm'' ''a@b'' '''' = Inr \<lparr>ecosystem = Npm, pkg_name = ''a@b'', pkg_version = None\<rparr>"
    "PackageSpec_decode ''npm:a@b'' = Inr \<lparr>ecosystem = Npm, pkg_name = ''a'', pkg_version = Some ''b''\<rparr>"
    by (simp_all add: package_eval PackageSpec_decode_def split_once_def rsplit_once_def)
  then show ?thesis by (simp add: PackageSpec_encode_def)
qed

text \<open>
  C18. No unverified package: a package job that produces a result downloaded it from the address
  the registry gave, with a status below 400, at most the configured number of bytes, and its SHA-256
  or SHA-512 digest is the one the registry published; a registry without a usable digest fails the
  job.
\<close>

theorem package_verified:
  assumes "run_package E b max_len source s = (Inr out, s')"
  shows "length (out_body out) \<le> max_len \<and>
    (\<exists>spec resolved s1 s2 status ct. PackageSpec_decode source = Inr spec \<and>
       resolve_package E b spec s = (Inr resolved, s1) \<and>
       http_get_bytes E b (res_url resolved) max_len s1 = (Inr (status, ct, out_body out), s2) \<and> status < 400 \<and>
       (case res_digest resolved of
          NoDigest \<Rightarrow> False
        | Sha256 d \<Rightarrow> eq_ignore_ascii_case (hex_lower (sha256 (net_crypto E) (out_body out))) d
        | Sha512 d \<Rightarrow> sha512 E (out_body out) = d))"
proof -
  obtain spec resolved s1 s2 status ct where
      d: "PackageSpec_decode source = Inr spec" "resolve_package E b spec s = (Inr resolved, s1)"
    and g: "http_get_bytes E b (res_url resolved) max_len s1 = (Inr (status, ct, out_body out), s2)"
    and st: "\<not> 400 \<le> status" and v: "verify_digest E (res_digest resolved) (out_body out) = Inr ()"
    using assms by (auto simp: run_package_def comp_eqs split: if_splits)
  have "length (out_body out) \<le> max_len"
    using g by (auto simp: http_get_bytes_def comp_eqs result_eqs split: if_splits)
  moreover have "case res_digest resolved of
          NoDigest \<Rightarrow> False
        | Sha256 d \<Rightarrow> eq_ignore_ascii_case (hex_lower (sha256 (net_crypto E) (out_body out))) d
        | Sha512 d \<Rightarrow> sha512 E (out_body out) = d"
    using v by (cases "res_digest resolved") (auto simp: verify_digest_def Let_def split: if_splits)
  ultimately show ?thesis using d g st by (auto simp: not_le)
qed

definition demo_registry :: relay_net where
  "demo_registry = \<lparr>url_parse = (\<lambda>t. Some \<lparr>url_text = t, url_scheme = ''https'', url_host = Some ''pypi.org'', url_port = Some 443\<rparr>),
     url_join = (\<lambda>_ _. None), dns = (\<lambda>n h p. Inr [V4 0x08080808]), http = (\<lambda>n as u. Inr (page None)),
     json_parse = (\<lambda>_. Some (JObj [(''urls'', JArr [JObj [(''url'', JStr ''u''),
        (''digests'', JObj [(''sha256'', JStr (hex_lower (fit 32 [1])))])]])])),
     net_crypto = toy_crypto, sha512 = (\<lambda>m. m)\<rparr>"

lemma demo_registry_sel:
  "url_parse demo_registry t = Some \<lparr>url_text = t, url_scheme = ''https'', url_host = Some ''pypi.org'', url_port = Some 443\<rparr>"
  "dns demo_registry n h p = Inr [V4 0x08080808]" "http demo_registry n as u = Inr (page None)"
  "json_parse demo_registry bs = Some (JObj [(''urls'', JArr [JObj [(''url'', JStr ''u''),
        (''digests'', JObj [(''sha256'', JStr (hex_lower (fit 32 [1])))])]])])"
  "sha256 (net_crypto demo_registry) m = fit 32 m"
  by (simp_all add: demo_registry_def toy_crypto_def)

lemma demo_package:
  "\<exists>out s'. run_package demo_registry False 10 ''pypi:a'' \<lparr>lookups = 0, contacts = []\<rparr> = (Inr out, s')"
proof -
  have d: "PackageSpec_decode ''pypi:a'' = Inr \<lparr>ecosystem = Pypi, pkg_name = ''a'', pkg_version = None\<rparr>"
    by (simp add: package_eval PackageSpec_decode_def split_once_def rsplit_once_def)
  have "assert_registry_host demo_registry t = Inr ()" for t
    by (simp add: assert_registry_host_def demo_registry_def REGISTRY_HOSTS_def eq_ignore_ascii_case_def)
  then show ?thesis
    using demo_addresses(1)
    by (simp add: run_package_def c_bind_def d resolve_package_def resolve_pypi_def get_json_def validate_and_pin_def
        resolve_guard_def net_lookup_def net_request_def client_send.simps client_addrs_def c_map_err_def
        http_get_bytes_def verify_digest_def eq_ignore_ascii_case_def json_get_def as_str_def as_array_def Let_def
        demo_registry_sel page_def)
qed

theorem package_verified_witness:
  "\<exists>out s'. run_package demo_registry False 10 ''pypi:a'' \<lparr>lookups = 0, contacts = []\<rparr> = (Inr out, s') \<and>
     length (out_body out) \<le> 10"
  using demo_package package_verified by metis

end
