(* ===== verification/Relay_Wire.thy ===== *)
theory Relay_Wire
  imports Protocol Rust_Str
begin

text \<open>
  The relay's wire helpers (\<open>ghostbro-server/src/relay.rs\<close>): the cursor that reads a request and
  the builders of responses. Errors are the messages of the \<open>anyhow\<close> errors the code raises.
\<close>

section \<open>The request cursor\<close>

record RelayCursor =
  rc_bytes :: bytes
  rc_pos :: nat

type_synonym 'a cursor = "(RelayCursor, string, 'a) comp"

definition RelayCursor_new :: "bytes \<Rightarrow> RelayCursor" where
  "RelayCursor_new bs = \<lparr>rc_bytes = bs, rc_pos = 0\<rparr>"

definition read_exact :: "nat \<Rightarrow> bytes cursor" where
  "read_exact len c =
     (if length (rc_bytes c) < rc_pos c + len then (Inl ''truncated relay request'', c)
      else (Inr (subslice (rc_bytes c) (rc_pos c) (rc_pos c + len)), c\<lparr>rc_pos := rc_pos c + len\<rparr>))"

definition read_u16 :: "u16 cursor" where
  "read_u16 = c_bind (read_exact 2) (\<lambda>bs. c_lift (Inr (from_be_bytes [bs ! 0, bs ! 1])))"

definition read_u32 :: "u32 cursor" where
  "read_u32 = c_bind (read_exact 4) (\<lambda>bs. c_lift (Inr (from_be_bytes [bs ! 0, bs ! 1, bs ! 2, bs ! 3])))"

definition read_optional_u8 :: "u8 option cursor" where
  "read_optional_u8 c =
     (if length (rc_bytes c) \<le> rc_pos c then (Inr None, c)
      else (Inr (Some (rc_bytes c ! rc_pos c)), c\<lparr>rc_pos := rc_pos c + 1\<rparr>))"

definition read_string :: "nat \<Rightarrow> string cursor" where
  "read_string max_len =
     c_bind read_u16 (\<lambda>n.
       let len = unat n in
       if max_len < len
       then c_lift (Inl (''relay field length '' @ nat_digits len @ '' exceeds maximum '' @ nat_digits max_len))
       else c_bind (read_exact len) (\<lambda>bs.
              c_lift (ok_or ''relay field is not valid UTF-8'' (from_utf8 bs))))"

section \<open>Responses\<close>

definition relay_header :: "u8 \<Rightarrow> bytes" where
  "relay_header status = [PROTOCOL_GHOST_RELAY, GHOST_RELAY_VERSION, status]"

definition relay_bytes_response :: "u8 \<Rightarrow> bytes \<Rightarrow> bytes" where
  "relay_bytes_response status bs =
     (let len = (if length bs < 2 ^ 32 then word_of_nat (length bs) else - 1 :: u32)
      in relay_header status @ to_be_bytes32 len @ bs)"

definition relay_status_response :: "u8 \<Rightarrow> bytes \<Rightarrow> bytes" where
  "relay_status_response status message = relay_bytes_response status message"

section \<open>Facts\<close>

text \<open>What is left to read.\<close>

definition unread :: "RelayCursor \<Rightarrow> bytes" where
  "unread c = drop (rc_pos c) (rc_bytes c)"

definition cursor_ok :: "RelayCursor \<Rightarrow> bool" where
  "cursor_ok c \<longleftrightarrow> rc_pos c \<le> length (rc_bytes c)"

lemma unread_new [simp]: "unread (RelayCursor_new bs) = bs" "cursor_ok (RelayCursor_new bs)"
  by (simp_all add: unread_def RelayCursor_new_def cursor_ok_def)

text \<open>The reads as functions of the unread bytes; every client-side encoding is read through these.\<close>

lemma read_exact_unread:
  assumes "cursor_ok c"
  shows "length (unread c) < len \<Longrightarrow> read_exact len c = (Inl ''truncated relay request'', c)"
    and "len \<le> length (unread c) \<Longrightarrow> \<exists>c'. read_exact len c = (Inr (take len (unread c)), c') \<and>
           cursor_ok c' \<and> unread c' = drop len (unread c)"
  using assms by (auto simp: read_exact_def unread_def cursor_ok_def subslice_def add.commute)

lemma list_of_4: "length bs = 4 \<Longrightarrow> [bs ! 0, bs ! 1, bs ! 2, bs ! 3] = bs"
  by (simp add: list_eq_iff_nth_eq less_Suc_eq numeral_eq_Suc)

lemma list_of_2: "length bs = 2 \<Longrightarrow> [bs ! 0, bs ! 1] = bs"
  by (simp add: list_eq_iff_nth_eq less_Suc_eq numeral_eq_Suc)

lemma read_u16_unread:
  assumes "cursor_ok c" and "unread c = to_be_bytes16 w @ rest"
  shows "\<exists>c'. read_u16 c = (Inr w, c') \<and> cursor_ok c' \<and> unread c' = rest"
proof -
  have l: "length (to_be_bytes16 w) = 2" by simp
  obtain c' where "read_exact 2 c = (Inr (to_be_bytes16 w), c')" "cursor_ok c'" "unread c' = rest"
    using read_exact_unread(2) [OF assms(1), of 2] assms(2) l by auto
  then show ?thesis
    using list_of_2 [OF l] by (simp add: read_u16_def c_bind_def)
qed

lemma read_u32_unread:
  assumes "cursor_ok c" and "unread c = to_be_bytes32 w @ rest"
  shows "\<exists>c'. read_u32 c = (Inr w, c') \<and> cursor_ok c' \<and> unread c' = rest"
proof -
  have l: "length (to_be_bytes32 w) = 4" by simp
  obtain c' where "read_exact 4 c = (Inr (to_be_bytes32 w), c')" "cursor_ok c'" "unread c' = rest"
    using read_exact_unread(2) [OF assms(1), of 4] assms(2) l by auto
  then show ?thesis
    using list_of_4 [OF l] by (simp add: read_u32_def c_bind_def)
qed

lemma read_string_unread:
  assumes "cursor_ok c" and "unread c = to_be_bytes16 (word_of_nat (length s)) @ as_bytes s @ rest"
    and "length s \<le> max_len" and "length s < 2 ^ 16" and "valid_str s"
  shows "\<exists>c'. read_string max_len c = (Inr s, c') \<and> cursor_ok c' \<and> unread c' = rest"
proof -
  obtain c1 where r: "read_u16 c = (Inr (word_of_nat (length s)), c1)" and ok: "cursor_ok c1"
    and un: "unread c1 = as_bytes s @ rest"
    using read_u16_unread [OF assms(1,2)] by blast
  obtain c2 where e: "read_exact (length s) c1 = (Inr (as_bytes s), c2)" "cursor_ok c2" "unread c2 = rest"
    using read_exact_unread(2) [OF ok, of "length s"] un by auto
  have n: "unat (word_of_nat (length s) :: u16) = length s" using assms(4) by (simp add: unat_of_nat)
  show ?thesis
    using assms(3) n e from_utf8_as_bytes [OF assms(5)]
    by (simp add: read_string_def c_bind_def r Let_def del: unsigned_of_nat)
qed

lemma read_optional_u8_unread:
  assumes "cursor_ok c"
  shows "unread c = [] \<Longrightarrow> read_optional_u8 c = (Inr None, c)"
    and "unread c = b # rest \<Longrightarrow> \<exists>c'. read_optional_u8 c = (Inr (Some b), c') \<and> cursor_ok c' \<and> unread c' = rest"
proof -
  show "unread c = [] \<Longrightarrow> read_optional_u8 c = (Inr None, c)"
    by (simp add: read_optional_u8_def unread_def)
  assume u: "unread c = b # rest"
  have lt: "rc_pos c < length (rc_bytes c)"
  proof (rule ccontr)
    assume "\<not> rc_pos c < length (rc_bytes c)"
    then have "unread c = []" by (simp add: unread_def)
    then show False using u by simp
  qed
  moreover from this have "rc_bytes c ! rc_pos c = b" "drop (Suc (rc_pos c)) (rc_bytes c) = rest"
    using u Cons_nth_drop_Suc [OF lt] by (simp_all add: unread_def)
  ultimately show "\<exists>c'. read_optional_u8 c = (Inr (Some b), c') \<and> cursor_ok c' \<and> unread c' = rest"
    by (simp add: read_optional_u8_def unread_def cursor_ok_def)
qed

lemma relay_bytes_response_small:
  "length bs < 2 ^ 32 \<Longrightarrow>
   relay_bytes_response status bs = relay_header status @ to_be_bytes32 (word_of_nat (length bs)) @ bs"
  by (simp add: relay_bytes_response_def)

lemma length_relay_bytes_response [simp, len_simps]: "length (relay_bytes_response s bs) = length bs + 7"
  by (simp add: relay_bytes_response_def relay_header_def Let_def)

end
