(* ===== verification/Normalize.thy ===== *)
theory Normalize
  imports Rust_Str
begin

text \<open>
  \<open>ghostbro-server/src/relay/normalize.rs\<close>: the HTML-to-markdown normalizer. Strings are byte strings;
  every index the code slices at is the position of an ASCII character, so the byte positions here are
  the positions of the code.
\<close>

section \<open>Noise blocks\<close>

function strip_comments :: "string \<Rightarrow> string" where
  "strip_comments rest =
     (case find_str rest ''<!--'' of
        None \<Rightarrow> rest
      | Some start \<Rightarrow>
          take start rest @
          (case find_str (drop start rest) ''-->'' of
             Some e \<Rightarrow> strip_comments (drop (start + e + 3) rest)
           | None \<Rightarrow> []))"
  by pat_completeness auto
termination
proof (relation "measure length")
  fix rest start e assume "find_str rest ''<!--'' = Some start"
  then have "4 \<le> length rest" using find_str_bound [of rest "''<!--''" start] by simp
  then show "(drop (start + e + 3) rest, rest) \<in> measure length" by simp
qed simp

declare strip_comments.simps [simp del]

definition tag_boundary :: "char option \<Rightarrow> bool" where
  "tag_boundary after \<longleftrightarrow>
     (case after of None \<Rightarrow> True | Some c \<Rightarrow> c \<in> set [CHR ''>'', CHR '' '', CHR ''/'', CHR 0x09, CHR 0x0A, CHR 0x0D])"

text \<open>The loop at index \<open>idx\<close>, on what is left of the input.\<close>

function strip_element_from :: "string \<Rightarrow> string \<Rightarrow> string" where
  "strip_element_from tag rest =
     (let op = ''<'' @ tag; cl = ''</'' @ tag @ ''>''; lowered = to_ascii_lowercase rest in
      if rest = [] then []
      else
        case find_str lowered op of
          None \<Rightarrow> rest
        | Some open_at \<Rightarrow>
            let after = (if open_at + length op < length lowered then Some (lowered ! (open_at + length op)) else None) in
            if \<not> tag_boundary after
            then take (open_at + length op) rest @ strip_element_from tag (drop (open_at + length op) rest)
            else take open_at rest @
              (case find_str (drop open_at lowered) cl of
                 Some crel \<Rightarrow> strip_element_from tag (drop (open_at + crel + length cl) rest)
               | None \<Rightarrow> []))"
  by pat_completeness auto
termination
  by (relation "measure (\<lambda>(tag, rest). length rest)") auto

declare strip_element_from.simps [simp del]

definition strip_element :: "string \<Rightarrow> string \<Rightarrow> string" where
  "strip_element input tag = strip_element_from tag input"

definition strip_noise_blocks :: "string \<Rightarrow> string" where
  "strip_noise_blocks input =
     foldl strip_element (strip_comments input) [''script'', ''style'', ''head'', ''noscript'', ''svg'']"

section \<open>Entities\<close>

definition char_from_u32 :: "nat \<Rightarrow> string option" where
  "char_from_u32 n = (if n < 0xD800 \<or> (0xE000 \<le> n \<and> n < 0x110000) then Some (utf8_encode n) else None)"

definition decode_entity :: "string \<Rightarrow> string option" where
  "decode_entity entity =
     (if entity = ''amp'' then Some ''&''
      else if entity = ''lt'' then Some ''<''
      else if entity = ''gt'' then Some ''>''
      else if entity = ''quot'' then Some [CHR 0x22]
      else if entity = ''apos'' \<or> entity = ''#39'' then Some [CHR 0x27]
      else if entity = ''nbsp'' then Some '' ''
      else if entity = ''mdash'' then Some (utf8_encode 0x2014)
      else if entity = ''ndash'' then Some (utf8_encode 0x2013)
      else if entity = ''hellip'' then Some (utf8_encode 0x2026)
      else if entity = ''copy'' then Some (utf8_encode 0xA9)
      else
        let hex = (case strip_prefix ''#x'' entity of Some h \<Rightarrow> Some h | None \<Rightarrow> strip_prefix ''#X'' entity) in
        case (case hex of
                Some h \<Rightarrow> from_str_radix (2 ^ 32) 16 h
              | None \<Rightarrow> (case strip_prefix ''#'' entity of None \<Rightarrow> None | Some d \<Rightarrow> from_str_radix (2 ^ 32) 10 d)) of
          None \<Rightarrow> None
        | Some code \<Rightarrow> char_from_u32 code)"

function decode_loop :: "string \<Rightarrow> string" where
  "decode_loop rest =
     (case find_str rest ''&'' of
        None \<Rightarrow> rest
      | Some amp \<Rightarrow>
          let tail = drop amp rest in
          take amp rest @
          (case find_str tail '';'' of
             Some semi \<Rightarrow>
               if semi \<le> 10
               then (case decode_entity (subslice tail 1 semi) of
                       Some decoded \<Rightarrow> decoded
                     | None \<Rightarrow> take (semi + 1) tail) @ decode_loop (drop (semi + 1) tail)
               else ''&'' @ decode_loop (drop 1 tail)
           | None \<Rightarrow> ''&'' @ decode_loop (drop 1 tail)))"
  by pat_completeness auto
termination
proof (relation "measure length")
  fix rest amp tail semi assume "find_str rest ''&'' = Some amp" "tail = drop amp rest"
  then have "amp < length rest" using find_str_bound [of rest "''&''" amp] by simp
  then show "(drop (semi + 1) tail, rest) \<in> measure length" "(drop 1 tail, rest) \<in> measure length"
    using \<open>tail = drop amp rest\<close> by simp_all
qed (auto dest!: find_str_bound)

declare decode_loop.simps [simp del]

definition decode_entities :: "string \<Rightarrow> string" where
  "decode_entities input = (if CHR ''&'' \<notin> set input then input else decode_loop input)"

section \<open>Tags\<close>

definition heading_level :: "string \<Rightarrow> nat option" where
  "heading_level name =
     (case strip_prefix ''h'' name of
        None \<Rightarrow> None
      | Some level \<Rightarrow>
          if level = ''1'' then Some 1 else if level = ''2'' then Some 2 else if level = ''3'' then Some 3
          else if level = ''4'' then Some 4 else if level = ''5'' then Some 5 else if level = ''6'' then Some 6
          else None)"

definition tag_name :: "string \<Rightarrow> string \<times> bool" where
  "tag_name raw_tag =
     (let trimmed = trim raw_tag;
          (closing, rest) = (case strip_prefix ''/'' trimmed of Some rest \<Rightarrow> (True, rest) | None \<Rightarrow> (False, trimmed))
      in (to_ascii_lowercase (takeWhile is_ascii_alphanumeric rest), closing))"

definition until :: "(char \<Rightarrow> bool) \<Rightarrow> string \<Rightarrow> string" where
  "until p s = takeWhile (\<lambda>c. \<not> p c) s"

definition parse_attr_value :: "string \<Rightarrow> string" where
  "parse_attr_value region =
     (let region = trim_start region in
      case strip_prefix [CHR 0x22] region of
        Some rest \<Rightarrow> decode_entities (until (\<lambda>c. c = CHR 0x22) rest)
      | None \<Rightarrow>
          (case strip_prefix [CHR 0x27] region of
             Some rest \<Rightarrow> decode_entities (until (\<lambda>c. c = CHR 0x27) rest)
           | None \<Rightarrow> decode_entities (until (\<lambda>c. is_ascii_whitespace c \<or> c = CHR ''>'') region)))"

text \<open>
  The search loop of \<open>attr_value\<close>, from position \<open>search_from\<close>. The only caller asks for \<open>href\<close>; a search
  for an empty name would not advance, and is no result here.
\<close>

function attr_search :: "string \<Rightarrow> string \<Rightarrow> nat \<Rightarrow> string option" where
  "attr_search raw_tag attr search_from =
     (let lowered = to_ascii_lowercase raw_tag in
      case find_str (drop search_from lowered) attr of
        None \<Rightarrow> None
      | Some rel \<Rightarrow>
          let at = search_from + rel;
              before_ok = (at = 0 \<or> is_ascii_whitespace (lowered ! (at - 1)));
              after = trim_start (drop (at + length attr) lowered)
          in if before_ok \<and> starts_with after ''=''
             then let after_eq = trim_start (drop 1 after);
                      value_offset = length raw_tag - length after_eq
                  in Some (parse_attr_value (drop value_offset raw_tag))
             else if attr = [] then None
             else attr_search raw_tag attr (at + length attr))"
  by pat_completeness auto
termination
  by (relation "measure (\<lambda>(raw_tag, attr, search_from). length raw_tag - search_from)")
    (auto dest!: find_str_bound simp flip: length_greater_0_conv)

declare attr_search.simps [simp del]

definition attr_value :: "string \<Rightarrow> string \<Rightarrow> string option" where
  "attr_value raw_tag attr = attr_search raw_tag attr 0"

section \<open>Rendering\<close>

definition block_tags :: "string list" where
  "block_tags = [''p'', ''div'', ''section'', ''article'', ''tr'', ''ul'', ''ol'', ''table'', ''header'', ''footer'',
     ''blockquote'', ''pre'']"

text \<open>What one tag appends, and the pending anchor after it.\<close>

definition emit_tag :: "string \<Rightarrow> string option \<Rightarrow> string \<times> string option" where
  "emit_tag raw_tag anchor =
     (let (name, closing) = tag_name raw_tag in
      case heading_level name of
        Some level \<Rightarrow>
          if closing then ([CHR 0x0A, CHR 0x0A], anchor)
          else ([CHR 0x0A, CHR 0x0A] @ replicate level CHR ''#'' @ '' '', anchor)
      | None \<Rightarrow>
          if name = ''li'' \<and> \<not> closing then (CHR 0x0A # ''- '', anchor)
          else if name = ''br'' then ([CHR 0x0A], anchor)
          else if name \<in> set block_tags
          then ([CHR 0x0A, CHR 0x0A], anchor)
          else if name = ''a'' then
            if closing then
              (case anchor of
                 Some href \<Rightarrow> (if href \<noteq> [] then ''](''  @ href @ '')'' else [], None)
               | None \<Rightarrow> ([], None))
            else
              let href = (case attr_value raw_tag ''href'' of Some h \<Rightarrow> h | None \<Rightarrow> [])
              in (if href \<noteq> [] then ''['' else [], Some href)
          else ([], anchor))"

function render_from :: "string \<Rightarrow> string option \<Rightarrow> string" where
  "render_from [] anchor = []"
| "render_from (c # cs) anchor =
     (if c \<noteq> CHR ''<''
      then let run = until (\<lambda>c. c = CHR ''<'') (c # cs)
           in decode_entities run @ render_from (drop (length run) (c # cs)) anchor
      else
        let raw_tag = until (\<lambda>c. c = CHR ''>'') cs;
            (emitted, anchor) = emit_tag raw_tag anchor
        in emitted @ render_from (drop (length raw_tag + 1) cs) anchor)"
  by pat_completeness auto
termination
  by (relation "measure (\<lambda>(s, anchor). length s)") (auto simp: until_def)

declare render_from.simps(2) [simp del]

definition render_tokens :: "string \<Rightarrow> string" where
  "render_tokens input = render_from input None"

section \<open>Whitespace\<close>

fun collapse_chars :: "bool \<Rightarrow> string list \<Rightarrow> string" where
  "collapse_chars last_space [] = []"
| "collapse_chars last_space (ch # chs) =
     (if is_whitespace ch then (if last_space then [] else '' '') @ collapse_chars True chs
      else ch @ collapse_chars False chs)"

definition collapse_inline_spaces :: "string \<Rightarrow> string" where
  "collapse_inline_spaces line = trim (collapse_chars False (chars line))"

fun collapse_lines :: "string list \<Rightarrow> nat \<Rightarrow> string list \<Rightarrow> string list" where
  "collapse_lines acc blank_run [] = acc"
| "collapse_lines acc blank_run (raw # raws) =
     (let collapsed = collapse_inline_spaces raw in
      if collapsed = []
      then collapse_lines (if blank_run + 1 \<le> 1 \<and> acc \<noteq> [] then acc @ [[]] else acc) (blank_run + 1) raws
      else collapse_lines (acc @ [collapsed]) 0 raws)"

definition drop_blank_tail :: "string list \<Rightarrow> string list" where
  "drop_blank_tail ls = rev (dropWhile (\<lambda>l. l = []) (rev ls))"

definition collapse_whitespace :: "string \<Rightarrow> string" where
  "collapse_whitespace input = join [CHR 0x0A] (drop_blank_tail (collapse_lines [] 0 (lines input)))"

definition html_to_markdown :: "string \<Rightarrow> string" where
  "html_to_markdown html = collapse_whitespace (render_tokens (strip_noise_blocks html))"

section \<open>Entities: decoding an escaped text\<close>

text \<open>The usual escaping of text for HTML.\<close>

fun escape_html :: "string \<Rightarrow> string" where
  "escape_html [] = []"
| "escape_html (c # cs) =
     (if c = CHR ''&'' then ''&amp;'' else if c = CHR ''<'' then ''&lt;'' else if c = CHR ''>'' then ''&gt;''
      else if c = CHR 0x22 then ''&quot;'' else if c = CHR 0x27 then ''&apos;'' else [c]) @ escape_html cs"

lemma decode_loop_plain: "c \<noteq> CHR ''&'' \<Longrightarrow> decode_loop (c # cs) = c # decode_loop cs"
  by (simp add: decode_loop.simps [of "c # cs"] decode_loop.simps [of cs] Let_def split: option.splits)

lemma find_semi: "CHR '';'' \<notin> set e \<Longrightarrow> find_str (e @ CHR '';'' # cs) '';'' = Some (length e)"
  by (induction e) auto

lemma decode_loop_entity:
  assumes "decode_entity e = Some d" and "length e \<le> 9" and "CHR '';'' \<notin> set e"
  shows "decode_loop (CHR ''&'' # e @ CHR '';'' # cs) = d @ decode_loop cs"
  using assms find_semi [of "CHR ''&'' # e" cs]
  by (subst decode_loop.simps) (simp add: subslice_def)

lemma escape_entities:
  "decode_entity ''amp'' = Some ''&''" "decode_entity ''lt'' = Some ''<''" "decode_entity ''gt'' = Some ''>''"
  "decode_entity ''quot'' = Some [CHR 0x22]" "decode_entity ''apos'' = Some [CHR 0x27]"
  by (simp_all add: decode_entity_def)

lemma decode_loop_escape: "decode_loop (escape_html s) = s"
proof (induction s)
  case Nil
  then show ?case by (simp add: decode_loop.simps)
next
  case (Cons c cs)
  show ?case
    using Cons decode_loop_entity [OF escape_entities(1), of "escape_html cs"]
      decode_loop_entity [OF escape_entities(2), of "escape_html cs"]
      decode_loop_entity [OF escape_entities(3), of "escape_html cs"]
      decode_loop_entity [OF escape_entities(4), of "escape_html cs"]
      decode_loop_entity [OF escape_entities(5), of "escape_html cs"]
    by (simp add: decode_loop_plain)
qed

lemma decode_loop_no_amp: "CHR ''&'' \<notin> set s \<Longrightarrow> decode_loop s = s"
proof (induction s)
  case (Cons c s)
  then show ?case by (auto simp: decode_loop_plain)
qed (simp add: decode_loop.simps)

lemma decode_entities_loop: "decode_entities s = decode_loop s"
  by (simp add: decode_entities_def decode_loop_no_amp)

lemma to_ascii_lower_eq: "to_ascii_lower c = d \<Longrightarrow> \<not> is_ascii_lower d \<Longrightarrow> c = d"
proof (rule ccontr)
  assume eq: "to_ascii_lower c = d" and d: "\<not> is_ascii_lower d" and "c \<noteq> d"
  then have up: "is_ascii_upper c" by (auto simp: to_ascii_lower_def split: if_splits)
  then have "(of_char d :: nat) = of_char c + 32"
    using eq by (auto simp: to_ascii_lower_def is_ascii_upper_def)
  then show False using up d by (simp add: is_ascii_lower_def is_ascii_upper_def)
qed

text \<open>
  C38. Text survives: a text escaped for HTML is rendered back to itself, and a document that is an
  escaped text with no markup renders to that text with its whitespace collapsed.
\<close>

theorem escaped_text_renders:
  "decode_entities (escape_html s) = s \<and> html_to_markdown (escape_html s) = collapse_whitespace s"
proof -
  have no_lt: "CHR ''<'' \<notin> set (escape_html s)" by (induction s) auto
  have find_none: "CHR ''<'' \<notin> set t \<Longrightarrow> find_str t (CHR ''<'' # p) = None" for t p
    by (induction t) auto
  have low: "CHR ''<'' \<notin> set t \<Longrightarrow> CHR ''<'' \<notin> set (to_ascii_lowercase t)" for t
    by (auto simp: to_ascii_lowercase_def is_ascii_lower_def dest!: to_ascii_lower_eq [OF sym])
  have el: "CHR ''<'' \<notin> set t \<Longrightarrow> strip_element t tag = t" for t tag
    using find_none [OF low] by (simp add: strip_element_def strip_element_from.simps Let_def)
  have "strip_comments (escape_html s) = escape_html s"
    using find_none [OF no_lt] by (simp add: strip_comments.simps)
  then have strip: "strip_noise_blocks (escape_html s) = escape_html s"
    using el [OF no_lt] by (simp add: strip_noise_blocks_def)
  have render: "CHR ''<'' \<notin> set t \<Longrightarrow> render_from t a = decode_entities t" for t a
  proof (cases t)
    case Nil
    then show ?thesis by (simp add: decode_entities_def)
  next
    case (Cons c cs)
    assume no: "CHR ''<'' \<notin> set t"
    then have "until (\<lambda>c. c = CHR ''<'') t = t" unfolding until_def by (intro takeWhile_eq_all_conv [THEN iffD2]) auto
    then show ?thesis using no Cons by (auto simp: render_from.simps(2) Let_def)
  qed
  have "decode_entities (escape_html s) = s" by (simp add: decode_entities_loop decode_loop_escape)
  then show ?thesis
    using strip render [OF no_lt] by (simp add: html_to_markdown_def render_tokens_def)
qed

section \<open>Size\<close>

lemma length_strip_comments: "length (strip_comments s) \<le> length s"
proof (induction s rule: strip_comments.induct)
  case (1 rest)
  show ?case
  proof (cases "find_str rest ''<!--''")
    case (Some start)
    then have b: "start + 4 \<le> length rest" using find_str_bound by fastforce
    show ?thesis
    proof (cases "find_str (drop start rest) ''-->''")
      case None
      then show ?thesis using Some by (subst strip_comments.simps) simp
    next
      case e: (Some e)
      have "length (strip_comments (drop (start + e + 3) rest)) \<le> length rest - (start + e + 3)"
        using 1 [OF Some e] by simp
      then show ?thesis using Some e b by (subst strip_comments.simps) simp
    qed
  qed (simp add: strip_comments.simps)
qed

lemma length_strip_element: "length (strip_element s tag) \<le> length s"
  unfolding strip_element_def
proof (induction s rule: measure_induct_rule [of length])
  case (less rest)
  have rec: "length (strip_element_from tag (drop (Suc k) rest)) \<le> length rest - Suc k" for k
    using less [of "drop (Suc k) rest"] by (cases "rest = []") (simp_all add: strip_element_from.simps)
  show ?case
  proof (cases "find_str (to_ascii_lowercase rest) (''<'' @ tag)")
    case None
    then show ?thesis by (simp add: strip_element_from.simps Let_def)
  next
    case (Some oa)
    have b: "oa + Suc (length tag) \<le> length rest" using find_str_bound [OF Some] by simp
    have cut: "oa + length (strip_element_from tag (drop (Suc k) rest)) \<le> length rest" if "oa \<le> k" for k
      using rec [of k] that b by arith
    have keep: "oa + length tag + length (strip_element_from tag (drop (Suc (oa + length tag)) rest)) < length rest"
      using rec [of "oa + length tag"] b by arith
    show ?thesis
      using Some b keep cut
      by (subst strip_element_from.simps) (auto simp: Let_def split: option.split)
  qed
qed

lemma length_strip_noise_blocks: "length (strip_noise_blocks s) \<le> length s"
proof -
  have "length (foldl strip_element t tags) \<le> length t" for t tags
    by (induction tags arbitrary: t) (auto intro: order_trans length_strip_element)
  then show ?thesis
    unfolding strip_noise_blocks_def by (rule order_trans) (rule length_strip_comments)
qed

lemma length_concat_dropWhile: "length (concat (dropWhile p xs)) \<le> length (concat xs)"
  by (induction xs) auto

lemma length_concat_rev: "length (concat (rev xs)) = length (concat xs)"
  by (induction xs) auto

lemma length_trim: "length (trim s) \<le> length s" "length (trim_start s) \<le> length s"
proof -
  let ?d = "dropWhile is_whitespace (chars s)"
  have "length (trim s) \<le> length (concat ?d)"
    using length_concat_dropWhile [of is_whitespace "rev ?d"] by (simp add: trim_def length_concat_rev)
  moreover have d: "length (concat ?d) \<le> length s"
    using length_concat_dropWhile [of is_whitespace "chars s"] by simp
  ultimately show "length (trim s) \<le> length s" by simp
  show "length (trim_start s) \<le> length s" using d by (simp add: trim_start_def)
qed

lemma length_strip_prefix: "strip_prefix p s = Some r \<Longrightarrow> length r + length p = length s"
  by (auto simp: strip_prefix_def dest: starts_with_length split: if_splits)

lemma length_utf8_encode: "length (utf8_encode n) \<le> 4"
  by (simp add: utf8_encode_def)

lemma from_str_radix_ne: "from_str_radix b r s = Some n \<Longrightarrow> s \<noteq> []"
  by (auto simp: from_str_radix_def)

lemma decode_entity_length:
  assumes "decode_entity e = Some d"
  shows "length d \<le> length e + 2"
proof (cases "e \<in> set [''amp'', ''lt'', ''gt'', ''quot'', ''apos'', ''#39'', ''nbsp'', ''mdash'', ''ndash'', ''hellip'', ''copy'']")
  case True
  then show ?thesis using assms by (auto simp: decode_entity_def utf8_encode_def)
next
  case False
  then have d: "length d \<le> 4" and "\<exists>p r. strip_prefix p e = Some r \<and> p \<noteq> [] \<and> r \<noteq> []"
    using assms length_utf8_encode
    by (auto simp: decode_entity_def Let_def char_from_u32_def dest!: from_str_radix_ne split: option.splits if_splits)
  then obtain p r where "strip_prefix p e = Some r" "p \<noteq> []" "r \<noteq> []" by blast
  then have "2 \<le> length e"
    using length_strip_prefix [of p e r] by (cases p; cases r) auto
  with d show ?thesis by simp
qed

lemma length_decode_loop: "length (decode_loop s) \<le> length s"
proof (induction s rule: measure_induct_rule [of length])
  case (less rest)
  show ?case
  proof (cases "find_str rest ''&''")
    case None
    then show ?thesis by (simp add: decode_loop.simps)
  next
    case (Some amp)
    have b: "amp < length rest" using find_str_bound [OF Some] by simp
    let ?tail = "drop amp rest"
    have rec: "length (decode_loop (drop (Suc k) ?tail)) \<le> length rest - amp - Suc k" for k
      using less [of "drop (Suc k) ?tail"] b by (simp add: add.commute diff_less)
    show ?thesis
    proof (cases "\<exists>semi. find_str ?tail '';'' = Some semi \<and> semi \<le> 10")
      case True
      then obtain semi where semi: "find_str ?tail '';'' = Some semi" "semi \<le> 10" by blast
      have sb: "semi < length ?tail" using find_str_bound [OF semi(1)] by simp
      let ?out = "case decode_entity (subslice ?tail 1 semi) of Some d \<Rightarrow> d | None \<Rightarrow> take (semi + 1) ?tail"
      have "starts_with (drop amp rest) ''&''" using find_str_match [OF Some] .
      then have "semi \<noteq> 0" using semi find_str_match [OF semi(1)] by (cases ?tail) auto
      then have "length ?out \<le> semi + 1"
        using decode_entity_length [of "subslice ?tail 1 semi"] sb by (auto split: option.splits)
      then show ?thesis
        using Some semi rec [of semi] sb b by (subst decode_loop.simps) (simp add: Let_def)
    next
      case False
      then show ?thesis
        using Some rec [of 0] b by (subst decode_loop.simps) (auto simp: Let_def split: option.splits)
    qed
  qed
qed

lemma length_parse_attr_value: "length (parse_attr_value r) \<le> length r"
proof -
  have u: "length (decode_entities (until p s)) \<le> length s" for p s
    using length_decode_loop [of "until p s"] length_takeWhile_le [of "\<lambda>c. \<not> p c" s]
    by (simp add: decode_entities_loop until_def)
  have p: "length (decode_entities (until p s)) \<le> length r" if "strip_prefix q (trim_start r) = Some s" for p q s
    using u [of p s] length_strip_prefix [OF that] length_trim(2) [of r] by linarith
  have "length (decode_entities (until p (trim_start r))) \<le> length r" for p
    using u [of p "trim_start r"] length_trim(2) [of r] by linarith
  then show ?thesis
    using p by (simp add: parse_attr_value_def Let_def split: option.split)
qed

lemma length_attr_search: "attr_search raw attr n = Some v \<Longrightarrow> length v \<le> length raw"
proof (induction raw attr n rule: attr_search.induct)
  case (1 raw attr n)
  have "find_str (drop n (to_ascii_lowercase raw)) attr \<noteq> None"
    using 1(2) by (intro notI) (simp add: attr_search.simps [of raw attr n] Let_def)
  then obtain rel where rel: "find_str (drop n (to_ascii_lowercase raw)) attr = Some rel" by blast
  have drop_le: "length (parse_attr_value (drop m raw)) \<le> length raw" for m
    using length_parse_attr_value [of "drop m raw"] by simp
  let ?found = "(n + rel = 0 \<or> is_ascii_whitespace (to_ascii_lowercase raw ! (n + rel - 1))) \<and>
     starts_with (trim_start (drop (n + rel + length attr) (to_ascii_lowercase raw))) ''=''"
  show ?case
  proof (cases "?found \<or> attr = []")
    case True
    then show ?thesis
      using 1(2) drop_le rel by (subst (asm) attr_search.simps) (auto simp: Let_def split: if_splits)
  next
    case False
    then have "attr_search raw attr (n + rel + length attr) = Some v"
      using 1(2) rel by (subst (asm) attr_search.simps) (auto simp: Let_def split: if_splits)
    with 1(1) [OF refl rel refl refl refl] False show ?thesis by blast
  qed
qed

text \<open>What the pending anchor may still add.\<close>

definition pending :: "string option \<Rightarrow> nat" where
  "pending anchor = (case anchor of None \<Rightarrow> 0 | Some href \<Rightarrow> length href + 3)"

lemma length_tag_name: "length (fst (tag_name raw)) \<le> length raw"
proof -
  have "length (takeWhile p s) \<le> length s" for p and s :: string by (rule length_takeWhile_le)
  then show ?thesis
    using length_trim(1) [of raw]
    by (fastforce simp: tag_name_def Let_def dest!: length_strip_prefix intro: le_trans split: option.splits)
qed

lemma emit_tag_length:
  assumes "emit_tag raw anchor = (out, anchor')"
  shows "length out + pending anchor' \<le> 3 * (length raw + 1) + pending anchor"
proof -
  obtain name closing where n: "tag_name raw = (name, closing)" by (cases "tag_name raw")
  have len: "length name \<le> length raw" using length_tag_name [of raw] n by simp
  show ?thesis
  proof (cases "heading_level name")
    case (Some level)
    then have "level \<le> 6 \<and> 2 \<le> length name"
      by (auto simp: heading_level_def dest!: length_strip_prefix split: option.splits if_splits)
    then show ?thesis
      using assms n Some len by (auto simp: emit_tag_def split: if_splits)
  next
    case None
    have "length (case attr_value raw ''href'' of Some h \<Rightarrow> h | None \<Rightarrow> []) \<le> length raw"
      using length_attr_search [of raw "''href''" 0] by (auto simp: attr_value_def split: option.splits)
    then show ?thesis
      using assms n None len
      by (auto simp: emit_tag_def pending_def Let_def split: if_splits option.splits)
  qed
qed

lemma length_render_from: "length (render_from s anchor) \<le> 3 * length s + pending anchor"
proof (induction s anchor rule: render_from.induct)
  case (2 c cs anchor)
  show ?case
  proof (cases "c = CHR ''<''")
    case False
    let ?run = "until (\<lambda>c. c = CHR ''<'') (c # cs)"
    have "length (decode_entities ?run) \<le> length ?run"
      by (simp add: decode_entities_loop length_decode_loop)
    moreover have "length ?run \<le> length (c # cs)" unfolding until_def by (rule length_takeWhile_le)
    moreover have "length (render_from (drop (length ?run) (c # cs)) anchor) \<le> 3 * length (drop (length ?run) (c # cs)) + pending anchor"
      using 2(1) [OF False refl] .
    ultimately show ?thesis using False by (simp add: render_from.simps(2) Let_def del: drop_Cons)
  next
    case True
    let ?raw = "until (\<lambda>c. c = CHR ''>'') cs"
    obtain out anchor' where e: "emit_tag ?raw anchor = (out, anchor')" by (cases "emit_tag ?raw anchor")
    have "length (render_from (drop (length ?raw + 1) cs) anchor') \<le> 3 * length (drop (length ?raw + 1) cs) + pending anchor'"
      using 2(2) [OF _ refl e [symmetric] refl] True by simp
    moreover have "length ?raw \<le> length cs" unfolding until_def by (rule length_takeWhile_le)
    ultimately show ?thesis
      using emit_tag_length [OF e] True e by (simp add: render_from.simps(2) Let_def)
  qed
qed simp

text \<open>Lines with their separators.\<close>

definition lines_total :: "string list \<Rightarrow> nat" where
  "lines_total ls = sum_list (map (\<lambda>l. length l + 1) ls)"

lemma lines_total_simps [simp]: "lines_total [] = 0" "lines_total (l # ls) = length l + 1 + lines_total ls" "lines_total (xs @ ys) = lines_total xs + lines_total ys"
  by (simp_all add: lines_total_def)

lemma length_join: "ls \<noteq> [] \<Longrightarrow> length (join [c] ls) + 1 = lines_total ls"
  by (induction ls rule: induct_list012) auto

lemma total_split_on: "lines_total (split_on c s) = length s + 1"
  by (induction s) (auto split: list.splits simp: split_on_nonempty)

lemma total_lines: "lines_total (lines s) \<le> length s + 1"
proof -
  have cr: "lines_total (map strip_cr ls) \<le> lines_total ls" for ls
    by (induction ls) (auto simp: strip_cr_def)
  show ?thesis
  proof (cases "rev (split_on CHR 0x0A s)")
    case (Cons l rest)
    then have eq: "split_on CHR 0x0A s = rev rest @ [l]" by (simp add: rev_eq_Cons_iff)
    then show ?thesis
      using cr [of "rev rest"] total_split_on [of "CHR 0x0A" s] by (simp add: lines_def Let_def)
  qed (simp add: lines_def)
qed

lemma chars_nonempty: "ch \<in> set (chars s) \<Longrightarrow> ch \<noteq> []"
  by (induction s rule: chars.induct) (auto simp: Let_def)

lemma length_collapse_inline: "length (collapse_inline_spaces l) \<le> length l"
proof -
  have "\<forall>ch \<in> set chs. ch \<noteq> [] \<Longrightarrow> length (collapse_chars b chs) \<le> length (concat chs)" for b chs
  proof (induction b chs rule: collapse_chars.induct)
    case (2 b ch chs)
    then have "Suc 0 \<le> length ch" by (simp add: Suc_le_eq)
    then show ?case using 2 by (cases "is_whitespace ch"; cases b) (auto simp del: length_greater_0_conv)
  qed simp
  from this [of "chars l" False] show ?thesis
    using chars_nonempty length_trim(1) [of "collapse_chars False (chars l)"]
    by (auto simp: collapse_inline_spaces_def)
qed

lemma total_collapse_lines: "lines_total (collapse_lines acc b raws) \<le> lines_total acc + lines_total raws"
proof (induction acc b raws rule: collapse_lines.induct)
  case (2 acc b raw raws)
  then show ?case using length_collapse_inline [of raw] by (auto simp: Let_def)
qed simp

lemma length_collapse_whitespace: "length (collapse_whitespace s) \<le> length s"
proof -
  let ?ls = "collapse_lines [] 0 (lines s)"
  have "lines_total (drop_blank_tail ls) \<le> lines_total ls" for ls
    by (induction ls rule: rev_induct) (auto simp: drop_blank_tail_def)
  then have "lines_total (drop_blank_tail ?ls) \<le> length s + 1"
    using total_collapse_lines [of "[]" 0 "lines s"] total_lines [of s] by (metis add_0 le_trans lines_total_simps(1))
  then show ?thesis
    using length_join [of "drop_blank_tail ?ls" "CHR 0x0A"]
    by (cases "drop_blank_tail ?ls = []") (auto simp: collapse_whitespace_def)
qed

text \<open>
  The normalizer always ends, and its output is at most three times as long as the document, so
  the size of a stored markdown file is bounded by the object limit.
\<close>

theorem markdown_size: "length (html_to_markdown html) \<le> 3 * length html"
proof -
  have "length (html_to_markdown html) \<le> length (render_tokens (strip_noise_blocks html))"
    unfolding html_to_markdown_def by (rule length_collapse_whitespace)
  also have "\<dots> \<le> 3 * length (strip_noise_blocks html)"
    using length_render_from [of "strip_noise_blocks html" None] by (simp add: render_tokens_def pending_def)
  also have "\<dots> \<le> 3 * length html"
    using length_strip_noise_blocks [of html] by simp
  finally show ?thesis .
qed

section \<open>Nested elements\<close>

text \<open>
  A nested element is not removed as a whole: the first closing tag ends the cut, so the rest of
  the outer element stays in the output.
\<close>

theorem nested_element_leaks:
  "strip_element ''a<svg>b<svg>c</svg>d</svg>e'' ''svg'' = ''ad</svg>e''"
  by (simp add: strip_element_def strip_element_from.simps to_ascii_lowercase_def to_ascii_lower_def is_ascii_upper_def
      tag_boundary_def Let_def)

end
