(* ===== verification/Relay_Store.thy ===== *)
theory Relay_Store
  imports Relay_Policy Relay_Wire Normalize Host_Fs "HOL-Library.List_Lexorder" "HOL-Library.Char_ord"
begin

text \<open>
  The relay engine of \<open>ghostbro-server/src/relay.rs\<close>: the durable job records, the request handlers, the
  background processing of jobs and the maintenance scans, over the host file system. The TOML codec of
  the job record, the wall clock, the messages of operating-system errors and the \<open>git\<close> commands are
  parameters. Arithmetic on \<open>u64\<close> wraps, as it does in a release build.
\<close>

definition RELAY_MAX_URL_LEN :: nat where "RELAY_MAX_URL_LEN = 2048"
definition RELAY_MAX_DOWNLOAD_CHUNK :: nat where "RELAY_MAX_DOWNLOAD_CHUNK = 16 * 1024 - 64"
definition DEFAULT_RELAY_SPOOL_DIR :: path where "DEFAULT_RELAY_SPOOL_DIR = [''var'', ''lib'', ''ghostbro'', ''relay'']"
definition GIT_BUNDLE_NAME :: string where "GIT_BUNDLE_NAME = ''mirror.bundle''"
definition JOB_STATUS_QUEUED :: string where "JOB_STATUS_QUEUED = ''queued''"
definition JOB_STATUS_RUNNING :: string where "JOB_STATUS_RUNNING = ''running''"
definition JOB_STATUS_COMPLETE :: string where "JOB_STATUS_COMPLETE = ''complete''"
definition JOB_STATUS_FAILED :: string where "JOB_STATUS_FAILED = ''failed''"

lemmas job_status_defs = JOB_STATUS_QUEUED_def JOB_STATUS_RUNNING_def JOB_STATUS_COMPLETE_def JOB_STATUS_FAILED_def

text \<open>Durations are whole seconds, as the configuration gives them.\<close>

record RelayConfig =
  cf_spool_dir :: path
  cf_job_ttl :: nat
  cf_max_jobs_per_client :: nat
  cf_max_bytes_per_client :: u64
  cf_max_object_len :: nat
  cf_worker_count :: nat
  cf_reap_interval :: nat
  cf_fetch_timeout :: nat
  cf_git_timeout :: nat
  cf_allow_loopback :: bool

definition RelayConfig_default :: RelayConfig where
  "RelayConfig_default =
     \<lparr>cf_spool_dir = DEFAULT_RELAY_SPOOL_DIR, cf_job_ttl = 24 * 60 * 60, cf_max_jobs_per_client = 64,
      cf_max_bytes_per_client = 256 * 1024 * 1024, cf_max_object_len = 64 * 1024 * 1024, cf_worker_count = 4,
      cf_reap_interval = 60, cf_fetch_timeout = 20, cf_git_timeout = 120, cf_allow_loopback = False\<rparr>"

text \<open>The two environment variables, when they are set.\<close>

definition with_env_overrides :: "path option \<Rightarrow> bool \<Rightarrow> RelayConfig \<Rightarrow> RelayConfig" where
  "with_env_overrides spool_env loopback_env cfg =
     (let cfg = (case spool_env of Some dir \<Rightarrow> cfg\<lparr>cf_spool_dir := dir\<rparr> | None \<Rightarrow> cfg)
      in if loopback_env then cfg\<lparr>cf_allow_loopback := True\<rparr> else cfg)"

record JobRef =
  ref_key_id_hex :: string
  ref_job_id :: string

record RelayJobMetadata =
  md_job_id :: string
  md_kind :: string
  md_status :: string
  md_source :: string
  md_normalize :: bool
  md_http_status :: "u16 option"
  md_content_type :: "string option"
  md_body_len :: u64
  md_normalized_len :: "u64 option"
  md_sha256 :: "string option"
  md_error :: "string option"
  md_created_at_ms :: u64
  md_updated_at_ms :: u64
  md_expires_at_ms :: u64

datatype cmd_result = CmdTimeout | CmdSpawnFailed | CmdExited bool bytes

record relay_env = relay_net +
  now_ms :: "nat \<Rightarrow> nat option"
  meta_to_toml :: "RelayJobMetadata \<Rightarrow> string option"
  meta_from_toml :: "string \<Rightarrow> RelayJobMetadata option"
  io_text :: "io_error \<Rightarrow> string"
  run_cmd :: "string list \<Rightarrow> host \<Rightarrow> cmd_result \<times> host"

text \<open>The engine's state: the host, the network, how often the clock was read, and the worker queue.\<close>

record relay =
  rl_host :: host
  rl_net :: net_state
  rl_clock :: nat
  rl_queue :: "JobRef list"

type_synonym 'a relay_comp = "(relay, string, 'a) comp"

definition rl_io :: "relay_env \<Rightarrow> 'a io \<Rightarrow> 'a relay_comp" where
  "rl_io E m s = (case m (rl_host s) of (r, h) \<Rightarrow> (map_err (io_text E) r, s\<lparr>rl_host := h\<rparr>))"

definition rl_test :: "(host \<Rightarrow> bool \<times> host) \<Rightarrow> bool relay_comp" where
  "rl_test m s = (case m (rl_host s) of (b, h) \<Rightarrow> (Inr b, s\<lparr>rl_host := h\<rparr>))"

definition rl_network :: "'a net_comp \<Rightarrow> 'a relay_comp" where
  "rl_network m s = (case m (rl_net s) of (r, n) \<Rightarrow> (r, s\<lparr>rl_net := n\<rparr>))"

definition rl_send :: "JobRef \<Rightarrow> unit relay_comp" where
  "rl_send job s = (Inr (), s\<lparr>rl_queue := rl_queue s @ [job]\<rparr>)"

definition unix_timestamp_ms :: "relay_env \<Rightarrow> u64 relay_comp" where
  "unix_timestamp_ms E s =
     (case now_ms E (rl_clock s) of
        None \<Rightarrow> Inl ''system clock is before Unix epoch''
      | Some ms \<Rightarrow> Inr (word_of_nat ms), s\<lparr>rl_clock := rl_clock s + 1\<rparr>)"

section \<open>Storage\<close>

text \<open>
  The job identifier is joined as the string it is: one with a slash or with \<open>..\<close> names a file
  elsewhere. The directory of a client is named by the hexadecimal form of its key, or in a scan by a
  directory entry, which is one component.
\<close>

definition metadata_path :: "path \<Rightarrow> string \<Rightarrow> path" where
  "metadata_path client_dir job_id = path_join (client_dir @ [''jobs'']) (job_id @ ''.toml'')"

definition primary_object_path :: "path \<Rightarrow> string \<Rightarrow> path" where
  "primary_object_path client_dir job_id = path_join (client_dir @ [''objects'']) (job_id @ ''.body'')"

definition normalized_object_path :: "path \<Rightarrow> string \<Rightarrow> path" where
  "normalized_object_path client_dir job_id = path_join (client_dir @ [''objects'']) (job_id @ ''.md'')"

definition show_path :: "path \<Rightarrow> string" where
  "show_path p = ''/'' @ join ''/'' p"

definition read_metadata :: "relay_env \<Rightarrow> path \<Rightarrow> RelayJobMetadata relay_comp" where
  "read_metadata E path =
     c_bind (rl_io E (io_read_to_string path)) (\<lambda>contents.
       c_lift (ok_or (''failed to parse '' @ show_path path) (meta_from_toml E contents)))"

definition write_metadata :: "relay_env \<Rightarrow> path \<Rightarrow> RelayJobMetadata \<Rightarrow> unit relay_comp" where
  "write_metadata E client_dir md =
     (let path = metadata_path client_dir (md_job_id md); tmp = with_extension path ''toml.tmp'' in
      c_bind (c_lift (ok_or ''failed to serialize job metadata'' (meta_to_toml E md))) (\<lambda>contents.
      c_bind (rl_io E (io_write tmp (as_bytes contents))) (\<lambda>_.
        rl_io E (io_rename tmp path))))"

definition relay_job_id :: "relay_env \<Rightarrow> key_id \<Rightarrow> string \<Rightarrow> u64 \<Rightarrow> string" where
  "relay_job_id E key source now =
     take 24 (hex_lower (sha256 (net_crypto E) (key @ as_bytes source @ to_be_bytes64 now)))"

definition validate_job_id :: "string \<Rightarrow> string + unit" where
  "validate_job_id job_id =
     (if job_id = [] \<or> \<not> list_all (\<lambda>c. is_ascii_hexdigit c \<or> c = CHR ''-'') job_id
      then Inl ''invalid relay job id'' else Inr ())"

definition client_dir :: "RelayConfig \<Rightarrow> key_id \<Rightarrow> path" where
  "client_dir cfg key = cf_spool_dir cfg @ [key_id_hex key]"

text \<open>One record of the usage scan.\<close>

definition usage_entry :: "relay_env \<Rightarrow> u64 \<Rightarrow> path \<Rightarrow> nat \<times> u64 \<Rightarrow> (nat \<times> u64) relay_comp" where
  "usage_entry E now entry acc =
     c_bind (rl_io E (io_entry entry)) (\<lambda>path.
       if extension path \<noteq> Some ''toml'' then c_lift (Inr acc)
       else c_bind (c_attempt (read_metadata E path)) (\<lambda>r.
         case r of
           Inl _ \<Rightarrow> c_lift (Inr acc)
         | Inr md \<Rightarrow>
             if md_expires_at_ms md \<le> now then c_lift (Inr acc)
             else c_lift (Inr (fst acc + 1, snd acc + (md_body_len md + case_option 0 id (md_normalized_len md))))))"

definition client_usage :: "relay_env \<Rightarrow> path \<Rightarrow> (nat \<times> u64) relay_comp" where
  "client_usage E dir =
     (let jobs_dir = dir @ [''jobs''] in
      c_bind (rl_test (io_is_dir jobs_dir)) (\<lambda>present.
        if \<not> present then c_lift (Inr (0, 0))
        else
          c_bind (unix_timestamp_ms E) (\<lambda>now.
          c_bind (rl_io E (io_read_dir jobs_dir)) (\<lambda>entries.
            c_fold (usage_entry E now) entries (0, 0)))))"

section \<open>Requests\<close>

definition enqueue :: "relay_env \<Rightarrow> RelayConfig \<Rightarrow> key_id \<Rightarrow> string \<Rightarrow> string \<Rightarrow> bool \<Rightarrow> bytes relay_comp" where
  "enqueue E cfg key kind source norm =
     (let dir = client_dir cfg key in
      c_bind (client_usage E dir) (\<lambda>(job_count, byte_total).
        if cf_max_jobs_per_client cfg \<le> job_count
        then c_lift (Inr (relay_status_response GHOST_RELAY_STATUS_QUOTA
               (as_bytes (''job quota reached ('' @ nat_digits job_count @ '' of '' @ nat_digits (cf_max_jobs_per_client cfg) @ '')''))))
        else if cf_max_bytes_per_client cfg \<le> byte_total
        then c_lift (Inr (relay_status_response GHOST_RELAY_STATUS_QUOTA (as_bytes ''storage quota reached'')))
        else
          c_bind (rl_io E (io_create_dir_all (dir @ [''jobs'']))) (\<lambda>_.
          c_bind (rl_io E (io_create_dir_all (dir @ [''objects'']))) (\<lambda>_.
          c_bind (unix_timestamp_ms E) (\<lambda>now.
            let job_id = relay_job_id E key source now;
                md = \<lparr>md_job_id = job_id, md_kind = kind, md_status = JOB_STATUS_QUEUED, md_source = source,
                      md_normalize = norm, md_http_status = None, md_content_type = None, md_body_len = 0,
                      md_normalized_len = None, md_sha256 = None, md_error = None, md_created_at_ms = now,
                      md_updated_at_ms = now, md_expires_at_ms = now + word_of_nat (cf_job_ttl cfg * 1000)\<rparr>
            in c_bind (write_metadata E dir md) (\<lambda>_.
               c_bind (rl_send \<lparr>ref_key_id_hex = key_id_hex key, ref_job_id = job_id\<rparr>) (\<lambda>_.
                 c_lift (Inr (relay_bytes_response GHOST_RELAY_STATUS_OK (as_bytes job_id))))))))))"

text \<open>Reading a field of the request; the cursor is passed along.\<close>

definition rl_read :: "'a cursor \<Rightarrow> RelayCursor \<Rightarrow> ('a \<times> RelayCursor) relay_comp" where
  "rl_read m c = c_lift (case m c of (Inl e, _) \<Rightarrow> Inl e | (Inr x, c') \<Rightarrow> Inr (x, c'))"

definition submit_web :: "relay_env \<Rightarrow> RelayConfig \<Rightarrow> key_id \<Rightarrow> RelayCursor \<Rightarrow> bytes relay_comp" where
  "submit_web E cfg key c =
     c_bind (rl_read (read_string RELAY_MAX_URL_LEN) c) (\<lambda>(u, c).
     c_bind (rl_read read_optional_u8 c) (\<lambda>(flag, c).
     c_bind (rl_network (validate_public_url E u (cf_allow_loopback cfg))) (\<lambda>_.
       enqueue E cfg key ''web_fetch'' u (case_option 0 id flag \<noteq> 0))))"

definition submit_git :: "relay_env \<Rightarrow> RelayConfig \<Rightarrow> key_id \<Rightarrow> RelayCursor \<Rightarrow> bytes relay_comp" where
  "submit_git E cfg key c =
     c_bind (rl_read (read_string RELAY_MAX_URL_LEN) c) (\<lambda>(u, c).
     c_bind (rl_network (validate_git_url E u (cf_allow_loopback cfg))) (\<lambda>_.
       enqueue E cfg key ''git_mirror'' u False))"

definition submit_package :: "relay_env \<Rightarrow> RelayConfig \<Rightarrow> key_id \<Rightarrow> RelayCursor \<Rightarrow> bytes relay_comp" where
  "submit_package E cfg key c =
     c_bind (rl_read (read_string 32) c) (\<lambda>(eco, c).
     c_bind (rl_read (read_string 256) c) (\<lambda>(name, c).
     c_bind (rl_read (read_string 128) c) (\<lambda>(version, c).
     c_bind (c_lift (PackageSpec_parse eco name version)) (\<lambda>spec.
       enqueue E cfg key ''package'' (PackageSpec_encode spec) False))))"

definition tab :: string where "tab = [CHR 0x09]"

definition list_row :: "RelayJobMetadata \<Rightarrow> string" where
  "list_row md =
     md_job_id md @ tab @ md_kind md @ tab @ md_status md @ tab @ nat_digits (unat (case_option 0 id (md_http_status md))) @ tab @
     nat_digits (unat (md_body_len md)) @ tab @ (if md_normalized_len md \<noteq> None then ''1'' else ''0'') @ tab @ md_source md"

definition list_entry :: "relay_env \<Rightarrow> u64 \<Rightarrow> path \<Rightarrow> string list \<Rightarrow> string list relay_comp" where
  "list_entry E now entry rows =
     c_bind (rl_io E (io_entry entry)) (\<lambda>path.
       if extension path = Some ''toml''
       then c_bind (read_metadata E path) (\<lambda>md.
              c_lift (Inr (if md_expires_at_ms md \<le> now then rows else rows @ [list_row md])))
       else c_lift (Inr rows))"

definition relay_list :: "relay_env \<Rightarrow> RelayConfig \<Rightarrow> key_id \<Rightarrow> bytes relay_comp" where
  "relay_list E cfg key =
     (let jobs_dir = client_dir cfg key @ [''jobs''] in
      c_bind (unix_timestamp_ms E) (\<lambda>now.
      c_bind (rl_test (io_exists jobs_dir)) (\<lambda>present.
      c_bind (if present
              then c_bind (rl_io E (io_read_dir jobs_dir)) (\<lambda>entries. c_fold (list_entry E now) entries [])
              else c_lift (Inr [])) (\<lambda>rows.
        c_lift (Inr (relay_bytes_response GHOST_RELAY_STATUS_OK (as_bytes (join [CHR 0x0A] (sort rows)))))))))"

text \<open>The answer of a download once the object has been read.\<close>

definition chunk_response :: "nat \<Rightarrow> nat \<Rightarrow> bytes \<Rightarrow> bytes" where
  "chunk_response offset max_len body =
     (let total = length body; start = min offset total; e = min total (start + max_len);
          terminal = (if total \<le> e then 1 else 0)
      in relay_header GHOST_RELAY_STATUS_OK @ [terminal] @ to_be_bytes32 (word_of_nat total) @
         to_be_bytes32 (word_of_nat (e - start)) @ subslice body start e)"

definition download :: "relay_env \<Rightarrow> RelayConfig \<Rightarrow> key_id \<Rightarrow> RelayCursor \<Rightarrow> bytes relay_comp" where
  "download E cfg key c =
     c_bind (rl_read (read_string 128) c) (\<lambda>(job_id, c).
     c_bind (c_lift (validate_job_id job_id)) (\<lambda>_.
     c_bind (rl_read read_u32 c) (\<lambda>(offset, c).
     c_bind (rl_read read_u16 c) (\<lambda>(max_len, c).
     c_bind (rl_read read_optional_u8 c) (\<lambda>(artifact, c).
       let dir = client_dir cfg key;
           max_len = min (unat max_len) RELAY_MAX_DOWNLOAD_CHUNK;
           artifact = (case artifact of None \<Rightarrow> GHOST_RELAY_ARTIFACT_PRIMARY | Some a \<Rightarrow> a)
       in c_bind (rl_test (io_exists (metadata_path dir job_id))) (\<lambda>present.
            if \<not> present then c_lift (Inr (relay_status_response GHOST_RELAY_STATUS_NOT_FOUND (as_bytes ''job not found'')))
            else
              c_bind (read_metadata E (metadata_path dir job_id)) (\<lambda>md.
              c_bind (unix_timestamp_ms E) (\<lambda>now.
                if md_expires_at_ms md \<le> now
                then c_lift (Inr (relay_status_response GHOST_RELAY_STATUS_NOT_FOUND (as_bytes ''job expired'')))
                else if md_status md = JOB_STATUS_QUEUED \<or> md_status md = JOB_STATUS_RUNNING
                then c_lift (Inr (relay_status_response GHOST_RELAY_STATUS_PENDING (as_bytes ''job not ready'')))
                else if md_status md = JOB_STATUS_FAILED
                then c_lift (Inr (relay_status_response GHOST_RELAY_STATUS_FAILED
                       (as_bytes (case md_error md of Some e \<Rightarrow> e | None \<Rightarrow> ''job failed''))))
                else if artifact = GHOST_RELAY_ARTIFACT_NORMALIZED \<and> md_normalized_len md = None
                then c_lift (Inr (relay_status_response GHOST_RELAY_STATUS_NOT_FOUND (as_bytes ''no normalized artifact for job'')))
                else
                  c_bind (rl_io E (io_read (if artifact = GHOST_RELAY_ARTIFACT_NORMALIZED
                            then normalized_object_path dir job_id else primary_object_path dir job_id))) (\<lambda>body.
                    c_lift (Inr (chunk_response (unat offset) max_len body)))))))))))"

definition delete :: "relay_env \<Rightarrow> RelayConfig \<Rightarrow> key_id \<Rightarrow> RelayCursor \<Rightarrow> bytes relay_comp" where
  "delete E cfg key c =
     c_bind (rl_read (read_string 128) c) (\<lambda>(job_id, c).
     c_bind (c_lift (validate_job_id job_id)) (\<lambda>_.
       let dir = client_dir cfg key in
       c_bind (rl_test (io_exists (metadata_path dir job_id))) (\<lambda>present.
         if \<not> present then c_lift (Inr (relay_status_response GHOST_RELAY_STATUS_NOT_FOUND (as_bytes ''job not found'')))
         else
           c_bind (c_attempt (rl_io E (io_remove_file (primary_object_path dir job_id)))) (\<lambda>_.
           c_bind (c_attempt (rl_io E (io_remove_file (normalized_object_path dir job_id)))) (\<lambda>_.
           c_bind (rl_io E (io_remove_file (metadata_path dir job_id))) (\<lambda>_.
             c_lift (Inr (relay_status_response GHOST_RELAY_STATUS_OK (as_bytes ''deleted'')))))))))"

definition dispatch_inner :: "relay_env \<Rightarrow> RelayConfig \<Rightarrow> key_id \<Rightarrow> bytes \<Rightarrow> bytes relay_comp" where
  "dispatch_inner E cfg key request =
     (if length request < 3 \<or> request ! 0 \<noteq> PROTOCOL_GHOST_RELAY \<or> request ! 1 \<noteq> GHOST_RELAY_VERSION
      then c_lift (Inr (relay_status_response GHOST_RELAY_STATUS_INVALID (as_bytes ''invalid relay header'')))
      else
        let c = RelayCursor_new (drop 3 request); op = request ! 2 in
        if op = GHOST_RELAY_OP_SUBMIT_WEB then submit_web E cfg key c
        else if op = GHOST_RELAY_OP_SUBMIT_GIT then submit_git E cfg key c
        else if op = GHOST_RELAY_OP_SUBMIT_PACKAGE then submit_package E cfg key c
        else if op = GHOST_RELAY_OP_LIST then relay_list E cfg key
        else if op = GHOST_RELAY_OP_DOWNLOAD then download E cfg key c
        else if op = GHOST_RELAY_OP_DELETE then delete E cfg key c
        else c_lift (Inr (relay_status_response GHOST_RELAY_STATUS_UNSUPPORTED (as_bytes ''unsupported relay operation''))))"

definition dispatch :: "relay_env \<Rightarrow> RelayConfig \<Rightarrow> key_id \<Rightarrow> bytes \<Rightarrow> relay \<Rightarrow> bytes \<times> relay" where
  "dispatch E cfg key request s =
     (case dispatch_inner E cfg key request s of
        (Inr response, s') \<Rightarrow> (response, s')
      | (Inl _, s') \<Rightarrow> (relay_status_response GHOST_RELAY_STATUS_FAILED (as_bytes ''internal relay error''), s'))"

section \<open>Background processing\<close>

definition is_html :: "string option \<Rightarrow> bytes \<Rightarrow> bool" where
  "is_html content_type body =
     (let lowered = (case content_type of None \<Rightarrow> [] | Some ct \<Rightarrow> to_ascii_lowercase ct);
          head = to_ascii_lowercase (str_of_bytes (take 1024 body));
          sniff = contains_str head ''<html'' \<or> contains_str head ''<!doctype html''
      in if content_type \<noteq> None \<and> (contains_str lowered ''text/html'' \<or> contains_str lowered ''application/xhtml'') then True
         else if content_type \<noteq> None \<and> (contains_str lowered ''text/plain'' \<or> contains_str lowered ''application/json'') then False
         else sniff)"

definition run_command_with_timeout :: "relay_env \<Rightarrow> string list \<Rightarrow> nat \<Rightarrow> string \<Rightarrow> unit relay_comp" where
  "run_command_with_timeout E argv timeout label s =
     (case run_cmd E argv (rl_host s) of
        (res, h) \<Rightarrow>
          (case res of
             CmdTimeout \<Rightarrow> Inl (label @ '' timed out after '' @ nat_digits timeout @ ''s'')
           | CmdSpawnFailed \<Rightarrow> Inl (''failed to spawn '' @ label)
           | CmdExited ok stderr \<Rightarrow>
               if \<not> ok then Inl (label @ '' failed: '' @ trim (from_utf8_lossy stderr)) else Inr (),
           s\<lparr>rl_host := h\<rparr>))"

definition git_clone_argv :: "string \<Rightarrow> path \<Rightarrow> string list" where
  "git_clone_argv source mirror = [''git'', ''clone'', ''--mirror'', ''--quiet'', ''--'', source, show_path mirror]"

definition git_bundle_argv :: "path \<Rightarrow> path \<Rightarrow> string list" where
  "git_bundle_argv mirror bundle = [''git'', ''-C'', show_path mirror, ''bundle'', ''create'', show_path bundle, ''--all'']"

definition run_git_mirror :: "relay_env \<Rightarrow> RelayConfig \<Rightarrow> path \<Rightarrow> RelayJobMetadata \<Rightarrow> JobOutcome relay_comp" where
  "run_git_mirror E cfg dir md =
     c_bind (rl_network (validate_git_url E (md_source md) (cf_allow_loopback cfg))) (\<lambda>_.
       let work = path_join (dir @ [''work'']) (md_job_id md); mirror = work @ [''mirror.git'']; bundle = work @ [GIT_BUNDLE_NAME] in
       c_bind (c_attempt (rl_io E (io_remove_dir_all work))) (\<lambda>_.
       c_bind (rl_io E (io_create_dir_all work)) (\<lambda>_.
       c_bind (run_command_with_timeout E (git_clone_argv (md_source md) mirror) (cf_git_timeout cfg) ''git clone --mirror'') (\<lambda>_.
       c_bind (run_command_with_timeout E (git_bundle_argv mirror bundle) (cf_git_timeout cfg) ''git bundle create'') (\<lambda>_.
       c_bind (c_map_err (\<lambda>_. ''failed to stat produced git bundle'') (rl_io E (io_len bundle))) (\<lambda>bundle_len.
         if cf_max_object_len cfg < bundle_len
         then c_bind (c_attempt (rl_io E (io_remove_dir_all work))) (\<lambda>_.
                c_lift (Inl (''git bundle '' @ nat_digits bundle_len @ '' bytes exceeds max object size '' @ nat_digits (cf_max_object_len cfg))))
         else
           c_bind (c_map_err (\<lambda>_. ''failed to read produced git bundle'') (rl_io E (io_read bundle))) (\<lambda>body.
           c_bind (c_attempt (rl_io E (io_remove_dir_all work))) (\<lambda>_.
             c_lift (Inr \<lparr>out_body = body, out_http_status = None, out_content_type = Some ''application/x-git-bundle''\<rparr>)))))))))"

text \<open>Processing a job: it is marked as running; the fetch; the quota check with the object; the record.\<close>

definition job_start :: "relay_env \<Rightarrow> path \<Rightarrow> JobRef \<Rightarrow> RelayJobMetadata option relay_comp" where
  "job_start E dir job =
     c_bind (c_attempt (read_metadata E (metadata_path dir (ref_job_id job)))) (\<lambda>r.
       case r of
         Inl _ \<Rightarrow> c_lift (Inr None)
       | Inr md \<Rightarrow>
           if md_status md = JOB_STATUS_COMPLETE then c_lift (Inr None)
           else
             c_bind (unix_timestamp_ms E) (\<lambda>now.
               let md = md\<lparr>md_status := JOB_STATUS_RUNNING, md_updated_at_ms := now\<rparr> in
               c_bind (write_metadata E dir md) (\<lambda>_. c_lift (Inr (Some md)))))"

definition job_fetch :: "relay_env \<Rightarrow> RelayConfig \<Rightarrow> path \<Rightarrow> RelayJobMetadata \<Rightarrow> JobOutcome relay_comp" where
  "job_fetch E cfg dir md =
     (if md_kind md = ''web_fetch''
      then rl_network (run_web_fetch E (cf_allow_loopback cfg) (cf_max_object_len cfg) (md_source md))
      else if md_kind md = ''git_mirror'' then run_git_mirror E cfg dir md
      else if md_kind md = ''package''
      then rl_network (run_package E (cf_allow_loopback cfg) (cf_max_object_len cfg) (md_source md))
      else c_lift (Inl (''unknown relay job kind '' @ md_kind md)))"

text \<open>The section under the client's quota lock.\<close>

definition job_commit :: "relay_env \<Rightarrow> RelayConfig \<Rightarrow> path \<Rightarrow> RelayJobMetadata \<Rightarrow> JobOutcome \<Rightarrow> string relay_comp" where
  "job_commit E cfg dir md out =
     c_bind (client_usage E dir) (\<lambda>(jobs, existing_bytes).
       if cf_max_bytes_per_client cfg < saturating_add existing_bytes (word_of_nat (length (out_body out)))
       then c_lift (Inl ''storage quota would be exceeded by job result'')
       else if cf_max_object_len cfg < length (out_body out)
       then c_lift (Inl (''result '' @ nat_digits (length (out_body out)) @ '' bytes exceeds max object size '' @
              nat_digits (cf_max_object_len cfg)))
       else
         c_bind (rl_io E (io_write (primary_object_path dir (md_job_id md)) (out_body out))) (\<lambda>_.
           c_lift (Inr (hex_lower (sha256 (net_crypto E) (out_body out))))))"

definition job_normalize :: "relay_env \<Rightarrow> path \<Rightarrow> RelayJobMetadata \<Rightarrow> JobOutcome \<Rightarrow> RelayJobMetadata relay_comp" where
  "job_normalize E dir md out =
     (if md_normalize md \<and> is_html (out_content_type out) (out_body out)
      then
        let markdown = html_to_markdown (from_utf8_lossy (out_body out)) in
        c_bind (rl_io E (io_write (normalized_object_path dir (md_job_id md)) (as_bytes markdown))) (\<lambda>_.
          c_lift (Inr (md\<lparr>md_normalized_len := Some (word_of_nat (length markdown))\<rparr>)))
      else c_lift (Inr md))"

definition job_finish :: "relay_env \<Rightarrow> path \<Rightarrow> RelayJobMetadata \<Rightarrow> JobOutcome \<Rightarrow> string \<Rightarrow> unit relay_comp" where
  "job_finish E dir md out digest =
     (let md = md\<lparr>md_body_len := word_of_nat (length (out_body out)), md_http_status := out_http_status out,
                  md_content_type := out_content_type out, md_sha256 := Some digest\<rparr>
      in c_bind (job_normalize E dir md out) (\<lambda>md.
         c_bind (unix_timestamp_ms E) (\<lambda>now.
           write_metadata E dir (md\<lparr>md_status := JOB_STATUS_COMPLETE, md_error := None, md_updated_at_ms := now\<rparr>))))"

definition process_job_inner :: "relay_env \<Rightarrow> RelayConfig \<Rightarrow> JobRef \<Rightarrow> unit relay_comp" where
  "process_job_inner E cfg job =
     (let dir = cf_spool_dir cfg @ [ref_key_id_hex job] in
      c_bind (job_start E dir job) (\<lambda>started.
        case started of
          None \<Rightarrow> c_lift (Inr ())
        | Some md \<Rightarrow>
            c_bind (job_fetch E cfg dir md) (\<lambda>out.
            c_bind (job_commit E cfg dir md out) (\<lambda>digest.
              job_finish E dir md out digest))))"

text \<open>A failed job is recorded as failed, with the message, as far as its record can be read.\<close>

definition job_failed :: "relay_env \<Rightarrow> path \<Rightarrow> JobRef \<Rightarrow> string \<Rightarrow> unit relay_comp" where
  "job_failed E dir job message =
     c_bind (c_attempt (read_metadata E (metadata_path dir (ref_job_id job)))) (\<lambda>r.
       case r of
         Inl _ \<Rightarrow> c_lift (Inr ())
       | Inr md \<Rightarrow>
           c_bind (c_attempt (unix_timestamp_ms E)) (\<lambda>now.
             let md = md\<lparr>md_status := JOB_STATUS_FAILED, md_error := Some message,
                         md_updated_at_ms := (case now of Inr n \<Rightarrow> n | Inl _ \<Rightarrow> md_updated_at_ms md)\<rparr>
             in c_bind (c_attempt (write_metadata E dir md)) (\<lambda>_. c_lift (Inr ()))))"

definition process_job :: "relay_env \<Rightarrow> RelayConfig \<Rightarrow> JobRef \<Rightarrow> unit relay_comp" where
  "process_job E cfg job =
     c_bind (c_attempt (process_job_inner E cfg job)) (\<lambda>r.
       case r of
         Inr _ \<Rightarrow> c_lift (Inr ())
       | Inl message \<Rightarrow> job_failed E (cf_spool_dir cfg @ [ref_key_id_hex job]) job message)"

section \<open>Maintenance\<close>

definition reap_entry :: "relay_env \<Rightarrow> u64 \<Rightarrow> path \<Rightarrow> path \<Rightarrow> nat \<Rightarrow> nat relay_comp" where
  "reap_entry E now dir entry removed =
     c_bind (rl_io E (io_entry entry)) (\<lambda>path.
       if extension path \<noteq> Some ''toml'' then c_lift (Inr removed)
       else c_bind (c_attempt (read_metadata E path)) (\<lambda>r.
         case r of
           Inl _ \<Rightarrow> c_lift (Inr removed)
         | Inr md \<Rightarrow>
             if md_expires_at_ms md \<le> now
             then
               c_bind (c_attempt (rl_io E (io_remove_file (primary_object_path dir (md_job_id md))))) (\<lambda>_.
               c_bind (c_attempt (rl_io E (io_remove_file (normalized_object_path dir (md_job_id md))))) (\<lambda>_.
               c_bind (c_attempt (rl_io E (io_remove_file path))) (\<lambda>_.
                 c_lift (Inr (removed + 1)))))
             else c_lift (Inr removed)))"

definition reap_client :: "relay_env \<Rightarrow> u64 \<Rightarrow> path \<Rightarrow> nat \<Rightarrow> nat relay_comp" where
  "reap_client E now entry removed =
     c_bind (rl_io E (io_entry entry)) (\<lambda>dir.
     c_bind (rl_test (io_is_dir (dir @ [''jobs'']))) (\<lambda>present.
       if \<not> present then c_lift (Inr removed)
       else c_bind (rl_io E (io_read_dir (dir @ [''jobs'']))) (\<lambda>jobs. c_fold (reap_entry E now dir) jobs removed)))"

definition reap_expired :: "relay_env \<Rightarrow> RelayConfig \<Rightarrow> nat relay_comp" where
  "reap_expired E cfg =
     c_bind (unix_timestamp_ms E) (\<lambda>now.
     c_bind (c_attempt (rl_io E (io_read_dir (cf_spool_dir cfg)))) (\<lambda>r.
       case r of
         Inl _ \<Rightarrow> c_lift (Inr 0)
       | Inr entries \<Rightarrow> c_fold (reap_client E now) entries 0))"

definition recover_entry :: "relay_env \<Rightarrow> string \<Rightarrow> path \<Rightarrow> nat \<Rightarrow> nat relay_comp" where
  "recover_entry E key_hex entry requeued =
     c_bind (rl_io E (io_entry entry)) (\<lambda>path.
       if extension path \<noteq> Some ''toml'' then c_lift (Inr requeued)
       else c_bind (c_attempt (read_metadata E path)) (\<lambda>r.
         case r of
           Inl _ \<Rightarrow> c_lift (Inr requeued)
         | Inr md \<Rightarrow>
             if md_status md = JOB_STATUS_QUEUED \<or> md_status md = JOB_STATUS_RUNNING
             then c_bind (rl_send \<lparr>ref_key_id_hex = key_hex, ref_job_id = md_job_id md\<rparr>) (\<lambda>_. c_lift (Inr (requeued + 1)))
             else c_lift (Inr requeued)))"

definition recover_client :: "relay_env \<Rightarrow> path \<Rightarrow> nat \<Rightarrow> nat relay_comp" where
  "recover_client E entry requeued =
     c_bind (rl_io E (io_entry entry)) (\<lambda>dir.
       if dir = [] then c_lift (Inr requeued)
       else
         c_bind (rl_test (io_is_dir (dir @ [''jobs'']))) (\<lambda>present.
           if \<not> present then c_lift (Inr requeued)
           else c_bind (rl_io E (io_read_dir (dir @ [''jobs'']))) (\<lambda>jobs. c_fold (recover_entry E (last dir)) jobs requeued)))"

definition recover_pending :: "relay_env \<Rightarrow> RelayConfig \<Rightarrow> nat relay_comp" where
  "recover_pending E cfg =
     c_bind (c_attempt (rl_io E (io_read_dir (cf_spool_dir cfg)))) (\<lambda>r.
       case r of
         Inl _ \<Rightarrow> c_lift (Inr 0)
       | Inr entries \<Rightarrow> c_fold (recover_client E) entries 0)"

text \<open>One turn of a worker, and the steps of the running engine.\<close>

definition worker_step :: "relay_env \<Rightarrow> RelayConfig \<Rightarrow> relay \<Rightarrow> relay" where
  "worker_step E cfg s =
     (case rl_queue s of
        [] \<Rightarrow> s
      | job # rest \<Rightarrow> snd (process_job E cfg job (s\<lparr>rl_queue := rest\<rparr>)))"

section \<open>Frame lemmas\<close>

text \<open>What the engine keeps of the files: liftings of the facts about the host's calls.\<close>

abbreviation file_is :: "path \<Rightarrow> bytes option \<Rightarrow> relay \<Rightarrow> bool" where
  "file_is q c s \<equiv> content (rl_host s) q = c"

lemma keeps_rl_io: "keeps (\<lambda>h. content h q = c) m \<Longrightarrow> keeps (file_is q c) (rl_io E m)"
  by (auto simp: keeps_def rl_io_def split: prod.splits)

lemma keeps_rl_test:
  "keeps (file_is q c) (rl_test (io_exists p))" "keeps (file_is q c) (rl_test (io_is_dir p))"
  by (auto simp: keeps_def rl_test_def io_exists_def io_is_dir_def)

lemma keeps_rl_network: "keeps (file_is q c) (rl_network m)"
  by (auto simp: keeps_def rl_network_def split: prod.splits)

lemma keeps_rl_misc:
  "keeps (file_is q c) (rl_send job)" "keeps (file_is q c) (unix_timestamp_ms E)" "keeps (file_is q c) (rl_read m cur)"
  by (auto simp: keeps_def rl_send_def unix_timestamp_ms_def rl_read_def)

lemmas keeps_files = keeps_rl_io keeps_rl_test keeps_rl_network keeps_rl_misc keeps_io keeps_io_look keeps_io_remove_file
  keeps_io_remove_dir_all keeps_io_read_to_string

lemma keeps_case [intro]:
  "(\<And>a. keeps P (f a)) \<Longrightarrow> (\<And>b. keeps P (g b)) \<Longrightarrow> keeps P (case_sum f g r)"
  "keeps P m \<Longrightarrow> (\<And>b. keeps P (h b)) \<Longrightarrow> keeps P (case_option m h q)"
  "(\<And>a b. keeps P (k a b)) \<Longrightarrow> keeps P (case_prod k p)"
  "keeps P m \<Longrightarrow> keeps P n \<Longrightarrow> keeps P (if b then m else n)"
  by (auto split: sum.split option.split prod.split)

lemma keeps_read_metadata: "keeps (file_is q c) (read_metadata E p)"
  unfolding read_metadata_def by (intro keeps_bind keeps_files keeps_lift)

lemma keeps_client_usage: "keeps (file_is q c) (client_usage E dir)"
  unfolding client_usage_def usage_entry_def Let_def
  by (intro keeps_bind keeps_fold keeps_case keeps_files keeps_lift keeps_attempt keeps_read_metadata)

lemma below_iff: "below p q \<longleftrightarrow> (\<exists>r. q = p @ r)"
proof
  assume "below p q"
  then have "q = p @ drop (length p) q" unfolding below_def by (metis append_take_drop_id)
  then show "\<exists>r. q = p @ r" by blast
qed (auto simp: below_def)

text \<open>Identifiers of the engine's own alphabet, and the paths they name.\<close>

definition plain_id :: "string \<Rightarrow> bool" where
  "plain_id i \<longleftrightarrow> list_all (\<lambda>c. is_ascii_hexdigit c \<or> c = CHR ''-'') i"

lemma validated_plain: "validate_job_id i = Inr u \<Longrightarrow> plain_id i \<and> i \<noteq> []"
  by (auto simp: validate_job_id_def plain_id_def split: if_splits)

lemma hexdigit_plain: "is_ascii_hexdigit c \<Longrightarrow> c \<noteq> CHR ''/'' \<and> c \<noteq> CHR ''.''"
  by (auto simp: is_ascii_hexdigit_def is_ascii_digit_def)

lemma plain_id_chars: "plain_id i \<Longrightarrow> c \<in> set i \<Longrightarrow> c \<noteq> CHR ''/'' \<and> c \<noteq> CHR ''.''"
  using hexdigit_plain unfolding plain_id_def list_all_iff by fastforce

lemma plain_id_join:
  assumes "plain_id i" and "CHR ''/'' \<notin> set e" and "e = [] \<and> i \<noteq> [] \<or> 2 < length e"
  shows "path_join base (i @ e) = base @ [i @ e]"
proof (rule path_join_plain)
  show "CHR ''/'' \<notin> set (i @ e)" using plain_id_chars [OF assms(1)] assms(2) by auto
  have "CHR ''.'' \<notin> set i" using plain_id_chars [OF assms(1)] by blast
  then show "i @ e \<noteq> []" "i @ e \<noteq> ''.''" "i @ e \<noteq> ''..''"
    using assms(3) by (auto simp: Cons_eq_append_conv append_eq_Cons_conv)
qed

lemma plain_job_paths:
  assumes "plain_id i"
  shows "metadata_path dir i = dir @ [''jobs'', i @ ''.toml'']" "primary_object_path dir i = dir @ [''objects'', i @ ''.body'']"
    "normalized_object_path dir i = dir @ [''objects'', i @ ''.md'']"
  using assms by (simp_all add: metadata_path_def primary_object_path_def normalized_object_path_def plain_id_join)

lemma work_path: "plain_id i \<Longrightarrow> below (dir @ [''work'']) (path_join (dir @ [''work'']) i)"
  using plain_id_join [of i "[]" "dir @ [''work'']"] by (cases "i = []") (auto simp: below_def path_join_def)

text \<open>An identifier that is not of this alphabet may name a file of another client.\<close>

lemma traversal_named: "metadata_path [''s'', ''12''] ''../../11/jobs/a'' = metadata_path [''s'', ''11''] ''a''"
  by (simp add: metadata_path_def path_join_def)

lemma job_paths_below:
  assumes "plain_id i"
  shows "below dir (metadata_path dir i)" "below dir (with_extension (metadata_path dir i) e)"
    "below dir (primary_object_path dir i)" "below dir (normalized_object_path dir i)"
  using assms by (simp_all add: plain_job_paths with_extension_def below_def butlast_append)

lemma digit_char_hex: "d < 16 \<Longrightarrow> is_ascii_hexdigit (digit_char d)"
  by (auto simp: digit_char_def is_ascii_hexdigit_def is_ascii_digit_def)

lemma relay_job_id_plain: "plain_id (relay_job_id E key source now)"
proof -
  have "unat b div 16 < 16" for b :: u8
    using unsigned_less [of b, where 'a = nat] by (simp add: less_mult_imp_div_less)
  then have "is_ascii_hexdigit c" if "c \<in> set (hex_lower bs)" for c bs
    using that digit_char_hex by (auto simp: hex_lower_def hex_byte_def)
  then show ?thesis by (auto simp: plain_id_def relay_job_id_def list_all_iff dest: in_set_takeD)
qed

lemma keeps_write_metadata:
  "plain_id (md_job_id md) \<Longrightarrow> \<not> below dir q \<Longrightarrow> keeps (file_is q c) (write_metadata E dir md)"
  unfolding write_metadata_def Let_def
  by (intro keeps_bind keeps_files keeps_lift) (use job_paths_below in metis)+

text \<open>Requests of one client leave every file outside its directory alone.\<close>

lemma keeps_enqueue: "\<not> below (client_dir cfg key) q \<Longrightarrow> keeps (file_is q c) (enqueue E cfg key kind src n)"
  unfolding enqueue_def Let_def
  by (intro keeps_bind keeps_case keeps_client_usage keeps_files keeps_lift keeps_write_metadata) (simp_all add: relay_job_id_plain)

lemma keeps_relay_list: "keeps (file_is q c) (relay_list E cfg key)"
  unfolding relay_list_def list_entry_def Let_def
  by (intro keeps_bind keeps_fold keeps_case keeps_files keeps_lift keeps_read_metadata)

lemma keeps_download: "keeps (file_is q c) (download E cfg key cur)"
  unfolding download_def Let_def
  by (intro keeps_bind keeps_case keeps_files keeps_lift keeps_read_metadata)

text \<open>The identifier of a deletion is checked before it names a file.\<close>

lemma keeps_validated:
  assumes "\<And>u. plain_id i \<Longrightarrow> keeps P (f u)"
  shows "keeps P (c_bind (c_lift (validate_job_id i)) f)"
  by (rule keeps_bind_val [OF keeps_lift]) (use assms validated_plain in \<open>fastforce simp: c_lift_def\<close>)

lemma keeps_delete:
  assumes "\<not> below (client_dir cfg key) q"
  shows "keeps (file_is q c) (delete E cfg key cur)"
proof -
  have ne: "q \<noteq> primary_object_path (client_dir cfg key) i" "q \<noteq> normalized_object_path (client_dir cfg key) i"
      "q \<noteq> metadata_path (client_dir cfg key) i" if "plain_id i" for i
    using job_paths_below [OF that] assms by metis+
  show ?thesis
    unfolding delete_def Let_def
    by (intro keeps_bind keeps_case keeps_validated keeps_files keeps_lift keeps_attempt ne)
qed

lemma keeps_dispatch_inner:
  "\<not> below (client_dir cfg key) q \<Longrightarrow> keeps (file_is q c) (dispatch_inner E cfg key req)"
  unfolding dispatch_inner_def submit_web_def submit_git_def submit_package_def Let_def
  by (intro keeps_bind keeps_case keeps_files keeps_lift keeps_enqueue keeps_relay_list keeps_download keeps_delete)

text \<open>What is assumed of the \<open>git\<close> commands: they write below the job's work directory only.\<close>

definition git_confined :: "relay_env \<Rightarrow> bool" where
  "git_confined E \<longleftrightarrow> (\<forall>src work h r h' q. (\<exists>argv \<in> {git_clone_argv src (work @ [''mirror.git'']),
      git_bundle_argv (work @ [''mirror.git'']) (work @ [GIT_BUNDLE_NAME])}. run_cmd E argv h = (r, h')) \<longrightarrow>
      \<not> below work q \<longrightarrow> content h' q = content h q)"

lemma keeps_run_command:
  assumes "git_confined E" and "\<not> below work q"
    and "argv \<in> {git_clone_argv src (work @ [''mirror.git'']), git_bundle_argv (work @ [''mirror.git'']) (work @ [GIT_BUNDLE_NAME])}"
  shows "keeps (file_is q c) (run_command_with_timeout E argv t label)"
proof -
  have "content h' q = content h q" if "run_cmd E argv h = (r, h')" for h r h'
    using assms that unfolding git_confined_def by blast
  then show ?thesis by (auto simp: keeps_def run_command_with_timeout_def split: prod.splits)
qed

lemma keeps_run_git_mirror:
  assumes "git_confined E" and "\<not> below (path_join (dir @ [''work'']) (md_job_id md)) q"
  shows "keeps (file_is q c) (run_git_mirror E cfg dir md)"
  unfolding run_git_mirror_def Let_def
  by (intro keeps_bind keeps_case keeps_files keeps_lift keeps_attempt keeps_map_err keeps_run_command [OF assms])
    (use assms(2) in auto)

lemma keeps_job_fetch:
  assumes "git_confined E" and "\<not> below (path_join (dir @ [''work'']) (md_job_id md)) q"
  shows "keeps (file_is q c) (job_fetch E cfg dir md)"
  unfolding job_fetch_def
  by (intro keeps_case keeps_files keeps_lift keeps_run_git_mirror assms)

lemma not_below_work: "\<not> below dir q \<Longrightarrow> \<not> below (dir @ w) q"
  by (auto simp: below_iff)

section \<open>The job store a client sees\<close>

text \<open>
  The abstract store of one client: the job records by identifier, and the objects. A handler that only
  answers from it is specified over it; the file-system version refines that specification.
\<close>

record job_store =
  js_job :: "string \<Rightarrow> RelayJobMetadata option"
  js_object :: "string \<Rightarrow> u8 \<Rightarrow> bytes option"

definition job_of :: "relay_env \<Rightarrow> path \<Rightarrow> host \<Rightarrow> string \<Rightarrow> RelayJobMetadata option" where
  "job_of E dir h i =
     Option.bind (content h (metadata_path dir i)) (\<lambda>c. Option.bind (from_utf8 c) (meta_from_toml E))"

definition object_path :: "path \<Rightarrow> string \<Rightarrow> u8 \<Rightarrow> path" where
  "object_path dir i a =
     (if a = GHOST_RELAY_ARTIFACT_NORMALIZED then normalized_object_path dir i else primary_object_path dir i)"

definition abs_store :: "relay_env \<Rightarrow> path \<Rightarrow> host \<Rightarrow> job_store" where
  "abs_store E dir h = \<lparr>js_job = job_of E dir h, js_object = (\<lambda>i a. content h (object_path dir i a))\<rparr>"

text \<open>
  What a download answers, without the wire format: a refusal with its status and message, or a chunk
  with whether it is the last one and how long the whole object is. The chunk is the bytes of the
  object from the offset, as many as were asked for and at most 16 KiB less 64.
\<close>

datatype download_answer = Refusal u8 string | Chunk bool nat bytes

definition chunk_answer :: "nat \<Rightarrow> nat \<Rightarrow> bytes \<Rightarrow> download_answer" where
  "chunk_answer offset n body = Chunk (length body \<le> offset + n) (length body) (take n (drop offset body))"

definition download_outcome :: "job_store \<Rightarrow> u64 \<Rightarrow> string \<Rightarrow> nat \<Rightarrow> nat \<Rightarrow> u8 \<Rightarrow> download_answer" where
  "download_outcome st now i offset max_len a =
     (case js_job st i of
        None \<Rightarrow> Refusal GHOST_RELAY_STATUS_NOT_FOUND ''job not found''
      | Some md \<Rightarrow>
          if md_expires_at_ms md \<le> now then Refusal GHOST_RELAY_STATUS_NOT_FOUND ''job expired''
          else if md_status md \<in> {''queued'', ''running''} then Refusal GHOST_RELAY_STATUS_PENDING ''job not ready''
          else if md_status md = ''failed''
          then Refusal GHOST_RELAY_STATUS_FAILED (case md_error md of Some e \<Rightarrow> e | None \<Rightarrow> ''job failed'')
          else if a = GHOST_RELAY_ARTIFACT_NORMALIZED \<and> md_normalized_len md = None
          then Refusal GHOST_RELAY_STATUS_NOT_FOUND ''no normalized artifact for job''
          else case js_object st i a of
                 None \<Rightarrow> Refusal GHOST_RELAY_STATUS_FAILED ''internal relay error''
               | Some body \<Rightarrow> chunk_answer offset (min max_len 16320) body)"

text \<open>The bytes of an answer: protocol, version and status, then the message or the chunk with their lengths.\<close>

fun encode_answer :: "download_answer \<Rightarrow> bytes" where
  "encode_answer (Refusal status message) =
     [0x47, 1, status] @ to_be_bytes32 (word_of_nat (min (length message) (2 ^ 32 - 1))) @ as_bytes message"
| "encode_answer (Chunk final len chunk) =
     [0x47, 1, 0, if final then 1 else 0] @ to_be_bytes32 (word_of_nat len) @ to_be_bytes32 (word_of_nat (length chunk)) @ chunk"

definition download_spec :: "job_store \<Rightarrow> u64 \<Rightarrow> string \<Rightarrow> nat \<Rightarrow> nat \<Rightarrow> u8 \<Rightarrow> bytes" where
  "download_spec st now i offset max_len a = encode_answer (download_outcome st now i offset max_len a)"

lemma refusal_encode: "relay_status_response status (as_bytes message) = encode_answer (Refusal status message)"
proof -
  have max: "(- 1 :: u32) = 4294967295" by simp
  show ?thesis
    by (cases "length message < 2 ^ 32") (simp_all add: relay_status_response_def relay_bytes_response_def relay_header_def
        PROTOCOL_GHOST_RELAY_def GHOST_RELAY_VERSION_def Let_def min_def max del: word_of_int_numeral)
qed

lemma chunk_encode: "chunk_response offset n body = encode_answer (chunk_answer offset n body)"
proof -
  let ?start = "min offset (length body)" and ?e = "min (length body) (min offset (length body) + n)"
  have a: "subslice body ?start ?e = take n (drop offset body)" by (auto simp: subslice_def min_def not_le)
  have b: "?e - ?start = length (take n (drop offset body))" by (simp add: min_def) linarith
  have c: "length body \<le> ?e \<longleftrightarrow> length body \<le> offset + n" by (auto simp: min_def)
  show ?thesis
    unfolding chunk_response_def chunk_answer_def encode_answer.simps Let_def a b c
    by (simp add: relay_header_def PROTOCOL_GHOST_RELAY_def GHOST_RELAY_VERSION_def GHOST_RELAY_STATUS_OK_def)
qed

lemmas download_eqs = refusal_encode chunk_encode download_spec_def download_outcome_def job_status_defs RELAY_MAX_DOWNLOAD_CHUNK_def

text \<open>The files and the queue are as before; only the call counters moved, and the host stays quiet.\<close>

definition same_store :: "relay \<Rightarrow> relay \<Rightarrow> bool" where
  "same_store s s' \<longleftrightarrow> files (rl_host s') = files (rl_host s) \<and> dirs (rl_host s') = dirs (rl_host s) \<and>
     fault (rl_host s') = fault (rl_host s) \<and> rl_queue s' = rl_queue s \<and> rl_clock s \<le> rl_clock s'"

lemma same_store_refl: "same_store s s"
  and same_store_trans: "same_store s s1 \<Longrightarrow> same_store s1 s2 \<Longrightarrow> same_store s s2"
  by (auto simp: same_store_def)

lemma read_metadata_quiet:
  assumes "quiet (rl_host s)" and "job_of E dir (rl_host s) i = Some md"
  shows "read_metadata E (metadata_path dir i) s = (Inr md, s\<lparr>rl_host := rl_host s\<lparr>tick := tick (rl_host s) + 1\<rparr>\<rparr>)"
proof -
  obtain c t where "content (rl_host s) (metadata_path dir i) = Some c" "from_utf8 c = Some t" "meta_from_toml E t = Some md"
    using assms(2) by (auto simp: job_of_def bind_eq_Some_conv)
  then show ?thesis
    using assms(1) by (simp add: read_metadata_def rl_io_def io_read_to_string_def c_bind_def io_read_quiet)
qed

text \<open>The request of a client for a chunk, after the three header bytes.\<close>

definition download_body :: "string \<Rightarrow> u32 \<Rightarrow> u16 \<Rightarrow> u8 \<Rightarrow> bytes" where
  "download_body i offset max_len a =
     to_be_bytes16 (word_of_nat (length i)) @ as_bytes i @ to_be_bytes32 offset @ to_be_bytes16 max_len @ [a]"

lemma job_id_ascii: "validate_job_id i = Inr u \<Longrightarrow> valid_str i"
proof -
  assume "validate_job_id i = Inr u"
  then have "\<forall>c \<in> set i. is_ascii_hexdigit c \<or> c = CHR ''-''"
    by (auto simp: validate_job_id_def list_all_iff split: if_splits)
  moreover have "is_ascii_hexdigit c \<Longrightarrow> (of_char c :: nat) < 128" for c
    by (auto simp: is_ascii_hexdigit_def is_ascii_digit_def)
  ultimately have "\<forall>c \<in> set i. (of_char c :: nat) < 128" by force
  then show ?thesis by (auto simp: valid_str_def intro!: utf8_valid_ascii)
qed

lemma download_dispatch:
  assumes q: "quiet (rl_host s)"
    and id: "validate_job_id i = Inr ()" "length i \<le> 128"
    and rec: "content (rl_host s) (metadata_path (client_dir cfg key) i) \<noteq> None \<longrightarrow>
      job_of E (client_dir cfg key) (rl_host s) i \<noteq> None"
    and nodir: "metadata_path (client_dir cfg key) i \<notin> set (dirs (rl_host s))"
    and now: "now_ms E (rl_clock s) = Some ms"
    and req: "request = [PROTOCOL_GHOST_RELAY, GHOST_RELAY_VERSION, GHOST_RELAY_OP_DOWNLOAD] @ download_body i offset max_len a"
  shows "\<exists>s'. dispatch E cfg key request s =
      (download_spec (abs_store E (client_dir cfg key) (rl_host s)) (word_of_nat ms) i (unat offset) (unat max_len) a, s') \<and>
      same_store s s'"
proof -
  let ?dir = "client_dir cfg key" and ?c = "RelayCursor_new (download_body i offset max_len a)"
  obtain c1 where c1: "read_string 128 ?c = (Inr i, c1)" "cursor_ok c1"
      "unread c1 = to_be_bytes32 offset @ to_be_bytes16 max_len @ [a]"
    using read_string_unread [of ?c i _ 128] id job_id_ascii [OF id(1)] by (auto simp: download_body_def)
  obtain c2 where c2: "read_u32 c1 = (Inr offset, c2)" "cursor_ok c2" "unread c2 = to_be_bytes16 max_len @ [a]"
    using read_u32_unread [OF c1(2,3)] by blast
  obtain c3 where c3: "read_u16 c2 = (Inr max_len, c3)" "cursor_ok c3" "unread c3 = [a]"
    using read_u16_unread [OF c2(2,3)] by blast
  obtain c4 where c4: "read_optional_u8 c3 = (Inr (Some a), c4)"
    using read_optional_u8_unread(2) [OF c3(2,3)] by blast
  have "dispatch_inner E cfg key request = download E cfg key ?c"
    by (simp add: req dispatch_inner_def GHOST_RELAY_OP_SUBMIT_WEB_def GHOST_RELAY_OP_SUBMIT_GIT_def GHOST_RELAY_OP_LIST_def
        GHOST_RELAY_OP_SUBMIT_PACKAGE_def GHOST_RELAY_OP_DOWNLOAD_def)
  moreover have "\<exists>r s'. download E cfg key ?c s = (r, s') \<and> same_store s s' \<and>
      (case r of Inr x \<Rightarrow> x | Inl _ \<Rightarrow> encode_answer (Refusal GHOST_RELAY_STATUS_FAILED ''internal relay error'')) =
      download_spec (abs_store E ?dir (rl_host s)) (word_of_nat ms) i (unat offset) (unat max_len) a"
  proof (cases "content (rl_host s) (metadata_path ?dir i)")
    case None
    then have "job_of E ?dir (rl_host s) i = None" by (simp add: job_of_def)
    then show ?thesis
      using None nodir id(1)
      by (simp add: download_def rl_read_def c1(1) c2(1) c3(1) c4
          c_bind_def rl_test_def io_exists_def download_eqs abs_store_def same_store_def Let_def del: encode_answer.simps)
  next
    case (Some c)
    then obtain md where md: "job_of E ?dir (rl_host s) i = Some md" using rec by auto
    let ?s1 = "s\<lparr>rl_host := rl_host s\<lparr>tick := tick (rl_host s) + 1\<rparr>\<rparr>"
    have md1: "read_metadata E (metadata_path ?dir i) ?s1 =
        (Inr md, ?s1\<lparr>rl_host := rl_host ?s1\<lparr>tick := tick (rl_host ?s1) + 1\<rparr>\<rparr>)"
      using read_metadata_quiet [of ?s1 E ?dir i md] md q by (simp add: job_of_def quiet_def)
    show ?thesis
      using Some md md1 now q id(1)
      by (simp add: download_def rl_read_def c1(1) c2(1) c3(1) c4
          c_bind_def rl_test_def io_exists_def download_eqs abs_store_def same_store_def Let_def unix_timestamp_ms_def
          object_path_def rl_io_def io_read_def io_call_def del: encode_answer.simps split: option.splits)
  qed
  then obtain r s' where "download E cfg key ?c s = (r, s')" "same_store s s'"
      "(case r of Inr x \<Rightarrow> x | Inl _ \<Rightarrow> encode_answer (Refusal GHOST_RELAY_STATUS_FAILED ''internal relay error'')) =
       download_spec (abs_store E ?dir (rl_host s)) (word_of_nat ms) i (unat offset) (unat max_len) a"
    by blast
  ultimately show ?thesis
    by (cases r) (simp_all add: dispatch_def refusal_encode del: encode_answer.simps)
qed

section \<open>Processing a job\<close>

text \<open>What is assumed of the TOML codec: what it writes it reads back, and it is text.\<close>

definition toml_ok :: "relay_env \<Rightarrow> bool" where
  "toml_ok E \<longleftrightarrow> (\<forall>md t. meta_to_toml E md = Some t \<longrightarrow> meta_from_toml E t = Some md \<and> valid_str t)"

lemma job_path_suffix:
  "\<exists>p x. metadata_path dir i = p @ [x @ ''.toml'']" "\<exists>p x. primary_object_path dir i = p @ [x @ ''.body'']"
  "\<exists>p x. normalized_object_path dir i = p @ [x @ ''.md'']"
  by (simp_all add: metadata_path_def primary_object_path_def normalized_object_path_def path_join_suffix)

lemma job_paths_distinct:
  "metadata_path dir i \<noteq> primary_object_path dir j" "metadata_path dir i \<noteq> normalized_object_path dir j"
  "primary_object_path dir i \<noteq> normalized_object_path dir j"
  "with_extension (metadata_path dir i) ''toml.tmp'' \<noteq> primary_object_path dir j"
  "with_extension (metadata_path dir i) ''toml.tmp'' \<noteq> normalized_object_path dir j"
  "with_extension (metadata_path dir i) ''toml.tmp'' \<noteq> metadata_path dir j"
proof -
  obtain p x p' x' where m: "metadata_path dir i = p @ [x @ ''.toml'']" and b: "primary_object_path dir i = p' @ [x' @ ''.body'']"
    using job_path_suffix by metis
  obtain q y q' y' q'' y'' where m': "metadata_path dir j = q @ [y @ ''.toml'']"
    and b': "primary_object_path dir j = q' @ [y' @ ''.body'']" and n': "normalized_object_path dir j = q'' @ [y'' @ ''.md'']"
    using job_path_suffix by metis
  show "metadata_path dir i \<noteq> primary_object_path dir j" "metadata_path dir i \<noteq> normalized_object_path dir j"
    "primary_object_path dir i \<noteq> normalized_object_path dir j"
    "with_extension (metadata_path dir i) ''toml.tmp'' \<noteq> primary_object_path dir j"
    "with_extension (metadata_path dir i) ''toml.tmp'' \<noteq> normalized_object_path dir j"
    "with_extension (metadata_path dir i) ''toml.tmp'' \<noteq> metadata_path dir j"
    by (auto simp: m b m' b' n' with_extension_def dest: arg_cong [of _ _ rev])
qed

lemma rl_io_Inr: "rl_io E m s = (Inr x, s') \<longleftrightarrow> (\<exists>h. m (rl_host s) = (Inr x, h) \<and> s' = s\<lparr>rl_host := h\<rparr>)"
  by (auto simp: rl_io_def result_eqs split: prod.splits)

lemma write_metadata_Inr:
  assumes "toml_ok E" and "write_metadata E dir md s = (Inr u, s')"
  shows "job_of E dir (rl_host s') (md_job_id md) = Some md"
    and "q \<notin> {metadata_path dir (md_job_id md), with_extension (metadata_path dir (md_job_id md)) ''toml.tmp''} \<Longrightarrow>
      content (rl_host s') q = content (rl_host s) q"
proof -
  let ?path = "metadata_path dir (md_job_id md)" and ?tmp = "with_extension (metadata_path dir (md_job_id md)) ''toml.tmp''"
  obtain t h1 where t: "meta_to_toml E md = Some t" and w: "io_write ?tmp (as_bytes t) (rl_host s) = (Inr (), h1)"
    and r: "io_rename ?tmp ?path h1 = (Inr u, rl_host s')"
    using assms(2) by (auto simp: write_metadata_def Let_def comp_eqs result_eqs rl_io_Inr)
  have "content h1 ?tmp = Some (as_bytes t)"
    using w by (auto simp: io_write_def comp_eqs dest: io_write_all_Inr)
  then have "content (rl_host s') ?path = Some (as_bytes t)"
    using io_rename_Inr [OF r] by auto
  moreover have "meta_from_toml E t = Some md" "valid_str t" using assms(1) t by (auto simp: toml_ok_def)
  ultimately show "job_of E dir (rl_host s') (md_job_id md) = Some md"
    by (simp add: job_of_def from_utf8_as_bytes)
  assume q: "q \<notin> {?path, ?tmp}"
  then have "content h1 q = content (rl_host s) q"
    using keepsD [OF keeps_io_write _ w] by auto
  with q show "content (rl_host s') q = content (rl_host s) q"
    using keepsD [OF keeps_io_rename _ r] by auto
qed

lemma read_metadata_Inr:
  assumes "read_metadata E p s = (Inr md, s')"
  shows "(\<exists>c t. content (rl_host s) p = Some c \<and> from_utf8 c = Some t \<and> meta_from_toml E t = Some md)"
  using assms by (auto simp: read_metadata_def rl_io_Inr comp_eqs result_eqs dest!: io_read_to_string_Inr)

lemma job_commit_Inr:
  assumes "job_commit E cfg dir md out s = (Inr digest, s')"
  shows "digest = hex_lower (sha256 (net_crypto E) (out_body out)) \<and> length (out_body out) \<le> cf_max_object_len cfg \<and>
    content (rl_host s') (primary_object_path dir (md_job_id md)) = Some (out_body out) \<and>
    (\<exists>jobs used s1. client_usage E dir s = (Inr (jobs, used), s1) \<and>
       saturating_add used (word_of_nat (length (out_body out))) \<le> cf_max_bytes_per_client cfg)"
proof -
  obtain jobs used s1 h2 where u: "client_usage E dir s = (Inr (jobs, used), s1)"
    and fit: "\<not> cf_max_bytes_per_client cfg < saturating_add used (word_of_nat (length (out_body out)))"
      "\<not> cf_max_object_len cfg < length (out_body out)"
    and w: "io_write (primary_object_path dir (md_job_id md)) (out_body out) (rl_host s1) = (Inr (), rl_host s')"
    and d: "digest = hex_lower (sha256 (net_crypto E) (out_body out))"
    using assms by (auto simp: job_commit_def comp_eqs result_eqs rl_io_Inr split: if_splits)
  have "content (rl_host s') (primary_object_path dir (md_job_id md)) = Some (out_body out)"
    using w by (auto simp: io_write_def comp_eqs dest: io_write_all_Inr)
  then show ?thesis using u fit d by (auto simp: not_less)
qed

lemma job_normalize_Inr:
  assumes "job_normalize E dir md out s = (Inr md', s')"
  shows "md' = md \<and> s' = s \<or>
    (\<exists>n. md' = md\<lparr>md_normalized_len := Some n\<rparr> \<and>
       content (rl_host s') (normalized_object_path dir (md_job_id md)) =
         Some (as_bytes (html_to_markdown (from_utf8_lossy (out_body out)))))"
proof (cases "md_normalize md \<and> is_html (out_content_type out) (out_body out)")
  case False
  then show ?thesis using assms by (auto simp: job_normalize_def)
next
  case True
  then show ?thesis
    using assms by (auto simp: job_normalize_def comp_eqs result_eqs rl_io_Inr Let_def io_write_def dest: io_write_all_Inr)
qed

lemma keeps_job_normalize:
  "q \<noteq> normalized_object_path dir (md_job_id md) \<Longrightarrow> keeps (file_is q c) (job_normalize E dir md out)"
  unfolding job_normalize_def Let_def by (intro keeps_case keeps_bind keeps_files keeps_lift)

lemma job_start_Inr:
  assumes "toml_ok E" and "job_start E dir job s = (Inr started, s')" and "fault (rl_host s) (tick (rl_host s)) = None"
    and "job_of E dir (rl_host s) (ref_job_id job) = Some md" and "md_status md \<noteq> JOB_STATUS_COMPLETE"
  shows "\<exists>now. started = Some (md\<lparr>md_status := JOB_STATUS_RUNNING, md_updated_at_ms := now\<rparr>) \<and>
    job_of E dir (rl_host s') (md_job_id md) = started"
proof -
  obtain c t where "content (rl_host s) (metadata_path dir (ref_job_id job)) = Some c" "from_utf8 c = Some t" "meta_from_toml E t = Some md"
    using assms(4) by (auto simp: job_of_def bind_eq_Some_conv)
  then have read: "\<exists>s1. read_metadata E (metadata_path dir (ref_job_id job)) s = (Inr md, s1)"
    using assms(3) by (simp add: read_metadata_def rl_io_def io_read_to_string_def c_bind_def io_read_quiet)
  then obtain now s2 where "started = Some (md\<lparr>md_status := JOB_STATUS_RUNNING, md_updated_at_ms := now\<rparr>)"
      "write_metadata E dir (md\<lparr>md_status := JOB_STATUS_RUNNING, md_updated_at_ms := now\<rparr>) s2 = (Inr (), s')"
    using assms(2,5) by (auto simp: job_start_def comp_eqs c_attempt_Inr Let_def)
  with write_metadata_Inr(1) [OF assms(1)] show ?thesis by fastforce
qed

section \<open>Properties\<close>

text \<open>
  C36. A job that the worker finishes is stored intact: with any operating-system faults on the way,
  when processing a readable unfinished job returns without an error, its record says complete with
  the same kind, source and expiry, the object file holds exactly the bytes whose length and SHA-256
  digest the record gives, within the object limit, and a recorded markdown length means the markdown
  file holds the rendering of those bytes.
\<close>

theorem job_completes:
  assumes "toml_ok E" and "dir = cf_spool_dir cfg @ [ref_key_id_hex job]"
    and "job_of E dir (rl_host s) (ref_job_id job) = Some md" and "md_job_id md = ref_job_id job"
    and "md_status md \<noteq> JOB_STATUS_COMPLETE" and "md_normalized_len md = None"
    and "fault (rl_host s) (tick (rl_host s)) = None"
    and "process_job_inner E cfg job s = (Inr (), s')"
  shows "\<exists>md' body. job_of E dir (rl_host s') (ref_job_id job) = Some md' \<and> md_status md' = JOB_STATUS_COMPLETE \<and>
    md_kind md' = md_kind md \<and> md_source md' = md_source md \<and> md_expires_at_ms md' = md_expires_at_ms md \<and>
    content (rl_host s') (primary_object_path dir (ref_job_id job)) = Some body \<and> length body \<le> cf_max_object_len cfg \<and>
    md_body_len md' = word_of_nat (length body) \<and> md_sha256 md' = Some (hex_lower (sha256 (net_crypto E) body)) \<and>
    (md_normalized_len md' \<noteq> None \<longrightarrow>
       content (rl_host s') (normalized_object_path dir (ref_job_id job)) = Some (as_bytes (html_to_markdown (from_utf8_lossy body))))"
proof -
  obtain started s1 where st: "job_start E dir job s = (Inr started, s1)"
    using assms(8) by (auto simp: process_job_inner_def comp_eqs assms(2) Let_def)
  obtain now where md1: "started = Some (md\<lparr>md_status := JOB_STATUS_RUNNING, md_updated_at_ms := now\<rparr>)"
    using job_start_Inr [OF assms(1) st assms(7,3,5)] by blast
  let ?md1 = "md\<lparr>md_status := JOB_STATUS_RUNNING, md_updated_at_ms := now\<rparr>"
  obtain out s2 digest s3 where commit: "job_commit E cfg dir ?md1 out s2 = (Inr digest, s3)"
    and fin: "job_finish E dir ?md1 out digest s3 = (Inr (), s')"
    using assms(8) st md1 by (auto simp: process_job_inner_def comp_eqs assms(2) Let_def)
  note c = job_commit_Inr [OF commit]
  let ?md2 = "?md1\<lparr>md_body_len := word_of_nat (length (out_body out)), md_http_status := out_http_status out,
      md_content_type := out_content_type out, md_sha256 := Some digest\<rparr>"
  obtain md3 s4 now2 s5 where n: "job_normalize E dir ?md2 out s3 = (Inr md3, s4)"
    and t: "unix_timestamp_ms E s4 = (Inr now2, s5)"
    and w: "write_metadata E dir (md3\<lparr>md_status := JOB_STATUS_COMPLETE, md_error := None, md_updated_at_ms := now2\<rparr>) s5 = (Inr (), s')"
    using fin by (auto simp: job_finish_def comp_eqs Let_def)
  let ?md4 = "md3\<lparr>md_status := JOB_STATUS_COMPLETE, md_error := None, md_updated_at_ms := now2\<rparr>"
  have id: "md_job_id md3 = ref_job_id job" and md3: "md3 = ?md2 \<or> (\<exists>k. md3 = ?md2\<lparr>md_normalized_len := Some k\<rparr> \<and>
      content (rl_host s4) (normalized_object_path dir (ref_job_id job)) = Some (as_bytes (html_to_markdown (from_utf8_lossy (out_body out)))))"
    using job_normalize_Inr [OF n] assms(4) by auto
  have p3: "content (rl_host s3) (primary_object_path dir (ref_job_id job)) = Some (out_body out)"
    using c assms(4) by simp
  have p4: "content (rl_host s4) (primary_object_path dir (ref_job_id job)) = Some (out_body out)"
    using keepsD [OF keeps_job_normalize _ n] p3 job_paths_distinct(3) by metis
  have h5: "rl_host s5 = rl_host s4" using t by (auto simp: unix_timestamp_ms_def)
  have keep: "content (rl_host s') q = content (rl_host s4) q"
    if "q \<in> {primary_object_path dir (ref_job_id job), normalized_object_path dir (ref_job_id job)}" for q
    using write_metadata_Inr(2) [OF assms(1) w, of q] that job_paths_distinct h5 by (auto simp: id) metis+
  have "job_of E dir (rl_host s') (ref_job_id job) = Some ?md4"
    using write_metadata_Inr(1) [OF assms(1) w] id by simp
  moreover have "content (rl_host s') (primary_object_path dir (ref_job_id job)) = Some (out_body out)"
    using keep p4 by simp
  moreover have "md_normalized_len ?md4 \<noteq> None \<longrightarrow> content (rl_host s') (normalized_object_path dir (ref_job_id job)) =
      Some (as_bytes (html_to_markdown (from_utf8_lossy (out_body out))))"
    using md3 keep assms(6) by auto
  ultimately show ?thesis
    using md3 c by (intro exI [of _ ?md4] exI [of _ "out_body out"]) auto
qed

lemma write_metadata_quiet:
  assumes "quiet (rl_host s)" and "meta_to_toml E md \<noteq> None" and "dir @ [''jobs''] \<in> set (dirs (rl_host s))"
    and "metadata_path dir (md_job_id md) \<notin> set (dirs (rl_host s))"
    and "with_extension (metadata_path dir (md_job_id md)) ''toml.tmp'' \<notin> set (dirs (rl_host s))"
    and "plain_id (md_job_id md)"
  shows "\<exists>s'. write_metadata E dir md s = (Inr (), s') \<and> quiet (rl_host s') \<and> dirs (rl_host s') = dirs (rl_host s) \<and>
    rl_net s' = rl_net s"
proof -
  have "parent_exists h (metadata_path dir (md_job_id md))"
      "parent_exists h (with_extension (metadata_path dir (md_job_id md)) ''toml.tmp'')" if "dirs h = dirs (rl_host s)" for h
    using assms(3) that by (simp_all add: parent_exists_def parent_def plain_job_paths [OF assms(6)] with_extension_def butlast_append)
  then show ?thesis
    using assms by (auto simp: write_metadata_def Let_def c_bind_def rl_io_def io_write_def io_create_def io_write_all_def
        io_rename_def io_call_def quiet_def)
qed

text \<open>
  A failed job says so: when processing a job ends with an error and its record can still be read and
  written, the record ends up failed with the error's message, and that message is what the client is
  answered from then on.
\<close>

theorem job_failure_recorded:
  assumes "toml_ok E" and "process_job_inner E cfg job s = (Inl e, s1)"
    and "dir = cf_spool_dir cfg @ [ref_key_id_hex job]" and "quiet (rl_host s1)"
    and "job_of E dir (rl_host s1) (ref_job_id job) = Some md" and "md_job_id md = ref_job_id job"
    and "meta_to_toml E (md\<lparr>md_status := JOB_STATUS_FAILED, md_error := Some e, md_updated_at_ms := word_of_nat ms\<rparr>) \<noteq> None"
    and "dir @ [''jobs''] \<in> set (dirs (rl_host s1))" and "metadata_path dir (ref_job_id job) \<notin> set (dirs (rl_host s1))"
    and "with_extension (metadata_path dir (ref_job_id job)) ''toml.tmp'' \<notin> set (dirs (rl_host s1))"
    and "now_ms E (rl_clock s1) = Some ms" and "plain_id (ref_job_id job)"
  shows "\<exists>s'. process_job E cfg job s = (Inr (), s') \<and>
    (\<exists>md'. job_of E dir (rl_host s') (ref_job_id job) = Some md' \<and> md_status md' = JOB_STATUS_FAILED \<and> md_error md' = Some e \<and>
       (\<forall>now offset n a. now < md_expires_at_ms md \<longrightarrow>
          download_spec (abs_store E dir (rl_host s')) now (ref_job_id job) offset n a =
          relay_status_response GHOST_RELAY_STATUS_FAILED (as_bytes e)))"
proof -
  let ?s2 = "s1\<lparr>rl_host := rl_host s1\<lparr>tick := tick (rl_host s1) + 1\<rparr>\<rparr>"
  have read: "read_metadata E (metadata_path dir (ref_job_id job)) s1 = (Inr md, ?s2)"
    using read_metadata_quiet [OF assms(4,5)] .
  let ?s3 = "?s2\<lparr>rl_clock := rl_clock s1 + 1\<rparr>"
  have clk: "unix_timestamp_ms E ?s2 = (Inr (word_of_nat ms), ?s3)"
    using assms(11) by (simp add: unix_timestamp_ms_def)
  let ?md = "md\<lparr>md_status := JOB_STATUS_FAILED, md_error := Some e, md_updated_at_ms := word_of_nat ms\<rparr>"
  obtain s4 where w: "write_metadata E dir ?md ?s3 = (Inr (), s4)"
    using write_metadata_quiet [of ?s3 E ?md dir] assms(4-10,12) by (auto simp: quiet_def)
  have "job_failed E dir job e s1 = (Inr (), s4)"
    using read clk w by (simp add: job_failed_def c_bind_def c_attempt_def Let_def)
  then have "process_job E cfg job s = (Inr (), s4)"
    using assms(2,3) by (simp add: process_job_def c_bind_def c_attempt_def)
  moreover have "job_of E dir (rl_host s4) (ref_job_id job) = Some ?md"
    using write_metadata_Inr(1) [OF assms(1) w] assms(6) by simp
  ultimately show ?thesis
    by (intro exI [of _ s4] conjI exI [of _ ?md])
      (auto simp: download_eqs abs_store_def not_le simp del: encode_answer.simps)
qed

section \<open>Quotas\<close>

definition record_at :: "relay_env \<Rightarrow> host \<Rightarrow> path \<Rightarrow> RelayJobMetadata option" where
  "record_at E h p = Option.bind (content h p) (\<lambda>c. Option.bind (from_utf8 c) (meta_from_toml E))"

text \<open>The unexpired records of a client, and what they count for.\<close>

definition live_jobs :: "relay_env \<Rightarrow> host \<Rightarrow> path \<Rightarrow> u64 \<Rightarrow> RelayJobMetadata list" where
  "live_jobs E h dir now =
     filter (\<lambda>md. now < md_expires_at_ms md)
       (List.map_filter (record_at E h) (filter (\<lambda>p. extension p = Some ''toml'') (dir_entries h (dir @ [''jobs'']))))"

definition job_bytes :: "RelayJobMetadata \<Rightarrow> u64" where
  "job_bytes md = md_body_len md + case_option 0 id (md_normalized_len md)"

lemma read_metadata_record:
  assumes "quiet (rl_host s)"
  shows "\<exists>e. read_metadata E p s = (case record_at E (rl_host s) p of Some md \<Rightarrow> Inr md | None \<Rightarrow> Inl e,
     s\<lparr>rl_host := rl_host s\<lparr>tick := tick (rl_host s) + 1\<rparr>\<rparr>)"
proof (cases "content (rl_host s) p")
  case None
  then show ?thesis
    using assms by (auto simp: read_metadata_def rl_io_def io_read_to_string_def c_bind_def io_read_def io_call_def record_at_def Let_def)
next
  case (Some c)
  then show ?thesis
    using assms
    by (cases "from_utf8 c"; cases "meta_from_toml E (the (from_utf8 c))")
      (simp_all add: read_metadata_def rl_io_def io_read_to_string_def c_bind_def io_read_def io_call_def record_at_def Let_def)
qed

definition counted :: "relay_env \<Rightarrow> host \<Rightarrow> u64 \<Rightarrow> path \<Rightarrow> RelayJobMetadata option" where
  "counted E h now p =
     (if extension p = Some ''toml''
      then case record_at E h p of Some md \<Rightarrow> if now < md_expires_at_ms md then Some md else None | None \<Rightarrow> None
      else None)"

lemma live_jobs_counted: "live_jobs E h dir now = List.map_filter (counted E h now) (dir_entries h (dir @ [''jobs'']))"
proof -
  have "filter (\<lambda>md. now < md_expires_at_ms md) (List.map_filter (record_at E h) (filter (\<lambda>p. extension p = Some ''toml'') ps)) =
      List.map_filter (counted E h now) ps" for ps
    by (induction ps) (auto simp: counted_def List.map_filter_simps split: option.splits)
  then show ?thesis by (simp add: live_jobs_def)
qed

lemma usage_entry_quiet:
  assumes "quiet (rl_host s)"
  shows "\<exists>s'. usage_entry E now p acc s =
      (Inr (case counted E (rl_host s) now p of None \<Rightarrow> acc | Some md \<Rightarrow> (fst acc + 1, snd acc + job_bytes md)), s') \<and> same_store s s'"
proof -
  let ?s1 = "s\<lparr>rl_host := rl_host s\<lparr>tick := tick (rl_host s) + 1\<rparr>\<rparr>"
  have q: "quiet (rl_host ?s1)" using assms by (simp add: quiet_def)
  have e: "rl_io E (io_entry p) s = (Inr p, ?s1)" using assms by (simp add: rl_io_def io_entry_def io_call_def)
  obtain er where r: "read_metadata E p ?s1 = (case record_at E (rl_host ?s1) p of Some md \<Rightarrow> Inr md | None \<Rightarrow> Inl er,
      ?s1\<lparr>rl_host := rl_host ?s1\<lparr>tick := tick (rl_host ?s1) + 1\<rparr>\<rparr>)"
    using read_metadata_record [OF q] by blast
  have "record_at E (rl_host ?s1) p = record_at E (rl_host s) p" by (simp add: record_at_def)
  with e r show ?thesis
    by (auto simp: usage_entry_def c_bind_def c_attempt_def counted_def job_bytes_def same_store_def not_le not_less
        split: option.splits)
qed

lemma usage_fold_quiet:
  assumes "quiet (rl_host s)"
  shows "\<exists>s'. c_fold (usage_entry E now) ps acc s =
      (Inr (fst acc + length (List.map_filter (counted E (rl_host s) now) ps),
            snd acc + sum_list (map job_bytes (List.map_filter (counted E (rl_host s) now) ps))), s') \<and> same_store s s'"
  using assms
proof (induction ps arbitrary: acc s)
  case Nil
  then show ?case by (simp add: same_store_refl List.map_filter_simps)
next
  case (Cons p ps)
  let ?acc = "case counted E (rl_host s) now p of None \<Rightarrow> acc | Some md \<Rightarrow> (fst acc + 1, snd acc + job_bytes md)"
  obtain s1 where u: "usage_entry E now p acc s = (Inr ?acc, s1)" and ss: "same_store s s1"
    using usage_entry_quiet [OF Cons.prems] by blast
  have q1: "quiet (rl_host s1)" using ss Cons.prems by (simp add: same_store_def quiet_def)
  have "counted E (rl_host s1) now = counted E (rl_host s) now"
    using ss by (simp add: same_store_def counted_def record_at_def fun_eq_iff)
  with Cons.IH [OF q1, of ?acc] obtain s2 where
      "c_fold (usage_entry E now) ps ?acc s1 =
        (Inr (fst ?acc + length (List.map_filter (counted E (rl_host s) now) ps),
              snd ?acc + sum_list (map job_bytes (List.map_filter (counted E (rl_host s) now) ps))), s2)" "same_store s1 s2"
    by auto
  with u ss show ?case
    by (auto simp: c_bind_def List.map_filter_simps add.assoc intro: same_store_trans split: option.splits)
qed

lemma client_usage_quiet:
  assumes "quiet (rl_host s)" and "dir @ [''jobs''] \<in> set (dirs (rl_host s))" and "now_ms E (rl_clock s) = Some ms"
  shows "\<exists>s'. client_usage E dir s = (Inr (length (live_jobs E (rl_host s) dir (word_of_nat ms)),
      sum_list (map job_bytes (live_jobs E (rl_host s) dir (word_of_nat ms)))), s') \<and> same_store s s'"
proof -
  let ?s2 = "s\<lparr>rl_clock := rl_clock s + 1, rl_host := rl_host s\<lparr>tick := tick (rl_host s) + 2\<rparr>\<rparr>"
  have q: "quiet (rl_host ?s2)" using assms(1) by (simp add: quiet_def)
  have eq: "client_usage E dir s = c_fold (usage_entry E (word_of_nat ms)) (dir_entries (rl_host s) (dir @ [''jobs''])) (0, 0) ?s2"
    using assms by (simp add: client_usage_def c_bind_def rl_test_def io_is_dir_def unix_timestamp_ms_def rl_io_def io_read_dir_def
        io_call_def dir_entries_def Let_def)
  have "counted E (rl_host ?s2) = counted E (rl_host s)" by (simp add: counted_def record_at_def fun_eq_iff)
  moreover have "same_store s ?s2" by (simp add: same_store_def)
  ultimately show ?thesis
    using usage_fold_quiet [OF q, of E "word_of_nat ms" "dir_entries (rl_host s) (dir @ [''jobs''])" "(0, 0)"] eq same_store_trans
    by (auto simp: live_jobs_counted)
qed

text \<open>
  C37. Quotas: on a host that works, what the engine counts is exactly the number of the client's
  unexpired readable records and the sum of the object and markdown lengths they state, and counting
  changes nothing; a client at its job or storage limit is answered with the quota
  status and nothing changes; and a worker stores an object only when it fits the remaining bytes and
  the object limit.
\<close>

theorem quota_enforced:
  assumes "quiet (rl_host s)" and "client_dir cfg key @ [''jobs''] \<in> set (dirs (rl_host s))" and "now_ms E (rl_clock s) = Some ms"
    and "live = live_jobs E (rl_host s) (client_dir cfg key) (word_of_nat ms)"
  shows "(\<exists>s1. client_usage E (client_dir cfg key) s = (Inr (length live, sum_list (map job_bytes live)), s1) \<and> same_store s s1) \<and>
    (cf_max_jobs_per_client cfg \<le> length live \<or> cf_max_bytes_per_client cfg \<le> sum_list (map job_bytes live) \<longrightarrow>
      (\<exists>msg s'. enqueue E cfg key kind src norm s = (Inr (relay_status_response GHOST_RELAY_STATUS_QUOTA msg), s') \<and> same_store s s')) \<and>
    (job_commit E cfg (client_dir cfg key) md out s = (Inr digest, s') \<longrightarrow>
      saturating_add (sum_list (map job_bytes live)) (word_of_nat (length (out_body out))) \<le> cf_max_bytes_per_client cfg \<and>
      length (out_body out) \<le> cf_max_object_len cfg)"
proof -
  obtain s1 where u: "client_usage E (client_dir cfg key) s = (Inr (length live, sum_list (map job_bytes live)), s1)"
    and ss: "same_store s s1"
    using client_usage_quiet [OF assms(1-3)] assms(4) by blast
  then show ?thesis
    using u job_commit_Inr [of E cfg "client_dir cfg key" md out s digest s'] by (auto simp: enqueue_def c_bind_def Let_def)
qed

section \<open>A small engine\<close>

text \<open>
  A codec of job records as lines: it refuses what it could not read back, so it satisfies what is
  assumed of the TOML codec.
\<close>

definition show_opt :: "('a \<Rightarrow> string) \<Rightarrow> 'a option \<Rightarrow> string" where
  "show_opt f x = (case x of None \<Rightarrow> ''-'' | Some y \<Rightarrow> ''='' @ f y)"

definition read_opt :: "(string \<Rightarrow> 'a) \<Rightarrow> string \<Rightarrow> 'a option" where
  "read_opt f s = (case s of [] \<Rightarrow> None | c # cs \<Rightarrow> if c = CHR ''='' then Some (f cs) else None)"

definition word_text :: "'a::len word \<Rightarrow> string" where
  "word_text w = nat_digits (unat w)"

definition text_word :: "string \<Rightarrow> 'a::len word" where
  "text_word s = (case from_str_radix (2 ^ 64) 10 s of None \<Rightarrow> 0 | Some n \<Rightarrow> word_of_nat n)"

definition lines_from :: "string \<Rightarrow> RelayJobMetadata option" where
  "lines_from t =
     (case split_on (CHR 0x0A) t of
        [i, k, st, src, n, hs, ct, bl, nl, sha, er, cr, up, ex] \<Rightarrow>
          Some \<lparr>md_job_id = i, md_kind = k, md_status = st, md_source = src, md_normalize = (n = ''1''),
                md_http_status = read_opt text_word hs, md_content_type = read_opt id ct, md_body_len = text_word bl,
                md_normalized_len = read_opt text_word nl, md_sha256 = read_opt id sha, md_error = read_opt id er,
                md_created_at_ms = text_word cr, md_updated_at_ms = text_word up, md_expires_at_ms = text_word ex\<rparr>
      | _ \<Rightarrow> None)"

definition lines_to :: "RelayJobMetadata \<Rightarrow> string option" where
  "lines_to md =
     (let t = join [CHR 0x0A] [md_job_id md, md_kind md, md_status md, md_source md, if md_normalize md then ''1'' else ''0'',
            show_opt word_text (md_http_status md), show_opt id (md_content_type md), word_text (md_body_len md),
            show_opt word_text (md_normalized_len md), show_opt id (md_sha256 md), show_opt id (md_error md),
            word_text (md_created_at_ms md), word_text (md_updated_at_ms md), word_text (md_expires_at_ms md)]
      in if lines_from t = Some md \<and> valid_str t then Some t else None)"

definition demo_env :: relay_env where
  "demo_env = relay_net.extend (demo_net (\<lambda>_. V4 0x01010101))
     \<lparr>now_ms = (\<lambda>_. Some 5), meta_to_toml = lines_to, meta_from_toml = lines_from, io_text = (\<lambda>_. ''io''),
      run_cmd = (\<lambda>argv h. (CmdSpawnFailed, h))\<rparr>"

lemma demo_env_sel [simp]:
  "now_ms demo_env n = Some 5" "meta_to_toml demo_env = lines_to" "meta_from_toml demo_env = lines_from"
  "net_crypto demo_env = toy_crypto" "run_cmd demo_env argv h = (CmdSpawnFailed, h)"
  by (simp_all add: demo_env_def relay_net.defs demo_net_def)

lemma demo_env_ok: "toml_ok demo_env" "git_confined demo_env"
  by (auto simp: toml_ok_def lines_to_def Let_def git_confined_def split: if_splits)

definition demo_cfg :: RelayConfig where
  "demo_cfg = RelayConfig_default\<lparr>cf_spool_dir := [''s''], cf_max_bytes_per_client := 3\<rparr>"

definition demo_md :: "string \<Rightarrow> string \<Rightarrow> RelayJobMetadata" where
  "demo_md i k = \<lparr>md_job_id = i, md_kind = k, md_status = ''running'', md_source = ''http://a/'', md_normalize = False,
     md_http_status = None, md_content_type = None, md_body_len = 0, md_normalized_len = None, md_sha256 = None, md_error = None,
     md_created_at_ms = 1, md_updated_at_ms = 1, md_expires_at_ms = 9\<rparr>"

definition demo_relay :: "RelayJobMetadata list \<Rightarrow> relay" where
  "demo_relay mds = \<lparr>rl_host = \<lparr>files = map (\<lambda>md. (metadata_path [''s'', ''11''] (md_job_id md), as_bytes (the (lines_to md)))) mds,
     dirs = [[''s'', ''11'', ''jobs''], [''s'', ''11'', ''objects'']], tick = 0, fault = (\<lambda>_. None)\<rparr>,
     rl_net = \<lparr>lookups = 0, contacts = []\<rparr>, rl_clock = 0, rl_queue = []\<rparr>"

lemma digit_chars [simp]:
  "digit_char 0 = CHR ''0''" "digit_char (Suc 0) = CHR ''1''" "digit_char 1 = CHR ''1''" "digit_char 2 = CHR ''2''" "digit_char 3 = CHR ''3''"
  "digit_char 4 = CHR ''4''" "digit_char 5 = CHR ''5''" "digit_char 6 = CHR ''6''" "digit_char 7 = CHR ''7''" "digit_char 8 = CHR ''8''"
  "digit_char 9 = CHR ''9''"
  by code_simp+

lemmas codec_eval = lines_to_def lines_from_def show_opt_def read_opt_def word_text_def text_word_def from_str_radix_def
  nat_digits.simps digit_value_def valid_str_def utf8_valid_ascii Let_def

lemma demo_codec: "lines_to (demo_md ''a'' ''x'') \<noteq> None" "lines_to (demo_md ''b'' ''x'') \<noteq> None"
  by (simp_all add: codec_eval demo_md_def)

section \<open>Two jobs at once\<close>

lemma keys_insert: "hm_keys (hm_insert k v m) = (if hm_get m k = None then hm_keys m @ [k] else hm_keys m)"
  by (induction m) (auto simp: hm_keys_def hm_insert_def hm_get_def)

lemma live_jobs_object:
  assumes "files h' = hm_insert (primary_object_path dir i) body (files h)" and "dirs h' = dirs h" and "plain_id i"
  shows "live_jobs E h' dir now = live_jobs E h dir now"
proof -
  let ?p = "primary_object_path dir i"
  have no: "butlast ?p \<noteq> dir @ [''jobs'']" by (simp add: plain_job_paths [OF assms(3)] butlast_append)
  then have entries: "dir_entries h' (dir @ [''jobs'']) = dir_entries h (dir @ [''jobs''])"
    using assms by (simp add: dir_entries_def keys_insert)
  have "counted E h' now q = counted E h now q" if "q \<in> set (dir_entries h (dir @ [''jobs'']))" for q
  proof -
    have "q \<noteq> ?p" using that no by (auto simp: dir_entries_def)
    then show ?thesis using assms(1) by (simp add: counted_def record_at_def)
  qed
  moreover have "(\<And>q. q \<in> set qs \<Longrightarrow> f q = g q) \<Longrightarrow> List.map_filter f qs = List.map_filter g qs" for f g :: "path \<Rightarrow> RelayJobMetadata option" and qs
    by (induction qs) (auto split: option.splits)
  ultimately show ?thesis
    unfolding live_jobs_counted entries by blast
qed

lemma job_commit_quiet:
  assumes "quiet (rl_host s)" and "dir @ [''jobs''] \<in> set (dirs (rl_host s))" and "dir @ [''objects''] \<in> set (dirs (rl_host s))"
    and "primary_object_path dir (md_job_id md) \<notin> set (dirs (rl_host s))" and "now_ms E (rl_clock s) = Some ms"
    and "saturating_add (sum_list (map job_bytes (live_jobs E (rl_host s) dir (word_of_nat ms)))) (word_of_nat (length (out_body out)))
      \<le> cf_max_bytes_per_client cfg" and "length (out_body out) \<le> cf_max_object_len cfg" and "plain_id (md_job_id md)"
  shows "\<exists>digest s'. job_commit E cfg dir md out s = (Inr digest, s') \<and> quiet (rl_host s') \<and> dirs (rl_host s') = dirs (rl_host s) \<and>
    files (rl_host s') = hm_insert (primary_object_path dir (md_job_id md)) (out_body out)
      (hm_insert (primary_object_path dir (md_job_id md)) [] (files (rl_host s)))"
proof -
  obtain s1 where u: "client_usage E dir s = (Inr (length (live_jobs E (rl_host s) dir (word_of_nat ms)),
      sum_list (map job_bytes (live_jobs E (rl_host s) dir (word_of_nat ms)))), s1)" and ss: "same_store s s1"
    using client_usage_quiet [OF assms(1,2,5)] by blast
  have q1: "quiet (rl_host s1)" using ss assms(1) by (simp add: same_store_def quiet_def)
  have "parent_exists h (primary_object_path dir (md_job_id md))" if "dirs h = dirs (rl_host s1)" for h
    using assms(3) that ss by (simp add: parent_exists_def parent_def plain_job_paths [OF assms(8)] butlast_append same_store_def)
  then show ?thesis
    using u assms(4,6,7) q1 ss
    by (simp add: job_commit_def c_bind_def rl_io_def io_write_def io_create_def io_write_all_def io_call_def Let_def same_store_def
        not_less quiet_def)
qed

text \<open>
  The quota lock does not make the quota hold: each object is checked and written under the lock, but
  the record that counts it is written later. Two running jobs of a client whose results each fit, and
  which reach that point before either record is finished, are both stored, so together they may exceed
  the limit.
\<close>

theorem quota_race:
  assumes "quiet (rl_host s)" and "\<And>n. now_ms E n = Some ms"
    and "\<forall>d \<in> {''jobs'', ''objects''}. dir @ [d] \<in> set (dirs (rl_host s))"
    and "\<forall>md \<in> {md1, md2}. primary_object_path dir (md_job_id md) \<notin> set (dirs (rl_host s))" and "md_job_id md1 \<noteq> md_job_id md2"
    and "plain_id (md_job_id md1)" and "plain_id (md_job_id md2)"
    and "\<forall>out \<in> {out1, out2}. length (out_body out) \<le> cf_max_object_len cfg \<and>
      saturating_add (sum_list (map job_bytes (live_jobs E (rl_host s) dir (word_of_nat ms)))) (word_of_nat (length (out_body out)))
        \<le> cf_max_bytes_per_client cfg"
  shows "\<exists>d1 s1 d2 s2. job_commit E cfg dir md1 out1 s = (Inr d1, s1) \<and> job_commit E cfg dir md2 out2 s1 = (Inr d2, s2) \<and>
    content (rl_host s2) (primary_object_path dir (md_job_id md1)) = Some (out_body out1) \<and>
    content (rl_host s2) (primary_object_path dir (md_job_id md2)) = Some (out_body out2)"
proof -
  obtain d1 s1 where c1: "job_commit E cfg dir md1 out1 s = (Inr d1, s1)" "quiet (rl_host s1)" "dirs (rl_host s1) = dirs (rl_host s)"
    and f1: "files (rl_host s1) = hm_insert (primary_object_path dir (md_job_id md1)) (out_body out1)
      (hm_insert (primary_object_path dir (md_job_id md1)) [] (files (rl_host s)))"
    using job_commit_quiet [of s dir md1 E ms out1 cfg] assms by auto
  have "live_jobs E (rl_host s1) dir now = live_jobs E (rl_host s) dir now" for now
    using live_jobs_object [of "rl_host s1" dir "md_job_id md1" "out_body out1"
        "rl_host s\<lparr>files := hm_insert (primary_object_path dir (md_job_id md1)) [] (files (rl_host s))\<rparr>" E now, OF _ _ assms(6)]
      live_jobs_object [of "rl_host s\<lparr>files := hm_insert (primary_object_path dir (md_job_id md1)) [] (files (rl_host s))\<rparr>"
        dir "md_job_id md1" "[]" "rl_host s" E now, OF _ _ assms(6)] f1 c1(3) by simp
  then obtain d2 s2 where "job_commit E cfg dir md2 out2 s1 = (Inr d2, s2)"
    and "files (rl_host s2) = hm_insert (primary_object_path dir (md_job_id md2)) (out_body out2)
      (hm_insert (primary_object_path dir (md_job_id md2)) [] (files (rl_host s1)))"
    using job_commit_quiet [of s1 dir md2 E ms out2 cfg] assms c1(2,3) by auto
  moreover have "primary_object_path dir (md_job_id md1) \<noteq> primary_object_path dir (md_job_id md2)"
    using assms(5-7) by (simp add: plain_job_paths)
  ultimately show ?thesis using c1(1) f1 by auto
qed

section \<open>Witnesses\<close>

lemma lines_read_back: "lines_to md = Some t \<Longrightarrow> from_utf8 (as_bytes t) = Some t \<and> lines_from t = Some md"
  using demo_env_ok(1) from_utf8_as_bytes by (auto simp: toml_ok_def)

lemma demo_job:
  assumes "lines_to md \<noteq> None"
  shows "job_of demo_env [''s'', ''11''] (rl_host (demo_relay [md])) (md_job_id md) = Some md"
proof -
  obtain t where "lines_to md = Some t" using assms by auto
  then show ?thesis
    using lines_read_back by (simp add: job_of_def demo_relay_def hm_get_def)
qed

lemma demo_relay_host:
  "quiet (rl_host (demo_relay mds))" "dirs (rl_host (demo_relay mds)) = [[''s'', ''11'', ''jobs''], [''s'', ''11'', ''objects'']]"
  "rl_clock (demo_relay mds) = 0"
  by (simp_all add: demo_relay_def quiet_def)

lemma demo_ids [simp]: "plain_id ''a''" "plain_id ''b''"
  by (simp_all add: plain_id_def is_ascii_hexdigit_def)

lemmas demo_paths = plain_job_paths [OF demo_ids(1)] plain_job_paths [OF demo_ids(2)]

lemma demo_live:
  assumes "plain_id (md_job_id md)" and "lines_to md \<noteq> None" and "5 < md_expires_at_ms md" and "extension (metadata_path [''s'', ''11''] (md_job_id md)) = Some ''toml''"
  shows "live_jobs demo_env (rl_host (demo_relay [md])) [''s'', ''11''] 5 = [md]"
proof -
  obtain t where "lines_to md = Some t" using assms(2) by auto
  then have "record_at demo_env (rl_host (demo_relay [md])) (metadata_path [''s'', ''11''] (md_job_id md)) = Some md"
    using lines_read_back by (simp add: record_at_def demo_relay_def hm_get_def)
  moreover have "dir_entries (rl_host (demo_relay [md])) [''s'', ''11'', ''jobs''] = [metadata_path [''s'', ''11''] (md_job_id md)]"
    by (simp add: dir_entries_def demo_relay_def hm_keys_def plain_job_paths [OF assms(1)])
  ultimately show ?thesis
    using assms(3,4) by (simp add: live_jobs_def)
qed

lemma demo_ext: "extension (metadata_path [''s'', ''11''] ''a'') = Some ''toml''"
  by (simp add: extension_def demo_paths rsplit_once_def split_once_def)

lemma demo_client_dir: "client_dir demo_cfg [0x11] = [''s'', ''11'']"
  by (simp add: client_dir_def demo_cfg_def key_id_hex_def hex_byte_def)

theorem quota_enforced_witness:
  "(\<exists>s1. client_usage demo_env (client_dir (demo_cfg\<lparr>cf_max_jobs_per_client := 1\<rparr>) [0x11]) (demo_relay [demo_md ''a'' ''x'']) = (Inr (1, 0), s1)) \<and>
   (\<exists>msg s'. enqueue demo_env (demo_cfg\<lparr>cf_max_jobs_per_client := 1\<rparr>) [0x11] ''web_fetch'' ''http://a/'' False
     (demo_relay [demo_md ''a'' ''x'']) = (Inr (relay_status_response GHOST_RELAY_STATUS_QUOTA msg), s'))"
proof -
  let ?s = "demo_relay [demo_md ''a'' ''x'']" and ?cfg = "demo_cfg\<lparr>cf_max_jobs_per_client := 1\<rparr>"
  have dir: "client_dir ?cfg [0x11] = [''s'', ''11'']" using demo_client_dir by (simp add: client_dir_def)
  have "live_jobs demo_env (rl_host ?s) (client_dir ?cfg [0x11]) (word_of_nat 5) = [demo_md ''a'' ''x'']"
    using demo_live [OF _ demo_codec(1)] demo_ext dir by (simp add: demo_md_def)
  moreover have "job_bytes (demo_md ''a'' ''x'') = 0" by (simp add: job_bytes_def demo_md_def)
  ultimately show ?thesis
    using quota_enforced [of ?s ?cfg "[0x11]" demo_env 5 "[demo_md ''a'' ''x'']" "''web_fetch''" "''http://a/''" False
        "demo_md ''a'' ''x''" "\<lparr>out_body = [], out_http_status = None, out_content_type = None\<rparr>" "[]" ?s]
      demo_relay_host dir by auto
qed

definition demo_out :: JobOutcome where
  "demo_out = \<lparr>out_body = [1, 1], out_http_status = None, out_content_type = None\<rparr>"

theorem quota_race_witness:
  "\<exists>d1 s1 d2 s2. job_commit demo_env demo_cfg [''s'', ''11''] (demo_md ''a'' ''x'') demo_out (demo_relay [demo_md ''a'' ''x'']) = (Inr d1, s1) \<and>
     job_commit demo_env demo_cfg [''s'', ''11''] (demo_md ''b'' ''x'') demo_out s1 = (Inr d2, s2) \<and>
     cf_max_bytes_per_client demo_cfg < word_of_nat (length (out_body demo_out) + length (out_body demo_out))"
proof -
  let ?s = "demo_relay [demo_md ''a'' ''x'']"
  have l: "live_jobs demo_env (rl_host ?s) [''s'', ''11''] 5 = [demo_md ''a'' ''x'']"
    using demo_live [OF _ demo_codec(1)] demo_ext by (simp add: demo_md_def)
  have "\<exists>d1 s1 d2 s2. job_commit demo_env demo_cfg [''s'', ''11''] (demo_md ''a'' ''x'') demo_out ?s = (Inr d1, s1) \<and>
      job_commit demo_env demo_cfg [''s'', ''11''] (demo_md ''b'' ''x'') demo_out s1 = (Inr d2, s2) \<and>
      content (rl_host s2) (primary_object_path [''s'', ''11''] (md_job_id (demo_md ''a'' ''x''))) = Some (out_body demo_out) \<and>
      content (rl_host s2) (primary_object_path [''s'', ''11''] (md_job_id (demo_md ''b'' ''x''))) = Some (out_body demo_out)"
  proof (rule quota_race [where ms = 5])
    show "\<forall>out \<in> {demo_out, demo_out}. length (out_body out) \<le> cf_max_object_len demo_cfg \<and>
      saturating_add (sum_list (map job_bytes (live_jobs demo_env (rl_host ?s) [''s'', ''11''] (word_of_nat 5)))) (word_of_nat (length (out_body out)))
        \<le> cf_max_bytes_per_client demo_cfg"
      using l by (simp add: demo_out_def demo_cfg_def RelayConfig_default_def job_bytes_def demo_md_def saturating_add_def)
  qed (simp_all add: demo_relay_host, auto simp: demo_paths demo_md_def)
  then show ?thesis by (auto simp: demo_out_def demo_cfg_def)
qed

text \<open>A running demo: the first steps of processing the one job.\<close>

lemma demo_started:
  assumes id: "plain_id (md_job_id md)" and md: "lines_to md \<noteq> None" and "lines_to (md\<lparr>md_status := JOB_STATUS_RUNNING, md_updated_at_ms := 5\<rparr>) \<noteq> None"
    and "md_status md \<noteq> JOB_STATUS_COMPLETE"
  shows "\<exists>s1. job_start demo_env [''s'', ''11''] \<lparr>ref_key_id_hex = ''11'', ref_job_id = md_job_id md\<rparr> (demo_relay [md]) =
      (Inr (Some (md\<lparr>md_status := JOB_STATUS_RUNNING, md_updated_at_ms := 5\<rparr>)), s1) \<and> quiet (rl_host s1) \<and>
      dirs (rl_host s1) = [[''s'', ''11'', ''jobs''], [''s'', ''11'', ''objects'']] \<and> rl_net s1 = \<lparr>lookups = 0, contacts = []\<rparr> \<and>
      job_of demo_env [''s'', ''11''] (rl_host s1) (md_job_id md) = Some (md\<lparr>md_status := JOB_STATUS_RUNNING, md_updated_at_ms := 5\<rparr>)"
proof -
  let ?md = "md\<lparr>md_status := JOB_STATUS_RUNNING, md_updated_at_ms := 5\<rparr>"
  let ?s2 = "demo_relay [md]\<lparr>rl_host := rl_host (demo_relay [md])\<lparr>tick := tick (rl_host (demo_relay [md])) + 1\<rparr>, rl_clock := 1\<rparr>"
  have r: "read_metadata demo_env (metadata_path [''s'', ''11''] (md_job_id md)) (demo_relay [md]) =
      (Inr md, demo_relay [md]\<lparr>rl_host := rl_host (demo_relay [md])\<lparr>tick := tick (rl_host (demo_relay [md])) + 1\<rparr>\<rparr>)"
    by (rule read_metadata_quiet [OF demo_relay_host(1) demo_job [OF md]])
  obtain s1 where w: "write_metadata demo_env [''s'', ''11''] ?md ?s2 = (Inr (), s1)" "quiet (rl_host s1)"
      "dirs (rl_host s1) = dirs (rl_host ?s2)" "rl_net s1 = rl_net ?s2"
    using write_metadata_quiet [of ?s2 demo_env ?md "[''s'', ''11'']"] assms(3) id demo_relay_host [of "[md]"]
    by (auto simp: quiet_def plain_job_paths [OF id] with_extension_def)
  have "job_start demo_env [''s'', ''11''] \<lparr>ref_key_id_hex = ''11'', ref_job_id = md_job_id md\<rparr> (demo_relay [md]) = (Inr (Some ?md), s1)"
    using r w(1) assms(4) demo_relay_host(3) [of "[md]"]
    by (simp add: job_start_def c_bind_def c_attempt_def unix_timestamp_ms_def Let_def)
  then show ?thesis
    using w write_metadata_Inr(1) [OF demo_env_ok(1) w(1)] by (auto simp: demo_relay_def)
qed

lemma demo_codec_more:
  "lines_to ((demo_md ''a'' ''x'')\<lparr>md_status := JOB_STATUS_RUNNING, md_updated_at_ms := 5\<rparr>) \<noteq> None"
  "lines_to ((demo_md ''a'' ''x'')\<lparr>md_status := JOB_STATUS_FAILED, md_error := Some ''unknown relay job kind x'', md_updated_at_ms := 5\<rparr>) \<noteq> None"
  by (simp_all add: codec_eval demo_md_def job_status_defs)

theorem job_failure_recorded_witness:
  "\<exists>s'. process_job demo_env demo_cfg \<lparr>ref_key_id_hex = ''11'', ref_job_id = ''a''\<rparr> (demo_relay [demo_md ''a'' ''x'']) = (Inr (), s') \<and>
    (\<exists>md'. job_of demo_env [''s'', ''11''] (rl_host s') ''a'' = Some md' \<and> md_error md' = Some ''unknown relay job kind x'')"
proof -
  let ?job = "\<lparr>ref_key_id_hex = ''11'', ref_job_id = ''a''\<rparr>" and ?md = "(demo_md ''a'' ''x'')\<lparr>md_status := JOB_STATUS_RUNNING, md_updated_at_ms := 5\<rparr>"
  have dir: "[''s'', ''11''] = cf_spool_dir demo_cfg @ [ref_key_id_hex ?job]" by (simp add: demo_cfg_def)
  obtain s1 where st: "job_start demo_env [''s'', ''11''] ?job (demo_relay [demo_md ''a'' ''x'']) = (Inr (Some ?md), s1)"
      "quiet (rl_host s1)" "dirs (rl_host s1) = [[''s'', ''11'', ''jobs''], [''s'', ''11'', ''objects'']]"
      "job_of demo_env [''s'', ''11''] (rl_host s1) ''a'' = Some ?md"
    using demo_started [OF _ demo_codec(1) demo_codec_more(1)] by (auto simp: demo_md_def job_status_defs)
  have p: "process_job_inner demo_env demo_cfg ?job (demo_relay [demo_md ''a'' ''x'']) = (Inl ''unknown relay job kind x'', s1)"
    using st(1) by (simp add: process_job_inner_def c_bind_def job_fetch_def demo_cfg_def Let_def demo_md_def)
  show ?thesis
    using job_failure_recorded [OF demo_env_ok(1) p dir st(2), of ?md 5] st(3,4) demo_codec_more(2)
    by (auto simp: demo_md_def demo_paths with_extension_def)
qed

lemma demo_env_fetch:
  "run_web_fetch demo_env False n ''http://a/'' \<lparr>lookups = 0, contacts = []\<rparr> =
     (if 1 \<le> n then Inr \<lparr>out_body = [1], out_http_status = Some 200, out_content_type = None\<rparr>
      else Inl (''response body '' @ nat_digits 1 @ '' bytes exceeds limit '' @ nat_digits n),
      \<lparr>lookups = 4, contacts = [(page_url, [V4 0x08080808]), (hop_url, [V4 0x01010101])]\<rparr>)"
proof -
  have sel: "url_parse demo_env t = Some page_url" "dns demo_env k h p = Inr [if h = ''a'' then V4 0x08080808 else V4 0x01010101]"
    "http demo_env k as u = Inr (page (if url_host u = Some ''a'' then Some hop_url else None))" for t k h p as u
    by (simp_all add: demo_env_def relay_net.defs demo_net_def)
  show ?thesis
    using demo_addresses(1,2)
    by (simp add: run_web_fetch_def validate_public_url_def http_get_bytes_def validate_and_pin_def resolve_guard_def net_lookup_def
        net_request_def client_send.simps client_addrs_def redirect_policy_def c_bind_def c_map_err_def sel page_url_def
        hop_url_def page_def not_less)
qed

lemma demo_sha: "hex_lower (fit 32 [1]) = ''0100000000000000000000000000000000000000000000000000000000000000''"
proof -
  have "fit 32 [1] = 1 # replicate 31 0" by (simp add: fit_def)
  moreover have "replicate 31 (0 :: u8) = [0, 0, 0, 0, 0, 0, 0, 0, 0, 0, 0, 0, 0, 0, 0, 0, 0, 0, 0, 0, 0, 0, 0, 0, 0, 0, 0, 0, 0, 0, 0]" by (simp add: eval_nat_numeral)
  moreover have "hex_byte 0 = ''00''" "hex_byte 1 = ''01''" by (simp_all add: hex_byte_def)
  ultimately show ?thesis by (simp add: hex_lower_def)
qed

lemma demo_codec_web:
  "lines_to (demo_md ''a'' ''web_fetch'') \<noteq> None"
  "lines_to ((demo_md ''a'' ''web_fetch'')\<lparr>md_status := JOB_STATUS_RUNNING, md_updated_at_ms := 5\<rparr>) \<noteq> None"
  "lines_to ((demo_md ''a'' ''web_fetch'')\<lparr>md_status := JOB_STATUS_COMPLETE, md_updated_at_ms := 5, md_body_len := 1,
     md_http_status := Some 200, md_sha256 := Some (hex_lower (fit 32 [1]))\<rparr>) \<noteq> None"
  by (simp_all add: codec_eval demo_md_def job_status_defs demo_sha)

definition big_cfg :: RelayConfig where
  "big_cfg = demo_cfg\<lparr>cf_max_bytes_per_client := - 1\<rparr>"

lemma demo_completes:
  "\<exists>s'. process_job_inner demo_env big_cfg \<lparr>ref_key_id_hex = ''11'', ref_job_id = ''a''\<rparr> (demo_relay [demo_md ''a'' ''web_fetch'']) = (Inr (), s')"
proof -
  let ?job = "\<lparr>ref_key_id_hex = ''11'', ref_job_id = ''a''\<rparr>" and ?dir = "[''s'', ''11'']"
    and ?md = "(demo_md ''a'' ''web_fetch'')\<lparr>md_status := JOB_STATUS_RUNNING, md_updated_at_ms := 5\<rparr>"
    and ?out = "\<lparr>out_body = [1], out_http_status = Some 200, out_content_type = None\<rparr>"
  obtain s1 where st: "job_start demo_env ?dir ?job (demo_relay [demo_md ''a'' ''web_fetch'']) = (Inr (Some ?md), s1)"
      "quiet (rl_host s1)" "dirs (rl_host s1) = [[''s'', ''11'', ''jobs''], [''s'', ''11'', ''objects'']]"
      "rl_net s1 = \<lparr>lookups = 0, contacts = []\<rparr>"
    using demo_started [OF _ demo_codec_web(1,2)] by (auto simp: demo_md_def job_status_defs)
  obtain s2 where f: "job_fetch demo_env big_cfg ?dir ?md s1 = (Inr ?out, s2)" "rl_host s2 = rl_host s1"
    using demo_env_fetch [of "cf_max_object_len demo_cfg"] st(4)
    by (simp add: job_fetch_def rl_network_def demo_md_def big_cfg_def demo_cfg_def RelayConfig_default_def)
  obtain digest s3 where c: "job_commit demo_env big_cfg ?dir ?md ?out s2 = (Inr digest, s3)" "quiet (rl_host s3)"
      "dirs (rl_host s3) = dirs (rl_host s1)"
    using job_commit_quiet [of s2 ?dir ?md demo_env 5 ?out big_cfg] st(2,3) f(2)
    by (auto simp: big_cfg_def demo_cfg_def RelayConfig_default_def demo_paths demo_md_def)
  have d: "digest = hex_lower (fit 32 [1])"
    using job_commit_Inr [OF c(1)] by (simp add: toy_crypto_def)
  let ?s4 = "s3\<lparr>rl_clock := rl_clock s3 + 1\<rparr>" and ?md4 = "(demo_md ''a'' ''web_fetch'')\<lparr>md_status := JOB_STATUS_COMPLETE,
      md_updated_at_ms := 5, md_body_len := 1, md_http_status := Some 200, md_sha256 := Some (hex_lower (fit 32 [1]))\<rparr>"
  obtain s5 where w: "write_metadata demo_env ?dir ?md4 ?s4 = (Inr (), s5)"
    using write_metadata_quiet [of ?s4 demo_env ?md4 ?dir] c(2,3) st(3) demo_codec_web(3)
    by (auto simp: demo_paths demo_md_def with_extension_def)
  have "job_finish demo_env ?dir ?md ?out digest s3 = (Inr (), s5)"
    using w d by (simp add: job_finish_def job_normalize_def c_bind_def unix_timestamp_ms_def demo_md_def Let_def)
  then show ?thesis
    using st(1) f(1) c(1) by (simp add: process_job_inner_def c_bind_def big_cfg_def demo_cfg_def Let_def)
qed

theorem job_completes_witness:
  "\<exists>s' md' body. process_job_inner demo_env big_cfg \<lparr>ref_key_id_hex = ''11'', ref_job_id = ''a''\<rparr>
      (demo_relay [demo_md ''a'' ''web_fetch'']) = (Inr (), s') \<and>
    job_of demo_env [''s'', ''11''] (rl_host s') ''a'' = Some md' \<and> md_status md' = JOB_STATUS_COMPLETE \<and>
    content (rl_host s') (primary_object_path [''s'', ''11''] ''a'') = Some body \<and> md_body_len md' = word_of_nat (length body)"
proof -
  let ?job = "\<lparr>ref_key_id_hex = ''11'', ref_job_id = ''a''\<rparr>" and ?md = "demo_md ''a'' ''web_fetch''"
  have dir: "[''s'', ''11''] = cf_spool_dir big_cfg @ [ref_key_id_hex ?job]" by (simp add: big_cfg_def demo_cfg_def)
  obtain s' where p: "process_job_inner demo_env big_cfg ?job (demo_relay [?md]) = (Inr (), s')"
    using demo_completes by blast
  have j: "job_of demo_env [''s'', ''11''] (rl_host (demo_relay [?md])) (ref_job_id ?job) = Some ?md"
    using demo_job [OF demo_codec_web(1)] by (simp add: demo_md_def)
  have m: "md_job_id ?md = ref_job_id ?job" "md_status ?md \<noteq> JOB_STATUS_COMPLETE" "md_normalized_len ?md = None"
      "fault (rl_host (demo_relay [?md])) (tick (rl_host (demo_relay [?md]))) = None"
    by (simp_all add: demo_md_def job_status_defs demo_relay_def)
  from job_completes [OF demo_env_ok(1) dir j m p] have "\<exists>md' body. job_of demo_env [''s'', ''11''] (rl_host s') (ref_job_id ?job) = Some md' \<and>
      md_status md' = JOB_STATUS_COMPLETE \<and> content (rl_host s') (primary_object_path [''s'', ''11''] (ref_job_id ?job)) = Some body \<and>
      md_body_len md' = word_of_nat (length body)"
    by blast
  with p show ?thesis unfolding JobRef.simps by blast
qed

text \<open>
  C14. Downloads are refined from the client's job store: on a host that works, the bytes answered to a
  well-formed download request are the encoding of the answer specified over the abstract store of jobs
  and objects, for every state of the job, every offset and every chunk size, and nothing stored changes.
  The answer of a finished job is the bytes of its object from the offset, as many as asked for and at
  most 16320, marked as the last chunk exactly when they reach the end, with the length of the object.
\<close>

theorem download_refines:
  assumes "quiet (rl_host s)" and "validate_job_id i = Inr ()" "length i \<le> 128"
    and "content (rl_host s) (metadata_path (client_dir cfg key) i) \<noteq> None \<longrightarrow>
      job_of E (client_dir cfg key) (rl_host s) i \<noteq> None"
    and "metadata_path (client_dir cfg key) i \<notin> set (dirs (rl_host s))" and "now_ms E (rl_clock s) = Some ms"
    and "request = [PROTOCOL_GHOST_RELAY, GHOST_RELAY_VERSION, GHOST_RELAY_OP_DOWNLOAD] @ download_body i offset max_len a"
  shows "\<exists>s'. dispatch E cfg key request s =
      (encode_answer (download_outcome (abs_store E (client_dir cfg key) (rl_host s)) (word_of_nat ms) i (unat offset) (unat max_len) a), s') \<and>
      same_store s s'"
  using download_dispatch [OF assms] unfolding download_spec_def .

definition finished_md :: RelayJobMetadata where
  "finished_md = (demo_md ''a'' ''x'')\<lparr>md_status := JOB_STATUS_COMPLETE\<rparr>"

definition finished_relay :: relay where
  "finished_relay = (demo_relay [finished_md])\<lparr>rl_host := (rl_host (demo_relay [finished_md]))\<lparr>files :=
     files (rl_host (demo_relay [finished_md])) @ [(primary_object_path [''s'', ''11''] ''a'', [1, 2, 3])]\<rparr>\<rparr>"

lemma finished_facts:
  "job_of demo_env [''s'', ''11''] (rl_host finished_relay) ''a'' = Some finished_md"
  "content (rl_host finished_relay) (primary_object_path [''s'', ''11''] ''a'') = Some [1, 2, 3]"
  "validate_job_id ''a'' = Inr ()" "quiet (rl_host finished_relay)" "metadata_path [''s'', ''11''] ''a'' \<notin> set (dirs (rl_host finished_relay))"
  "rl_clock finished_relay = 0"
proof -
  have "lines_to finished_md \<noteq> None" by (simp add: codec_eval finished_md_def demo_md_def JOB_STATUS_COMPLETE_def)
  then obtain t where t: "lines_to finished_md = Some t" by auto
  have id: "md_job_id finished_md = ''a''" by (simp add: finished_md_def demo_md_def)
  show "job_of demo_env [''s'', ''11''] (rl_host finished_relay) ''a'' = Some finished_md"
    using lines_read_back [OF t] by (simp add: job_of_def finished_relay_def demo_relay_def hm_get_def t id)
  show "content (rl_host finished_relay) (primary_object_path [''s'', ''11''] ''a'') = Some [1, 2, 3]"
    by (simp add: finished_relay_def demo_relay_def hm_get_def demo_paths id)
  show "validate_job_id ''a'' = Inr ()" by (simp add: validate_job_id_def is_ascii_hexdigit_def)
  show "quiet (rl_host finished_relay)" "metadata_path [''s'', ''11''] ''a'' \<notin> set (dirs (rl_host finished_relay))" "rl_clock finished_relay = 0"
    by (simp_all add: finished_relay_def demo_relay_def quiet_def demo_paths)
qed

theorem download_refines_witness:
  "fst (dispatch demo_env demo_cfg [0x11] ([PROTOCOL_GHOST_RELAY, GHOST_RELAY_VERSION, GHOST_RELAY_OP_DOWNLOAD] @
     download_body ''a'' 1 1 0) finished_relay) = [0x47, 1, 0, 0, 0, 0, 0, 3, 0, 0, 0, 1, 2] \<and>
   fst (dispatch demo_env demo_cfg [0x11] ([PROTOCOL_GHOST_RELAY, GHOST_RELAY_VERSION, GHOST_RELAY_OP_DOWNLOAD] @
     download_body ''a'' 1 9 0) finished_relay) = [0x47, 1, 0, 1, 0, 0, 0, 3, 0, 0, 0, 2, 2, 3]"
proof -
  let ?st = "abs_store demo_env (client_dir demo_cfg [0x11]) (rl_host finished_relay)"
  have "js_job ?st ''a'' = Some finished_md" "js_object ?st ''a'' 0 = Some [1, 2, 3]"
    by (simp_all add: abs_store_def demo_client_dir finished_facts object_path_def GHOST_RELAY_ARTIFACT_NORMALIZED_def)
  then have spec: "download_outcome ?st 5 ''a'' (Suc 0) n 0 = chunk_answer 1 (min n 16320) [1, 2, 3]" for n
    by (simp add: download_outcome_def finished_md_def demo_md_def JOB_STATUS_COMPLETE_def GHOST_RELAY_ARTIFACT_NORMALIZED_def)
  have be: "to_be_bytes32 1 = [0, 0, 0, 1]" "to_be_bytes32 2 = [0, 0, 0, 2]" "to_be_bytes32 3 = [0, 0, 0, 3]" by code_simp+
  have run: "\<exists>s'. dispatch demo_env demo_cfg [0x11] ([PROTOCOL_GHOST_RELAY, GHOST_RELAY_VERSION, GHOST_RELAY_OP_DOWNLOAD] @
      download_body ''a'' 1 n 0) finished_relay = (encode_answer (download_outcome ?st (word_of_nat 5) ''a'' (unat (1 :: u32)) (unat n) 0), s') \<and>
      same_store finished_relay s'" for n
    by (rule download_refines [OF finished_facts(4,3) _ _ _ _ refl]) (simp_all add: demo_client_dir finished_facts)
  show ?thesis
    using run [of 1] run [of 9] by (auto simp: spec chunk_answer_def be)
qed

lemma dispatch_other_client:
  assumes "key \<noteq> key'" and "below (client_dir cfg key') q"
  shows "content (rl_host (snd (dispatch E cfg key request s))) q = content (rl_host s) q"
proof -
  have out: "\<not> below (client_dir cfg key) q"
    using assms by (auto simp: below_iff client_dir_def key_id_hex_inject)
  have "content (rl_host (snd (dispatch_inner E cfg key request s))) q = content (rl_host s) q"
    using keeps_dispatch_inner [OF out, of "content (rl_host s) q" E request] by (simp add: keeps_def)
  then show ?thesis
    by (cases "dispatch_inner E cfg key request s"; cases "fst (dispatch_inner E cfg key request s)") (auto simp: dispatch_def)
qed

section \<open>Clean spools\<close>

text \<open>
  A worker and the reaper take the job identifier from the record they read, so they stay in the
  client's directory only as long as the records carry identifiers of the engine's alphabet. A
  directory is clean when they do; every operation of the engine keeps it so.
\<close>

definition clean_dir :: "relay_env \<Rightarrow> path \<Rightarrow> host \<Rightarrow> bool" where
  "clean_dir E dir h \<longleftrightarrow> (\<forall>i md. record_at E h (dir @ [''jobs'', i @ ''.toml'']) = Some md \<longrightarrow> plain_id (md_job_id md))"

abbreviation safe :: "relay_env \<Rightarrow> path \<Rightarrow> path \<Rightarrow> bytes option \<Rightarrow> relay \<Rightarrow> bool" where
  "safe E dir q c s \<equiv> file_is q c s \<and> clean_dir E dir (rl_host s)"

lemma keeps_safe:
  assumes "\<And>q' c'. q' = q \<or> (\<exists>i. q' = dir @ [''jobs'', i @ ''.toml'']) \<Longrightarrow> keeps (file_is q' c') m"
  shows "keeps (safe E dir q c) m"
  unfolding keeps_def
proof (intro allI impI)
  fix s assume s: "safe E dir q c s"
  have same: "content (rl_host (snd (m s))) q' = content (rl_host s) q'"
    if "q' = q \<or> (\<exists>i. q' = dir @ [''jobs'', i @ ''.toml''])" for q'
    using assms [OF that, of "content (rl_host s) q'"] by (simp add: keeps_def)
  then have "record_at E (rl_host (snd (m s))) (dir @ [''jobs'', i @ ''.toml'']) =
      record_at E (rl_host s) (dir @ [''jobs'', i @ ''.toml''])" for i
    unfolding record_at_def by (metis (no_types, lifting))
  then show "safe E dir q c (snd (m s))" using s same [of q] by (simp add: clean_dir_def)
qed

lemmas keeps_safe_look = keeps_safe [OF keeps_read_metadata] keeps_safe [OF keeps_client_usage] keeps_safe [OF keeps_rl_network]
  keeps_safe [OF keeps_rl_test(1)] keeps_safe [OF keeps_rl_test(2)] keeps_safe [OF keeps_rl_misc(1)]
  keeps_safe [OF keeps_rl_misc(2)] keeps_safe [OF keeps_rl_misc(3)]

lemma keeps_safe_create_dir: "keeps (safe E dir q c) (rl_io E (io_create_dir_all p))"
  by (rule keeps_safe) (intro keeps_files)

lemma keeps_safe_write:
  assumes "p \<noteq> q" and "below (dir @ [''objects'']) p"
  shows "keeps (safe E dir q c) (rl_io E (io_write p bs))"
  by (rule keeps_safe) (use assms in \<open>auto simp: below_iff intro!: keeps_files\<close>)

lemma keeps_safe_remove:
  assumes "p \<noteq> q"
  shows "keeps (safe E dir q c) (rl_io E (io_remove_file p))"
  unfolding keeps_def
proof (intro allI impI)
  fix s assume s: "safe E dir q c s"
  have removed: "content (snd (io_remove_file p (rl_host s))) x \<in> {content (rl_host s) x, None}" for x
    by (auto simp: io_remove_file_def io_call_def Let_def split: option.splits)
  have "record_at E (snd (io_remove_file p (rl_host s))) x \<in> {record_at E (rl_host s) x, None}" for x
  proof (cases "content (snd (io_remove_file p (rl_host s))) x")
    case None
    then show ?thesis by (simp add: record_at_def)
  next
    case (Some b)
    then have "content (rl_host s) x = Some b" using removed [of x] by simp
    with Some show ?thesis by (simp add: record_at_def)
  qed
  then have "clean_dir E dir (snd (io_remove_file p (rl_host s)))"
    using s unfolding clean_dir_def by (metis empty_iff insert_iff option.distinct(1))
  moreover have "keeps (\<lambda>h. content h q = c) (io_remove_file p)" using assms by (intro keeps_io_remove_file) blast
  then have "content (snd (io_remove_file p (rl_host s))) q = c" using s unfolding keeps_def by blast
  moreover have "rl_host (snd (rl_io E (io_remove_file p) s)) = snd (io_remove_file p (rl_host s))"
    by (simp add: rl_io_def split: prod.split)
  ultimately show "safe E dir q c (snd (rl_io E (io_remove_file p) s))" by simp
qed

text \<open>A record is written to a temporary file and renamed: what the scans read is the old record or the new one.\<close>

lemma write_metadata_content:
  assumes "write_metadata E dir md s = (r, s')" and "q \<noteq> with_extension (metadata_path dir (md_job_id md)) ''toml.tmp''"
  shows "content (rl_host s') q = content (rl_host s) q \<or>
    (\<exists>t. meta_to_toml E md = Some t \<and> content (rl_host s') q = Some (as_bytes t))"
proof (cases "meta_to_toml E md")
  case None
  then show ?thesis using assms(1) by (simp add: write_metadata_def Let_def c_bind_def)
next
  case (Some t)
  let ?path = "metadata_path dir (md_job_id md)" and ?tmp = "with_extension (metadata_path dir (md_job_id md)) ''toml.tmp''"
  obtain r1 h1 where w: "io_write ?tmp (as_bytes t) (rl_host s) = (r1, h1)" by fastforce
  have q1: "content h1 q = content (rl_host s) q" using keepsD [OF keeps_io_write _ w] assms(2) by auto
  show ?thesis
  proof (cases r1)
    case (Inl e)
    then show ?thesis using assms(1) Some w q1 by (auto simp: write_metadata_def Let_def c_bind_def rl_io_def)
  next
    case (Inr u)
    obtain r2 h2 where mv: "io_rename ?tmp ?path h1 = (r2, h2)" by fastforce
    have s': "rl_host s' = h2"
      using assms(1) Some w Inr mv by (auto simp: write_metadata_def Let_def c_bind_def rl_io_def)
    have "content h1 ?tmp = Some (as_bytes t)" using w Inr by (auto simp: io_write_def comp_eqs dest: io_write_all_Inr)
    have "content h2 q = content h1 q \<or> content h2 q = Some (as_bytes t)"
    proof (cases r2)
      case (Inl e)
      then show ?thesis using io_rename_Inl mv by metis
    next
      case r2: (Inr v)
      have "content h2 ?path = Some (as_bytes t)"
        using io_rename_Inr [OF mv [unfolded r2]] \<open>content h1 ?tmp = Some (as_bytes t)\<close> by auto
      moreover have "content h2 q = content h1 q" if "q \<noteq> ?path"
        using keepsD [OF keeps_io_rename [OF assms(2) that] refl mv] .
      ultimately show ?thesis by (cases "q = ?path") simp_all
    qed
    then show ?thesis using s' q1 Some by auto
  qed
qed

lemma keeps_safe_metadata:
  assumes "toml_ok E" and "plain_id (md_job_id md)" and "\<not> below dir q"
  shows "keeps (safe E dir q c) (write_metadata E dir md)"
  unfolding keeps_def
proof (intro allI impI)
  fix s assume s: "safe E dir q c s"
  obtain r s' where w: "write_metadata E dir md s = (r, s')" by fastforce
  have "content (rl_host s') q = c" using keepsD [OF keeps_write_metadata [OF assms(2,3)] _ w] s by blast
  moreover have "clean_dir E dir (rl_host s')"
    unfolding clean_dir_def
  proof (intro allI impI)
    fix i md' assume rec: "record_at E (rl_host s') (dir @ [''jobs'', i @ ''.toml'']) = Some md'"
    have "dir @ [''jobs'', i @ ''.toml''] \<noteq> with_extension (metadata_path dir (md_job_id md)) ''toml.tmp''"
      by (auto simp: plain_job_paths [OF assms(2)] with_extension_def dest: arg_cong [of _ _ rev])
    from write_metadata_content [OF w this] consider
        "record_at E (rl_host s) (dir @ [''jobs'', i @ ''.toml'']) = Some md'"
      | t where "meta_to_toml E md = Some t" "content (rl_host s') (dir @ [''jobs'', i @ ''.toml'']) = Some (as_bytes t)"
      using rec by (auto simp: record_at_def)
    then show "plain_id (md_job_id md')"
    proof cases
      case 1
      then show ?thesis using s unfolding clean_dir_def by blast
    next
      case 2
      then have "md' = md" using rec assms(1) from_utf8_as_bytes by (auto simp: record_at_def toml_ok_def)
      then show ?thesis using assms(2) by simp
    qed
  qed
  ultimately show "safe E dir q c (snd (write_metadata E dir md s))" using w by simp
qed

text \<open>A record read under a plain identifier of a clean directory carries a plain identifier.\<close>

lemma read_metadata_plain:
  assumes "clean_dir E dir (rl_host s)" and "plain_id i" and "read_metadata E (metadata_path dir i) s = (Inr md, s')"
  shows "plain_id (md_job_id md)"
proof -
  have "record_at E (rl_host s) (dir @ [''jobs'', i @ ''.toml'']) = Some md"
    using read_metadata_Inr [OF assms(3)] by (auto simp: plain_job_paths [OF assms(2)] record_at_def)
  then show ?thesis using assms(1) unfolding clean_dir_def by blast
qed

lemma keeps_safe_dispatch:
  assumes "toml_ok E" and "\<not> below (client_dir cfg key) q"
  shows "keeps (safe E (client_dir cfg key) q c) (dispatch_inner E cfg key req)"
proof -
  have ne: "primary_object_path (client_dir cfg key) i \<noteq> q" "normalized_object_path (client_dir cfg key) i \<noteq> q"
      "metadata_path (client_dir cfg key) i \<noteq> q" if "plain_id i" for i
    using job_paths_below [OF that] assms(2) by metis+
  note frame = keeps_bind keeps_case keeps_lift keeps_attempt keeps_safe_look keeps_safe_create_dir
  have enq: "keeps (safe E (client_dir cfg key) q c) (enqueue E cfg key kind src n)" for kind src n
    unfolding enqueue_def Let_def
    by (intro frame keeps_safe_metadata assms) (simp add: relay_job_id_plain)
  have del: "keeps (safe E (client_dir cfg key) q c) (delete E cfg key cur)" for cur
    unfolding delete_def Let_def by (intro frame keeps_validated keeps_safe_remove ne)
  show ?thesis
    unfolding dispatch_inner_def submit_web_def submit_git_def submit_package_def Let_def
    by (intro frame enq del keeps_safe [OF keeps_relay_list] keeps_safe [OF keeps_download])
qed

lemma keeps_safe_fetch:
  assumes "git_confined E" and "plain_id (md_job_id md)" and "\<not> below dir q"
  shows "keeps (safe E dir q c) (job_fetch E cfg dir md)"
proof (rule keeps_safe, rule keeps_job_fetch [OF assms(1)])
  fix q' assume q': "q' = q \<or> (\<exists>i. q' = dir @ [''jobs'', i @ ''.toml''])"
  show "\<not> below (path_join (dir @ [''work'']) (md_job_id md)) q'"
    using work_path [OF assms(2), of dir] assms(3) q' by (auto simp: below_iff)
qed

lemma keeps_safe_start:
  assumes "toml_ok E" and "plain_id (ref_job_id job)" and "\<not> below dir q"
  shows "keeps (safe E dir q c) (job_start E dir job)"
    and "safe E dir q c s \<Longrightarrow> job_start E dir job s = (Inr (Some md), s') \<Longrightarrow> plain_id (md_job_id md)"
proof -
  show "keeps (safe E dir q c) (job_start E dir job)"
    unfolding job_start_def Let_def
  proof (rule keeps_bind_inv, intro keeps_attempt keeps_safe_look)
    fix r s s' assume "safe E dir q c s"
      and "c_attempt (read_metadata E (metadata_path dir (ref_job_id job))) s = (Inr r :: string + (string + RelayJobMetadata), s')"
    then have "plain_id (md_job_id md)" if "r = Inr md" for md
      using that read_metadata_plain [OF _ assms(2)] by (auto simp: c_attempt_Inr)
    then show "keeps (safe E dir q c) (case r of Inl _ \<Rightarrow> c_lift (Inr None) | Inr md \<Rightarrow>
        if md_status md = JOB_STATUS_COMPLETE then c_lift (Inr None)
        else c_bind (unix_timestamp_ms E) (\<lambda>now.
          c_bind (write_metadata E dir (md\<lparr>md_status := JOB_STATUS_RUNNING, md_updated_at_ms := now\<rparr>))
            (\<lambda>_. c_lift (Inr (Some (md\<lparr>md_status := JOB_STATUS_RUNNING, md_updated_at_ms := now\<rparr>))))))"
      by (cases r) (auto intro!: keeps_bind keeps_safe_look keeps_safe_metadata assms)
  qed
  assume s: "safe E dir q c s" and st: "job_start E dir job s = (Inr (Some md), s')"
  obtain r s1 where rd: "read_metadata E (metadata_path dir (ref_job_id job)) s = (r, s1)" by fastforce
  show "plain_id (md_job_id md)"
  proof (cases r)
    case (Inl e)
    then show ?thesis using st rd by (simp add: job_start_def c_bind_def c_attempt_def)
  next
    case (Inr md0)
    then have "md_job_id md = md_job_id md0"
      using st rd by (auto simp: job_start_def c_bind_def c_attempt_def Let_def split: if_splits sum.splits prod.splits)
    with read_metadata_plain [OF _ assms(2)] s rd Inr show ?thesis by fastforce
  qed
qed

lemma keeps_safe_commit:
  assumes "plain_id (md_job_id md)" and "\<not> below dir q"
  shows "keeps (safe E dir q c) (job_commit E cfg dir md out)"
proof -
  have "primary_object_path dir (md_job_id md) \<noteq> q" "below (dir @ [''objects'']) (primary_object_path dir (md_job_id md))"
    using job_paths_below [OF assms(1)] assms by (auto simp: plain_job_paths below_iff)
  then show ?thesis
    unfolding job_commit_def by (intro keeps_bind keeps_case keeps_lift keeps_safe_look keeps_safe_write)
qed

lemma keeps_safe_finish:
  assumes "toml_ok E" and "plain_id (md_job_id md)" and "\<not> below dir q"
  shows "keeps (safe E dir q c) (job_finish E dir md out digest)"
proof -
  have norm: "keeps (safe E dir q c) (job_normalize E dir md1 out)" if "md_job_id md1 = md_job_id md" for md1
  proof -
    have "normalized_object_path dir (md_job_id md1) \<noteq> q" "below (dir @ [''objects'']) (normalized_object_path dir (md_job_id md1))"
      using job_paths_below [OF assms(2)] assms that by (auto simp: plain_job_paths below_iff)
    then show ?thesis
      unfolding job_normalize_def Let_def by (intro keeps_bind keeps_case keeps_lift keeps_safe_write)
  qed
  show ?thesis
    unfolding job_finish_def Let_def
  proof (rule keeps_bind_val, intro norm, simp)
    fix md1 s s' assume "job_normalize E dir (md\<lparr>md_body_len := word_of_nat (length (out_body out)), md_http_status := out_http_status out,
        md_content_type := out_content_type out, md_sha256 := Some digest\<rparr>) out s = (Inr md1, s')"
    from job_normalize_Inr [OF this] have "plain_id (md_job_id md1)" using assms(2) by auto
    then show "keeps (safe E dir q c) (c_bind (unix_timestamp_ms E) (\<lambda>now.
        write_metadata E dir (md1\<lparr>md_status := JOB_STATUS_COMPLETE, md_error := None, md_updated_at_ms := now\<rparr>)))"
      by (intro keeps_bind keeps_safe_look keeps_safe_metadata assms) simp
  qed
qed

lemma keeps_safe_failed:
  assumes "toml_ok E" and "plain_id (ref_job_id job)" and "\<not> below dir q"
  shows "keeps (safe E dir q c) (job_failed E dir job message)"
  unfolding job_failed_def Let_def
proof (rule keeps_bind_inv, intro keeps_attempt keeps_safe_look)
  fix r s s' assume "safe E dir q c s"
    and "c_attempt (read_metadata E (metadata_path dir (ref_job_id job))) s = (Inr r :: string + (string + RelayJobMetadata), s')"
  then have "plain_id (md_job_id md)" if "r = Inr md" for md
    using that read_metadata_plain [OF _ assms(2)] by (auto simp: c_attempt_Inr)
  then show "keeps (safe E dir q c) (case r of Inl _ \<Rightarrow> c_lift (Inr ()) | Inr md \<Rightarrow>
      c_bind (c_attempt (unix_timestamp_ms E)) (\<lambda>now.
        c_bind (c_attempt (write_metadata E dir (md\<lparr>md_status := JOB_STATUS_FAILED, md_error := Some message,
          md_updated_at_ms := (case now of Inr n \<Rightarrow> n | Inl _ \<Rightarrow> md_updated_at_ms md)\<rparr>))) (\<lambda>_. c_lift (Inr ()))))"
    by (cases r) (auto intro!: keeps_bind keeps_attempt keeps_safe_look keeps_safe_metadata assms)
qed

lemma keeps_safe_process_job:
  assumes "toml_ok E" and "git_confined E" and "plain_id (ref_job_id job)"
    and "\<not> below (cf_spool_dir cfg @ [ref_key_id_hex job]) q"
  shows "keeps (safe E (cf_spool_dir cfg @ [ref_key_id_hex job]) q c) (process_job E cfg job)"
proof -
  let ?dir = "cf_spool_dir cfg @ [ref_key_id_hex job]"
  have "keeps (safe E ?dir q c) (process_job_inner E cfg job)"
    unfolding process_job_inner_def Let_def
  proof (rule keeps_bind_inv, intro keeps_safe_start assms)
    fix started s s' assume "safe E ?dir q c s" and "job_start E ?dir job s = (Inr started, s')"
    then have "plain_id (md_job_id md)" if "started = Some md" for md
      using that keeps_safe_start(2) [OF assms(1,3,4)] by blast
    then show "keeps (safe E ?dir q c) (case started of None \<Rightarrow> c_lift (Inr ()) | Some md \<Rightarrow>
        c_bind (job_fetch E cfg ?dir md) (\<lambda>out. c_bind (job_commit E cfg ?dir md out) (\<lambda>digest. job_finish E ?dir md out digest)))"
      by (cases started) (auto intro!: keeps_bind keeps_safe_fetch keeps_safe_commit keeps_safe_finish assms)
  qed
  then show ?thesis
    unfolding process_job_def
    by (intro keeps_bind keeps_attempt) (auto split: sum.split intro!: keeps_safe_failed assms)
qed


definition two_clients :: relay where
  "two_clients = (demo_relay [demo_md ''a'' ''x''])\<lparr>rl_host := (rl_host (demo_relay [demo_md ''a'' ''x'']))\<lparr>files :=
     files (rl_host (demo_relay [demo_md ''a'' ''x''])) @ [([''s'', ''12'', ''jobs'', ''a.toml''], [1])]\<rparr>\<rparr>"

definition delete_request :: "string \<Rightarrow> bytes" where
  "delete_request i = [PROTOCOL_GHOST_RELAY, GHOST_RELAY_VERSION, GHOST_RELAY_OP_DELETE] @
     to_be_bytes16 (word_of_nat (length i)) @ as_bytes i"

lemma two_clients_clean: "clean_dir demo_env [''s'', ''11''] (rl_host two_clients)"
  unfolding clean_dir_def
proof (intro allI impI)
  fix i md assume rec: "record_at demo_env (rl_host two_clients) ([''s'', ''11''] @ [''jobs'', i @ ''.toml'']) = Some md"
  obtain t where t: "lines_to (demo_md ''a'' ''x'') = Some t" using demo_codec(1) by auto
  have "i @ ''.toml'' = ''a.toml''"
    using rec by (auto simp: record_at_def two_clients_def demo_relay_def demo_paths demo_md_def hm_get_def bind_eq_Some_conv split: if_splits)
  then have "md = demo_md ''a'' ''x''"
    using rec lines_read_back [OF t] t by (auto simp: record_at_def two_clients_def demo_relay_def demo_paths hm_get_def demo_md_def)
  then show "plain_id (md_job_id md)" by (simp add: demo_md_def)
qed


end
