(* ===== verification/Relay_Engine.thy ===== *)
theory Relay_Engine
  imports Relay_Store
begin

text \<open>
  The running relay engine (\<open>RelayEngine::start\<close> of \<open>ghostbro-server/src/relay.rs\<close>): the worker pool, the
  reaper and the recovery scan interleave with the requests of the clients. A worker gives way wherever
  its job awaits, so one of its turns is one of the phases of \<open>process_job\<close>; a run of the engine is
  any sequence of turns, requests and scans.
\<close>

section \<open>State\<close>

text \<open>What a worker holds between two turns.\<close>

datatype phase =
    Idle
  | Taken JobRef
  | Started JobRef RelayJobMetadata
  | Fetched JobRef RelayJobMetadata JobOutcome
  | Committed JobRef RelayJobMetadata JobOutcome string
  | Broken JobRef string

record engine =
  eng_relay :: relay
  eng_workers :: "phase list"

definition RelayEngine_start :: "RelayConfig \<Rightarrow> host \<Rightarrow> net_state \<Rightarrow> nat \<Rightarrow> engine" where
  "RelayEngine_start cfg h n clock =
     \<lparr>eng_relay = \<lparr>rl_host = h, rl_net = n, rl_clock = clock, rl_queue = []\<rparr>,
      eng_workers = replicate (max (cf_worker_count cfg) 1) Idle\<rparr>"

text \<open>The registry of the quota locks: a lock is known by the order of its creation.\<close>

definition client_lock :: "string \<Rightarrow> (string, nat) hash_map \<Rightarrow> nat \<times> (string, nat) hash_map" where
  "client_lock key_hex locks =
     (case hm_get locks key_hex of
        Some l \<Rightarrow> (l, locks)
      | None \<Rightarrow> let l = length (hm_keys locks) in (l, hm_insert key_hex l locks))"

section \<open>Turns\<close>

definition job_dir :: "RelayConfig \<Rightarrow> JobRef \<Rightarrow> path" where
  "job_dir cfg job = cf_spool_dir cfg @ [ref_key_id_hex job]"

definition or_broken :: "JobRef \<Rightarrow> ('a \<Rightarrow> phase) \<Rightarrow> (string + 'a) \<times> relay \<Rightarrow> phase \<times> relay" where
  "or_broken job f x = (case x of (Inl e, s) \<Rightarrow> (Broken job e, s) | (Inr a, s) \<Rightarrow> (f a, s))"

fun worker_turn :: "relay_env \<Rightarrow> RelayConfig \<Rightarrow> phase \<Rightarrow> relay \<Rightarrow> phase \<times> relay" where
  "worker_turn E cfg Idle s =
     (case rl_queue s of [] \<Rightarrow> (Idle, s) | job # rest \<Rightarrow> (Taken job, s\<lparr>rl_queue := rest\<rparr>))"
| "worker_turn E cfg (Taken job) s =
     or_broken job (\<lambda>started. case started of None \<Rightarrow> Idle | Some md \<Rightarrow> Started job md) (job_start E (job_dir cfg job) job s)"
| "worker_turn E cfg (Started job md) s = or_broken job (Fetched job md) (job_fetch E cfg (job_dir cfg job) md s)"
| "worker_turn E cfg (Fetched job md out) s = or_broken job (Committed job md out) (job_commit E cfg (job_dir cfg job) md out s)"
| "worker_turn E cfg (Committed job md out digest) s = or_broken job (\<lambda>_. Idle) (job_finish E (job_dir cfg job) md out digest s)"
| "worker_turn E cfg (Broken job e) s = (Idle, snd (job_failed E (job_dir cfg job) job e s))"

fun phase_job :: "phase \<Rightarrow> JobRef option" where
  "phase_job Idle = None"
| "phase_job (Taken job) = Some job"
| "phase_job (Started job _) = Some job"
| "phase_job (Fetched job _ _) = Some job"
| "phase_job (Committed job _ _ _) = Some job"
| "phase_job (Broken job _) = Some job"

datatype action = Request key_id bytes | Work nat | Reap | Recover

inductive engine_step :: "relay_env \<Rightarrow> RelayConfig \<Rightarrow> engine \<Rightarrow> action \<Rightarrow> engine \<Rightarrow> bool"
  for E cfg where
  request: "dispatch E cfg key req (eng_relay e) = (resp, s) \<Longrightarrow>
    engine_step E cfg e (Request key req) (e\<lparr>eng_relay := s\<rparr>)"
| work: "w < length (eng_workers e) \<Longrightarrow> worker_turn E cfg (eng_workers e ! w) (eng_relay e) = (p, s) \<Longrightarrow>
    engine_step E cfg e (Work w) (e\<lparr>eng_relay := s, eng_workers := (eng_workers e)[w := p]\<rparr>)"
| reap: "reap_expired E cfg (eng_relay e) = (r, s) \<Longrightarrow> engine_step E cfg e Reap (e\<lparr>eng_relay := s\<rparr>)"
| recover: "recover_pending E cfg (eng_relay e) = (r, s) \<Longrightarrow> engine_step E cfg e Recover (e\<lparr>eng_relay := s\<rparr>)"

inductive_cases engine_stepE:
  "engine_step E cfg e (Request key req) e'" "engine_step E cfg e (Work w) e'"
  "engine_step E cfg e Reap e'" "engine_step E cfg e Recover e'"

text \<open>A run from the start of the process, with the actions it took, the latest last.\<close>

inductive engine_run :: "relay_env \<Rightarrow> RelayConfig \<Rightarrow> host \<Rightarrow> action list \<Rightarrow> engine \<Rightarrow> bool"
  for E cfg h where
  start: "engine_run E cfg h [] (RelayEngine_start cfg h n clock)"
| step: "engine_run E cfg h as e \<Longrightarrow> engine_step E cfg e a e' \<Longrightarrow> engine_run E cfg h (as @ [a]) e'"

section \<open>Uninterrupted turns\<close>

fun turns :: "relay_env \<Rightarrow> RelayConfig \<Rightarrow> nat \<Rightarrow> phase \<times> relay \<Rightarrow> phase \<times> relay" where
  "turns E cfg 0 x = x"
| "turns E cfg (Suc n) (p, s) = (if p = Idle then (p, s) else turns E cfg n (worker_turn E cfg p s))"

lemma turns_idle [simp]: "turns E cfg n (Idle, s) = (Idle, s)"
  by (cases n) simp_all

lemma turns_process_job: "turns E cfg 5 (Taken job, s) = (Idle, snd (process_job E cfg job s))"
  by (simp add: numeral_eq_Suc or_broken_def process_job_def process_job_inner_def c_bind_def c_attempt_def
      job_dir_def Let_def split: prod.split sum.split option.split)

section \<open>What a turn may change\<close>

fun phase_md :: "phase \<Rightarrow> RelayJobMetadata option" where
  "phase_md Idle = None"
| "phase_md (Taken _) = None"
| "phase_md (Started _ md) = Some md"
| "phase_md (Fetched _ md _) = Some md"
| "phase_md (Committed _ md _ _) = Some md"
| "phase_md (Broken _ _) = None"

text \<open>The identifiers a worker goes by: the one of its job and the one of the record it has read.\<close>

definition phase_clean :: "phase \<Rightarrow> bool" where
  "phase_clean p \<longleftrightarrow> (\<forall>j. phase_job p = Some j \<longrightarrow> plain_id (ref_job_id j)) \<and> (\<forall>md. phase_md p = Some md \<longrightarrow> plain_id (md_job_id md))"

definition spool_clean :: "relay_env \<Rightarrow> RelayConfig \<Rightarrow> host \<Rightarrow> bool" where
  "spool_clean E cfg h \<longleftrightarrow> (\<forall>x. clean_dir E (cf_spool_dir cfg @ [x]) h)"

lemma or_broken_state: "snd (or_broken job f x) = snd x"
  by (auto simp: or_broken_def split: prod.split sum.split)

lemma worker_turn_safe:
  assumes "toml_ok E" and "git_confined E" and "phase_clean p" and "phase_job p = Some job" and "\<not> below (job_dir cfg job) q"
    and "safe E (job_dir cfg job) q c s"
  shows "safe E (job_dir cfg job) q c (snd (worker_turn E cfg p s))"
proof -
  let ?dir = "job_dir cfg job"
  have ref: "plain_id (ref_job_id job)" using assms(3,4) by (simp add: phase_clean_def)
  note out = assms(5)
  show ?thesis
  proof (cases p)
    case (Taken j)
    then show ?thesis using keeps_safe_start(1) [OF assms(1) ref out, of c] assms(4,6) by (simp add: or_broken_state keeps_def)
  next
    case (Started j md)
    then have "plain_id (md_job_id md)" using assms(3) by (simp add: phase_clean_def)
    from keeps_safe_fetch [OF assms(2) this out, of c cfg] show ?thesis using Started assms(4,6) by (simp add: or_broken_state keeps_def)
  next
    case (Fetched j md res)
    then have "plain_id (md_job_id md)" using assms(3) by (simp add: phase_clean_def)
    from keeps_safe_commit [OF this out, of c E cfg res] show ?thesis using Fetched assms(4,6) by (simp add: or_broken_state keeps_def)
  next
    case (Committed j md res digest)
    then have "plain_id (md_job_id md)" using assms(3) by (simp add: phase_clean_def)
    from keeps_safe_finish [OF assms(1) this out, of c res digest] show ?thesis
      using Committed assms(4,6) by (simp add: or_broken_state keeps_def)
  next
    case (Broken j e)
    then show ?thesis using keeps_safe_failed [OF assms(1) ref out, of c e] assms(4,6) by (simp add: keeps_def)
  qed (use assms(4) in simp)
qed

lemma worker_turn_frame:
  assumes "toml_ok E" and "git_confined E" and "phase_clean p" and "spool_clean E cfg (rl_host s)"
    and "\<And>job. phase_job p = Some job \<Longrightarrow> \<not> below (job_dir cfg job) q"
  shows "content (rl_host (snd (worker_turn E cfg p s))) q = content (rl_host s) q"
proof (cases "phase_job p")
  case None
  then have "p = Idle" by (cases p) simp_all
  then show ?thesis by (simp split: list.split)
next
  case (Some job)
  then show ?thesis
    using worker_turn_safe [OF assms(1-3) Some assms(5) [OF Some], of s "content (rl_host s) q"] assms(4)
    by (simp add: spool_clean_def job_dir_def)
qed

text \<open>A computation that stays in one client's directory and keeps it clean keeps the spool clean.\<close>

lemma spool_clean_step:
  assumes "\<And>q c. \<not> below dir q \<Longrightarrow> safe E dir q c s \<Longrightarrow> safe E dir q c s'" and "dir = cf_spool_dir cfg @ [k]"
    and "spool_clean E cfg (rl_host s)"
  shows "spool_clean E cfg (rl_host s')"
  unfolding spool_clean_def
proof
  fix x
  have here: "clean_dir E dir (rl_host s)" using assms(2,3) by (simp add: spool_clean_def)
  show "clean_dir E (cf_spool_dir cfg @ [x]) (rl_host s')"
  proof (cases "x = k")
    case True
    have "\<not> below dir []" using assms(2) by (simp add: below_def)
    from assms(1) [OF this] here show ?thesis using True assms(2) by blast
  next
    case False
    have "content (rl_host s') (cf_spool_dir cfg @ [x, ''jobs'', f]) = content (rl_host s) (cf_spool_dir cfg @ [x, ''jobs'', f])" for f
    proof -
      have "\<not> below dir (cf_spool_dir cfg @ [x, ''jobs'', f])" using assms(2) False by (auto simp: below_iff)
      from assms(1) [OF this] here show ?thesis by blast
    qed
    then have "record_at E (rl_host s') (cf_spool_dir cfg @ [x, ''jobs'', f]) = record_at E (rl_host s) (cf_spool_dir cfg @ [x, ''jobs'', f])" for f
      by (simp add: record_at_def)
    then show ?thesis using assms(3) by (simp add: spool_clean_def clean_dir_def)
  qed
qed

lemma worker_turn_clean:
  assumes "toml_ok E" and "git_confined E" and "phase_clean p" and "spool_clean E cfg (rl_host s)"
    and "\<forall>j \<in> set (rl_queue s). plain_id (ref_job_id j)" and "worker_turn E cfg p s = (p', s')"
  shows "spool_clean E cfg (rl_host s')" and "phase_clean p'"
proof -
  show "spool_clean E cfg (rl_host s')"
  proof (cases "phase_job p")
    case None
    then have "p = Idle" by (cases p) simp_all
    then show ?thesis using assms(4,6) by (auto split: list.splits)
  next
    case (Some job)
    show ?thesis
    proof (rule spool_clean_step [OF _ job_dir_def assms(4)])
      fix q c assume "\<not> below (job_dir cfg job) q" and "safe E (job_dir cfg job) q c s"
      from worker_turn_safe [OF assms(1-3) Some this] show "safe E (job_dir cfg job) q c s'" by (simp add: assms(6))
    qed
  qed
  show "phase_clean p'"
  proof (cases p)
    case Idle
    then show ?thesis using assms(5,6) by (auto simp: phase_clean_def split: list.splits)
  next
    case (Taken job)
    have out: "\<not> below (job_dir cfg job) []" by (simp add: below_def job_dir_def)
    have "clean_dir E (job_dir cfg job) (rl_host s)" using assms(4) by (simp add: spool_clean_def job_dir_def)
    then have "plain_id (md_job_id md)" if "job_start E (job_dir cfg job) job s = (Inr (Some md), s')" for md
      using keeps_safe_start(2) [OF assms(1) _ out refl [THEN conjI] that] assms(3) Taken by (simp add: phase_clean_def)
    then show ?thesis
      using assms(3,6) Taken by (auto simp: phase_clean_def or_broken_def split: prod.splits sum.splits option.splits)
  qed (use assms(3,6) in \<open>auto simp: phase_clean_def or_broken_def split: prod.splits sum.splits\<close>)
qed

text \<open>The reaper removes files of the spool and does nothing else; recovery changes no file.\<close>

lemma io_entry_val: "rl_io E (io_entry p) s = (Inr x, s') \<Longrightarrow> x = p"
  by (auto simp: rl_io_def io_entry_def io_call_def Let_def result_eqs split: prod.splits option.splits)

lemma io_read_dir_val: "rl_io E (io_read_dir p) s = (Inr xs, s') \<Longrightarrow> x \<in> set xs \<Longrightarrow> \<exists>f. x = p @ [f]"
  by (auto simp: rl_io_def io_read_dir_def io_call_def Let_def result_eqs dir_entries_def
      split: prod.splits option.splits if_splits) (metis append_butlast_last_id)+

text \<open>Calls that only look keep every property of the files.\<close>

abbreviation of_files :: "((path, bytes) hash_map \<Rightarrow> bool) \<Rightarrow> relay \<Rightarrow> bool" where
  "of_files Q s \<equiv> Q (files (rl_host s))"

lemma keeps_look:
  "keeps (of_files Q) (rl_io E (io_entry p))" "keeps (of_files Q) (rl_io E (io_read_dir p))"
  "keeps (of_files Q) (rl_test (io_is_dir p))" "keeps (of_files Q) (read_metadata E p)"
  "keeps (of_files Q) (unix_timestamp_ms E)" "keeps (of_files Q) (rl_send job)"
proof -
  have f: "files (snd (io_read_dir p h)) = files h" "files (snd (io_entry p h)) = files h"
    "files (snd (io_is_dir p h)) = files h" for h
    by (simp_all add: io_read_dir_def io_entry_def io_is_dir_def io_call_def Let_def split: option.split)
  have rs: "files (snd (io_read_to_string p h)) = files h" for h
    using io_read_to_string_pure [of p h] by (cases "io_read_to_string p h") simp
  show "keeps (of_files Q) (rl_io E (io_entry p))" "keeps (of_files Q) (rl_io E (io_read_dir p))"
    "keeps (of_files Q) (rl_test (io_is_dir p))" "keeps (of_files Q) (unix_timestamp_ms E)" "keeps (of_files Q) (rl_send job)"
    using f by (simp_all add: keeps_def rl_io_def rl_test_def unix_timestamp_ms_def rl_send_def split_beta)
  have "keeps (of_files Q) (rl_io E (io_read_to_string p))"
    using rs by (simp add: keeps_def rl_io_def split_beta)
  then show "keeps (of_files Q) (read_metadata E p)"
    unfolding read_metadata_def by (intro keeps_bind keeps_lift)
qed

lemma keeps_reap_removal:
  "keeps (of_files (\<lambda>fs. hm_get fs q \<in> {c, None})) (reap_expired E cfg)"
proof -
  have rm: "keeps (of_files (\<lambda>fs. hm_get fs q \<in> {c, None})) (rl_io E (io_remove_file p))" for p
    by (auto simp: keeps_def rl_io_def io_remove_file_def io_call_def Let_def split: prod.splits option.splits if_splits)
  show ?thesis
    unfolding reap_expired_def reap_client_def reap_entry_def
    by (intro keeps_bind keeps_case keeps_fold keeps_attempt keeps_lift keeps_look rm)
qed

lemma keeps_recover: "keeps (file_is q c) (recover_pending E cfg)"
  unfolding recover_pending_def recover_client_def recover_entry_def
  by (intro keeps_bind keeps_case keeps_fold keeps_attempt keeps_lift keeps_files keeps_read_metadata)

lemma toml_suffix:
  assumes "extension (p @ [f]) = Some ''toml''"
  shows "\<exists>i. f = i @ ''.toml''"
proof -
  have "\<exists>a. rsplit_once CHR ''.'' f = Some (a, ''toml'')"
    using assms by (auto simp: extension_def split: option.splits prod.splits if_splits)
  then show ?thesis using rsplit_once_Some by fastforce
qed

abbreviation swept :: "relay_env \<Rightarrow> RelayConfig \<Rightarrow> path \<Rightarrow> bytes option \<Rightarrow> relay \<Rightarrow> bool" where
  "swept E cfg q c s \<equiv> file_is q c s \<and> spool_clean E cfg (rl_host s)"

lemma keeps_swept:
  assumes "\<And>dir. keeps (safe E dir q c) m"
  shows "keeps (swept E cfg q c) m"
  using assms unfolding keeps_def spool_clean_def by blast

lemmas keeps_swept_look = keeps_safe_look [THEN keeps_swept]

lemma keeps_swept_files:
  "keeps (swept E cfg q c) (rl_io E (io_entry p))" "keeps (swept E cfg q c) (rl_io E (io_read_dir p))"
  "p \<noteq> q \<Longrightarrow> keeps (swept E cfg q c) (rl_io E (io_remove_file p))"
  by (rule keeps_swept, rule keeps_safe, intro keeps_files) (rule keeps_swept, rule keeps_safe, intro keeps_files,
    rule keeps_swept, rule keeps_safe_remove)

lemma keeps_unless: "(\<not> b \<Longrightarrow> keeps P n) \<Longrightarrow> keeps P m \<Longrightarrow> keeps P (if b then m else n)"
  by simp

text \<open>The record behind an entry of a clean spool names objects of the same client.\<close>

lemma reap_record_plain:
  assumes "swept E cfg q c s" and "c_attempt (read_metadata E p) s = (Inr (Inr md) :: string + (string + RelayJobMetadata), s')"
    and "p = cf_spool_dir cfg @ [x, ''jobs'', f]" and "extension p = Some ''toml''"
  shows "plain_id (md_job_id md)"
proof -
  obtain i where f: "f = i @ ''.toml''" using toml_suffix [of "cf_spool_dir cfg @ [x, ''jobs'']" f] assms(3,4) by auto
  have "record_at E (rl_host s) p = Some md"
    using assms(2) read_metadata_Inr [of E p s md s'] by (auto simp: c_attempt_Inr record_at_def)
  then have "record_at E (rl_host s) ((cf_spool_dir cfg @ [x]) @ [''jobs'', i @ ''.toml'']) = Some md"
    using assms(3) f by simp
  then show ?thesis using assms(1) unfolding spool_clean_def clean_dir_def by blast
qed

lemma keeps_reap_record:
  assumes "dir = cf_spool_dir cfg @ [x]" and "\<not> below (cf_spool_dir cfg) q" and "p \<noteq> q" and "\<And>md. r = Inr md \<Longrightarrow> plain_id (md_job_id md)"
  shows "keeps (swept E cfg q c) (case r of
         Inl _ \<Rightarrow> c_lift (Inr removed)
       | Inr md \<Rightarrow>
           if md_expires_at_ms md \<le> now
           then
             c_bind (c_attempt (rl_io E (io_remove_file (primary_object_path dir (md_job_id md))))) (\<lambda>_.
             c_bind (c_attempt (rl_io E (io_remove_file (normalized_object_path dir (md_job_id md))))) (\<lambda>_.
             c_bind (c_attempt (rl_io E (io_remove_file p))) (\<lambda>_.
               c_lift (Inr (removed + 1)))))
           else c_lift (Inr removed))"
proof (cases r)
  case (Inr md)
  have "v \<noteq> q" if "below dir v" for v using that assms(1,2) by (auto simp: below_iff)
  then have ne: "primary_object_path dir (md_job_id md) \<noteq> q" "normalized_object_path dir (md_job_id md) \<noteq> q"
    using assms(4) [OF Inr] job_paths_below by blast+
  show ?thesis
    unfolding Inr sum.case by (intro keeps_bind keeps_case keeps_lift keeps_attempt keeps_swept_files ne assms(3))
qed simp

lemma reap_entry_frame:
  assumes "dir = cf_spool_dir cfg @ [x]" and "\<not> below (cf_spool_dir cfg) q"
  shows "keeps (swept E cfg q c) (reap_entry E now dir (dir @ [''jobs'', f]) removed)"
proof -
  have ne: "dir @ [''jobs'', f] \<noteq> q" using assms by (auto simp: below_iff)
  show ?thesis
    unfolding reap_entry_def
    apply (rule keeps_bind_val [OF keeps_swept_files(1)])
    apply (drule io_entry_val)
    apply (rule keeps_unless [OF keeps_bind_inv keeps_lift])
     apply (intro keeps_attempt keeps_swept_look)
    apply (rule keeps_reap_record [OF assms])
     apply (simp add: ne)
    apply (rule reap_record_plain [where x = x and f = f])
       apply assumption
      apply simp
     apply (simp add: assms(1))
    apply simp
    done
qed

lemma reap_client_frame:
  assumes "\<not> below (cf_spool_dir cfg) q"
  shows "keeps (swept E cfg q c) (reap_client E now (cf_spool_dir cfg @ [x]) removed)"
  unfolding reap_client_def
proof (rule keeps_bind_val [OF keeps_swept_files(1)])
  fix dir s s' assume "rl_io E (io_entry (cf_spool_dir cfg @ [x])) s = (Inr dir, s')"
  then have dir: "dir = cf_spool_dir cfg @ [x]" by (rule io_entry_val)
  have scan: "keeps (swept E cfg q c) (c_bind (rl_io E (io_read_dir (dir @ [''jobs''])))
      (\<lambda>jobs. c_fold (reap_entry E now dir) jobs removed))"
  proof (rule keeps_bind_val [OF keeps_swept_files(2)])
    fix jobs s s' assume "rl_io E (io_read_dir (dir @ [''jobs''])) s = (Inr jobs, s')"
    note entries = io_read_dir_val [OF this]
    show "keeps (swept E cfg q c) (c_fold (reap_entry E now dir) jobs removed)"
    proof (rule keeps_fold)
      fix e a assume "e \<in> set jobs"
      then obtain f where "e = dir @ [''jobs'', f]" using entries by fastforce
      then show "keeps (swept E cfg q c) (reap_entry E now dir e a)" using reap_entry_frame [OF dir assms] by simp
    qed
  qed
  show "keeps (swept E cfg q c) (c_bind (rl_test (io_is_dir (dir @ [''jobs'']))) (\<lambda>present.
       if \<not> present then c_lift (Inr removed)
       else c_bind (rl_io E (io_read_dir (dir @ [''jobs'']))) (\<lambda>jobs. c_fold (reap_entry E now dir) jobs removed)))"
    by (intro keeps_bind keeps_case keeps_lift keeps_swept_look scan)
qed

lemma reap_frame:
  assumes "\<not> below (cf_spool_dir cfg) q"
  shows "keeps (swept E cfg q c) (reap_expired E cfg)"
  unfolding reap_expired_def
proof (rule keeps_bind, intro keeps_swept_look)
  fix now
  show "keeps (swept E cfg q c) (c_bind (c_attempt (rl_io E (io_read_dir (cf_spool_dir cfg)))) (\<lambda>r.
       case r of Inl _ \<Rightarrow> c_lift (Inr 0) | Inr entries \<Rightarrow> c_fold (reap_client E now) entries 0))"
  proof (rule keeps_bind_val [OF keeps_attempt [OF keeps_swept_files(2)]])
    fix r s s' assume "c_attempt (rl_io E (io_read_dir (cf_spool_dir cfg))) s = (Inr r :: string + (string + path list), s')"
    then have "rl_io E (io_read_dir (cf_spool_dir cfg)) s = (r, s')" by (simp add: c_attempt_Inr)
    note rd = this
    show "keeps (swept E cfg q c) (case r of Inl _ \<Rightarrow> c_lift (Inr 0) | Inr entries \<Rightarrow> c_fold (reap_client E now) entries 0)"
    proof (cases r)
      case (Inr entries)
      have "keeps (swept E cfg q c) (reap_client E now e a)" if "e \<in> set entries" for e a
        using io_read_dir_val [OF rd [unfolded Inr] that] reap_client_frame [OF assms] by auto
      then show ?thesis unfolding Inr sum.case by (rule keeps_fold)
    qed simp
  qed
qed

lemma reap_clean: "keeps (\<lambda>s. spool_clean E cfg (rl_host s)) (reap_expired E cfg)"
  unfolding keeps_def spool_clean_def clean_dir_def
proof (intro allI impI)
  fix s x i md
  let ?q = "(cf_spool_dir cfg @ [x]) @ [''jobs'', i @ ''.toml'']" and ?s' = "snd (reap_expired E cfg s)"
  assume clean: "\<forall>x i md. record_at E (rl_host s) ((cf_spool_dir cfg @ [x]) @ [''jobs'', i @ ''.toml'']) = Some md \<longrightarrow> plain_id (md_job_id md)"
    and rec: "record_at E (rl_host ?s') ?q = Some md"
  have "content (rl_host ?s') ?q \<in> {content (rl_host s) ?q, None}"
    using keeps_reap_removal [of ?q "content (rl_host s) ?q" E cfg] by (simp add: keeps_def)
  moreover have "content (rl_host ?s') ?q \<noteq> None" using rec by (cases "content (rl_host ?s') ?q") (auto simp: record_at_def)
  ultimately have "content (rl_host ?s') ?q = content (rl_host s) ?q" by blast
  then have "record_at E (rl_host s) ?q = Some md" using rec by (simp add: record_at_def)
  with clean show "plain_id (md_job_id md)" by blast
qed

section \<open>The queue\<close>

abbreviation of_queue :: "(JobRef list \<Rightarrow> bool) \<Rightarrow> relay \<Rightarrow> bool" where
  "of_queue Q s \<equiv> Q (rl_queue s)"

lemma keeps_queue_basic:
  "keeps (of_queue Q) (rl_io E m)" "keeps (of_queue Q) (rl_test t)" "keeps (of_queue Q) (rl_network n)"
  "keeps (of_queue Q) (unix_timestamp_ms E)" "keeps (of_queue Q) (rl_read f c)"
  "keeps (of_queue Q) (run_command_with_timeout E argv timeout label)"
  by (simp_all add: keeps_def rl_io_def rl_test_def rl_network_def unix_timestamp_ms_def rl_read_def
      run_command_with_timeout_def split_beta)

lemmas keeps_queue_intros = keeps_bind keeps_case keeps_fold keeps_attempt keeps_map_err keeps_lift keeps_queue_basic

lemma keeps_queue_store:
  "keeps (of_queue Q) (read_metadata E p)" "keeps (of_queue Q) (write_metadata E dir md)"
  "keeps (of_queue Q) (client_usage E dir)" "keeps (of_queue Q) (run_git_mirror E cfg dir md)"
  unfolding read_metadata_def write_metadata_def client_usage_def usage_entry_def run_git_mirror_def Let_def
  by (intro keeps_queue_intros)+

lemma keeps_queue_phases:
  "keeps (of_queue Q) (job_start E dir job)" "keeps (of_queue Q) (job_fetch E cfg dir md)"
  "keeps (of_queue Q) (job_commit E cfg dir md out)" "keeps (of_queue Q) (job_finish E dir md out digest)"
  "keeps (of_queue Q) (job_failed E dir job e)" "keeps (of_queue Q) (reap_expired E cfg)"
  unfolding job_start_def job_fetch_def job_commit_def job_finish_def job_normalize_def job_failed_def
    reap_expired_def reap_client_def reap_entry_def Let_def
  by (intro keeps_queue_intros keeps_queue_store)+

lemma keeps_queue_dispatch:
  assumes "\<And>i. plain_id i \<Longrightarrow> P \<lparr>ref_key_id_hex = key_id_hex key, ref_job_id = i\<rparr>"
  shows "keeps (of_queue (\<lambda>js. \<forall>j \<in> set js. P j)) (dispatch_inner E cfg key req)"
proof -
  have send: "keeps (of_queue (\<lambda>js. \<forall>j \<in> set js. P j)) (rl_send \<lparr>ref_key_id_hex = key_id_hex key, ref_job_id = i\<rparr>)"
    if "plain_id i" for i
    using assms that by (auto simp: keeps_def rl_send_def)
  have enq: "keeps (of_queue (\<lambda>js. \<forall>j \<in> set js. P j)) (enqueue E cfg key kind src norm)" for kind src norm
    unfolding enqueue_def Let_def by (intro keeps_queue_intros keeps_queue_store send relay_job_id_plain)
  show ?thesis
    unfolding dispatch_inner_def submit_web_def submit_git_def submit_package_def relay_list_def list_entry_def
      download_def delete_def Let_def
    by (intro keeps_queue_intros keeps_queue_store enq)
qed

lemma dispatch_state: "snd (dispatch E cfg key req s) = snd (dispatch_inner E cfg key req s)"
  by (simp add: dispatch_def split: prod.split sum.split)

text \<open>The jobs of a run, queued or held by a worker.\<close>

definition jobs_all :: "(JobRef \<Rightarrow> bool) \<Rightarrow> engine \<Rightarrow> bool" where
  "jobs_all P e \<longleftrightarrow> (\<forall>j \<in> set (rl_queue (eng_relay e)). P j) \<and> (\<forall>p \<in> set (eng_workers e). \<forall>j. phase_job p = Some j \<longrightarrow> P j)"

lemma worker_turn_job:
  assumes "worker_turn E cfg p s = (p', s')"
  shows "phase_job p' = Some j \<Longrightarrow> phase_job p = Some j \<or> j \<in> set (rl_queue s)"
    and "set (rl_queue s') \<subseteq> set (rl_queue s)"
proof -
  note q = keeps_queue_phases [of "\<lambda>js. set js \<subseteq> set (rl_queue s)", unfolded keeps_def, rule_format, of s, OF subset_refl]
  have "(\<forall>j. phase_job p' = Some j \<longrightarrow> phase_job p = Some j \<or> j \<in> set (rl_queue s)) \<and> set (rl_queue s') \<subseteq> set (rl_queue s)"
  proof (cases p)
    case Idle
    then show ?thesis using assms by (auto split: list.splits)
  next
    case (Broken job e)
    then show ?thesis using assms q(5) [of E "job_dir cfg job" job e] by auto
  next
    case (Taken job)
    then show ?thesis using assms q(1) [of E "job_dir cfg job" job]
      by (auto simp: or_broken_def split: prod.splits sum.splits option.splits)
  next
    case (Started job md)
    then show ?thesis using assms q(2) [of E cfg "job_dir cfg job" md] by (auto simp: or_broken_def split: prod.splits sum.splits)
  next
    case (Fetched job md out)
    then show ?thesis using assms q(3) [of E cfg "job_dir cfg job" md out] by (auto simp: or_broken_def split: prod.splits sum.splits)
  next
    case (Committed job md out d)
    then show ?thesis using assms q(4) [of E "job_dir cfg job" md out d] by (auto simp: or_broken_def split: prod.splits sum.splits)
  qed
  then show "phase_job p' = Some j \<Longrightarrow> phase_job p = Some j \<or> j \<in> set (rl_queue s)" "set (rl_queue s') \<subseteq> set (rl_queue s)"
    by blast+
qed

lemma step_jobs_all:
  assumes "engine_step E cfg e a e'" and "jobs_all P e"
    and "\<And>key req i. a = Request key req \<Longrightarrow> plain_id i \<Longrightarrow> P \<lparr>ref_key_id_hex = key_id_hex key, ref_job_id = i\<rparr>"
    and "a = Recover \<Longrightarrow> \<forall>j \<in> set (rl_queue (eng_relay e')). P j"
  shows "jobs_all P e'"
  using assms(1)
proof cases
  case (request key req resp s)
  then have "keeps (of_queue (\<lambda>js. \<forall>j \<in> set js. P j)) (dispatch_inner E cfg key req)"
    using assms(3) by (intro keeps_queue_dispatch) simp
  then show ?thesis
    using request assms(2) dispatch_state [of E cfg key req "eng_relay e"] by (auto simp: jobs_all_def keeps_def)
next
  case (work w p s)
  have held: "P j" if "phase_job (eng_workers e ! w) = Some j" for j
    using assms(2) work(3) that unfolding jobs_all_def by (meson nth_mem)
  have queued: "P j" if "j \<in> set (rl_queue (eng_relay e))" for j
    using assms(2) that by (simp add: jobs_all_def)
  have "P j" if "phase_job p = Some j" for j
    using worker_turn_job(1) [OF work(4) that] held queued by blast
  moreover have "P j" if "j \<in> set (rl_queue s)" for j
    using worker_turn_job(2) [OF work(4)] that queued by blast
  moreover have "set (eng_workers e') \<subseteq> insert p (set (eng_workers e))" using work(2) by (simp add: set_update_subset_insert)
  ultimately show ?thesis
    using assms(2) work(2) unfolding jobs_all_def by auto
next
  case (reap r s)
  then show ?thesis
    using keepsD [OF keeps_queue_phases(6) _ reap(3), of "\<lambda>js. \<forall>j \<in> set js. P j"] assms(2)
    by (auto simp: jobs_all_def)
next
  case (recover r s)
  then show ?thesis using assms(2,4) by (auto simp: jobs_all_def)
qed

section \<open>The invariant of the engine\<close>

text \<open>The records, the queue and the workers carry identifiers of the engine's alphabet.\<close>

definition engine_clean :: "relay_env \<Rightarrow> RelayConfig \<Rightarrow> engine \<Rightarrow> bool" where
  "engine_clean E cfg e \<longleftrightarrow> spool_clean E cfg (rl_host (eng_relay e)) \<and> jobs_all (\<lambda>j. plain_id (ref_job_id j)) e \<and>
     (\<forall>p \<in> set (eng_workers e). phase_clean p)"

text \<open>Recovery takes the identifiers from the records of the spool.\<close>

abbreviation queue_clean :: "relay_env \<Rightarrow> RelayConfig \<Rightarrow> relay \<Rightarrow> bool" where
  "queue_clean E cfg s \<equiv> spool_clean E cfg (rl_host s) \<and> (\<forall>j \<in> set (rl_queue s). plain_id (ref_job_id j))"

lemma spool_clean_files: "files h' = files h \<Longrightarrow> spool_clean E cfg h' = spool_clean E cfg h"
  by (simp add: spool_clean_def clean_dir_def record_at_def)

lemma keeps_queue_clean:
  assumes "\<And>Q. keeps (of_files Q) m" and "\<And>Q. keeps (of_queue Q) m"
  shows "keeps (queue_clean E cfg) m"
  unfolding keeps_def
proof (intro allI impI)
  fix s assume s: "queue_clean E cfg s"
  have "files (rl_host (snd (m s))) = files (rl_host s)" using assms(1) [of "\<lambda>f. f = files (rl_host s)"] by (simp add: keeps_def)
  moreover have "rl_queue (snd (m s)) = rl_queue s" using assms(2) [of "\<lambda>f. f = rl_queue s"] by (simp add: keeps_def)
  ultimately show "queue_clean E cfg (snd (m s))" using s spool_clean_files by metis
qed

lemmas keeps_queue_clean_look = keeps_queue_clean [OF keeps_look(1) keeps_queue_basic(1)]
  keeps_queue_clean [OF keeps_look(2) keeps_queue_basic(1)] keeps_queue_clean [OF keeps_look(3) keeps_queue_basic(2)]
  keeps_queue_clean [OF keeps_look(4) keeps_queue_store(1)]

lemma keeps_recover_record:
  assumes "\<And>md. r = Inr md \<Longrightarrow> plain_id (md_job_id md)"
  shows "keeps (queue_clean E cfg) (case r of
      Inl _ \<Rightarrow> c_lift (Inr requeued)
    | Inr md \<Rightarrow>
        if md_status md = JOB_STATUS_QUEUED \<or> md_status md = JOB_STATUS_RUNNING
        then c_bind (rl_send \<lparr>ref_key_id_hex = key_hex, ref_job_id = md_job_id md\<rparr>) (\<lambda>_. c_lift (Inr (requeued + 1)))
        else c_lift (Inr requeued))"
proof (cases r)
  case (Inr md)
  have "keeps (queue_clean E cfg) (rl_send \<lparr>ref_key_id_hex = key_hex, ref_job_id = md_job_id md\<rparr>)"
    using assms [OF Inr] by (auto simp: keeps_def rl_send_def)
  then show ?thesis unfolding Inr sum.case by (intro keeps_case keeps_bind keeps_lift)
qed simp

lemma recover_entry_clean:
  "keeps (queue_clean E cfg) (recover_entry E key_hex (cf_spool_dir cfg @ [x, ''jobs'', f]) requeued)"
  unfolding recover_entry_def
  apply (rule keeps_bind_val [OF keeps_queue_clean_look(1)])
  apply (drule io_entry_val)
  apply (rule keeps_unless [OF keeps_bind_inv keeps_lift])
   apply (intro keeps_attempt keeps_queue_clean_look)
  apply (rule keeps_recover_record)
  apply (rule reap_record_plain [where x = x and f = f and cfg = cfg])
     apply blast
    apply simp
   apply simp
  apply simp
  done

lemma recover_client_clean: "keeps (queue_clean E cfg) (recover_client E (cf_spool_dir cfg @ [x]) requeued)"
proof -
  have scan: "keeps (queue_clean E cfg) (c_bind (rl_io E (io_read_dir (cf_spool_dir cfg @ [x, ''jobs'']))) (\<lambda>jobs. c_fold (recover_entry E k) jobs n))" for k n
  proof (rule keeps_bind_val [OF keeps_queue_clean_look(2)])
    fix jobs s s' assume "rl_io E (io_read_dir (cf_spool_dir cfg @ [x, ''jobs''])) s = (Inr jobs, s')"
    note entries = io_read_dir_val [OF this]
    show "keeps (queue_clean E cfg) (c_fold (recover_entry E k) jobs n)"
    proof (rule keeps_fold)
      fix e a assume "e \<in> set jobs"
      then obtain f where "e = cf_spool_dir cfg @ [x, ''jobs'', f]" using entries by fastforce
      then show "keeps (queue_clean E cfg) (recover_entry E k e a)" using recover_entry_clean by simp
    qed
  qed
  show ?thesis
    unfolding recover_client_def
    apply (rule keeps_bind_val [OF keeps_queue_clean_look(1)])
    apply (drule io_entry_val)
    using scan apply (auto intro!: keeps_bind keeps_queue_clean_look)
    done
qed

lemma recover_clean: "keeps (queue_clean E cfg) (recover_pending E cfg)"
  unfolding recover_pending_def
proof (rule keeps_bind_val [OF keeps_attempt [OF keeps_queue_clean_look(2)]])
  fix r s s' assume "c_attempt (rl_io E (io_read_dir (cf_spool_dir cfg))) s = (Inr r :: string + (string + path list), s')"
  then have rd: "rl_io E (io_read_dir (cf_spool_dir cfg)) s = (r, s')" by (simp add: c_attempt_Inr)
  show "keeps (queue_clean E cfg) (case r of Inl _ \<Rightarrow> c_lift (Inr 0) | Inr entries \<Rightarrow> c_fold (recover_client E) entries 0)"
  proof (cases r)
    case (Inr entries)
    have "keeps (queue_clean E cfg) (recover_client E e a)" if "e \<in> set entries" for e a
      using io_read_dir_val [OF rd [unfolded Inr] that] recover_client_clean by auto
    then show ?thesis unfolding Inr sum.case by (rule keeps_fold)
  qed simp
qed

lemma step_clean:
  assumes "toml_ok E" and "git_confined E" and "engine_step E cfg e a e'" and "engine_clean E cfg e"
  shows "engine_clean E cfg e'"
proof -
  note clean = assms(4) [unfolded engine_clean_def]
  have queue: "\<forall>j \<in> set (rl_queue (eng_relay e)). plain_id (ref_job_id j)" using clean by (simp add: jobs_all_def)
  have "spool_clean E cfg (rl_host (eng_relay e')) \<and> (\<forall>p \<in> set (eng_workers e'). phase_clean p) \<and>
      (a = Recover \<longrightarrow> (\<forall>j \<in> set (rl_queue (eng_relay e')). plain_id (ref_job_id j)))"
    using assms(3)
  proof cases
    case (request key req resp s)
    then have s: "s = snd (dispatch_inner E cfg key req (eng_relay e))"
      using dispatch_state [of E cfg key req "eng_relay e"] by simp
    have "spool_clean E cfg (rl_host s)"
      by (rule spool_clean_step [OF _ client_dir_def [of cfg key], where s = "eng_relay e"])
        (use keeps_safe_dispatch [OF assms(1)] clean in \<open>simp_all add: keeps_def s\<close>)
    then show ?thesis using request clean by simp
  next
    case (work w p s)
    have "phase_clean (eng_workers e ! w)" using clean work(3) by simp
    note t = worker_turn_clean [OF assms(1,2) this _ queue work(4)]
    have "set (eng_workers e') \<subseteq> insert p (set (eng_workers e))" using work(2) by (simp add: set_update_subset_insert)
    then show ?thesis using t clean work by auto
  next
    case (reap r s)
    have "spool_clean E cfg (rl_host s)" using keepsD [OF reap_clean _ reap(3)] clean by blast
    then show ?thesis using reap clean by simp
  next
    case (recover r s)
    have "queue_clean E cfg s" using keepsD [OF recover_clean _ recover(3)] clean queue by blast
    then show ?thesis using recover clean by simp
  qed
  moreover have "jobs_all (\<lambda>j. plain_id (ref_job_id j)) e'"
    by (rule step_jobs_all [OF assms(3)]) (use clean calculation in simp_all)
  ultimately show ?thesis by (simp add: engine_clean_def)
qed

lemma run_clean:
  assumes "toml_ok E" and "git_confined E" and "spool_clean E cfg h" and "engine_run E cfg h as e"
  shows "engine_clean E cfg e"
  using assms(4)
proof induction
  case (start n clock)
  then show ?case using assms(3) by (simp add: engine_clean_def RelayEngine_start_def jobs_all_def phase_clean_def)
qed (use step_clean [OF assms(1,2)] in blast)

lemma engine_step_owner:
  assumes "toml_ok E" and "git_confined E" and "engine_step E cfg e a e'" and "engine_clean E cfg e"
    and "content (rl_host (eng_relay e')) q \<noteq> content (rl_host (eng_relay e)) q"
  shows "(\<exists>key req. a = Request key req \<and> below (client_dir cfg key) q) \<or>
    (\<exists>w job. a = Work w \<and> w < length (eng_workers e) \<and> phase_job (eng_workers e ! w) = Some job \<and> below (job_dir cfg job) q) \<or>
    a = Reap \<and> below (cf_spool_dir cfg) q \<and> content (rl_host (eng_relay e')) q = None"
  using assms(3)
proof cases
  case (request key req resp s)
  have "below (client_dir cfg key) q"
    using keeps_dispatch_inner [of cfg key q "content (rl_host (eng_relay e)) q" E req] assms(5) request
      dispatch_state [of E cfg key req "eng_relay e"] by (auto simp: keeps_def)
  then show ?thesis using request by blast
next
  case (work w p s)
  have "phase_clean (eng_workers e ! w)" "spool_clean E cfg (rl_host (eng_relay e))"
    using assms(4) work(3) by (simp_all add: engine_clean_def)
  from worker_turn_frame [OF assms(1,2) this, of q] show ?thesis using work assms(5) by auto
next
  case (reap r s)
  have "below (cf_spool_dir cfg) q"
    using keepsD [OF reap_frame _ reap(3), of q "content (rl_host (eng_relay e)) q"] assms(4,5) reap by (auto simp: engine_clean_def)
  moreover have "content (rl_host s) q \<in> {content (rl_host (eng_relay e)) q, None}"
    using keepsD [OF keeps_reap_removal _ reap(3), of q "content (rl_host (eng_relay e)) q"] by simp
  ultimately show ?thesis using reap assms(5) by auto
next
  case (recover r s)
  then show ?thesis using keepsD [OF keeps_recover _ recover(3), of q "content (rl_host (eng_relay e)) q"] assms(5) by simp
qed

section \<open>Isolation\<close>


lemma two_clients_spool: "spool_clean demo_env demo_cfg (rl_host two_clients)"
  unfolding spool_clean_def
proof
  fix x
  show "clean_dir demo_env (cf_spool_dir demo_cfg @ [x]) (rl_host two_clients)"
  proof (cases "x = ''11''")
    case True
    then show ?thesis using two_clients_clean by (simp add: demo_cfg_def)
  next
    case False
    have "record_at demo_env (rl_host two_clients) [''s'', x, ''jobs'', f] = None" for f
      using False by (auto simp: record_at_def two_clients_def demo_relay_def demo_paths demo_md_def hm_get_def lines_from_def from_utf8_def
          utf8_valid_ascii str_of_bytes_def split: option.splits)
    then show ?thesis by (simp add: clean_dir_def demo_cfg_def)
  qed
qed


section \<open>Recovery\<close>

text \<open>A scan that leaves the store as it is and appends job references to the queue.\<close>

definition appends :: "JobRef list \<Rightarrow> relay \<Rightarrow> relay \<Rightarrow> bool" where
  "appends refs s s' \<longleftrightarrow> files (rl_host s') = files (rl_host s) \<and> dirs (rl_host s') = dirs (rl_host s) \<and>
     fault (rl_host s') = fault (rl_host s) \<and> rl_queue s' = rl_queue s @ refs"

lemma appends_trans: "appends r1 s s1 \<Longrightarrow> appends r2 s1 s2 \<Longrightarrow> appends (r1 @ r2) s s2"
  by (simp add: appends_def)

lemma c_fold_appends:
  assumes "\<And>x acc s1. x \<in> set xs \<Longrightarrow> files (rl_host s1) = files (rl_host s) \<Longrightarrow> dirs (rl_host s1) = dirs (rl_host s) \<Longrightarrow>
      fault (rl_host s1) = fault (rl_host s) \<Longrightarrow> \<exists>acc' s2. f x acc s1 = (Inr acc', s2) \<and> appends (g x) s1 s2"
  shows "\<exists>acc' s'. c_fold f xs acc s = (Inr acc', s') \<and> appends (concat (map g xs)) s s'"
  using assms
proof (induction xs arbitrary: acc s)
  case Nil
  then show ?case by (simp add: appends_def)
next
  case (Cons x xs)
  obtain acc1 s1 where x: "f x acc s = (Inr acc1, s1)" "appends (g x) s s1" using Cons.prems [of x s acc] by auto
  have "\<exists>acc' s'. c_fold f xs acc1 s1 = (Inr acc', s') \<and> appends (concat (map g xs)) s1 s'"
  proof (rule Cons.IH)
    fix y acc and s2 :: relay
    assume "y \<in> set xs" "files (rl_host s2) = files (rl_host s1)" "dirs (rl_host s2) = dirs (rl_host s1)"
      "fault (rl_host s2) = fault (rl_host s1)"
    then show "\<exists>acc' s3. f y acc s2 = (Inr acc', s3) \<and> appends (g y) s2 s3"
      using Cons.prems [of y s2 acc] x(2) by (simp add: appends_def)
  qed
  then show ?case using x appends_trans by (fastforce simp: c_bind_def)
qed

definition pending :: "RelayJobMetadata \<Rightarrow> bool" where
  "pending md \<longleftrightarrow> md_status md = JOB_STATUS_QUEUED \<or> md_status md = JOB_STATUS_RUNNING"

definition entry_refs :: "relay_env \<Rightarrow> host \<Rightarrow> string \<Rightarrow> path \<Rightarrow> JobRef list" where
  "entry_refs E h key_hex p =
     (if extension p = Some ''toml''
      then case record_at E h p of
             Some md \<Rightarrow> if pending md then [\<lparr>ref_key_id_hex = key_hex, ref_job_id = md_job_id md\<rparr>] else []
           | None \<Rightarrow> []
      else [])"

definition client_refs :: "relay_env \<Rightarrow> host \<Rightarrow> path \<Rightarrow> JobRef list" where
  "client_refs E h dir =
     (if dir @ [''jobs''] \<in> set (dirs h) then concat (map (entry_refs E h (last dir)) (dir_entries h (dir @ [''jobs'']))) else [])"

lemma entry_refs_cong: "files h' = files h \<Longrightarrow> entry_refs E h' = entry_refs E h"
  by (simp add: entry_refs_def record_at_def fun_eq_iff)

lemma client_refs_cong: "files h' = files h \<Longrightarrow> dirs h' = dirs h \<Longrightarrow> client_refs E h' = client_refs E h"
  by (rule ext) (simp add: client_refs_def dir_entries_def entry_refs_cong [of h' h])

lemma recover_entry_quiet:
  assumes "quiet (rl_host s)"
  shows "\<exists>acc' s'. recover_entry E key_hex p acc s = (Inr acc', s') \<and> appends (entry_refs E (rl_host s) key_hex p) s s'"
proof -
  let ?s1 = "s\<lparr>rl_host := rl_host s\<lparr>tick := tick (rl_host s) + 1\<rparr>\<rparr>"
  have e: "rl_io E (io_entry p) s = (Inr p, ?s1)" using assms by (simp add: rl_io_def io_entry_def io_call_def)
  obtain er where r: "read_metadata E p ?s1 = (case record_at E (rl_host ?s1) p of Some md \<Rightarrow> Inr md | None \<Rightarrow> Inl er,
      ?s1\<lparr>rl_host := rl_host ?s1\<lparr>tick := tick (rl_host ?s1) + 1\<rparr>\<rparr>)"
    using read_metadata_record [of ?s1 E p] assms by (auto simp: quiet_def)
  have "record_at E (rl_host ?s1) p = record_at E (rl_host s) p" by (simp add: record_at_def)
  with e r show ?thesis
    by (auto simp: recover_entry_def c_bind_def c_attempt_def entry_refs_def pending_def appends_def rl_send_def split: option.splits)
qed

lemma recover_client_quiet:
  assumes "quiet (rl_host s)" and "dir \<noteq> []"
  shows "\<exists>acc' s'. recover_client E dir acc s = (Inr acc', s') \<and> appends (client_refs E (rl_host s) dir) s s'"
proof -
  let ?jobs = "dir @ [''jobs'']" and ?s1 = "s\<lparr>rl_host := rl_host s\<lparr>tick := tick (rl_host s) + 2\<rparr>\<rparr>"
  let ?s2 = "s\<lparr>rl_host := rl_host s\<lparr>tick := tick (rl_host s) + 3\<rparr>\<rparr>"
  show ?thesis
  proof (cases "?jobs \<in> set (dirs (rl_host s))")
    case False
    then show ?thesis
      using assms by (auto simp: recover_client_def c_bind_def rl_io_def io_entry_def io_call_def rl_test_def io_is_dir_def
          client_refs_def appends_def Let_def)
  next
    case True
    have "recover_client E dir acc s = c_fold (recover_entry E (last dir)) (dir_entries (rl_host s) ?jobs) acc ?s2"
      using assms True
      by (simp add: recover_client_def c_bind_def rl_io_def io_entry_def io_call_def rl_test_def io_is_dir_def io_read_dir_def
          dir_entries_def Let_def numeral_eq_Suc)
    moreover have "\<exists>acc' s'. c_fold (recover_entry E (last dir)) (dir_entries (rl_host s) ?jobs) acc ?s2 = (Inr acc', s') \<and>
        appends (concat (map (entry_refs E (rl_host s) (last dir)) (dir_entries (rl_host s) ?jobs))) ?s2 s'"
    proof (rule c_fold_appends)
      fix x acc and s1 :: relay
      assume "files (rl_host s1) = files (rl_host ?s2)" "fault (rl_host s1) = fault (rl_host ?s2)"
      then show "\<exists>acc' s3. recover_entry E (last dir) x acc s1 = (Inr acc', s3) \<and>
          appends (entry_refs E (rl_host s) (last dir) x) s1 s3"
        using recover_entry_quiet [of s1 E "last dir" x acc] assms(1) entry_refs_cong [of "rl_host s1" "rl_host s" E]
        by (simp add: quiet_def)
    qed
    ultimately show ?thesis using True by (auto simp: client_refs_def appends_def)
  qed
qed

text \<open>
  C17. No interrupted job is lost over a restart: on a host that works, the recovery scan succeeds,
  changes no file and puts into the queue exactly one reference for every record in a client's job
  directory that still says queued or running, under that client's key and the record's job identifier;
  a worker that takes it then
  runs the whole of \<open>process_job\<close> on it in at most five uninterrupted turns.
\<close>

theorem recovery_exact:
  assumes "quiet (rl_host s)" and "cf_spool_dir cfg \<in> set (dirs (rl_host s))"
  shows "(\<exists>n s'. recover_pending E cfg s = (Inr n, s') \<and> files (rl_host s') = files (rl_host s) \<and>
      rl_queue s' = rl_queue s @ concat (map (client_refs E (rl_host s)) (dir_entries (rl_host s) (cf_spool_dir cfg)))) \<and>
    (\<forall>key i md. record_at E (rl_host s) (client_dir cfg key @ [''jobs'', i @ ''.toml'']) = Some md \<longrightarrow> pending md \<longrightarrow> i \<noteq> [] \<longrightarrow>
       client_dir cfg key \<in> set (dirs (rl_host s)) \<longrightarrow> client_dir cfg key @ [''jobs''] \<in> set (dirs (rl_host s)) \<longrightarrow>
       \<lparr>ref_key_id_hex = key_id_hex key, ref_job_id = md_job_id md\<rparr> \<in>
         set (concat (map (client_refs E (rl_host s)) (dir_entries (rl_host s) (cf_spool_dir cfg))))) \<and>
    (\<forall>job s. turns E cfg 5 (Taken job, s) = (Idle, snd (process_job E cfg job s)))"
proof -
  let ?entries = "dir_entries (rl_host s) (cf_spool_dir cfg)" and ?s1 = "s\<lparr>rl_host := rl_host s\<lparr>tick := tick (rl_host s) + 1\<rparr>\<rparr>"
  have "recover_pending E cfg s = c_fold (recover_client E) ?entries 0 ?s1"
    using assms by (simp add: recover_pending_def c_bind_def c_attempt_def rl_io_def io_read_dir_def io_call_def dir_entries_def Let_def)
  moreover have "\<exists>n s'. c_fold (recover_client E) ?entries 0 ?s1 = (Inr n, s') \<and>
      appends (concat (map (client_refs E (rl_host s)) ?entries)) ?s1 s'"
  proof (rule c_fold_appends)
    fix x acc and s1 :: relay
    assume x: "x \<in> set ?entries" and eq: "files (rl_host s1) = files (rl_host ?s1)" "dirs (rl_host s1) = dirs (rl_host ?s1)"
      "fault (rl_host s1) = fault (rl_host ?s1)"
    then have "x \<noteq> []" by (auto simp: dir_entries_def)
    moreover have "client_refs E (rl_host s1) = client_refs E (rl_host s)"
      using eq by (intro client_refs_cong) simp_all
    ultimately show "\<exists>acc' s2. recover_client E x acc s1 = (Inr acc', s2) \<and> appends (client_refs E (rl_host s) x) s1 s2"
      using recover_client_quiet [of s1 x E acc] eq(3) assms(1) by (simp add: quiet_def)
  qed
  ultimately have scan: "\<exists>n s'. recover_pending E cfg s = (Inr n, s') \<and> files (rl_host s') = files (rl_host s) \<and>
      rl_queue s' = rl_queue s @ concat (map (client_refs E (rl_host s)) ?entries)"
    by (auto simp: appends_def)
  have "\<lparr>ref_key_id_hex = key_id_hex key, ref_job_id = md_job_id md\<rparr> \<in> set (concat (map (client_refs E (rl_host s)) ?entries))"
    if j: "record_at E (rl_host s) (client_dir cfg key @ [''jobs'', i @ ''.toml'']) = Some md" "pending md" "i \<noteq> []"
      and d: "client_dir cfg key \<in> set (dirs (rl_host s))" "client_dir cfg key @ [''jobs''] \<in> set (dirs (rl_host s))" for key i md
  proof -
    let ?dir = "client_dir cfg key" and ?p = "client_dir cfg key @ [''jobs'', i @ ''.toml'']"
    have "hm_get (files (rl_host s)) ?p \<noteq> None" using j(1) by (auto simp: record_at_def bind_eq_Some_conv)
    then have "?p \<in> set (dir_entries (rl_host s) (?dir @ [''jobs'']))"
      by (auto simp: dir_entries_def hm.in_keys_iff butlast_append)
    moreover have "extension ?p = Some ''toml''"
      using rsplit_once_append [of "CHR ''.''" "''toml''" i] j(3) by (simp add: extension_def)
    ultimately have "\<lparr>ref_key_id_hex = key_id_hex key, ref_job_id = md_job_id md\<rparr> \<in> set (client_refs E (rl_host s) ?dir)"
      using j(1,2) d(2) by (auto simp: client_refs_def entry_refs_def client_dir_def intro!: bexI [of _ ?p])
    moreover have "?dir \<in> set ?entries" using d(1) by (simp add: dir_entries_def client_dir_def)
    ultimately show ?thesis by auto
  qed
  then show ?thesis using scan turns_process_job by blast
qed

theorem recovery_exact_witness:
  "\<exists>n s'. recover_pending demo_env demo_cfg
       ((demo_relay [demo_md ''a'' ''x''])\<lparr>rl_host := (rl_host (demo_relay [demo_md ''a'' ''x'']))\<lparr>dirs := [[''s''], [''s'', ''11''], [''s'', ''11'', ''jobs'']]\<rparr>\<rparr>) = (Inr n, s') \<and>
     \<lparr>ref_key_id_hex = ''11'', ref_job_id = ''a''\<rparr> \<in> set (rl_queue s')"
proof -
  let ?s = "(demo_relay [demo_md ''a'' ''x''])\<lparr>rl_host := (rl_host (demo_relay [demo_md ''a'' ''x'']))\<lparr>dirs := [[''s''], [''s'', ''11''], [''s'', ''11'', ''jobs'']]\<rparr>\<rparr>"
  have q: "quiet (rl_host ?s)" "cf_spool_dir demo_cfg \<in> set (dirs (rl_host ?s))"
    using demo_relay_host(1) by (simp_all add: quiet_def demo_cfg_def)
  have hex: "key_id_hex [0x11] = ''11''" using demo_client_dir by (simp add: client_dir_def)
  have "record_at demo_env (rl_host ?s) (client_dir demo_cfg [0x11] @ [''jobs'', ''a'' @ ''.toml'']) = Some (demo_md ''a'' ''x'')"
    using demo_job [OF demo_codec(1)] by (simp add: demo_client_dir job_of_def record_at_def demo_md_def demo_paths)
  moreover have "pending (demo_md ''a'' ''x'')" "md_job_id (demo_md ''a'' ''x'') = ''a''"
    by (simp_all add: pending_def demo_md_def job_status_defs)
  moreover have "client_dir demo_cfg [0x11] \<in> set (dirs (rl_host ?s))" "client_dir demo_cfg [0x11] @ [''jobs''] \<in> set (dirs (rl_host ?s))"
    by (simp_all add: demo_client_dir)
  moreover note rec = recovery_exact [OF q, of demo_env]
  ultimately have "\<lparr>ref_key_id_hex = ''11'', ref_job_id = ''a''\<rparr> \<in>
      set (concat (map (client_refs demo_env (rl_host ?s)) (dir_entries (rl_host ?s) (cf_spool_dir demo_cfg))))"
    unfolding hex [symmetric] by (metis list.distinct(1))
  then show ?thesis using rec [THEN conjunct1] by (elim exE conjE) (intro exI conjI, assumption, simp)
qed

section \<open>A deletion that does not last\<close>

text \<open>
  A job is deleted while a worker is fetching for it: the client is told so and the record is gone.
  The worker still finishes with its own copy of the record, and the job is back, complete.
\<close>

theorem delete_undone:
  assumes "toml_ok E" and "job_of E (job_dir cfg job) (rl_host s) (md_job_id md) = None"
    and "worker_turn E cfg (Committed job md out digest) s = (Idle, s')"
  shows "\<exists>md'. job_of E (job_dir cfg job) (rl_host s') (md_job_id md) = Some md' \<and> md_status md' = JOB_STATUS_COMPLETE \<and>
    md_source md' = md_source md"
proof -
  obtain u where "job_finish E (job_dir cfg job) md out digest s = (Inr u, s')"
    using assms(3) by (auto simp: or_broken_def split: prod.splits sum.splits)
  then obtain md3 s4 now s5 where n: "job_normalize E (job_dir cfg job) (md\<lparr>md_body_len := word_of_nat (length (out_body out)),
        md_http_status := out_http_status out, md_content_type := out_content_type out, md_sha256 := Some digest\<rparr>) out s = (Inr md3, s4)"
    and w: "write_metadata E (job_dir cfg job) (md3\<lparr>md_status := JOB_STATUS_COMPLETE, md_error := None, md_updated_at_ms := now\<rparr>) s5 = (Inr u, s')"
    by (auto simp: job_finish_def comp_eqs)
  have "md_job_id md3 = md_job_id md \<and> md_source md3 = md_source md" using job_normalize_Inr [OF n] by auto
  then show ?thesis using write_metadata_Inr(1) [OF assms(1) w] by simp
qed

section \<open>The quota locks\<close>

definition locks_ok :: "(string, nat) hash_map \<Rightarrow> bool" where
  "locks_ok m \<longleftrightarrow> hm_ok m \<and> (\<forall>k l. hm_get m k = Some l \<longrightarrow> l < length (hm_keys m)) \<and>
     (\<forall>k k' l. hm_get m k = Some l \<longrightarrow> hm_get m k' = Some l \<longrightarrow> k = k')"

text \<open>One lock per client, the same one for ever, and no two clients share one.\<close>

lemma client_lock_ok:
  assumes "locks_ok m" and "client_lock k m = (l, m')"
  shows "locks_ok m'" and "hm_get m' k = Some l" and "hm_get m k' = Some l' \<Longrightarrow> hm_get m' k' = Some l'"
proof -
  have fresh: "hm_get m k \<noteq> Some (length (hm_keys m))" for k using assms(1) by (auto simp: locks_ok_def)
  have "locks_ok m' \<and> hm_get m' k = Some l \<and> (\<forall>k' l'. hm_get m k' = Some l' \<longrightarrow> hm_get m' k' = Some l')"
  proof (cases "hm_get m k")
    case None
    then show ?thesis
      using assms fresh by (auto simp: client_lock_def locks_ok_def Let_def keys_insert less_Suc_eq split: if_splits)
  next
    case (Some x)
    then show ?thesis using assms by (simp add: client_lock_def)
  qed
  then show "locks_ok m'" "hm_get m' k = Some l" "hm_get m k' = Some l' \<Longrightarrow> hm_get m' k' = Some l'" by blast+
qed

lemma client_lock_exclusive:
  assumes "locks_ok m" and "client_lock k m = (l, m')" and "client_lock k' m' = (l', m'')"
  shows "l = l' \<longleftrightarrow> k = k'"
proof -
  note a = client_lock_ok [OF assms(1,2)]
  note b = client_lock_ok [OF a(1) assms(3)]
  have "hm_get m'' k = Some l" "hm_get m'' k' = Some l'" using b(2,3) a(2) by blast+
  then show ?thesis using b(1) unfolding locks_ok_def by force
qed

end
