(* ===== verification/Decoy.thy ===== *)
theory Decoy
  imports Ebpf_Runtime Net_Addr
begin

text \<open>
  The decoy web site (\<open>ghostbro-server/src/decoy.rs\<close>): static files below the web root, the page that
  imitates a fresh nginx, and the telemetry endpoint that takes HTTPS knocks. The HTTP status and header
  libraries, \<open>ipnet\<close>, \<open>fs::canonicalize\<close> and the formatted clock are parameters; the channel to the
  verifier is a bounded queue.
\<close>

record 'n decoy_env =
  status_valid :: "u16 \<Rightarrow> bool"
  header_to_str :: "bytes \<Rightarrow> string option"
  parse_ipnet :: "string \<Rightarrow> 'n option"
  ipnet_contains :: "'n \<Rightarrow> ip_addr \<Rightarrow> bool"
  canonicalize :: "path \<Rightarrow> host \<Rightarrow> path option"
  http_date :: "nat \<Rightarrow> string"
  request_nanos :: "nat \<Rightarrow> nat option"
  process_id :: nat

datatype decoy_error = BadStatus u16 | BadCidr string | BadWebroot path

record 'n DecoyState =
  spa_tx :: bool
  response_status :: u16
  trusted_proxy_cidrs :: "'n list"
  webroot :: "path option"

text \<open>Header names in lower case, as \<open>HeaderMap\<close> keeps them.\<close>

record response =
  resp_status :: u16
  resp_headers :: "(string \<times> string) list"
  resp_body :: bytes

section \<open>Construction\<close>

definition parse_trusted_proxy_cidrs :: "'n decoy_env \<Rightarrow> string list \<Rightarrow> decoy_error + 'n list" where
  "parse_trusted_proxy_cidrs E cidrs = collect_results (map (\<lambda>cidr. ok_or (BadCidr cidr) (parse_ipnet E cidr)) cidrs)"

definition router ::
    "'n decoy_env \<Rightarrow> bool \<Rightarrow> u16 \<Rightarrow> string list \<Rightarrow> path option \<Rightarrow> host \<Rightarrow> decoy_error + 'n DecoyState" where
  "router E tx status cidrs root h =
     and_then (ensure (status_valid E status) (BadStatus status)) (\<lambda>_.
     and_then (parse_trusted_proxy_cidrs E cidrs) (\<lambda>nets.
     and_then (case root of
                 None \<Rightarrow> Inr None
               | Some r \<Rightarrow> and_then (ok_or (BadWebroot r) (canonicalize E r h)) (\<lambda>p. Inr (Some p))) (\<lambda>base.
       Inr \<lparr>spa_tx = tx, response_status = status, trusted_proxy_cidrs = nets, webroot = base\<rparr>)))"

section \<open>Static files\<close>

text \<open>\<open>Path::components\<close>: empty components vanish, a dot stays only at the start.\<close>

datatype component = RootDir | CurDir | ParentDir | Normal string

definition components :: "string \<Rightarrow> component list" where
  "components s =
     (let parts = split_on CHR ''/'' s in
      (if starts_with s ''/'' then [RootDir] else []) @
      (if hd parts = ''.'' then [CurDir] else []) @
      map (\<lambda>p. if p = ''..'' then ParentDir else Normal p) (filter (\<lambda>p. p \<noteq> [] \<and> p \<noteq> ''.'') parts))"

fun push_components :: "path \<Rightarrow> component list \<Rightarrow> path option" where
  "push_components path [] = Some path"
| "push_components path (c # cs) =
     (case c of Normal part \<Rightarrow> push_components (path @ [part]) cs | _ \<Rightarrow> None)"

definition static_path :: "path \<Rightarrow> string \<Rightarrow> path option" where
  "static_path root uri_path =
     (let requested = dropWhile (\<lambda>c. c = CHR ''/'') uri_path in
      if requested = [] then Some (root @ [''index.html'']) else push_components root (components requested))"

definition content_type :: "path \<Rightarrow> string" where
  "content_type p =
     (case extension p of
        None \<Rightarrow> ''application/octet-stream''
      | Some e \<Rightarrow>
          if e = ''css'' then ''text/css; charset=utf-8''
          else if e = ''html'' \<or> e = ''htm'' then ''text/html; charset=utf-8''
          else if e = ''js'' then ''application/javascript; charset=utf-8''
          else if e = ''json'' then ''application/json''
          else if e = ''png'' then ''image/png''
          else if e = ''svg'' then ''image/svg+xml''
          else if e = ''txt'' then ''text/plain; charset=utf-8''
          else ''application/octet-stream'')"

definition static_response :: "'n decoy_env \<Rightarrow> path \<Rightarrow> string \<Rightarrow> nat \<Rightarrow> host \<Rightarrow> response option \<times> host" where
  "static_response E root uri_path n h =
     (case static_path root uri_path of
        None \<Rightarrow> (None, h)
      | Some path \<Rightarrow>
          (case canonicalize E path h of
             None \<Rightarrow> (None, h)
           | Some resolved \<Rightarrow>
               if \<not> below root resolved then (None, h)
               else (case io_read resolved h of
                       (Inl _, h') \<Rightarrow> (None, h')
                     | (Inr bs, h') \<Rightarrow>
                         (Some \<lparr>resp_status = 200,
                                resp_headers = [(''server'', ''nginx/1.26.0''), (''date'', http_date E n),
                                                (''content-type'', content_type resolved)],
                                resp_body = bs\<rparr>, h'))))"

definition nl :: string where "nl = [CHR 0x0A]"

definition NGINX_INDEX :: string where
  "NGINX_INDEX = concat (map (\<lambda>l. l @ nl)
     [''<!DOCTYPE html>'', ''<html>'', ''<head>'', ''<title>Welcome to nginx!</title>'', ''<style>'',
      ''html { color-scheme: light; }'',
      ''body { width: 35em; margin: 0 auto; font-family: Tahoma, Verdana, Arial, sans-serif; }'',
      ''</style>'', ''</head>'', ''<body>'', ''<h1>Welcome to nginx!</h1>'',
      ''<p>If you see this page, the nginx web server is successfully installed and working. Further configuration is required.</p>'',
      ''<p>For online documentation and support please refer to <a href='' @ [CHR 0x22] @ ''http://nginx.org/'' @ [CHR 0x22] @ ''>nginx.org</a>.</p>'',
      ''<p><em>Thank you for using nginx.</em></p>'', ''</body>'', ''</html>''])"

definition index :: "'n decoy_env \<Rightarrow> nat \<Rightarrow> response" where
  "index E n =
     \<lparr>resp_status = 200,
      resp_headers = [(''server'', ''nginx/1.26.0''), (''date'', http_date E n), (''content-type'', ''text/html; charset=utf-8'')],
      resp_body = as_bytes NGINX_INDEX\<rparr>"

definition decoy_content :: "'n decoy_env \<Rightarrow> 'n DecoyState \<Rightarrow> string \<Rightarrow> nat \<Rightarrow> host \<Rightarrow> response \<times> host" where
  "decoy_content E st uri_path n h =
     (case webroot st of
        None \<Rightarrow> (index E n, h)
      | Some root \<Rightarrow>
          (case static_response E root uri_path n h of
             (Some r, h') \<Rightarrow> (r, h')
           | (None, h') \<Rightarrow> (index E n, h')))"

section \<open>Telemetry\<close>

definition parse_ipv4 :: "string \<Rightarrow> u32 option" where
  "parse_ipv4 s = (case read_ipv4 s of Some (a, []) \<Rightarrow> Some a | _ \<Rightarrow> None)"

definition forwarded_for_first_ipv4 :: "'n decoy_env \<Rightarrow> (string \<times> bytes) list \<Rightarrow> u32 option" where
  "forwarded_for_first_ipv4 E headers =
     Option.bind (map_of headers ''x-forwarded-for'') (\<lambda>raw.
     Option.bind (header_to_str E raw) (\<lambda>value.
       parse_ipv4 (trim (hd (split_on CHR '','' value)))))"

definition https_spa_source_ip :: "'n decoy_env \<Rightarrow> ip_addr \<Rightarrow> (string \<times> bytes) list \<Rightarrow> 'n list \<Rightarrow> u32 option" where
  "https_spa_source_ip E peer headers cidrs =
     (let direct = (case peer of V4 ip \<Rightarrow> Some ip | V6 _ \<Rightarrow> None) in
      if \<exists>cidr \<in> set cidrs. ipnet_contains E cidr peer
      then (case forwarded_for_first_ipv4 E headers of Some ip \<Rightarrow> Some ip | None \<Rightarrow> direct)
      else direct)"

text \<open>\<open>mpsc::channel(1024)\<close> as the sender sees it.\<close>

definition CHANNEL_CAPACITY :: nat where "CHANNEL_CAPACITY = 1024"

record spa_channel =
  ch_items :: "HttpsSpaCandidate list"
  ch_closed :: bool

definition try_send :: "HttpsSpaCandidate \<Rightarrow> spa_channel \<Rightarrow> bool \<times> spa_channel" where
  "try_send x ch =
     (if ch_closed ch \<or> CHANNEL_CAPACITY \<le> length (ch_items ch) then (False, ch)
      else (True, ch\<lparr>ch_items := ch_items ch @ [x]\<rparr>))"

fun hex_digits :: "nat \<Rightarrow> string" where
  "hex_digits n = (if n < 16 then [digit_char n] else hex_digits (n div 16) @ [digit_char (n mod 16)])"

declare hex_digits.simps [simp del]

definition request_id :: "'n decoy_env \<Rightarrow> nat \<Rightarrow> string" where
  "request_id E n =
     hex_digits (process_id E) @ ''-'' @ hex_digits (case request_nanos E n of Some t \<Rightarrow> t | None \<Rightarrow> 0)"

definition telemetry ::
    "'n decoy_env \<Rightarrow> 'n DecoyState \<Rightarrow> ip_addr \<Rightarrow> (string \<times> bytes) list \<Rightarrow> bytes \<Rightarrow> nat \<Rightarrow> spa_channel \<Rightarrow> response \<times> spa_channel" where
  "telemetry E st peer headers body n ch =
     (let ch' = (if spa_tx st
                 then (case https_spa_source_ip E peer headers (trusted_proxy_cidrs st) of
                         Some ip \<Rightarrow> snd (try_send \<lparr>cand_src_ip = ip, cand_payload = body\<rparr> ch)
                       | None \<Rightarrow> ch)
                 else ch)
      in (\<lparr>resp_status = response_status st,
           resp_headers = [(''server'', ''nginx/1.26.0''), (''date'', http_date E n), (''x-request-id'', request_id E n)],
           resp_body = []\<rparr>, ch'))"

lemma router_Inr:
  "router D b status cidrs root h = Inr d \<Longrightarrow>
   spa_tx d = b \<and> response_status d = status \<and> parse_trusted_proxy_cidrs D cidrs = Inr (trusted_proxy_cidrs d)"
  by (auto simp: router_def result_eqs)

section \<open>Static requests stay below the web root\<close>

definition plain_part :: "string \<Rightarrow> bool" where
  "plain_part p \<longleftrightarrow> p \<noteq> [] \<and> p \<noteq> ''.'' \<and> p \<noteq> ''..'' \<and> CHR ''/'' \<notin> set p"

lemma push_components_Some:
  "push_components path cs = Some q \<longleftrightarrow> (\<exists>parts. cs = map Normal parts \<and> q = path @ parts)"
proof (induction cs arbitrary: path)
  case (Cons c cs)
  show ?case
  proof (cases c)
    case (Normal part)
    then show ?thesis using Cons.IH [of "path @ [part]"] by (auto simp: Cons_eq_map_conv)
  qed auto
qed auto

lemma components_normal: "Normal p \<in> set (components s) \<Longrightarrow> plain_part p"
  by (auto simp: components_def plain_part_def Let_def dest: split_on_free split: if_splits)

lemma static_path_Some:
  assumes "static_path root uri = Some q"
  shows "\<exists>parts. q = root @ parts \<and> parts \<noteq> [] \<and> (\<forall>p \<in> set parts. plain_part p)"
proof (cases "dropWhile (\<lambda>c. c = CHR ''/'') uri")
  case Nil
  then show ?thesis using assms by (intro exI [of _ "[''index.html'']"]) (simp add: static_path_def plain_part_def)
next
  case (Cons c cs)
  then have "push_components root (components (c # cs)) = Some q"
    using assms unfolding static_path_def Let_def by (simp only: Cons list.distinct if_False)
  then obtain parts where p: "components (c # cs) = map Normal parts" "q = root @ parts"
    unfolding push_components_Some by blast
  have c: "c \<noteq> CHR ''/''" using hd_dropWhile [of "\<lambda>c. c = CHR ''/''" uri] unfolding Cons by simp
  have "components (c # cs) \<noteq> []"
  proof -
    obtain d ds where d: "split_on CHR ''/'' (c # cs) = d # ds"
      using split_on_nonempty by (metis neq_Nil_conv)
    then have "d \<noteq> []" using c by (auto split: if_splits list.splits)
    then show ?thesis using d by (simp add: components_def)
  qed
  then have "parts \<noteq> []" using p(1) by auto
  moreover have "\<forall>p \<in> set parts. plain_part p"
    using components_normal [of _ "c # cs"] p(1) by auto
  ultimately show ?thesis using p(2) by blast
qed

text \<open>
  C25. The decoy serves nothing outside the web root: whatever the request path, a file response is the
  content of a file whose resolved path lies below the canonical web root, was asked for with plain
  components only, and carries its content type; every other request gets the imitated index page, and
  no request changes a file.
\<close>

theorem decoy_contained:
  assumes "decoy_content E st uri n h = (r, h')"
  shows "files h' = files h \<and>
    (r = index E n \<or>
     (\<exists>root parts p. webroot st = Some root \<and> (\<forall>q \<in> set parts. plain_part q) \<and>
        canonicalize E (root @ parts) h = Some p \<and> below root p \<and> content h p = Some (resp_body r) \<and>
        resp_headers r = [(''server'', ''nginx/1.26.0''), (''date'', http_date E n), (''content-type'', content_type p)]))"
proof (cases "webroot st")
  case None
  then show ?thesis using assms by (simp add: decoy_content_def)
next
  case (Some root)
  show ?thesis
  proof (cases "static_response E root uri n h")
    case (Pair r' h1)
    have same: "files h1 = files h"
      using Pair by (auto simp: static_response_def dest: io_read_pure split: option.splits prod.splits sum.splits if_splits)
    show ?thesis
    proof (cases r')
      case None
      then show ?thesis using assms Some Pair same by (simp add: decoy_content_def)
    next
      case r: (Some x)
      then have "x = r" "h1 = h'" using assms Some Pair by (simp_all add: decoy_content_def)
      then obtain q p where q: "static_path root uri = Some q" "canonicalize E q h = Some p" "below root p"
        and rd: "io_read p h = (Inr (resp_body r), h')"
        and hd: "resp_headers r = [(''server'', ''nginx/1.26.0''), (''date'', http_date E n), (''content-type'', content_type p)]"
        using Pair r by (auto simp: static_response_def split: option.splits prod.splits sum.splits if_splits)
      obtain parts where "q = root @ parts" "\<forall>p \<in> set parts. plain_part p"
        using static_path_Some [OF q(1)] by blast
      then show ?thesis using q Some io_read_Inr [OF rd] hd same \<open>h1 = h'\<close> by blast
    qed
  qed
qed

section \<open>Telemetry\<close>

text \<open>
  C26. The telemetry endpoint tells a prober nothing and takes no address on trust: its response depends
  only on the configured status and the time, whatever the peer, headers, body and state of the queue;
  at most one candidate is queued, with the posted bytes, the queue never exceeds its capacity, and the
  candidate's address is the peer's own unless the peer is a configured proxy.
\<close>

theorem telemetry_blind:
  assumes "telemetry E st peer headers body n ch = (r, ch')" and "length (ch_items ch) \<le> CHANNEL_CAPACITY"
  shows "(\<forall>peer2 headers2 body2 ch2. fst (telemetry E st peer2 headers2 body2 n ch2) = r) \<and>
    length (ch_items ch') \<le> CHANNEL_CAPACITY \<and>
    (ch' = ch \<or> (\<exists>ip. ch' = ch\<lparr>ch_items := ch_items ch @ [\<lparr>cand_src_ip = ip, cand_payload = body\<rparr>]\<rparr> \<and> spa_tx st \<and>
       (peer = V4 ip \<or> (\<exists>cidr \<in> set (trusted_proxy_cidrs st). ipnet_contains E cidr peer) \<and>
          forwarded_for_first_ipv4 E headers = Some ip)))"
proof -
  have "fst (telemetry E st peer2 headers2 body2 n ch2) = r" for peer2 headers2 body2 ch2
    using assms(1) by (auto simp: telemetry_def Let_def)
  moreover have "length (ch_items ch') \<le> CHANNEL_CAPACITY \<and>
    (ch' = ch \<or> (\<exists>ip. ch' = ch\<lparr>ch_items := ch_items ch @ [\<lparr>cand_src_ip = ip, cand_payload = body\<rparr>]\<rparr> \<and> spa_tx st \<and>
       (peer = V4 ip \<or> (\<exists>cidr \<in> set (trusted_proxy_cidrs st). ipnet_contains E cidr peer) \<and>
          forwarded_for_first_ipv4 E headers = Some ip)))"
    using assms
    by (auto simp: telemetry_def Let_def try_send_def https_spa_source_ip_def split: if_splits option.splits ip_addr.splits)
  ultimately show ?thesis by blast
qed

section \<open>A concrete decoy\<close>

definition demo_decoy_env :: "u32 decoy_env" where
  "demo_decoy_env =
     \<lparr>status_valid = (\<lambda>s. 100 \<le> s \<and> s < 1000), header_to_str = from_utf8, parse_ipnet = parse_ipv4,
      ipnet_contains = (\<lambda>net ip. ip = V4 net), canonicalize = (\<lambda>p h. if content h p = None then None else Some p),
      http_date = (\<lambda>_. ''now''), request_nanos = (\<lambda>n. Some n), process_id = 1\<rparr>"

definition demo_decoy :: "u32 DecoyState" where
  "demo_decoy = \<lparr>spa_tx = True, response_status = 204, trusted_proxy_cidrs = [1], webroot = Some [''www'']\<rparr>"

definition demo_web :: host where
  "demo_web = \<lparr>files = [([''www'', ''a.css''], [1, 2]), ([''etc''], [3])], dirs = [[], [''www'']], tick = 0, fault = (\<lambda>_. None)\<rparr>"

theorem decoy_contained_witness:
  "\<exists>r h'. decoy_content demo_decoy_env demo_decoy ''//a.css'' 0 demo_web = (r, h') \<and> resp_body r = [1, 2] \<and> files h' = files demo_web"
proof -
  have p: "static_path [''www''] ''//a.css'' = Some [''www'', ''a.css'']"
    by (simp add: static_path_def components_def)
  obtain r h' where d: "decoy_content demo_decoy_env demo_decoy ''//a.css'' 0 demo_web = (r, h')" and r: "resp_body r = [1, 2]"
    by (simp add: decoy_content_def demo_decoy_def static_response_def p demo_decoy_env_def demo_web_def hm_get_def below_def
        io_read_def io_call_def)
  from decoy_contained [OF d] d r show ?thesis by blast
qed

theorem telemetry_blind_witness:
  "\<exists>r. telemetry demo_decoy_env demo_decoy (V4 9) [] [5, 6] 0 \<lparr>ch_items = [], ch_closed = False\<rparr> =
       (r, \<lparr>ch_items = [\<lparr>cand_src_ip = 9, cand_payload = [5, 6]\<rparr>], ch_closed = False\<rparr>) \<and>
     fst (telemetry demo_decoy_env demo_decoy (V6 []) [] [] 0 \<lparr>ch_items = [], ch_closed = True\<rparr>) = r"
proof -
  let ?ch = "\<lparr>ch_items = [], ch_closed = False\<rparr>"
  obtain r where t: "telemetry demo_decoy_env demo_decoy (V4 9) [] [5, 6] 0 ?ch =
      (r, \<lparr>ch_items = [\<lparr>cand_src_ip = 9, cand_payload = [5, 6]\<rparr>], ch_closed = False\<rparr>)"
    by (simp add: telemetry_def demo_decoy_def demo_decoy_env_def https_spa_source_ip_def try_send_def CHANNEL_CAPACITY_def)
  from telemetry_blind [OF t] t show ?thesis by simp
qed

end
