(* ===== verification/Server_Config.thy ===== *)
theory Server_Config
  imports Decoy Noise Relay_Store
begin

text \<open>
  The server's configuration (\<open>ghostbro-server/src/config.rs\<close>) and what \<open>main.rs\<close> derives from it before
  the tasks run: the kernel's configuration, the verifier, the decoy, the relay and the two bind
  addresses. The TOML reader is a parameter; file names are kept as paths.
\<close>

section \<open>Sections\<close>

datatype SpaModeConfig = ModeUdp | ModeHttps | ModeBoth

record SpaCommonSection =
  com_time_window :: u64
  com_allow_ttl :: u64
  com_counter_state :: path

record SpaUdpSection =
  udp_section_port :: u16
  udp_section_rate_limit :: "u32 option"

record SpaHttpsSection =
  https_section_path :: string
  https_section_response_status :: "u16 option"
  https_section_trusted_proxy_cidrs :: "string list"

record SpaSection =
  spa_section_mode :: SpaModeConfig
  spa_section_common :: "SpaCommonSection option"
  spa_section_udp :: "SpaUdpSection option"
  spa_section_https :: "SpaHttpsSection option"

record ProxySection =
  proxy_section_port :: u16
  proxy_section_noise_pattern :: string
  proxy_section_bind :: string

record DecoySection =
  decoy_section_bind :: "string option"
  decoy_section_webroot :: "path option"
  decoy_section_tls_cert :: "path option"
  decoy_section_tls_key :: "path option"

record RelaySection =
  rs_spool_dir :: "path option"
  rs_job_ttl :: "u64 option"
  rs_max_jobs_per_client :: "nat option"
  rs_max_bytes_per_client :: "u64 option"
  rs_max_object_len :: "nat option"
  rs_workers :: "nat option"
  rs_fetch_timeout :: "u64 option"
  rs_git_timeout :: "u64 option"
  rs_allow_loopback :: bool

record ServerConfig =
  server_identity :: path
  server_spa :: SpaSection
  server_proxy :: ProxySection
  server_authorized_keys :: path
  server_decoy :: "DecoySection option"
  server_relay :: "RelaySection option"

definition DEFAULT_COUNTER_STATE :: path where
  "DEFAULT_COUNTER_STATE = [''var'', ''lib'', ''ghostbro'', ''spa-counters.toml'']"

section \<open>Accessors\<close>

definition tls_pair :: "DecoySection \<Rightarrow> (path \<times> path) option" where
  "tls_pair d =
     (case (decoy_section_tls_cert d, decoy_section_tls_key d) of
        (Some cert, Some key) \<Rightarrow> Some (cert, key)
      | _ \<Rightarrow> None)"

definition bpf_mode :: "SpaSection \<Rightarrow> u32" where
  "bpf_mode spa =
     (case spa_section_mode spa of ModeUdp \<Rightarrow> SPA_MODE_UDP | ModeHttps \<Rightarrow> SPA_MODE_HTTPS | ModeBoth \<Rightarrow> SPA_MODE_BOTH)"

definition https_path :: "SpaSection \<Rightarrow> string" where
  "https_path spa =
     (case spa_section_https spa of Some https \<Rightarrow> https_section_path https | None \<Rightarrow> ''/api/v1/telemetry'')"

definition https_response_status :: "SpaSection \<Rightarrow> u16" where
  "https_response_status spa =
     (case Option.bind (spa_section_https spa) https_section_response_status of Some s \<Rightarrow> s | None \<Rightarrow> 204)"

definition configured_proxy_cidrs :: "SpaSection \<Rightarrow> string list" where
  "configured_proxy_cidrs spa =
     (case spa_section_https spa of Some https \<Rightarrow> https_section_trusted_proxy_cidrs https | None \<Rightarrow> [])"

definition time_window_seconds :: "SpaSection \<Rightarrow> u64" where
  "time_window_seconds spa =
     (case spa_section_common spa of Some common \<Rightarrow> com_time_window common | None \<Rightarrow> DEFAULT_TIME_WINDOW_SECONDS)"

definition allow_ttl_seconds :: "SpaSection \<Rightarrow> u64" where
  "allow_ttl_seconds spa =
     (case spa_section_common spa of Some common \<Rightarrow> com_allow_ttl common | None \<Rightarrow> DEFAULT_ALLOW_TTL_SECONDS)"

definition configured_counter_state :: "SpaSection \<Rightarrow> path" where
  "configured_counter_state spa =
     (case spa_section_common spa of Some common \<Rightarrow> com_counter_state common | None \<Rightarrow> DEFAULT_COUNTER_STATE)"

definition udp_port :: "SpaSection \<Rightarrow> u16" where
  "udp_port spa = (case spa_section_udp spa of Some udp \<Rightarrow> udp_section_port udp | None \<Rightarrow> DEFAULT_SPA_PORT)"

definition udp_rate_limit :: "SpaSection \<Rightarrow> u32" where
  "udp_rate_limit spa =
     (case Option.bind (spa_section_udp spa) udp_section_rate_limit of
        Some limit \<Rightarrow> limit | None \<Rightarrow> DEFAULT_RATE_LIMIT_PER_MINUTE)"

section \<open>Start-up\<close>

datatype start_error =
    ConfigRead io_error | ConfigParse | StartDecoy decoy_error | StartKeys keys_load_error | StartClient KeyError
  | StartIdentity key_file_error | StartCounters counter_error

text \<open>
  What the process is started with: libraries, readers, and the environment variables (the counter and
  identity opt-ins, the relay overrides).
\<close>

record 'n server_env =
  se_crypto :: crypto
  se_config_toml :: "string \<Rightarrow> ServerConfig option"
  se_keys_toml :: "string \<Rightarrow> AuthorizedKeysFile option"
  se_counter_toml :: toml_counters
  se_decoy :: "'n decoy_env"
  se_counter_init :: bool
  se_identity_init :: bool
  se_fresh_key :: "(bytes \<times> bytes) option"
  se_spool_dir :: "path option"
  se_allow_loopback :: bool

definition ServerConfig_load :: "(string \<Rightarrow> ServerConfig option) \<Rightarrow> path \<Rightarrow> (host, start_error, ServerConfig) comp" where
  "ServerConfig_load toml path =
     c_bind (c_map_err ConfigRead (io_read_to_string path)) (\<lambda>contents.
       c_lift (ok_or ConfigParse (toml contents)))"

definition relay_config :: "path option \<Rightarrow> bool \<Rightarrow> ServerConfig \<Rightarrow> RelayConfig" where
  "relay_config spool_env loopback_env config =
     with_env_overrides spool_env loopback_env
       (case server_relay config of
          None \<Rightarrow> RelayConfig_default
        | Some section \<Rightarrow>
            let d = RelayConfig_default in
            \<lparr>cf_spool_dir = case_option (cf_spool_dir d) id (rs_spool_dir section),
             cf_job_ttl = case_option (cf_job_ttl d) unat (rs_job_ttl section),
             cf_max_jobs_per_client = case_option (cf_max_jobs_per_client d) id (rs_max_jobs_per_client section),
             cf_max_bytes_per_client = case_option (cf_max_bytes_per_client d) id (rs_max_bytes_per_client section),
             cf_max_object_len = case_option (cf_max_object_len d) id (rs_max_object_len section),
             cf_worker_count = case_option (cf_worker_count d) id (rs_workers section),
             cf_reap_interval = cf_reap_interval d,
             cf_fetch_timeout = case_option (cf_fetch_timeout d) unat (rs_fetch_timeout section),
             cf_git_timeout = case_option (cf_git_timeout d) unat (rs_git_timeout section),
             cf_allow_loopback = rs_allow_loopback section\<rparr>)"

definition proxy_bind_address :: "ServerConfig \<Rightarrow> string" where
  "proxy_bind_address config =
     (let proxy = server_proxy config in
      if CHR '':'' \<in> set (proxy_section_bind proxy) then proxy_section_bind proxy
      else proxy_section_bind proxy @ '':'' @ nat_digits (unat (proxy_section_port proxy)))"

definition decoy_bind_address :: "string option \<Rightarrow> ServerConfig option \<Rightarrow> string" where
  "decoy_bind_address cli config =
     (case cli of
        Some b \<Rightarrow> b
      | None \<Rightarrow>
          (case Option.bind (Option.bind config server_decoy) decoy_section_bind of
             Some b \<Rightarrow> b
           | None \<Rightarrow> ''127.0.0.1:8080''))"

definition bpf_config :: "ServerConfig \<Rightarrow> BpfConfig" where
  "bpf_config config =
     \<lparr>spa_port = udp_port (server_spa config), proxy_port = proxy_section_port (server_proxy config),
      rate_limit_per_minute = udp_rate_limit (server_spa config), spa_mode = bpf_mode (server_spa config)\<rparr>"

record 'n started =
  up_decoy :: "'n DecoyState"
  up_decoy_bind :: string
  up_decoy_tls :: "(path \<times> path) option"
  up_verifier :: SpaVerifier
  up_bpf :: BpfConfig
  up_ttl :: u64
  up_proxy_bind :: string
  up_relay :: RelayConfig

text \<open>
  The part of \<open>main\<close> with a kernel object, up to the point where the object is attached and the tasks
  start, every early return included.
\<close>

definition server_start :: "'n server_env \<Rightarrow> path \<Rightarrow> string option \<Rightarrow> (host, start_error, 'n started) comp" where
  "server_start E config_path cli_decoy_bind =
     c_bind (ServerConfig_load (se_config_toml E) config_path) (\<lambda>config h.
       let spa = server_spa config in
       c_bind (c_lift (map_err StartDecoy (router (se_decoy E) (bpf_mode spa AND SPA_MODE_HTTPS \<noteq> 0) (https_response_status spa)
                 (configured_proxy_cidrs spa) (Option.bind (server_decoy config) decoy_section_webroot) h))) (\<lambda>decoy.
       c_bind (c_map_err StartKeys (AuthorizedKeysFile_load (se_keys_toml E) (server_authorized_keys config))) (\<lambda>keys.
       c_bind (c_lift (map_err StartClient (into_clients (se_crypto E) keys))) (\<lambda>cs.
       c_bind (c_map_err StartIdentity
                 (load_static_private_key (se_crypto E) (se_identity_init E) (se_fresh_key E) (server_identity config))) (\<lambda>private_key.
       c_bind (c_map_err StartCounters
                 (SpaVerifier_load (se_crypto E) (se_counter_toml E) cs (time_window_seconds spa) (configured_counter_state spa)
                    private_key (se_counter_init E))) (\<lambda>verifier.
         c_lift (Inr \<lparr>up_decoy = decoy, up_decoy_bind = decoy_bind_address cli_decoy_bind (Some config),
                      up_decoy_tls = Option.bind (server_decoy config) tls_pair, up_verifier = verifier,
                      up_bpf = bpf_config config, up_ttl = allow_ttl_seconds spa,
                      up_proxy_bind = proxy_bind_address config,
                      up_relay = relay_config (se_spool_dir E) (se_allow_loopback E) config\<rparr>)))))) h)"

section \<open>Facts\<close>

lemma show_ipv4_no_colon: "CHR '':'' \<notin> set (show_ipv4 a)"
proof -
  have "digit_char d \<noteq> CHR '':''" if "d < 10" for d
    using that digit_value_digit_char [of d] by (auto simp: digit_value_def)
  then have "CHR '':'' \<notin> set (nat_digits n)" for n
    using set_nat_digits [of n] by fastforce
  then show ?thesis by (simp add: show_ipv4_def)
qed

lemma io_read_to_string_files: "io_read_to_string p h = (r, h') \<Longrightarrow> files h' = files h"
  by (drule io_read_to_string_pure) simp

lemma ServerConfig_load_Inr:
  assumes "ServerConfig_load toml p h = (Inr config, h')"
  shows "files h' = files h \<and> (\<exists>c t. content h p = Some c \<and> from_utf8 c = Some t \<and> toml t = Some config)"
  using assms io_read_to_string_Inr
  by (fastforce simp: ServerConfig_load_def comp_eqs result_eqs dest: io_read_to_string_files)

lemma AuthorizedKeysFile_load_Inr:
  assumes "AuthorizedKeysFile_load toml p h = (Inr keys, h')"
  shows "files h' = files h \<and> (\<exists>c t. content h p = Some c \<and> from_utf8 c = Some t \<and> toml t = Some keys)"
  using assms io_read_to_string_Inr
  by (fastforce simp: AuthorizedKeysFile_load_def comp_eqs result_eqs dest: io_read_to_string_files)

lemma load_static_private_key_Inr:
  assumes "load_static_private_key C opt_in fresh p h = (Inr key, h')"
  shows "length key = 32" and "\<not> opt_in \<Longrightarrow> files h' = files h \<and> content h p \<noteq> None"
proof -
  obtain key' where l: "load_or_generate_static_key C opt_in fresh p h = (Inr key', h')" and k: "key' = key" "length key = 32"
    using assms by (auto simp: load_static_private_key_def comp_eqs split: if_splits)
  show "length key = 32" by (rule k)
  obtain r h1 where rd: "io_read_to_string p h = (r, h1)" by fastforce
  show "files h' = files h \<and> content h p \<noteq> None" if "\<not> opt_in"
  proof (cases r)
    case (Inl e)
    then show ?thesis using l that rd by (cases e) (simp_all add: load_or_generate_static_key_def)
  next
    case (Inr t)
    then have "h1 = h'" using l rd by (simp add: load_or_generate_static_key_def)
    then show ?thesis using io_read_to_string_Inr rd Inr io_read_to_string_files [OF rd] by fastforce
  qed
qed


text \<open>
  The proxy listens behind the filter: with a bare IPv4 bind address, the address the listener binds
  is that address with exactly the port the kernel program is configured to guard.
\<close>

theorem proxy_port_guarded:
  assumes "proxy_section_bind (server_proxy config) = show_ipv4 a"
  shows "parse_socket_addr (proxy_bind_address config) = Some (V4 a, proxy_port (bpf_config config))"
proof -
  have "CHR '':'' \<notin> set (show_ipv4 a)" by (rule show_ipv4_no_colon)
  then show ?thesis
    using assms parse_shown_addr by (simp add: proxy_bind_address_def bpf_config_def Let_def)
qed

text \<open>
  With a port in the bind address, the listener uses that port, and the kernel guards another one
  whenever the two differ.
\<close>

theorem proxy_port_unguarded:
  assumes "proxy_section_bind (server_proxy config) = show_ipv4 a @ CHR '':'' # nat_digits (unat q)"
    and "q \<noteq> proxy_section_port (server_proxy config)"
  shows "\<exists>port. parse_socket_addr (proxy_bind_address config) = Some (V4 a, port) \<and> port \<noteq> proxy_port (bpf_config config)"
  using assms parse_shown_addr by (simp add: proxy_bind_address_def bpf_config_def Let_def)

section \<open>A concrete start\<close>

definition demo_server_config :: ServerConfig where
  "demo_server_config =
     \<lparr>server_identity = [''id''],
      server_spa = \<lparr>spa_section_mode = ModeBoth, spa_section_common = None, spa_section_udp = None, spa_section_https = None\<rparr>,
      server_proxy = \<lparr>proxy_section_port = 8443, proxy_section_noise_pattern = ''XK'', proxy_section_bind = show_ipv4 0\<rparr>,
      server_authorized_keys = [''keys''], server_decoy = None, server_relay = None\<rparr>"

definition demo_server_env :: "u32 server_env" where
  "demo_server_env =
     \<lparr>se_crypto = toy_crypto, se_config_toml = (\<lambda>_. Some demo_server_config), se_keys_toml = (\<lambda>_. Some []),
      se_counter_toml = toy_toml, se_decoy = demo_decoy_env, se_counter_init = True, se_identity_init = False,
      se_fresh_key = None, se_spool_dir = None, se_allow_loopback = False\<rparr>"

definition demo_server_host :: host where
  "demo_server_host =
     \<lparr>files = [([''cfg''], []), ([''keys''], []), ([''id''], replicate 32 65)], dirs = [[]], tick = 0, fault = (\<lambda>_. None)\<rparr>"

lemma demo_identity: "from_utf8 (replicate 32 65) = Some (replicate 32 CHR ''A'')" "trim (replicate 32 CHR ''A'') = replicate 32 CHR ''A''"
proof -
  have "as_bytes (replicate 32 CHR ''A'') = replicate 32 65" by (simp add: as_bytes_def)
  then show "from_utf8 (replicate 32 65) = Some (replicate 32 CHR ''A'')"
    using from_utf8_as_bytes [of "replicate 32 CHR ''A''"] ascii_valid_str [of "replicate 32 CHR ''A''"] by simp
  show "trim (replicate 32 CHR ''A'') = replicate 32 CHR ''A''"
    by (rule trim_id) (simp add: ws_scalar_def)
qed

lemma demo_server_starts: "\<exists>up h'. server_start demo_server_env [''cfg''] None demo_server_host = (Inr up, h')"
proof -
  have e: "from_utf8 [] = Some []" using from_utf8_as_bytes [of "[]"] ascii_valid_str [of "[]"] by (simp add: as_bytes_def)
  have m: "bpf_mode (server_spa demo_server_config) AND SPA_MODE_HTTPS \<noteq> 0"
    by (simp add: bpf_mode_def demo_server_config_def SPA_MODE_UDP_def SPA_MODE_HTTPS_def SPA_MODE_BOTH_def)
  have k: "b64_decode toy_crypto (replicate 32 CHR ''A'') = Some (replicate 32 65)"
    by (simp add: toy_crypto_def as_bytes_def)
  let ?h = "\<lambda>n. demo_server_host\<lparr>tick := n\<rparr>" and ?c = demo_server_config and ?E = demo_server_env
  have rd: "io_read_to_string [''cfg''] (?h n) = (Inr [], ?h (Suc n))" "io_read_to_string [''keys''] (?h n) = (Inr [], ?h (Suc n))"
    "io_read_to_string [''id''] (?h n) = (Inr (replicate 32 CHR ''A''), ?h (Suc n))"
    "io_read_to_string DEFAULT_COUNTER_STATE (?h n) = (Inl NotFound, ?h (Suc n))" for n
    by (simp_all add: io_read_to_string_def io_read_def io_call_def c_bind_def demo_server_host_def hm_get_def e demo_identity
        DEFAULT_COUNTER_STATE_def)
  have f: "server_identity ?c = [''id'']" "server_authorized_keys ?c = [''keys'']" "configured_counter_state (server_spa ?c) = DEFAULT_COUNTER_STATE"
    by (simp_all add: demo_server_config_def configured_counter_state_def)
  have h0: "?h 0 = demo_server_host" by (simp add: demo_server_host_def)
  have "ServerConfig_load (se_config_toml ?E) [''cfg''] (?h 0) = (Inr ?c, ?h 1)"
    by (simp add: ServerConfig_load_def c_bind_def c_map_err_def rd) (simp add: demo_server_env_def)
  moreover obtain d where "router (se_decoy ?E) (bpf_mode (server_spa ?c) AND SPA_MODE_HTTPS \<noteq> 0) (https_response_status (server_spa ?c))
      (configured_proxy_cidrs (server_spa ?c)) (Option.bind (server_decoy ?c) decoy_section_webroot) (?h 1) = Inr d"
    by (simp add: router_def parse_trusted_proxy_cidrs_def demo_server_env_def demo_decoy_env_def demo_server_config_def
        https_response_status_def configured_proxy_cidrs_def)
  moreover have "AuthorizedKeysFile_load (se_keys_toml ?E) [''keys''] (?h 1) = (Inr [], ?h 2)"
    by (simp add: AuthorizedKeysFile_load_def c_bind_def c_map_err_def rd numeral_2_eq_2) (simp add: demo_server_env_def)
  moreover have "into_clients (se_crypto ?E) [] = Inr []" by (simp add: into_clients_def)
  moreover have "load_static_private_key (se_crypto ?E) (se_identity_init ?E) (se_fresh_key ?E) [''id''] (?h 2) = (Inr (replicate 32 65), ?h 3)"
    using k by (simp add: load_static_private_key_def load_or_generate_static_key_def c_bind_def rd demo_identity demo_server_env_def
        numeral_3_eq_3 numeral_2_eq_2)
  moreover obtain v where "SpaVerifier_load (se_crypto ?E) (se_counter_toml ?E) [] (time_window_seconds (server_spa ?c)) DEFAULT_COUNTER_STATE
      (replicate 32 65) (se_counter_init ?E) (?h 3) = (Inr v, ?h 4)"
    by (simp add: SpaVerifier_load_def load_counter_state_def c_bind_def rd demo_server_env_def numeral_eq_Suc)
  ultimately show ?thesis
    by (simp add: server_start_def c_bind_def c_map_err_def Let_def f h0)
qed


theorem proxy_port_guarded_witness:
  "parse_socket_addr (proxy_bind_address demo_server_config) = Some (V4 0, 8443)"
  using proxy_port_guarded [of demo_server_config 0] by (simp add: demo_server_config_def bpf_config_def)

section \<open>The decoy alone\<close>

text \<open>
  The part of \<open>main\<close> without a kernel object: a configuration that cannot be loaded is no error, and the
  decoy runs with the built-in path and status and without a queue for knocks.
\<close>

record 'n decoy_only =
  alone_decoy :: "'n DecoyState"
  alone_bind :: string
  alone_tls :: "(path \<times> path) option"

definition decoy_only_start :: "'n server_env \<Rightarrow> path \<Rightarrow> string option \<Rightarrow> (host, start_error, 'n decoy_only) comp" where
  "decoy_only_start E config_path cli_decoy_bind h =
     (case ServerConfig_load (se_config_toml E) config_path h of (loaded, h1) \<Rightarrow>
        let config = (case loaded of Inr c \<Rightarrow> Some c | Inl _ \<Rightarrow> None);
            section = Option.bind config server_decoy
        in (case router (se_decoy E) False 204 [] (Option.bind section decoy_section_webroot) h1 of
              Inl e \<Rightarrow> (Inl (StartDecoy e), h1)
            | Inr decoy \<Rightarrow>
                (Inr \<lparr>alone_decoy = decoy, alone_bind = decoy_bind_address cli_decoy_bind config,
                      alone_tls = Option.bind section tls_pair\<rparr>, h1)))"

text \<open>Without the kernel program no knock is ever queued, whoever posts it.\<close>

theorem decoy_only_takes_no_knock:
  assumes "decoy_only_start E config_path cli h = (Inr up, h')"
  shows "snd (telemetry (se_decoy E) (alone_decoy up) peer headers body n ch) = ch \<and> trusted_proxy_cidrs (alone_decoy up) = []"
proof -
  obtain root where r: "router (se_decoy E) False 204 [] root h' = Inr (alone_decoy up)"
    using assms by (auto simp: decoy_only_start_def Let_def split: prod.splits sum.splits)
  have "\<not> spa_tx (alone_decoy up)" "trusted_proxy_cidrs (alone_decoy up) = []"
    using router_Inr [OF r] by (simp_all add: parse_trusted_proxy_cidrs_def)
  then show ?thesis by (simp add: telemetry_def Let_def)
qed

end
