(* ===== verification/Decoy_Tls.thy ===== *)
theory Decoy_Tls
  imports Server_Config
begin

text \<open>
  The listener behind the decoy (\<open>RustlsListener\<close> of \<open>ghostbro-server/src/decoy.rs\<close>, \<open>serve_decoy\<close> of
  \<open>main.rs\<close>): the certificate and key files, the bind, and the accept loop that completes TLS handshakes.
  PEM parsing, \<open>rustls\<close> and the sockets are parameters.
\<close>

section \<open>Set-up\<close>

datatype tls_error =
    CertRead path io_error | CertParse path | NoCerts path | KeyRead path io_error | KeyParse path | NoKey path
  | TlsVersions | BadCertKey | TlsBind string | TlsLocalAddr | PlainBind string

text \<open>\<open>pem_key\<close> fails to parse (\<open>None\<close>), finds no key (\<open>Some None\<close>), or gives the first one.\<close>

record 't tls_lib =
  pem_certs :: "bytes \<Rightarrow> bytes list option"
  pem_key :: "bytes \<Rightarrow> bytes option option"
  tls_versions :: bool
  with_single_cert :: "bytes list \<Rightarrow> bytes \<Rightarrow> 't option"
  tcp_bind :: "string \<Rightarrow> bool"
  tcp_local_addr :: "string \<Rightarrow> sock_addr option"

type_synonym 'a tls_comp = "(host, tls_error, 'a) comp"

definition load_certs :: "'t tls_lib \<Rightarrow> path \<Rightarrow> bytes list tls_comp" where
  "load_certs L path =
     c_bind (c_map_err (CertRead path) (io_read path)) (\<lambda>data.
     c_bind (c_lift (ok_or (CertParse path) (pem_certs L data))) (\<lambda>certs.
       c_lift (if certs = [] then Inl (NoCerts path) else Inr certs)))"

definition load_key :: "'t tls_lib \<Rightarrow> path \<Rightarrow> bytes tls_comp" where
  "load_key L path =
     c_bind (c_map_err (KeyRead path) (io_read path)) (\<lambda>data.
     c_bind (c_lift (ok_or (KeyParse path) (pem_key L data))) (\<lambda>key.
       c_lift (ok_or (NoKey path) key)))"

definition build_server_config :: "'t tls_lib \<Rightarrow> path \<Rightarrow> path \<Rightarrow> 't tls_comp" where
  "build_server_config L cert_path key_path =
     c_bind (load_certs L cert_path) (\<lambda>certs.
     c_bind (load_key L key_path) (\<lambda>key.
     c_bind (c_lift (ensure (tls_versions L) TlsVersions)) (\<lambda>_.
       c_lift (ok_or BadCertKey (with_single_cert L certs key)))))"

record 't RustlsListener =
  acceptor :: 't
  local_addr :: sock_addr

definition RustlsListener_bind :: "'t tls_lib \<Rightarrow> string \<Rightarrow> path \<Rightarrow> path \<Rightarrow> 't RustlsListener tls_comp" where
  "RustlsListener_bind L addr cert_path key_path =
     c_bind (build_server_config L cert_path key_path) (\<lambda>config.
     c_bind (c_lift (ensure (tcp_bind L addr) (TlsBind addr))) (\<lambda>_.
     c_bind (c_lift (ok_or TlsLocalAddr (tcp_local_addr L addr))) (\<lambda>local.
       c_lift (Inr \<lparr>acceptor = config, local_addr = local\<rparr>))))"

section \<open>Accepting\<close>

text \<open>
  What comes in: a failed \<open>accept\<close>, or a peer whose handshake succeeds with a stream, fails, or never
  completes because the peer stays silent. \<open>accept\<close> waits for a handshake before it takes the next
  connection; \<open>None\<close> is that it does not return on what came in.
\<close>

datatype 's handshake_outcome = HandshakeOk 's | HandshakeFailed | HandshakeSilent

datatype 's tls_incoming = TcpAcceptFailed | TcpAccepted sock_addr "'s handshake_outcome"

fun RustlsListener_accept :: "'s tls_incoming list \<Rightarrow> (('s \<times> sock_addr) \<times> 's tls_incoming list) option" where
  "RustlsListener_accept [] = None"
| "RustlsListener_accept (TcpAcceptFailed # later) = RustlsListener_accept later"
| "RustlsListener_accept (TcpAccepted peer (HandshakeOk tls) # later) = Some ((tls, peer), later)"
| "RustlsListener_accept (TcpAccepted peer HandshakeFailed # later) = RustlsListener_accept later"
| "RustlsListener_accept (TcpAccepted peer HandshakeSilent # later) = None"

text \<open>\<open>axum::serve\<close> calls \<open>accept\<close> again for every connection it has got: the connections it serves.\<close>

function served :: "'s tls_incoming list \<Rightarrow> ('s \<times> sock_addr) list" where
  "served incoming = (case RustlsListener_accept incoming of None \<Rightarrow> [] | Some (x, later) \<Rightarrow> x # served later)"
  by auto

lemma accept_shorter: "RustlsListener_accept incoming = Some (x, later) \<Longrightarrow> length later < length incoming"
  by (induction incoming rule: RustlsListener_accept.induct) auto

termination served
  by (relation "measure length") (auto dest: accept_shorter)

definition serve_decoy :: "'t tls_lib \<Rightarrow> string \<Rightarrow> (path \<times> path) option \<Rightarrow> (sock_addr \<times> 's) list \<Rightarrow> 's tls_incoming list \<Rightarrow> ('s \<times> sock_addr) list tls_comp" where
  "serve_decoy L bind tls clear incoming =
     (case tls of
        Some (cert, key) \<Rightarrow> c_bind (RustlsListener_bind L bind cert key) (\<lambda>_. c_lift (Inr (served incoming)))
      | None \<Rightarrow> c_bind (c_lift (ensure (tcp_bind L bind) (PlainBind bind))) (\<lambda>_. c_lift (Inr (map prod.swap clear))))"

section \<open>Facts\<close>

declare served.simps [simp del]

fun handshaken :: "'s tls_incoming \<Rightarrow> ('s \<times> sock_addr) option" where
  "handshaken (TcpAccepted peer (HandshakeOk tls)) = Some (tls, peer)"
| "handshaken _ = None"

fun silent :: "'s tls_incoming \<Rightarrow> bool" where
  "silent (TcpAccepted _ HandshakeSilent) = True"
| "silent _ = False"

lemma accept_cases:
  "RustlsListener_accept incoming = Some (x, later) \<Longrightarrow>
   \<exists>pre i. incoming = pre @ i # later \<and> handshaken i = Some x \<and> (\<forall>j \<in> set pre. \<not> silent j \<and> handshaken j = None) \<and> \<not> silent i"
proof (induction incoming rule: RustlsListener_accept.induct)
  case (2 later')
  then obtain pre i where "later' = pre @ i # later" "handshaken i = Some x" "\<forall>j \<in> set pre. \<not> silent j \<and> handshaken j = None" "\<not> silent i"
    by auto
  then show ?case by (intro exI [of _ "TcpAcceptFailed # pre"] exI [of _ i]) simp
next
  case (3 peer tls later')
  then show ?case by (intro exI [of _ "[]"]) auto
next
  case (4 peer later')
  then obtain pre i where "later' = pre @ i # later" "handshaken i = Some x" "\<forall>j \<in> set pre. \<not> silent j \<and> handshaken j = None" "\<not> silent i"
    by auto
  then show ?case by (intro exI [of _ "TcpAccepted peer HandshakeFailed # pre"] exI [of _ i]) simp
qed simp_all

lemma accept_None:
  "RustlsListener_accept incoming = None \<Longrightarrow> List.map_filter handshaken (takeWhile (\<lambda>j. \<not> silent j) incoming) = []"
  by (induction incoming rule: RustlsListener_accept.induct) (auto simp: map_filter_simps)

text \<open>
  The decoy serves, in order, exactly the connections with a good handshake that came in before the
  first silent peer: failed accepts and failed handshakes cost nothing.
\<close>

theorem served_exact: "served incoming = List.map_filter handshaken (takeWhile (\<lambda>j. \<not> silent j) incoming)"
proof (induction incoming rule: served.induct)
  case (1 incoming)
  show ?case
  proof (cases "RustlsListener_accept incoming")
    case None
    then show ?thesis using accept_None [OF None] by (subst served.simps) simp
  next
    case (Some y)
    then obtain x later where y: "RustlsListener_accept incoming = Some (x, later)" by (cases y) auto
    then obtain pre i where p: "incoming = pre @ i # later" "handshaken i = Some x"
        "\<forall>j \<in> set pre. \<not> silent j \<and> handshaken j = None" "\<not> silent i"
      using accept_cases by blast
    have "List.map_filter handshaken pre = []" using p(3) by (induction pre) (auto simp: map_filter_simps)
    moreover have "takeWhile (\<lambda>j. \<not> silent j) incoming = pre @ i # takeWhile (\<lambda>j. \<not> silent j) later"
      using p by (simp add: takeWhile_append2)
    ultimately show ?thesis using 1 [OF y] y p(2)
      by (subst served.simps) (cases x, simp add: map_filter_def)
  qed
qed

text \<open>
  One peer that connects and stays silent stops the decoy: whatever comes after it is not served, HTTPS
  knocks among it.
\<close>

theorem silent_peer_blocks_decoy:
  "served (before @ TcpAccepted peer HandshakeSilent # after) = served (before @ [TcpAccepted peer HandshakeSilent])"
  by (simp add: served_exact takeWhile_append)

end
