(* ===== verification/Server_Boot.thy ===== *)
theory Server_Boot
  imports Server_Config
begin

text \<open>
  From the configuration to the running filter: loading and attaching the kernel program
  (\<open>EbpfRuntime::load_and_attach\<close> of \<open>ghostbro-server/src/ebpf.rs\<close>), the watch on the authorized keys, and
  the part of \<open>main.rs\<close> that puts the pieces together. What the \<open>aya\<close> crate finds in an object file and
  which of its calls succeed is a parameter.
\<close>

section \<open>Loading the kernel program\<close>

datatype found = Absent | Mistyped | Present

record ebpf_object =
  obj_maps :: xdp_maps
  obj_config :: found
  obj_config_set :: bool
  obj_program :: found
  obj_load :: bool
  obj_attach :: "string \<Rightarrow> bool"
  obj_allow_map :: found
  obj_spa_ring :: found

datatype attach_error =
    NoObject string | NoConfigMap | BadConfigMap | ConfigWrite | NoProgram | BadProgram | ProgramLoad | AttachFailed string
  | NoAllowMap | BadAllowMap | NoSpaRing | BadSpaRing

text \<open>
  The kernel side: the maps, the interface the program is attached to, and, for the record, the
  configuration the maps held at the moment of the attachment.
\<close>

record filter_state =
  kf_maps :: xdp_maps
  kf_iface :: "string option"
  kf_seen :: "BpfConfig option"

definition require :: "found \<Rightarrow> attach_error \<Rightarrow> attach_error \<Rightarrow> (filter_state, attach_error, unit) comp" where
  "require f absent mistyped = c_lift (case f of Absent \<Rightarrow> Inl absent | Mistyped \<Rightarrow> Inl mistyped | Present \<Rightarrow> Inr ())"

definition set_config :: "ebpf_object \<Rightarrow> BpfConfig \<Rightarrow> (filter_state, attach_error, unit) comp" where
  "set_config obj config st =
     (if obj_config_set obj then (Inr (), st\<lparr>kf_maps := (kf_maps st)\<lparr>CONFIG := Some config\<rparr>\<rparr>) else (Inl ConfigWrite, st))"

definition attach :: "ebpf_object \<Rightarrow> string \<Rightarrow> (filter_state, attach_error, unit) comp" where
  "attach obj iface st =
     (if obj_attach obj iface then (Inr (), st\<lparr>kf_iface := Some iface, kf_seen := CONFIG (kf_maps st)\<rparr>)
      else (Inl (AttachFailed iface), st))"

text \<open>When an error is returned the object is dropped, which detaches the program.\<close>

definition dropping :: "(filter_state, attach_error, unit) comp \<Rightarrow> (filter_state, attach_error, unit) comp" where
  "dropping m st = (case m st of (Inl e, st') \<Rightarrow> (Inl e, st'\<lparr>kf_iface := None\<rparr>) | ok \<Rightarrow> ok)"

definition load_and_attach ::
    "(string \<Rightarrow> ebpf_object option) \<Rightarrow> string \<Rightarrow> string \<Rightarrow> BpfConfig \<Rightarrow> (filter_state, attach_error, unit) comp" where
  "load_and_attach load_file object_file iface config st =
     (case load_file object_file of
        None \<Rightarrow> (Inl (NoObject object_file), st)
      | Some obj \<Rightarrow>
          dropping
            (c_bind (require (obj_config obj) NoConfigMap BadConfigMap) (\<lambda>_.
             c_bind (set_config obj config) (\<lambda>_.
             c_bind (require (obj_program obj) NoProgram BadProgram) (\<lambda>_.
             c_bind (c_lift (ensure (obj_load obj) ProgramLoad)) (\<lambda>_.
             c_bind (attach obj iface) (\<lambda>_.
             c_bind (require (obj_allow_map obj) NoAllowMap BadAllowMap) (\<lambda>_.
               require (obj_spa_ring obj) NoSpaRing BadSpaRing)))))))
            (st\<lparr>kf_maps := obj_maps obj\<rparr>))"

lemma require_Inr [simp]: "require f a b st = (Inr u, st') \<longleftrightarrow> f = Present \<and> st' = st"
  by (cases f) (auto simp: require_def)

lemma load_and_attach_Inr:
  assumes "load_and_attach load_file path iface config st = (Inr u, st')"
  obtains obj where "load_file path = Some obj" "st' = \<lparr>kf_maps = (obj_maps obj)\<lparr>CONFIG := Some config\<rparr>,
      kf_iface = Some iface, kf_seen = Some config\<rparr>"
  using assms
  by (cases st)
    (auto simp: load_and_attach_def dropping_def comp_eqs set_config_def attach_def split: option.splits prod.splits sum.splits if_splits)

lemma load_and_attach_Inl:
  assumes "load_and_attach load_file path iface config st = (Inl e, st')" and "kf_iface st = None"
  shows "kf_iface st' = None"
  using assms by (auto simp: load_and_attach_def dropping_def split: option.splits prod.splits sum.splits)

section \<open>The watch on the authorized keys\<close>

text \<open>The directory is watched, so that a replaced file is seen; a bare file name is watched itself.\<close>

definition watch_path :: "path \<Rightarrow> path" where
  "watch_path path = (case parent path of Some p \<Rightarrow> if p = [] then path else p | None \<Rightarrow> path)"

datatype notify_event = Event "path list" | WatchError

definition watch_callback :: "path \<Rightarrow> notify_event \<Rightarrow> nat \<Rightarrow> nat" where
  "watch_callback event_path ev waiting =
     (case ev of
        Event paths \<Rightarrow> if event_path \<in> set paths then Suc waiting else waiting
      | WatchError \<Rightarrow> waiting)"

definition watch_authorized_keys :: "bool \<Rightarrow> (path \<Rightarrow> bool) \<Rightarrow> path \<Rightarrow> rt_error + path" where
  "watch_authorized_keys created watch keys_path =
     and_then (ensure created WatchFailed) (\<lambda>_.
     and_then (ensure (watch (watch_path keys_path)) WatchFailed) (\<lambda>_. Inr (watch_path keys_path)))"

text \<open>The reload signals pending for the next iteration are the events that named the file.\<close>

lemma watch_signals:
  "fold (watch_callback p) evs n = n + length (filter (\<lambda>ev. \<exists>paths. ev = Event paths \<and> p \<in> set paths) evs)"
  by (induction evs arbitrary: n) (auto simp: watch_callback_def split: notify_event.splits)

section \<open>Putting the server together\<close>

text \<open>
  \<open>main\<close> with a kernel object: the start-up of \<open>Server_Config\<close>, then the filter, and the state the filter
  loop starts from: an empty mirror beside the loaded maps.
\<close>

datatype boot_error = BootStart start_error | BootAttach attach_error

definition server_boot ::
    "'n server_env \<Rightarrow> (string \<Rightarrow> ebpf_object option) \<Rightarrow> path \<Rightarrow> string option \<Rightarrow> string \<Rightarrow> string
     \<Rightarrow> (host \<times> filter_state, boot_error, 'n started \<times> runtime) comp" where
  "server_boot E load_file config_path cli_decoy_bind object_file iface x =
     (case x of (h, st) \<Rightarrow>
      case server_start E config_path cli_decoy_bind h of
        (Inl e, h') \<Rightarrow> (Inl (BootStart e), (h', st))
      | (Inr up, h') \<Rightarrow>
          (case load_and_attach load_file object_file iface (up_bpf up) st of
             (Inl e, st') \<Rightarrow> (Inl (BootAttach e), (h', st'))
           | (Inr _, st') \<Rightarrow>
               (Inr (up, \<lparr>rt_maps = kf_maps st', allowed_sources = hm_empty, rt_verifier = up_verifier up, rt_host = h', rt_tick = 0\<rparr>),
                (h', st'))))"

text \<open>The maps of a freshly loaded object hold no entry.\<close>

definition fresh_objects :: "(string \<Rightarrow> ebpf_object option) \<Rightarrow> bool" where
  "fresh_objects load_file \<longleftrightarrow> (\<forall>p obj. load_file p = Some obj \<longrightarrow> ALLOW_MAP (obj_maps obj) = hm_empty)"

lemma server_boot_Inr:
  assumes "server_boot E load_file config_path cli object_file iface (h, st) = (Inr (up, s), (h', st'))"
  shows "server_start E config_path cli h = (Inr up, h')"
    and "load_and_attach load_file object_file iface (up_bpf up) st = (Inr (), st')"
    and "s = \<lparr>rt_maps = kf_maps st', allowed_sources = hm_empty, rt_verifier = up_verifier up, rt_host = h', rt_tick = 0\<rparr>"
  using assms by (auto simp: server_boot_def split: prod.splits sum.splits)


definition demo_object :: ebpf_object where
  "demo_object =
     \<lparr>obj_maps = demo_maps, obj_config = Present, obj_config_set = True, obj_program = Present, obj_load = True,
      obj_attach = (\<lambda>_. True), obj_allow_map = Present, obj_spa_ring = Present\<rparr>"


end
