(* ===== verification/Noise_Listener.thy ===== *)
theory Noise_Listener
  imports Noise
begin

text \<open>
  The outside of the Noise proxy (\<open>ghostbro-server/src/noise.rs\<close>): the accept loop over the shared state
  of all connections, and the SOCKS5 handler behind a tunnel. The SOCKS5 server protocol is a library
  and a parameter; what it reads is the encrypted stream, with the first frame handed over.
\<close>

section \<open>The accept loop\<close>

datatype listener_error = ListenKey key_file_error | ListenBind string | AcceptFailed

text \<open>What all connections share, and how each of them ended.\<close>

record 'r listener =
  ln_runtime :: runtime
  ln_sessions :: session_counts
  ln_relay :: 'r
  ln_results :: "(conn_error + conn_outcome) list"

type_synonym incoming = "(ip_addr \<times> bytes) option"

definition accept_connection ::
    "'h snow \<Rightarrow> (key_id \<Rightarrow> bytes \<Rightarrow> 'r \<Rightarrow> bytes \<times> 'r) \<Rightarrow> clocks \<Rightarrow> bytes \<Rightarrow> ip_addr \<Rightarrow> bytes \<Rightarrow> 'r listener \<Rightarrow> 'r listener" where
  "accept_connection S dispatch K static_key peer received st =
     (case handle_connection S dispatch K static_key peer
             \<lparr>conn_rx = received, conn_tx = [], conn_runtime = ln_runtime st, conn_sessions = ln_sessions st, conn_relay = ln_relay st\<rparr> of
        (r, c) \<Rightarrow>
          st\<lparr>ln_runtime := conn_runtime c, ln_sessions := conn_sessions c, ln_relay := conn_relay c, ln_results := ln_results st @ [r]\<rparr>)"

text \<open>A failed \<open>accept\<close> ends the listener; a failed connection is logged and does not.\<close>

fun accept_loop ::
    "'h snow \<Rightarrow> (key_id \<Rightarrow> bytes \<Rightarrow> 'r \<Rightarrow> bytes \<times> 'r) \<Rightarrow> clocks \<Rightarrow> bytes \<Rightarrow> incoming list \<Rightarrow> ('r listener, listener_error, unit) comp" where
  "accept_loop S dispatch K static_key [] st = (Inr (), st)"
| "accept_loop S dispatch K static_key (None # _) st = (Inl AcceptFailed, st)"
| "accept_loop S dispatch K static_key (Some (peer, received) # later) st =
     accept_loop S dispatch K static_key later (accept_connection S dispatch K static_key peer received st)"

definition run_proxy_listener ::
    "crypto \<Rightarrow> bool \<Rightarrow> (bytes \<times> bytes) option \<Rightarrow> (string \<Rightarrow> bool) \<Rightarrow> 'h snow \<Rightarrow> (key_id \<Rightarrow> bytes \<Rightarrow> 'r \<Rightarrow> bytes \<times> 'r) \<Rightarrow> clocks
     \<Rightarrow> string \<Rightarrow> path \<Rightarrow> incoming list \<Rightarrow> runtime \<Rightarrow> 'r \<Rightarrow> host \<Rightarrow> (listener_error + unit) \<times> 'r listener option \<times> host" where
  "run_proxy_listener C opt_in fresh bindable S dispatch K bind identity_path incoming rt relay h =
     (case load_or_generate_static_key C opt_in fresh identity_path h of
        (Inl e, h') \<Rightarrow> (Inl (ListenKey e), None, h')
      | (Inr static_key, h') \<Rightarrow>
          if \<not> bindable bind then (Inl (ListenBind bind), None, h')
          else
            (case accept_loop S dispatch K static_key incoming
                    \<lparr>ln_runtime = rt, ln_sessions = hm_empty, ln_relay = relay, ln_results = []\<rparr> of
               (r, st) \<Rightarrow> (r, Some st, h')))"

text \<open>The runtime after a connection: at most the lookup of its address.\<close>

lemma handle_connection_runtime:
  assumes "handle_connection S dispatch K static_key peer st = (r, st')"
  shows "conn_runtime st' = conn_runtime st \<or> (\<exists>ip. conn_runtime st' = snd (lookup_source K ip (conn_runtime st)))"
proof (cases peer)
  case (V4 ip)
  have fr: "conn_runtime s' = conn_runtime s" if "conn_read_frame s = (q, s')" for s s' :: "'a conn" and q
    using conn_frame_relay(1) [OF that] by auto
  have fw: "conn_runtime s' = conn_runtime s" if "conn_write_frame f s = (q, s')" for f and s s' :: "'a conn" and q
    using conn_frame_relay(2) [OF that] by auto
  define P where "P = (\<lambda>s :: 'a conn. conn_runtime s = snd (lookup_source K ip (conn_runtime st)))"
  have kr: "keeps P conn_read_frame" and kw: "keeps P (conn_write_frame f)" for f
    unfolding keeps_def P_def by (metis fr prod.collapse, metis fw prod.collapse)
  have enc: "keeps P (read_encrypted_frame N n)" "keeps P (write_encrypted_frame N n pt)" for N n pt
    unfolding read_encrypted_frame_def write_encrypted_frame_def by (intro keeps_bind keeps_lift kr kw)+
  have hs: "keeps P (handshake S static_key key)" for key
    unfolding handshake_def by (intro keeps_bind keeps_lift kr kw) (auto intro!: keeps_bind kr kw)
  have gr: "keeps P (handle_ghost_relay dispatch key req N)" for key req N
    unfolding keeps_def
  proof (intro allI impI)
    fix s assume "P s"
    obtain response x where d: "dispatch key req (conn_relay s) = (response, x)" by fastforce
    have k: "keeps P (c_bind (write_encrypted_frame N 0 response) (\<lambda>_. c_lift (Inr (Relayed response))))"
      by (intro keeps_bind enc keeps_lift)
    have "P (s\<lparr>conn_relay := x\<rparr>)" using \<open>P s\<close> by (simp add: P_def)
    with k show "P (snd (handle_ghost_relay dispatch key req N s))" by (simp add: keeps_def handle_ghost_relay_def d)
  qed
  have ss: "keeps P (serve_session S dispatch src h)" for src h
    unfolding serve_session_def by (intro keeps_bind keeps_lift enc) (auto intro!: keeps_bind enc gr)
  have ws: "keeps P (with_session key cap body)" if "keeps P body" for key cap and body :: "('a, conn_outcome) conn_comp"
    using that by (simp add: keeps_def with_session_def P_def split_beta split: bool.split)
  have "P (snd (conn_lookup K ip st))" by (simp add: P_def conn_lookup_def split: prod.split)
  then have "P (snd (handle_connection S dispatch K static_key peer st))"
    unfolding handle_connection_def V4 ip_addr.case
    by (rule c_bind_after) (auto intro!: keeps_bind hs ws ss)
  then have "P st'" using assms by simp
  then show ?thesis unfolding P_def by blast
qed (use assms in \<open>simp add: handle_connection_def\<close>)

lemma accept_connection_run:
  assumes "spa_run C T toml_keys path A ttl priv ks t (ln_runtime st)" and "\<forall>n. \<exists>now. monotonic_now_ns (mono K n) = Inr now"
  shows "\<exists>t'. spa_run C T toml_keys path A ttl priv ks t' (ln_runtime (accept_connection S dispatch K static_key peer received st))"
proof -
  let ?c = "\<lparr>conn_rx = received, conn_tx = [], conn_runtime = ln_runtime st, conn_sessions = ln_sessions st, conn_relay = ln_relay st\<rparr>"
  obtain r c where h: "handle_connection S dispatch K static_key peer ?c = (r, c)" by fastforce
  obtain now where "monotonic_now_ns (mono K (rt_tick (ln_runtime st))) = Inr now" using assms(2) by blast
  note step = spa_run.connect [OF assms(1) this]
  have "\<exists>t'. spa_run C T toml_keys path A ttl priv ks t' (conn_runtime c)"
    using handle_connection_runtime [OF h] assms(1) step by (elim disjE exE) (simp, blast, simp, blast)
  then show ?thesis using h by (simp add: accept_connection_def)
qed

lemma accept_loop_Inl:
  "accept_loop S dispatch K static_key incoming st = (Inl e, st') \<Longrightarrow> e = AcceptFailed \<and> None \<in> set incoming"
  by (induction S dispatch K static_key incoming st rule: accept_loop.induct) auto

lemma accept_loop_results:
  "accept_loop S dispatch K static_key incoming st = (Inr u, st') \<Longrightarrow>
   length (ln_results st') = length (ln_results st) + length incoming"
  by (induction S dispatch K static_key incoming st rule: accept_loop.induct)
    (auto simp: accept_connection_def split: prod.splits)

section \<open>SOCKS5 behind the tunnel\<close>

datatype Socks5Command = CmdConnect | CmdBind | CmdUdpAssociate

datatype socks5_error =
    Socks5NoAuth | Socks5Command | Socks5Resolve | Socks5Reply | Socks5Unsupported Socks5Command | Socks5Proxy string

record socks5_server =
  ss_accept_no_auth :: "NoiseFramedStream \<Rightarrow> NoiseFramedStream option"
  ss_read_command :: "NoiseFramedStream \<Rightarrow> (NoiseFramedStream \<times> Socks5Command \<times> string) option"
  ss_resolve_dns :: "string \<Rightarrow> string option"
  ss_reply_unsupported :: "NoiseFramedStream \<Rightarrow> bool"
  ss_run_tcp_proxy :: "NoiseFramedStream \<Rightarrow> string \<Rightarrow> nat \<Rightarrow> bool"

definition handle_socks5 :: "socks5_server \<Rightarrow> tcp \<Rightarrow> bytes \<Rightarrow> socks5_error + string" where
  "handle_socks5 L tcp_stream greeting =
     and_then (ok_or Socks5NoAuth (ss_accept_no_auth L (NoiseFramedStream_new tcp_stream 1 0 greeting))) (\<lambda>proto.
     and_then (ok_or Socks5Command (ss_read_command L proto)) (\<lambda>(proto, command, target).
     and_then (ok_or Socks5Resolve (ss_resolve_dns L target)) (\<lambda>target.
       if command \<noteq> CmdConnect
       then and_then (ensure (ss_reply_unsupported L proto) Socks5Reply) (\<lambda>_. Inl (Socks5Unsupported command))
       else and_then (ensure (ss_run_tcp_proxy L proto target 10) (Socks5Proxy target)) (\<lambda>_. Inr target))))"

text \<open>Only CONNECT is ever proxied, and only to the target of the command, resolved.\<close>

lemma handle_socks5_connect_only:
  assumes "handle_socks5 L tcp_stream greeting = Inr target"
  shows "\<exists>proto proto' name. ss_accept_no_auth L (NoiseFramedStream_new tcp_stream 1 0 greeting) = Some proto \<and>
    ss_read_command L proto = Some (proto', CmdConnect, name) \<and> ss_resolve_dns L name = Some target \<and>
    ss_run_tcp_proxy L proto' target 10"
  using assms by (auto simp: handle_socks5_def result_eqs split: if_splits)

section \<open>What the SOCKS5 server reads\<close>

text \<open>Any sequence of reads from a given stream.\<close>

inductive reads_from :: "noise_cipher \<Rightarrow> NoiseFramedStream \<Rightarrow> NoiseFramedStream \<Rightarrow> bytes \<Rightarrow> bool" for N s0 where
  opened: "reads_from N s0 s0 []"
| took: "reads_from N s0 s out \<Longrightarrow> poll_read N room s = (Ready (Inr bs), s') \<Longrightarrow> reads_from N s0 s' (out @ bs)"
| waited: "reads_from N s0 s out \<Longrightarrow> poll_read N room s = (Pending, s') \<Longrightarrow> reads_from N s0 s' out"

lemma reads_from_in_flight:
  assumes "reads_from B s0 s out" and "delivers A B" and "in_flight A s0 ms"
  shows "\<exists>ms'. in_flight A s ms' \<and> out @ plain s @ concat ms' = plain s0 @ concat ms"
  using assms(1)
proof induction
  case opened
  then show ?case using assms(3) by auto
next
  case (took s out room bs s')
  then obtain ms1 where 1: "in_flight A s ms1" "out @ plain s @ concat ms1 = plain s0 @ concat ms" by blast
  from poll_read_delivers [OF assms(2) 1(1) took.hyps(2)]
  obtain ms' where "in_flight A s' ms'" "bs @ plain s' @ concat ms' = plain s @ concat ms1" by auto
  then show ?case using 1(2) by (intro exI [of _ ms']) simp
next
  case (waited s out room s')
  then obtain ms1 where 1: "in_flight A s ms1" "out @ plain s @ concat ms1 = plain s0 @ concat ms" by blast
  with poll_read_delivers [OF assms(2) 1(1) waited.hyps(2)] show ?case by auto
qed

lemma new_in_flight:
  "rx t = wire_of N n ms \<Longrightarrow> \<forall>m \<in> set ms. length m \<le> max_plaintext_len \<Longrightarrow> in_flight N (NoiseFramedStream_new t n k initial) ms"
  by (simp add: in_flight_def NoiseFramedStream_new_def read_ok_def unparsed_def)

end
