(* ===== verification/Privilege.thy ===== *)
theory Privilege
  imports Host_Fs
begin

text \<open>
  The report of the process's privileges at start-up (\<open>ghostbro-server/src/privilege.rs\<close>): the effective
  capability mask of \<open>/proc/self/status\<close>, the names the program knows, and the warning it logs.
\<close>

definition KNOWN_CAPS :: "(nat \<times> string) list" where
  "KNOWN_CAPS =
     [(10, ''CAP_NET_BIND_SERVICE''), (12, ''CAP_NET_ADMIN''), (13, ''CAP_NET_RAW''), (21, ''CAP_SYS_ADMIN''),
      (38, ''CAP_PERFMON''), (39, ''CAP_BPF'')]"

definition REQUIRED_CAPS :: "string list" where
  "REQUIRED_CAPS = [''CAP_BPF'', ''CAP_NET_ADMIN'']"

record PrivilegeStatus =
  ps_uid :: u32
  ps_gid :: u32
  ps_effective_caps :: "string list"
  ps_is_root :: bool

fun parse_cap_lines :: "string list \<Rightarrow> u64 option" where
  "parse_cap_lines [] = None"
| "parse_cap_lines (line # rest) =
     (case strip_prefix ''CapEff:'' line of
        Some r \<Rightarrow> map_option word_of_nat (from_str_radix (2 ^ 64) 16 (trim r))
      | None \<Rightarrow> parse_cap_lines rest)"

definition parse_cap_eff :: "string \<Rightarrow> u64 option" where
  "parse_cap_eff status = parse_cap_lines (lines status)"

definition decode_caps :: "u64 \<Rightarrow> string list" where
  "decode_caps caps = map snd (filter (\<lambda>(b, _). caps AND push_bit b 1 \<noteq> 0) KNOWN_CAPS)"

definition PROC_STATUS :: path where "PROC_STATUS = [''proc'', ''self'', ''status'']"

definition read_effective_caps :: "host \<Rightarrow> u64 option \<times> host" where
  "read_effective_caps h =
     (case io_read_to_string PROC_STATUS h of
        (Inl _, h') \<Rightarrow> (None, h')
      | (Inr status, h') \<Rightarrow> (parse_cap_eff status, h'))"

definition report :: "u32 \<Rightarrow> u32 \<Rightarrow> host \<Rightarrow> PrivilegeStatus \<times> host" where
  "report uid gid h =
     (case read_effective_caps h of
        (caps, h') \<Rightarrow>
          (\<lparr>ps_uid = uid, ps_gid = gid, ps_effective_caps = (case caps of Some m \<Rightarrow> decode_caps m | None \<Rightarrow> []),
            ps_is_root = (uid = 0)\<rparr>, h'))"

text \<open>What is logged: the root warning, or the required capabilities that are missing, if any are.\<close>

datatype privilege_warning = RunsAsRoot | MissingCaps "string list"

definition log_startup_privileges :: "u32 \<Rightarrow> u32 \<Rightarrow> host \<Rightarrow> privilege_warning option \<times> host" where
  "log_startup_privileges uid gid h =
     (case report uid gid h of
        (status, h') \<Rightarrow>
          (if ps_is_root status then Some RunsAsRoot
           else let missing = filter (\<lambda>cap. cap \<notin> set (ps_effective_caps status)) REQUIRED_CAPS in
                if missing = [] then None else Some (MissingCaps missing), h'))"

section \<open>Facts\<close>

lemma lines_append:
  assumes "CHR 0x0A \<notin> set a"
  shows "lines (a @ CHR 0x0A # b) = strip_cr a # lines b"
proof -
  obtain l rest where "rev (split_on (CHR 0x0A) b) = l # rest"
    using split_on_nonempty [of "CHR 0x0A" b] by (metis neq_Nil_conv rev_is_Nil_conv)
  then show ?thesis by (simp add: lines_def Let_def split_on_append [OF assms])
qed

lemma digits_value_map:
  assumes "\<forall>d \<in> set ds. d < radix" and "radix \<le> 36" and "0 < radix" and "foldl (\<lambda>a d. a * radix + d) acc ds < bound"
  shows "digits_value radix bound acc (map digit_char ds) = Some (foldl (\<lambda>a d. a * radix + d) acc ds)"
  using assms
proof (induction ds arbitrary: acc)
  case (Cons d ds)
  have "x \<le> foldl (\<lambda>a d. a * radix + d) x ds" for x
  proof (induction ds arbitrary: x)
    case (Cons e es)
    have "x \<le> x * radix + e" using assms(3) by (simp add: trans_le_add1)
    then show ?case using Cons.IH [of "x * radix + e"] by simp
  qed simp
  from this [of "acc * radix + d"] have "acc * radix + d < bound" using Cons.prems(4) by simp
  then show ?case using Cons by (simp add: digit_value_digit_char)
qed simp

lemma digit_char_printable: "d < 16 \<Longrightarrow> (of_char (digit_char d) :: nat) < 128 \<and> \<not> ws_scalar (of_char (digit_char d))"
  by (simp add: digit_char_def ws_scalar_def)

text \<open>The line as the kernel prints it: the name, a tab, and the digits of the mask.\<close>

lemma parse_cap_line:
  fixes caps :: u64
  assumes "\<forall>d \<in> set ds. d < 16" and "ds \<noteq> []" and "foldl (\<lambda>a d. a * 16 + d) 0 ds = unat caps"
  shows "parse_cap_lines ((''CapEff:'' @ CHR 0x09 # map digit_char ds) # rest) = Some caps"
proof -
  let ?t = "map digit_char ds"
  have pr: "\<forall>c \<in> set ?t. (of_char c :: nat) < 128 \<and> \<not> ws_scalar (of_char c)"
    using assms(1) digit_char_printable by auto
  have "chars (CHR 0x09 # ?t) = [CHR 0x09] # chars ?t"
    using pr by (subst chars_ascii, simp, subst chars_ascii, auto)
  then have tr: "trim (CHR 0x09 # ?t) = trim ?t"
    by (simp add: trim_def is_whitespace_def utf8_decode_def ws_scalar_def)
  obtain d es where ds: "ds = d # es" using assms(2) by (cases ds) auto
  have "digit_char d \<noteq> CHR ''+''" using assms(1) ds digit_char_facts(2) by simp
  moreover have "digits_value 16 (2 ^ 64) 0 ?t = Some (unat caps)"
    using digits_value_map [of ds 16 0 "2 ^ 64"] assms unat_less_pow [of caps] by simp
  ultimately have "from_str_radix (2 ^ 64) 16 ?t = Some (unat caps)"
    by (simp add: from_str_radix_def ds)
  moreover have "strip_prefix ''CapEff:'' (''CapEff:'' @ CHR 0x09 # ?t) = Some (CHR 0x09 # ?t)"
    by (simp add: strip_prefix_def)
  ultimately show ?thesis using tr trim_id [OF pr] by simp
qed

lemma parse_cap_eff_status:
  fixes caps :: u64
  assumes "\<forall>l \<in> set pre. CHR 0x0A \<notin> set l \<and> \<not> starts_with (strip_cr l) ''CapEff:''"
    and "\<forall>d \<in> set ds. d < 16" and "ds \<noteq> []" and "foldl (\<lambda>a d. a * 16 + d) 0 ds = unat caps"
  shows "parse_cap_eff (concat (map (\<lambda>l. l @ [CHR 0x0A]) pre) @ (''CapEff:'' @ CHR 0x09 # map digit_char ds) @ CHR 0x0A # rest) = Some caps"
  using assms(1)
proof (induction pre)
  case Nil
  let ?l = "''CapEff:'' @ CHR 0x09 # map digit_char ds"
  have pr: "c \<in> set (map digit_char ds) \<Longrightarrow> \<not> ws_scalar (of_char c)" for c
    using assms(2) digit_char_printable by auto
  have "CHR 0x0A \<notin> set (map digit_char ds)" using pr [of "CHR 0x0A"] by (auto simp: ws_scalar_def)
  moreover have "last (map digit_char ds) \<noteq> CHR 0x0D"
    using pr [of "CHR 0x0D"] assms(3) last_in_set [of "map digit_char ds"] by (auto simp: ws_scalar_def)
  then have "strip_cr ?l = ?l" using assms(3) by (simp add: strip_cr_def)
  ultimately have "lines (?l @ CHR 0x0A # rest) = ?l # lines rest"
    using lines_append [of ?l rest] by simp
  then show ?case using parse_cap_line [OF assms(2-4), of "lines rest"] by (simp add: parse_cap_eff_def)
next
  case (Cons l pre)
  then have "lines ((l @ [CHR 0x0A]) @ concat (map (\<lambda>l. l @ [CHR 0x0A]) pre) @ (''CapEff:'' @ CHR 0x09 # map digit_char ds) @ CHR 0x0A # rest) =
      strip_cr l # lines (concat (map (\<lambda>l. l @ [CHR 0x0A]) pre) @ (''CapEff:'' @ CHR 0x09 # map digit_char ds) @ CHR 0x0A # rest)"
    using lines_append [of l] by simp
  then show ?case using Cons by (simp add: parse_cap_eff_def strip_prefix_def)
qed

lemma required_caps_iff:
  "''CAP_BPF'' \<in> set (decode_caps caps) \<longleftrightarrow> bit caps 39" "''CAP_NET_ADMIN'' \<in> set (decode_caps caps) \<longleftrightarrow> bit caps 12"
proof -
  have b: "caps AND push_bit n 1 \<noteq> 0 \<longleftrightarrow> bit caps n" if "n < 64" for n
    using that by (simp add: and_exp_eq_0_iff_not_bit flip: push_bit_eq_mult)
  show "''CAP_BPF'' \<in> set (decode_caps caps) \<longleftrightarrow> bit caps 39" "''CAP_NET_ADMIN'' \<in> set (decode_caps caps) \<longleftrightarrow> bit caps 12"
    using b [of 39] b [of 12] by (auto simp: decode_caps_def KNOWN_CAPS_def)
qed

text \<open>
  The start-up report is exact: from a status file in the kernel's format, an unprivileged server
  warns precisely about the required capabilities whose bit is missing from its effective mask, and is
  silent when both are there; as root it always warns.
\<close>

theorem privilege_warning_exact:
  fixes caps :: u64
  assumes "io_read_to_string PROC_STATUS h =
      (Inr (concat (map (\<lambda>l. l @ [CHR 0x0A]) pre) @ (''CapEff:'' @ CHR 0x09 # map digit_char ds) @ CHR 0x0A # rest), h1)"
    and "\<forall>l \<in> set pre. CHR 0x0A \<notin> set l \<and> \<not> starts_with (strip_cr l) ''CapEff:''"
    and "\<forall>d \<in> set ds. d < 16" and "ds \<noteq> []" and "foldl (\<lambda>a d. a * 16 + d) 0 ds = unat caps"
  shows "fst (log_startup_privileges uid gid h) =
    (if uid = 0 then Some RunsAsRoot
     else if bit caps 39 \<and> bit caps 12 then None
     else Some (MissingCaps ((if bit caps 39 then [] else [''CAP_BPF'']) @ (if bit caps 12 then [] else [''CAP_NET_ADMIN'']))))"
proof -
  have "parse_cap_eff (concat (map (\<lambda>l. l @ [CHR 0x0A]) pre) @ (''CapEff:'' @ CHR 0x09 # map digit_char ds) @ CHR 0x0A # rest) = Some caps"
    by (rule parse_cap_eff_status [OF assms(2-5)])
  then have "report uid gid h = (\<lparr>ps_uid = uid, ps_gid = gid, ps_effective_caps = decode_caps caps, ps_is_root = (uid = 0)\<rparr>, h1)"
    using assms(1) by (simp add: report_def read_effective_caps_def)
  then show ?thesis
    by (simp add: log_startup_privileges_def REQUIRED_CAPS_def required_caps_iff Let_def)
qed

theorem privilege_warning_exact_witness:
  "fst (log_startup_privileges 1000 1000
      \<lparr>files = [(PROC_STATUS, as_bytes (''Uid:'' @ CHR 0x0A # ''CapEff:'' @ CHR 0x09 # map digit_char [1, 0, 0, 0] @ [CHR 0x0A]))],
       dirs = [], tick = 0, fault = (\<lambda>_. None)\<rparr>) = Some (MissingCaps [''CAP_BPF''])"
proof -
  let ?t = "''Uid:'' @ CHR 0x0A # ''CapEff:'' @ CHR 0x09 # map digit_char [1, 0, 0, 0] @ [CHR 0x0A]"
  let ?h = "\<lparr>files = [(PROC_STATUS, as_bytes ?t)], dirs = [], tick = 0, fault = (\<lambda>_. None)\<rparr>"
  have "\<forall>c \<in> set ?t. (of_char c :: nat) < 128" by (simp add: digit_char_def)
  then have "from_utf8 (as_bytes ?t) = Some ?t" by (intro from_utf8_as_bytes ascii_valid_str)
  then have rd: "io_read_to_string PROC_STATUS ?h = (Inr ?t, ?h\<lparr>tick := 1\<rparr>)"
    by (simp add: io_read_to_string_def io_read_def io_call_def c_bind_def hm_get_def del: append_Cons append_Nil list.map)
  have "bit (4096 :: u64) 12" "\<not> bit (4096 :: u64) 39" by code_simp+
  then show ?thesis
    using privilege_warning_exact [where h = ?h and pre = "[''Uid:'']" and ds = "[1, 0, 0, 0]" and rest = "[]" and caps = 4096 and uid = 1000 and gid = 1000] rd
    by (simp add: strip_cr_def)
qed

end
