(* ===== verification/Client_Identity.thy ===== *)
theory Client_Identity
  imports Keys Host_Fs Spa_Packet
begin

text \<open>
  The client's own files (\<open>ghostbro-client/src/main.rs\<close>): the encrypted identity key, the keys of the
  servers, and the counter file of the knocks. Clock, passphrase prompt, random source and the TOML
  codec are the environment; the state is the client's host, the network it acts on, and how often
  each source was used. Errors say which step failed.
\<close>

definition IDENTITY_KEY_VERSION :: u8 where "IDENTITY_KEY_VERSION = 1"
definition IDENTITY_KEY_KDF :: string where "IDENTITY_KEY_KDF = ''argon2id''"
definition IDENTITY_KEY_AEAD :: string where "IDENTITY_KEY_AEAD = ''chacha20poly1305''"
definition ARGON2_MEMORY_KIB :: u32 where "ARGON2_MEMORY_KIB = 64 * 1024"
definition ARGON2_ITERATIONS :: u32 where "ARGON2_ITERATIONS = 3"
definition ARGON2_PARALLELISM :: u32 where "ARGON2_PARALLELISM = 1"
definition NONCE_LEN :: nat where "NONCE_LEN = 12"

record EncryptedIdentityParams =
  par_memory_kib :: u32
  par_iterations :: u32
  par_parallelism :: u32

record EncryptedIdentityKey =
  ik_version :: u8
  ik_kdf :: string
  ik_aead :: string
  ik_params :: EncryptedIdentityParams
  ik_salt :: string
  ik_nonce :: string
  ik_ciphertext :: string

section \<open>Errors, environment and state\<close>

datatype client_file =
  IdentityFile | PublicFile | KeyIdFile | NoiseFile | CounterFile | ServerKeyFile | ConfigFile | OutputFile

datatype identity_error =
    BadVersion u8 | BadKdf string | BadAead string | BadParams | BadSalt | BadNonce | BadCiphertext
  | BadNonceLen | KdfFailed | BadPassphrase | BadPlainLen nat

datatype relay_error =
    BadResponse bytes | RequestFailed string | BadResponseLength | RelayStringTooLong | JobNotReady
  | DownloadFailed string | DownloadTruncated | BadDownloadLength | ChunkTooLarge | SizeMismatch nat u32

datatype client_error =
    FileError client_file io_error
  | BadIdentity identity_error
  | LegacyKey KeyError
  | NoPassphrase | PassphraseMismatch | PassphraseEmpty
  | SerializeFailed
  | ClockBeforeEpoch
  | CounterUnparsable
  | ServerKeyBase64 | ServerKeyLen nat
  | SpaSendFailed | SpaUrlMissing | SpaStatus nat | ClockDrift int
  | ConnectFailed | NoiseFailed | FrameClosed | FrameFailed | FrameTooLarge
  | NoCandidates | AllFailed nat client_error
  | BadConfig string
  | RelayError relay_error
  | Socks5Failed string

record client_env =
  cl_crypto :: crypto
  cl_now :: "nat \<Rightarrow> int"
  cl_prompt :: "nat \<Rightarrow> string option"
  cl_random :: "nat \<Rightarrow> u32 \<times> (nat \<Rightarrow> bytes) \<times> bytes"
  identity_to_toml :: "EncryptedIdentityKey \<Rightarrow> string option"
  identity_from_toml :: "string \<Rightarrow> EncryptedIdentityKey option"

record 'w client =
  cl_host :: host
  cl_clock :: nat
  cl_prompts :: nat
  cl_draws :: nat
  cl_world :: 'w

type_synonym ('w, 'a) client_comp = "('w client, client_error, 'a) comp"

definition cl_io :: "client_file \<Rightarrow> 'a io \<Rightarrow> ('w, 'a) client_comp" where
  "cl_io f m s = (case m (cl_host s) of (r, h) \<Rightarrow> (map_err (FileError f) r, s\<lparr>cl_host := h\<rparr>))"

text \<open>The n-th reading of the clock is in nanoseconds since the epoch.\<close>

definition client_timestamp_ms :: "client_env \<Rightarrow> ('w, u64) client_comp" where
  "client_timestamp_ms E s =
     (let t = cl_now E (cl_clock s); ms = nat (t div 10 ^ 6) in
      (if t < 0 then Inl ClockBeforeEpoch else Inr (if ms < 2 ^ 64 then word_of_nat ms else - 1),
       s\<lparr>cl_clock := cl_clock s + 1\<rparr>))"

definition prompt_password :: "client_env \<Rightarrow> ('w, string) client_comp" where
  "prompt_password E s = (ok_or NoPassphrase (cl_prompt E (cl_prompts s)), s\<lparr>cl_prompts := cl_prompts s + 1\<rparr>)"

definition prompt_new_passphrase :: "client_env \<Rightarrow> ('w, string) client_comp" where
  "prompt_new_passphrase E =
     c_bind (prompt_password E) (\<lambda>passphrase.
     c_bind (prompt_password E) (\<lambda>confirm.
       c_lift (if passphrase \<noteq> confirm then Inl PassphraseMismatch
               else if passphrase = [] then Inl PassphraseEmpty
               else Inr passphrase)))"

section \<open>The identity key\<close>

definition derive_identity_key :: "crypto \<Rightarrow> string \<Rightarrow> bytes \<Rightarrow> client_error + bytes" where
  "derive_identity_key C passphrase salt = ok_or (BadIdentity KdfFailed) (argon2id C passphrase salt)"

definition encrypt_signing_key_with_salt_nonce ::
    "client_env \<Rightarrow> bytes \<Rightarrow> string \<Rightarrow> bytes \<Rightarrow> bytes \<Rightarrow> client_error + string" where
  "encrypt_signing_key_with_salt_nonce E signing_key passphrase salt nonce =
     (let C = cl_crypto E in
      if length nonce \<noteq> NONCE_LEN then Inl (BadIdentity BadNonceLen)
      else
        and_then (derive_identity_key C passphrase salt) (\<lambda>key.
          let ciphertext = aead_encrypt C key nonce [] signing_key;
              identity = \<lparr>ik_version = IDENTITY_KEY_VERSION, ik_kdf = IDENTITY_KEY_KDF, ik_aead = IDENTITY_KEY_AEAD,
                ik_params = \<lparr>par_memory_kib = ARGON2_MEMORY_KIB, par_iterations = ARGON2_ITERATIONS,
                             par_parallelism = ARGON2_PARALLELISM\<rparr>,
                ik_salt = b64_encode C salt, ik_nonce = b64_encode C nonce, ik_ciphertext = b64_encode C ciphertext\<rparr>
          in ok_or SerializeFailed (identity_to_toml E identity)))"

definition decrypt_signing_key :: "crypto \<Rightarrow> EncryptedIdentityKey \<Rightarrow> string \<Rightarrow> client_error + bytes" where
  "decrypt_signing_key C identity passphrase =
     (if ik_version identity \<noteq> IDENTITY_KEY_VERSION then Inl (BadIdentity (BadVersion (ik_version identity)))
      else if ik_kdf identity \<noteq> IDENTITY_KEY_KDF then Inl (BadIdentity (BadKdf (ik_kdf identity)))
      else if ik_aead identity \<noteq> IDENTITY_KEY_AEAD then Inl (BadIdentity (BadAead (ik_aead identity)))
      else if par_memory_kib (ik_params identity) \<noteq> ARGON2_MEMORY_KIB \<or>
              par_iterations (ik_params identity) \<noteq> ARGON2_ITERATIONS \<or>
              par_parallelism (ik_params identity) \<noteq> ARGON2_PARALLELISM
      then Inl (BadIdentity BadParams)
      else
        and_then (ok_or (BadIdentity BadSalt) (b64_decode C (ik_salt identity))) (\<lambda>salt.
        and_then (ok_or (BadIdentity BadNonce) (b64_decode C (ik_nonce identity))) (\<lambda>nonce.
        and_then (ok_or (BadIdentity BadCiphertext) (b64_decode C (ik_ciphertext identity))) (\<lambda>ciphertext.
          if length nonce \<noteq> NONCE_LEN then Inl (BadIdentity BadNonceLen)
          else
            and_then (derive_identity_key C passphrase salt) (\<lambda>key.
            and_then (ok_or (BadIdentity BadPassphrase) (aead_decrypt C key nonce [] ciphertext)) (\<lambda>plaintext.
              if length plaintext = 32 then Inr plaintext else Inl (BadIdentity (BadPlainLen (length plaintext)))))))))"

definition read_signing_key :: "client_env \<Rightarrow> path \<Rightarrow> ('w, bytes) client_comp" where
  "read_signing_key E path =
     c_bind (cl_io IdentityFile (io_read_to_string path)) (\<lambda>contents.
       case identity_from_toml E contents of
         Some identity \<Rightarrow>
           c_bind (prompt_password E) (\<lambda>passphrase.
             c_lift (decrypt_signing_key (cl_crypto E) identity passphrase))
       | None \<Rightarrow> c_lift (map_err LegacyKey (decode_signing_key (cl_crypto E) (trim contents))))"

definition client_decode_noise_public_key :: "crypto \<Rightarrow> string \<Rightarrow> client_error + bytes" where
  "client_decode_noise_public_key C encoded =
     and_then (ok_or ServerKeyBase64 (b64_decode C (trim encoded))) (\<lambda>key.
       if length key \<noteq> 32 then Inl (ServerKeyLen (length key)) else Inr key)"

definition read_noise_public_key :: "client_env \<Rightarrow> path \<Rightarrow> ('w, bytes) client_comp" where
  "read_noise_public_key E path =
     c_bind (cl_io ServerKeyFile (io_read_to_string path)) (\<lambda>encoded.
       c_lift (client_decode_noise_public_key (cl_crypto E) (trim encoded)))"

definition read_noise_public_key_array :: "client_env \<Rightarrow> path \<Rightarrow> ('w, bytes) client_comp" where
  "read_noise_public_key_array E path =
     c_bind (read_noise_public_key E path) (\<lambda>key.
       c_lift (if length key = 32 then Inr key else Inl (ServerKeyLen (length key))))"

definition client_write_private_key_file :: "path \<Rightarrow> bytes \<Rightarrow> unit io" where
  "client_write_private_key_file path contents = c_bind (io_create path) (\<lambda>_. io_write_all path contents)"

text \<open>\<open>format!("{output}.key")\<close>: the text goes to the end of the last component.\<close>

definition with_suffix :: "path \<Rightarrow> string \<Rightarrow> path" where
  "with_suffix p suffix = (if p = [] then [suffix] else butlast p @ [last p @ suffix])"

definition newline :: string where "newline = [CHR 0x0A]"

text \<open>\<open>signing_key\<close>, \<open>salt\<close> and \<open>nonce\<close> are what the random source gives.\<close>

definition keygen_public_files :: "crypto \<Rightarrow> bytes \<Rightarrow> path \<Rightarrow> ('w, unit) client_comp" where
  "keygen_public_files C signing_key output =
     (let public_key = ed_public C signing_key;
          key = key_id_for_public_key C public_key;
          noise = derive_noise_static_public_key C signing_key
      in c_bind (cl_io PublicFile (io_write (with_suffix output ''.pub'') (as_bytes (encode_public_key C public_key @ newline)))) (\<lambda>_.
         c_bind (cl_io KeyIdFile (io_write (with_suffix output ''.keyid'') (as_bytes (key_id_hex key @ newline)))) (\<lambda>_.
         c_bind (cl_io NoiseFile (io_write (with_suffix output ''.noise'') (as_bytes (encode_noise_public_key C noise @ newline)))) (\<lambda>_.
           cl_io CounterFile (io_write (with_suffix output ''.counter'') (as_bytes (''0'' @ newline)))))))"

definition keygen :: "client_env \<Rightarrow> bytes \<Rightarrow> bytes \<Rightarrow> bytes \<Rightarrow> path \<Rightarrow> bool \<Rightarrow> ('w, unit) client_comp" where
  "keygen E signing_key salt nonce output plaintext_debug =
     c_bind (if plaintext_debug
             then c_lift (Inr (encode_signing_key (cl_crypto E) signing_key @ newline))
             else c_bind (prompt_new_passphrase E) (\<lambda>passphrase.
                    c_lift (encrypt_signing_key_with_salt_nonce E signing_key passphrase salt nonce))) (\<lambda>contents.
     c_bind (cl_io IdentityFile (client_write_private_key_file (with_suffix output ''.key'') (as_bytes contents))) (\<lambda>_.
       keygen_public_files (cl_crypto E) signing_key output))"

definition server_keygen :: "client_env \<Rightarrow> bytes \<times> bytes \<Rightarrow> path \<Rightarrow> ('w, unit) client_comp" where
  "server_keygen E keypair output =
     c_bind (cl_io IdentityFile (client_write_private_key_file (with_suffix output ''.key'')
               (as_bytes (b64_encode (cl_crypto E) (fst keypair) @ newline)))) (\<lambda>_.
       cl_io PublicFile (io_write (with_suffix output ''.pub'')
               (as_bytes (b64_encode (cl_crypto E) (snd keypair) @ newline))))"

section \<open>The counter\<close>

definition default_counter_path :: "path \<Rightarrow> path" where
  "default_counter_path identity_key =
     (if extension identity_key = Some ''key'' then with_extension identity_key ''counter''
      else with_suffix identity_key ''.counter'')"

definition next_counter :: "path \<Rightarrow> u64 \<Rightarrow> ('w, u64) client_comp" where
  "next_counter path floor s =
     (case io_read_to_string path (cl_host s) of
        (r, h) \<Rightarrow>
          (case (case r of
                   Inr contents \<Rightarrow> map_err (\<lambda>_. CounterUnparsable) (ok_or () (from_str_radix (2 ^ 64) 10 (trim contents)))
                 | Inl NotFound \<Rightarrow> Inr 0
                 | Inl e \<Rightarrow> Inl (FileError CounterFile e)) of
             Inl e \<Rightarrow> (Inl e, s\<lparr>cl_host := h\<rparr>)
           | Inr current \<Rightarrow>
               let next = max (saturating_add (word_of_nat current) 1) floor in
               c_bind (cl_io CounterFile (io_write path (as_bytes (nat_digits (unat next) @ newline)))) (\<lambda>_.
                 c_lift (Inr next)) (s\<lparr>cl_host := h\<rparr>)))"

section \<open>Facts\<close>

abbreviation client_file_is :: "path \<Rightarrow> bytes option \<Rightarrow> 'w client \<Rightarrow> bool" where
  "client_file_is p c \<equiv> \<lambda>s. content (cl_host s) p = c"

lemma keeps_cl_io:
  assumes "keeps (\<lambda>h. content h q = c) m"
  shows "keeps (client_file_is q c) (cl_io f m)"
  unfolding keeps_def
proof (intro allI impI)
  fix s :: "'w client" assume "content (cl_host s) q = c"
  moreover obtain r h where "m (cl_host s) = (r, h)" by fastforce
  ultimately show "content (cl_host (snd (cl_io f m s))) q = c"
    using keepsD [OF assms] by (simp add: cl_io_def)
qed

lemma with_suffix_inject [simp]: "with_suffix p a = with_suffix p b \<longleftrightarrow> a = b"
  by (simp add: with_suffix_def)

lemma io_write_Inr: "io_write p c h = (Inr u, h') \<Longrightarrow> content h' p = Some c"
  by (auto simp: io_write_def comp_eqs dest: io_write_all_Inr)

lemma default_counter_path_of_keygen:
  assumes "output \<noteq> []" and "last output \<noteq> []"
  shows "default_counter_path (with_suffix output ''.key'') = with_suffix output ''.counter''"
proof -
  have "rsplit_once CHR ''.'' (last output @ ''.key'') = Some (last output, ''key'')"
    using rsplit_once_append [of "CHR ''.''" "''key''" "last output"] by simp
  then show ?thesis
    using assms by (simp add: default_counter_path_def extension_def with_extension_def with_suffix_def file_stem_def)
qed

text \<open>Reading back what \<open>encrypt_signing_key\<close> wrote.\<close>

definition identity_toml_ok :: "client_env \<Rightarrow> bool" where
  "identity_toml_ok E \<longleftrightarrow>
     (\<forall>i t. identity_to_toml E i = Some t \<longrightarrow> identity_from_toml E t = Some i \<and> valid_str t)"

lemma decrypt_encrypted:
  assumes "b64_roundtrip (cl_crypto E)" and "aead_roundtrip (cl_crypto E)" and "identity_toml_ok E" and "length sk = 32"
    and "encrypt_signing_key_with_salt_nonce E sk pw salt nonce = Inr t"
  shows "\<exists>i. identity_from_toml E t = Some i \<and> valid_str t \<and> decrypt_signing_key (cl_crypto E) i pw = Inr sk"
proof -
  let ?C = "cl_crypto E"
  obtain key where n: "length nonce = NONCE_LEN" and key: "argon2id ?C pw salt = Some key"
    and t: "identity_to_toml E \<lparr>ik_version = IDENTITY_KEY_VERSION, ik_kdf = IDENTITY_KEY_KDF, ik_aead = IDENTITY_KEY_AEAD,
        ik_params = \<lparr>par_memory_kib = ARGON2_MEMORY_KIB, par_iterations = ARGON2_ITERATIONS,
                     par_parallelism = ARGON2_PARALLELISM\<rparr>,
        ik_salt = b64_encode ?C salt, ik_nonce = b64_encode ?C nonce,
        ik_ciphertext = b64_encode ?C (aead_encrypt ?C key nonce [] sk)\<rparr> = Some t"
    using assms(5) by (auto simp: encrypt_signing_key_with_salt_nonce_def derive_identity_key_def Let_def result_eqs split: if_splits)
  have b: "b64_decode ?C (b64_encode ?C bs) = Some bs" and a: "aead_decrypt ?C key nonce [] (aead_encrypt ?C key nonce [] sk) = Some sk" for bs
    using assms(1,2) by (simp_all add: b64_roundtrip_def aead_roundtrip_def)
  show ?thesis
    using assms(3) t n key b a assms(4) unfolding identity_toml_ok_def
    by (intro exI conjI) (auto simp: decrypt_signing_key_def derive_identity_key_def)
qed

lemma read_signing_key_encrypted:
  assumes "content (cl_host s) p = Some (as_bytes t)" and "valid_str t" and "fault (cl_host s) (tick (cl_host s)) = None"
    and "identity_from_toml E t = Some i" and "cl_prompt E (cl_prompts s) = Some pw"
  shows "fst (read_signing_key E p s) = decrypt_signing_key (cl_crypto E) i pw"
  using assms
  by (simp add: read_signing_key_def cl_io_def c_bind_def io_read_to_string_def io_read_quiet from_utf8_as_bytes
      prompt_password_def split: sum.splits)

lemma keygen_identity_file:
  assumes "keygen E sk salt nonce output False s = (Inr (), s')"
  shows "\<exists>pw t. cl_prompt E (cl_prompts s) = Some pw \<and> pw \<noteq> [] \<and>
    encrypt_signing_key_with_salt_nonce E sk pw salt nonce = Inr t \<and>
    content (cl_host s') (with_suffix output ''.key'') = Some (as_bytes t) \<and>
    content (cl_host s') (with_suffix output ''.counter'') = Some (as_bytes (''0'' @ newline))"
proof -
  let ?key = "with_suffix output ''.key''"
  obtain pw t s1 s2 where "cl_prompt E (cl_prompts s) = Some pw" "pw \<noteq> []"
    and enc: "encrypt_signing_key_with_salt_nonce E sk pw salt nonce = Inr t"
    and w: "cl_io IdentityFile (client_write_private_key_file ?key (as_bytes t)) s1 = (Inr (), s2)"
    and rest: "keygen_public_files (cl_crypto E) sk output s2 = (Inr (), s')"
    using assms
    by (auto simp: keygen_def Let_def c_bind_Inr prompt_new_passphrase_def prompt_password_def result_eqs split: if_splits)
  have c2: "client_file_is ?key (Some (as_bytes t)) s2"
    using w by (auto simp: cl_io_def client_write_private_key_file_def c_bind_Inr result_eqs dest!: io_write_all_Inr split: prod.splits)
  have kp: "keeps (client_file_is ?key (Some (as_bytes t))) (keygen_public_files (cl_crypto E) sk output :: ('a, unit) client_comp)"
    unfolding keygen_public_files_def Let_def by (intro keeps_bind keeps_cl_io keeps_io_write) simp_all
  have "content (cl_host s') ?key = Some (as_bytes t)"
    using keepsD [OF kp c2 rest] .
  moreover have "content (cl_host s') (with_suffix output ''.counter'') = Some (as_bytes (''0'' @ newline))"
    using rest by (auto simp: keygen_public_files_def Let_def c_bind_Inr cl_io_def result_eqs dest!: io_write_Inr split: prod.splits)
  ultimately show ?thesis using \<open>cl_prompt E (cl_prompts s) = Some pw\<close> \<open>pw \<noteq> []\<close> enc by blast
qed

section \<open>The counter file\<close>

text \<open>The counter a file holds, if it can be read at all; a missing file holds 0.\<close>

definition stored_counter :: "host \<Rightarrow> path \<Rightarrow> nat option" where
  "stored_counter h p =
     (case content h p of
        Some c \<Rightarrow> Option.bind (from_utf8 c) (\<lambda>t. from_str_radix (2 ^ 64) 10 (trim t))
      | None \<Rightarrow> if p \<in> set (dirs h) then None else Some 0)"

lemma stored_counter_tick [simp]: "stored_counter (h\<lparr>tick := n\<rparr>) p = stored_counter h p"
  by (cases "content h p") (simp_all add: stored_counter_def)

abbreviation counter_line :: "u64 \<Rightarrow> bytes" where
  "counter_line n \<equiv> as_bytes (nat_digits (unat n) @ newline)"

lemma counter_line_read:
  "from_utf8 (counter_line n) = Some (nat_digits (unat n) @ newline)"
  "from_str_radix (2 ^ 64) 10 (trim (nat_digits (unat n) @ newline)) = Some (unat n)"
proof -
  have "valid_str (nat_digits (unat n) @ newline)"
    using nat_digits_printable by (intro ascii_valid_str) (auto simp: newline_def)
  then show "from_utf8 (counter_line n) = Some (nat_digits (unat n) @ newline)" by (rule from_utf8_as_bytes)
  have "unat n < 2 ^ 64" using unat_less_pow [of n] by simp
  then show "from_str_radix (2 ^ 64) 10 (trim (nat_digits (unat n) @ newline)) = Some (unat n)"
    using trim_line [of "nat_digits (unat n)"] nat_digits_printable from_str_radix_nat_digits by (simp add: newline_def)
qed

lemma stored_counter_line: "content h p = Some (counter_line n) \<Longrightarrow> stored_counter h p = Some (unat n)"
  by (simp add: stored_counter_def counter_line_read(1) counter_line_read(2) [simplified])

lemma parent_exists_tick [simp]: "parent_exists (h\<lparr>tick := n\<rparr>) p = parent_exists h p"
  by (cases "parent p") (simp_all add: parent_exists_def)

lemma io_read_to_string_result:
  "io_read_to_string p h = (r, h') \<Longrightarrow> fault h (tick h) = None \<Longrightarrow>
   r = (case content h p of
          Some c \<Rightarrow> ok_or OtherIo (from_utf8 c) | None \<Rightarrow> if p \<in> set (dirs h) then Inl OtherIo else Inl NotFound)"
  by (auto simp: io_read_to_string_def io_read_def io_call_def c_bind_def Let_def split: option.splits if_splits)

lemma io_read_to_string_NotFound:
  "io_read_to_string p h = (Inl NotFound, h') \<Longrightarrow> content h p = None \<and> p \<notin> set (dirs h)"
  by (auto simp: io_read_to_string_def io_read_def io_call_def c_bind_def Let_def ok_or_eq_Inl
      split: option.splits if_splits sum.splits)

lemma next_counter_Inr:
  assumes "next_counter p floor s = (Inr n, s')"
  shows "\<exists>k. stored_counter (cl_host s) p = Some k \<and> n = max (saturating_add (word_of_nat k) 1) floor \<and>
           content (cl_host s') p = Some (counter_line n)"
proof -
  obtain r h where rd: "io_read_to_string p (cl_host s) = (r, h)" by fastforce
  obtain k where k: "(case r of Inr contents \<Rightarrow> map_err (\<lambda>_. CounterUnparsable) (ok_or () (from_str_radix (2 ^ 64) 10 (trim contents)))
        | Inl NotFound \<Rightarrow> Inr 0 | Inl e \<Rightarrow> Inl (FileError CounterFile e)) = Inr k"
    and n: "n = max (saturating_add (word_of_nat k) 1) floor"
    and w: "cl_io CounterFile (io_write p (counter_line n)) (s\<lparr>cl_host := h\<rparr>) = (Inr (), s')"
    using assms by (auto simp: next_counter_def rd Let_def c_bind_Inr split: sum.splits)
  have "stored_counter (cl_host s) p = Some k"
  proof (cases r)
    case (Inl e)
    then show ?thesis
      using k rd by (cases e) (auto simp: stored_counter_def dest: io_read_to_string_NotFound)
  next
    case (Inr t)
    then show ?thesis
      using k rd io_read_to_string_Inr [of p "cl_host s" t h] by (auto simp: stored_counter_def result_eqs)
  qed
  moreover have "content (cl_host s') p = Some (counter_line n)"
    using w by (auto simp: cl_io_def result_eqs dest!: io_write_Inr split: prod.splits)
  ultimately show ?thesis using n by blast
qed

lemma next_counter_quiet:
  assumes "quiet (cl_host s)" and "stored_counter (cl_host s) p = Some k"
    and "p \<notin> set (dirs (cl_host s))" and "parent_exists (cl_host s) p"
  shows "\<exists>s'. next_counter p floor s = (Inr (max (saturating_add (word_of_nat k) 1) floor), s') \<and>
    s' = s\<lparr>cl_host := cl_host s'\<rparr> \<and> quiet (cl_host s') \<and> dirs (cl_host s') = dirs (cl_host s) \<and>
    (\<forall>q. q \<noteq> p \<longrightarrow> content (cl_host s') q = content (cl_host s) q)"
proof -
  obtain r h where rd: "io_read_to_string p (cl_host s) = (r, h)" by fastforce
  have h: "h = cl_host s\<lparr>tick := tick (cl_host s) + 1\<rparr>" using io_read_to_string_pure [OF rd] .
  have "(case r of Inr contents \<Rightarrow> map_err (\<lambda>_. CounterUnparsable) (ok_or () (from_str_radix (2 ^ 64) 10 (trim contents)))
        | Inl NotFound \<Rightarrow> Inr 0 | Inl e \<Rightarrow> Inl (FileError CounterFile e)) = Inr k"
    using io_read_to_string_result [OF rd] assms
    by (auto simp: stored_counter_def quiet_def bind_eq_Some_conv split: option.splits if_splits)
  then show ?thesis
    using assms
    by (simp add: next_counter_def rd Let_def c_bind_def cl_io_def io_write_def io_create_def io_write_all_def io_call_def
        h quiet_def)
qed

lemma saturating_add_1_gt: "x < saturating_add x 1 \<or> x = - 1" for x :: "'a::len word"
proof (cases "unat x + 1 < 2 ^ LENGTH('a)")
  case True
  then show ?thesis by (simp add: word_less_nat_alt unat_saturating_add)
next
  case False
  then have "unat x = 2 ^ LENGTH('a) - 1" using unat_less_pow [of x] by linarith
  then show ?thesis by (metis unat_max_word word_unat_eq_iff)
qed

section \<open>Properties\<close>

text \<open>
  C39. The identity survives its file: what \<open>keygen\<close> writes under a passphrase, \<open>read_signing_key\<close>
  decrypts with the same passphrase to the same 32 bytes; the key generation asked for a passphrase
  and did not accept an empty one; and the counter file it wrote is the one a knock with that
  identity uses, holding 0.
\<close>

theorem identity_file_roundtrip:
  assumes "keygen E sk salt nonce output False s = (Inr (), s')"
    and "b64_roundtrip (cl_crypto E)" and "aead_roundtrip (cl_crypto E)" and "identity_toml_ok E" and "length sk = 32"
    and "output \<noteq> []" and "last output \<noteq> []"
  shows "\<exists>pw. cl_prompt E (cl_prompts s) = Some pw \<and> pw \<noteq> [] \<and>
    stored_counter (cl_host s') (default_counter_path (with_suffix output ''.key'')) = Some 0 \<and>
    (\<forall>s2 :: 'w client. content (cl_host s2) (with_suffix output ''.key'') = content (cl_host s') (with_suffix output ''.key'') \<longrightarrow>
       quiet (cl_host s2) \<longrightarrow> cl_prompt E (cl_prompts s2) = Some pw \<longrightarrow>
       fst (read_signing_key E (with_suffix output ''.key'') s2) = Inr sk)"
proof -
  obtain pw t where pw: "cl_prompt E (cl_prompts s) = Some pw" "pw \<noteq> []"
    and enc: "encrypt_signing_key_with_salt_nonce E sk pw salt nonce = Inr t"
    and key: "content (cl_host s') (with_suffix output ''.key'') = Some (as_bytes t)"
    and ctr: "content (cl_host s') (with_suffix output ''.counter'') = Some (as_bytes (''0'' @ newline))"
    using keygen_identity_file [OF assms(1)] by blast
  obtain i where i: "identity_from_toml E t = Some i" "valid_str t" "decrypt_signing_key (cl_crypto E) i pw = Inr sk"
    using decrypt_encrypted [OF assms(2-5) enc] by blast
  have "counter_line 0 = as_bytes (''0'' @ newline)" by code_simp
  then have "stored_counter (cl_host s') (default_counter_path (with_suffix output ''.key'')) = Some 0"
    using stored_counter_line [of "cl_host s'" "with_suffix output ''.counter''" 0] ctr
    by (simp add: default_counter_path_of_keygen [OF assms(6,7)])
  moreover have "fst (read_signing_key E (with_suffix output ''.key'') s2) = Inr sk"
    if "content (cl_host s2) (with_suffix output ''.key'') = content (cl_host s') (with_suffix output ''.key'')"
      "quiet (cl_host s2)" "cl_prompt E (cl_prompts s2) = Some pw" for s2 :: "'w client"
    using read_signing_key_encrypted [of s2 _ t E i pw] that key i by simp
  ultimately show ?thesis using pw by blast
qed

text \<open>
  Knock counters strictly increase: between two successful calls with the counter file left
  alone, the later counter is larger (unless the 64-bit maximum was reached), it is at least the
  clock value given as floor, and it is what the file then holds; without the file the counter is
  still at least the floor.
\<close>

theorem counters_increase:
  assumes "next_counter p floor s = (Inr n, s1)"
    and "content (cl_host s2) p = content (cl_host s1) p" and "next_counter p floor2 s2 = (Inr m, s3)"
  shows "(n < m \<or> n = - 1) \<and> floor \<le> n \<and> floor2 \<le> m \<and> stored_counter (cl_host s3) p = Some (unat m)"
proof -
  have c1: "content (cl_host s1) p = Some (counter_line n)" and "floor \<le> n"
    using next_counter_Inr [OF assms(1)] by auto
  then have "stored_counter (cl_host s2) p = Some (unat n)"
    using assms(2) by (simp add: stored_counter_line)
  then have m: "m = max (saturating_add n 1) floor2" "content (cl_host s3) p = Some (counter_line m)"
    using next_counter_Inr [OF assms(3)] by auto
  then show ?thesis
    using saturating_add_1_gt [of n] \<open>floor \<le> n\<close> stored_counter_line [OF m(2)] by (auto simp: less_max_iff_disj)
qed

text \<open>
  A torn write blocks the client for good: when the machine stops between truncating the
  counter file and writing it, the file is left empty, and every later knock fails to parse it,
  although the counter is derived from the clock so that lost state would not matter.
\<close>

theorem torn_counter_write_blocks:
  assumes "stored_counter (cl_host s) p = Some k" and "p \<notin> set (dirs (cl_host s))" and "parent_exists (cl_host s) p"
    and "fault (cl_host s) (tick (cl_host s)) = None" and "fault (cl_host s) (tick (cl_host s) + 1) = None"
    and "fault (cl_host s) (tick (cl_host s) + 2) = Some 0"
  shows "\<exists>s'. next_counter p floor s = (Inl (FileError CounterFile OtherIo), s') \<and> content (cl_host s') p = Some [] \<and>
    (\<forall>(s2 :: 'w client) floor2. content (cl_host s2) p = Some [] \<longrightarrow> quiet (cl_host s2) \<longrightarrow>
       fst (next_counter p floor2 s2) = Inl CounterUnparsable)"
proof -
  obtain r h where rd: "io_read_to_string p (cl_host s) = (r, h)" by fastforce
  have h: "h = cl_host s\<lparr>tick := tick (cl_host s) + 1\<rparr>" using io_read_to_string_pure [OF rd] .
  have "(case r of Inr contents \<Rightarrow> map_err (\<lambda>_. CounterUnparsable) (ok_or () (from_str_radix (2 ^ 64) 10 (trim contents)))
        | Inl NotFound \<Rightarrow> Inr 0 | Inl e \<Rightarrow> Inl (FileError CounterFile e)) = Inr k"
    using io_read_to_string_result [OF rd] assms
    by (auto simp: stored_counter_def bind_eq_Some_conv split: option.splits if_splits)
  then have "next_counter p floor s = (Inl (FileError CounterFile OtherIo),
      s\<lparr>cl_host := h\<lparr>tick := tick (cl_host s) + 3, files := hm_insert p [] (hm_insert p [] (files (cl_host s)))\<rparr>\<rparr>)"
    using assms
    by (simp add: next_counter_def rd Let_def c_bind_def cl_io_def io_write_def io_create_def io_write_all_def io_call_def
        h numeral_eq_Suc)
  moreover have "fst (next_counter p floor2 s2) = Inl CounterUnparsable"
    if "content (cl_host s2) p = Some []" "quiet (cl_host s2)" for s2 :: "'w client" and floor2
  proof -
    obtain r2 h2 where rd2: "io_read_to_string p (cl_host s2) = (r2, h2)" by fastforce
    have "r2 = Inr []"
      using io_read_to_string_result [OF rd2] that from_utf8_as_bytes [of "[]"] by (simp add: quiet_def valid_str_def as_bytes_def)
    then show ?thesis by (simp add: next_counter_def rd2 trim_def from_str_radix_def)
  qed
  ultimately show ?thesis by (intro exI conjI allI impI) auto
qed

section \<open>A concrete client\<close>

lemma cl_write_quiet:
  assumes "quiet (cl_host s)" and "p \<notin> set (dirs (cl_host s))" and "parent_exists (cl_host s) p"
  shows "\<exists>s'. cl_io f (io_write p c) s = (Inr (), s') \<and> quiet (cl_host s') \<and> dirs (cl_host s') = dirs (cl_host s) \<and>
    s' = s\<lparr>cl_host := cl_host s'\<rparr>"
  using assms by (simp add: cl_io_def io_write_def io_create_def io_write_all_def io_call_def c_bind_def Let_def quiet_def)

text \<open>On a host that refuses nothing, with the output directory in place, key generation succeeds.\<close>

lemma keygen_succeeds:
  assumes "quiet (cl_host s)" and "output \<noteq> []" and "butlast output \<in> set (dirs (cl_host s))"
    and "\<And>x. with_suffix output x \<notin> set (dirs (cl_host s))"
    and "cl_prompt E (cl_prompts s) = Some pw" and "cl_prompt E (cl_prompts s + 1) = Some pw" and "pw \<noteq> []"
    and "encrypt_signing_key_with_salt_nonce E sk pw salt nonce = Inr t"
  shows "\<exists>s'. keygen E sk salt nonce output False s = (Inr (), s')"
proof -
  define good where "good = (\<lambda>s1 :: 'a client. quiet (cl_host s1) \<and> dirs (cl_host s1) = dirs (cl_host s))"
  have pe: "parent_exists (cl_host s1) (with_suffix output x)" if "good s1" for s1 x
    using that assms(2,3) by (simp add: good_def parent_exists_def parent_def with_suffix_def)
  have w: "succeeds good (cl_io f (io_write (with_suffix output x) c))" for f x c
    unfolding succeeds_def using cl_write_quiet [of _ "with_suffix output x" f c] pe assms(4) by (force simp: good_def)
  have pub: "succeeds good (keygen_public_files (cl_crypto E) sk output)"
    unfolding keygen_public_files_def Let_def by (intro succeeds_bind w)
  have pass: "prompt_new_passphrase E s = (Inr pw, s\<lparr>cl_prompts := Suc (Suc (cl_prompts s))\<rparr>)"
    using assms(5-7) by (simp add: prompt_new_passphrase_def prompt_password_def c_bind_def)
  obtain s1 where key: "cl_io IdentityFile (client_write_private_key_file (with_suffix output ''.key'') (as_bytes t))
      (s\<lparr>cl_prompts := Suc (Suc (cl_prompts s))\<rparr>) = (Inr (), s1)" and "good s1"
    using succeedsD [OF w [of IdentityFile "''.key''" "as_bytes t"], of "s\<lparr>cl_prompts := Suc (Suc (cl_prompts s))\<rparr>"] assms(1)
    by (auto simp: good_def client_write_private_key_file_def io_write_def)
  from succeedsD [OF pub \<open>good s1\<close>] show ?thesis
    by (auto simp: keygen_def c_bind_def pass assms(8) key)
qed

definition hex_crypto :: crypto where
  "hex_crypto = toy_crypto\<lparr>b64_encode := key_id_hex, b64_decode := key_id_chunks\<rparr>"

definition toy_identity :: "string \<Rightarrow> string \<Rightarrow> string \<Rightarrow> EncryptedIdentityKey" where
  "toy_identity salt nonce ciphertext =
     \<lparr>ik_version = IDENTITY_KEY_VERSION, ik_kdf = IDENTITY_KEY_KDF, ik_aead = IDENTITY_KEY_AEAD,
      ik_params = \<lparr>par_memory_kib = ARGON2_MEMORY_KIB, par_iterations = ARGON2_ITERATIONS,
                   par_parallelism = ARGON2_PARALLELISM\<rparr>,
      ik_salt = salt, ik_nonce = nonce, ik_ciphertext = ciphertext\<rparr>"

definition toy_identity_to :: "EncryptedIdentityKey \<Rightarrow> string option" where
  "toy_identity_to i =
     (if i = toy_identity (ik_salt i) (ik_nonce i) (ik_ciphertext i)
      then Some (key_id_hex (as_bytes (ik_salt i)) @ '','' @ key_id_hex (as_bytes (ik_nonce i)) @ '','' @
                 key_id_hex (as_bytes (ik_ciphertext i)))
      else None)"

definition toy_identity_from :: "string \<Rightarrow> EncryptedIdentityKey option" where
  "toy_identity_from t =
     (case map (\<lambda>x. map_option str_of_bytes (key_id_chunks x)) (split_on CHR '','' t) of
        [Some a, Some b, Some c] \<Rightarrow> Some (toy_identity a b c)
      | _ \<Rightarrow> None)"

definition demo_client_env :: client_env where
  "demo_client_env = \<lparr>cl_crypto = hex_crypto, cl_now = (\<lambda>n. 10 ^ 9 + int n), cl_prompt = (\<lambda>_. Some ''pw''),
     cl_random = (\<lambda>n. (7, \<lambda>m. replicate m 0, [9])), identity_to_toml = toy_identity_to, identity_from_toml = toy_identity_from\<rparr>"

definition demo_client_state :: "'w \<Rightarrow> 'w client" where
  "demo_client_state w = \<lparr>cl_host = \<lparr>files = hm_empty, dirs = [[], [''home'']], tick = 0, fault = (\<lambda>_. None)\<rparr>,
     cl_clock = 0, cl_prompts = 0, cl_draws = 0, cl_world = w\<rparr>"

lemma hex_chars: "c \<in> set (key_id_hex bs) \<Longrightarrow> (of_char c :: nat) < 128 \<and> \<not> ws_scalar (of_char c) \<and> c \<noteq> CHR '',''"
proof -
  assume "c \<in> set (key_id_hex bs)"
  then obtain d where d: "c = digit_char d" "d < 16" using set_key_id_hex [of bs] by auto
  have "(of_char c :: nat) \<noteq> 44 \<and> (of_char c :: nat) < 128 \<and> \<not> ws_scalar (of_char c)"
    using d by (auto simp: digit_char_def ws_scalar_def)
  then show ?thesis by auto
qed

lemma hex_crypto_laws: "b64_roundtrip hex_crypto" "aead_roundtrip hex_crypto"
  using toy_crypto_complete
  by (simp_all add: hex_crypto_def b64_roundtrip_def key_id_chunks_hex crypto_complete_def aead_roundtrip_def)

lemma demo_identity_toml: "identity_toml_ok demo_client_env"
  unfolding identity_toml_ok_def
proof (intro allI impI)
  fix i t assume "identity_to_toml demo_client_env i = Some t"
  then have i: "i = toy_identity (ik_salt i) (ik_nonce i) (ik_ciphertext i)"
    and t: "t = key_id_hex (as_bytes (ik_salt i)) @ CHR '','' # key_id_hex (as_bytes (ik_nonce i)) @ CHR '','' #
                 key_id_hex (as_bytes (ik_ciphertext i))"
    by (auto simp: demo_client_env_def toy_identity_to_def split: if_splits)
  have "split_on CHR '','' t = [key_id_hex (as_bytes (ik_salt i)), key_id_hex (as_bytes (ik_nonce i)), key_id_hex (as_bytes (ik_ciphertext i))]"
  proof -
    have "CHR '','' \<notin> set (key_id_hex bs)" for bs using hex_chars by blast
    then show ?thesis by (simp add: t split_on_append split_on_none)
  qed
  moreover have "valid_str t"
    using hex_chars by (intro ascii_valid_str) (auto simp: t)
  ultimately show "identity_from_toml demo_client_env t = Some i \<and> valid_str t"
    using i by (simp add: demo_client_env_def toy_identity_from_def key_id_chunks_hex)
qed

section \<open>Witnesses\<close>

abbreviation demo_salt :: bytes where "demo_salt \<equiv> replicate 16 1"
abbreviation demo_nonce :: bytes where "demo_nonce \<equiv> replicate 12 2"
abbreviation demo_sk :: bytes where "demo_sk \<equiv> replicate 32 7"
abbreviation demo_output :: path where "demo_output \<equiv> [''home'', ''id'']"

lemma demo_keygen:
  "\<exists>s'. keygen demo_client_env demo_sk demo_salt demo_nonce demo_output False (demo_client_state w) = (Inr (), s')"
proof -
  have to: "\<exists>t. toy_identity_to (toy_identity a b c) = Some t" for a b c
    by (simp add: toy_identity_to_def) (simp add: toy_identity_def)
  have kdf: "argon2id hex_crypto pw salt = Some (fit 32 (as_bytes pw @ salt))" for pw salt
    by (simp add: hex_crypto_def toy_crypto_def)
  obtain t where t: "encrypt_signing_key_with_salt_nonce demo_client_env demo_sk ''pw'' demo_salt demo_nonce = Inr t"
    using to unfolding encrypt_signing_key_with_salt_nonce_def derive_identity_key_def toy_identity_def Let_def
    by (simp add: demo_client_env_def kdf NONCE_LEN_def) (metis ok_or_Some)
  show ?thesis
    by (rule keygen_succeeds [OF _ _ _ _ _ _ _ t])
      (simp_all add: demo_client_state_def demo_client_env_def quiet_def with_suffix_def)
qed

theorem identity_file_roundtrip_witness:
  "\<exists>s'. keygen demo_client_env demo_sk demo_salt demo_nonce demo_output False (demo_client_state ()) = (Inr (), s') \<and>
     fst (read_signing_key demo_client_env [''home'', ''id.key''] (s'\<lparr>cl_host := (cl_host s')\<lparr>fault := (\<lambda>_. None)\<rparr>\<rparr>)) = Inr demo_sk"
proof -
  obtain s' where k: "keygen demo_client_env demo_sk demo_salt demo_nonce demo_output False (demo_client_state ()) = (Inr (), s')"
    using demo_keygen [of "()"] ..
  have laws: "b64_roundtrip (cl_crypto demo_client_env)" "aead_roundtrip (cl_crypto demo_client_env)" and
    pw: "cl_prompt demo_client_env n = Some ''pw''" for n
    using hex_crypto_laws by (simp_all add: demo_client_env_def)
  have len: "length demo_sk = 32" "demo_output \<noteq> []" "last demo_output \<noteq> []" by simp_all
  let ?s2 = "s'\<lparr>cl_host := (cl_host s')\<lparr>fault := (\<lambda>_. None)\<rparr>\<rparr>"
  have p: "with_suffix demo_output ''.key'' = [''home'', ''id.key'']" by (simp add: with_suffix_def)
  have "content (cl_host ?s2) [''home'', ''id.key''] = content (cl_host s') [''home'', ''id.key'']" "quiet (cl_host ?s2)"
    by (simp_all add: quiet_def)
  moreover note identity_file_roundtrip [OF k laws demo_identity_toml len, unfolded p pw option.inject]
  ultimately have "fst (read_signing_key demo_client_env [''home'', ''id.key''] ?s2) = Inr demo_sk" by blast
  with k show ?thesis by (intro exI conjI)
qed

theorem counters_increase_witness:
  "\<exists>n m s1 s3. next_counter [''home'', ''c''] 10 (demo_client_state ()) = (Inr n, s1) \<and>
     next_counter [''home'', ''c''] 5 s1 = (Inr m, s3) \<and> n < m"
proof -
  let ?p = "[''home'', ''c'']" and ?s = "demo_client_state ()"
  have "stored_counter (cl_host ?s) ?p = Some 0" by (simp add: stored_counter_def demo_client_state_def)
  then obtain s1 where n: "next_counter ?p 10 ?s = (Inr 10, s1)" and s1: "quiet (cl_host s1)" "dirs (cl_host s1) = dirs (cl_host ?s)"
    using next_counter_quiet [of ?s ?p 0 10]
    by (auto simp: demo_client_state_def quiet_def parent_exists_def parent_def saturating_add_def)
  have "stored_counter (cl_host s1) ?p = Some 10"
    using next_counter_Inr [OF n] stored_counter_line [of "cl_host s1" ?p 10] by auto
  then obtain s3 where m: "next_counter ?p 5 s1 = (Inr 11, s3)"
    using next_counter_quiet [OF s1(1), of ?p 10 5] s1(2)
    by (auto simp: demo_client_state_def parent_exists_def parent_def saturating_add_def)
  from counters_increase [OF n refl m] n m show ?thesis by auto
qed

theorem torn_counter_write_blocks_witness:
  "\<exists>s'. next_counter [''home'', ''c''] 10
       (demo_client_state ()\<lparr>cl_host := cl_host (demo_client_state ())\<lparr>fault := (\<lambda>n. if n = 2 then Some 0 else None)\<rparr>\<rparr>) =
     (Inl (FileError CounterFile OtherIo), s') \<and> content (cl_host s') [''home'', ''c''] = Some []"
  using torn_counter_write_blocks [where floor = 10 and p = "[''home'', ''c'']" and k = 0 and
      s = "demo_client_state ()\<lparr>cl_host := cl_host (demo_client_state ())\<lparr>fault := (\<lambda>n. if n = 2 then Some 0 else None)\<rparr>\<rparr>"]
  by (auto simp: demo_client_state_def stored_counter_def parent_exists_def parent_def)

end
