(* ===== verification/Client_Knock.thy ===== *)
theory Client_Knock
  imports Client_Identity Spa_Verifier Net_Addr
begin

text \<open>
  Sending a knock (\<open>ghostbro-client/src/main.rs\<close>): the packet with its counter and timestamp, the two
  transports, and the clock check on the HTTPS answer. The sockets and the HTTP client are one record
  of functions on the world outside the client; the last part joins the client to the server's
  verifier.
\<close>

datatype SpaTransport = TransportUdp | TransportHttps

text \<open>
  \<open>udp_send\<close> binds a socket and sends one datagram; \<open>https_post\<close> answers with the status and the
  \<open>Date\<close> header, or fails; \<open>parse_http_date\<close> gives nanoseconds since the epoch.
\<close>

record 'w client_net =
  udp_send :: "sock_addr \<Rightarrow> bytes \<Rightarrow> 'w \<Rightarrow> bool \<times> 'w"
  https_post :: "string \<Rightarrow> bytes \<Rightarrow> 'w \<Rightarrow> (nat \<times> string option) option \<times> 'w"
  parse_http_date :: "string \<Rightarrow> int option"

definition on_world :: "('w \<Rightarrow> 'a \<times> 'w) \<Rightarrow> ('w, 'a) client_comp" where
  "on_world f s = (case f (cl_world s) of (x, w) \<Rightarrow> (Inr x, s\<lparr>cl_world := w\<rparr>))"

section \<open>Clock drift\<close>

definition ASSUMED_SPA_WINDOW_SECONDS :: u64 where
  "ASSUMED_SPA_WINDOW_SECONDS = DEFAULT_TIME_WINDOW_SECONDS"

datatype DriftVerdict = DriftOk | DriftWarn int | DriftExceeded int

definition clock_drift_seconds :: "int \<Rightarrow> int \<Rightarrow> int" where
  "clock_drift_seconds server local =
     (if server \<le> local then (local - server) div 10 ^ 9 else - ((server - local) div 10 ^ 9))"

definition classify_drift :: "int \<Rightarrow> u64 \<Rightarrow> DriftVerdict" where
  "classify_drift drift_secs window_secs =
     (let window = sint window_secs; magnitude = \<bar>drift_secs\<bar> in
      if window < magnitude then DriftExceeded drift_secs
      else if window < magnitude * 2 then DriftWarn drift_secs
      else DriftOk)"

definition system_now :: "client_env \<Rightarrow> ('w, int) client_comp" where
  "system_now E s = (Inr (cl_now E (cl_clock s)), s\<lparr>cl_clock := cl_clock s + 1\<rparr>)"

definition check_clock_drift_from_http_date :: "client_env \<Rightarrow> 'w client_net \<Rightarrow> string \<Rightarrow> ('w, unit) client_comp" where
  "check_clock_drift_from_http_date E W date =
     (case parse_http_date W date of
        None \<Rightarrow> c_lift (Inr ())
      | Some server_time \<Rightarrow>
          c_bind (system_now E) (\<lambda>local.
            case classify_drift (clock_drift_seconds server_time local) ASSUMED_SPA_WINDOW_SECONDS of
              DriftOk \<Rightarrow> c_lift (Inr ())
            | DriftWarn _ \<Rightarrow> c_lift (Inr ())
            | DriftExceeded secs \<Rightarrow> c_lift (Inl (ClockDrift secs))))"

section \<open>Knocks\<close>

definition cl_draw :: "client_env \<Rightarrow> ('w, u32 \<times> (nat \<Rightarrow> bytes) \<times> bytes) client_comp" where
  "cl_draw E s = (Inr (cl_random E (cl_draws s)), s\<lparr>cl_draws := cl_draws s + 1\<rparr>)"

text \<open>What both transports do first: identity, counter file, timestamp, counter, packet.\<close>

definition counter_path_of :: "path option \<Rightarrow> path \<Rightarrow> path" where
  "counter_path_of counter_file identity_key =
     (case counter_file of Some p \<Rightarrow> p | None \<Rightarrow> default_counter_path identity_key)"

definition spa_payload :: "client_env \<Rightarrow> SpaMode \<Rightarrow> path \<Rightarrow> bytes \<Rightarrow> path option \<Rightarrow> ('w, bytes) client_comp" where
  "spa_payload E m identity_key server_pub counter_file =
     c_bind (read_signing_key E identity_key) (\<lambda>signing_key.
     c_bind (client_timestamp_ms E) (\<lambda>ts.
     c_bind (next_counter (counter_path_of counter_file identity_key) ts) (\<lambda>ctr.
     c_bind (cl_draw E) (\<lambda>(r, fill, eph).
       c_lift (Inr (build (cl_crypto E) r fill eph signing_key m ts ctr PacketSource server_pub))))))"

definition send_udp_spa ::
    "client_env \<Rightarrow> 'w client_net \<Rightarrow> path \<Rightarrow> bytes \<Rightarrow> sock_addr \<Rightarrow> path option \<Rightarrow> ('w, unit) client_comp" where
  "send_udp_spa E W identity_key server_pub endpoint counter_file =
     c_bind (spa_payload E Udp identity_key server_pub counter_file) (\<lambda>payload.
     c_bind (on_world (udp_send W endpoint payload)) (\<lambda>sent.
       c_lift (if sent then Inr () else Inl SpaSendFailed)))"

definition send_https_spa ::
    "client_env \<Rightarrow> 'w client_net \<Rightarrow> path \<Rightarrow> bytes \<Rightarrow> string \<Rightarrow> path option \<Rightarrow> ('w, unit) client_comp" where
  "send_https_spa E W identity_key server_pub url counter_file =
     c_bind (spa_payload E Https identity_key server_pub counter_file) (\<lambda>payload.
     c_bind (on_world (https_post W url payload)) (\<lambda>response.
       case response of
         None \<Rightarrow> c_lift (Inl SpaSendFailed)
       | Some (status, date_header) \<Rightarrow>
           if status \<noteq> 204 then c_lift (Inl (SpaStatus status))
           else (case date_header of
                   None \<Rightarrow> c_lift (Inr ())
                 | Some date \<Rightarrow> check_clock_drift_from_http_date E W date)))"

definition send_spa ::
    "client_env \<Rightarrow> 'w client_net \<Rightarrow> path \<Rightarrow> bytes \<Rightarrow> sock_addr \<Rightarrow> SpaTransport \<Rightarrow> string option \<Rightarrow> path option
     \<Rightarrow> ('w, unit) client_comp" where
  "send_spa E W identity_key server_pub spa_endpoint transport https_spa_url counter_file =
     (case transport of
        TransportUdp \<Rightarrow> send_udp_spa E W identity_key server_pub spa_endpoint counter_file
      | TransportHttps \<Rightarrow>
          c_bind (c_lift (ok_or SpaUrlMissing https_spa_url)) (\<lambda>url.
            send_https_spa E W identity_key server_pub url counter_file))"

section \<open>A client and the server's verifier\<close>

lemma read_signing_key_pure:
  assumes "read_signing_key E p s = (r, s1)"
  shows "cl_host s1 = cl_host s\<lparr>tick := tick (cl_host s) + 1\<rparr> \<and> cl_clock s1 = cl_clock s \<and> cl_draws s1 = cl_draws s \<and>
    cl_world s1 = cl_world s"
proof -
  obtain q h where rd: "io_read_to_string p (cl_host s) = (q, h)" by fastforce
  have h: "h = cl_host s\<lparr>tick := tick (cl_host s) + 1\<rparr>" using io_read_to_string_pure [OF rd] .
  show ?thesis
    using assms h
    by (cases q) (auto simp: read_signing_key_def cl_io_def rd c_bind_def prompt_password_def split: option.splits sum.splits)
qed

text \<open>The server's side of the registration: its key pair, the client's entry, and counters that TOML can hold.\<close>

definition registered :: "crypto \<Rightarrow> SpaVerifier \<Rightarrow> bytes \<Rightarrow> path \<Rightarrow> bytes \<Rightarrow> bool" where
  "registered C v priv path sk \<longleftrightarrow>
     server_static_private v = priv \<and> server_static_pubkey v = x25519_pub C priv \<and> counter_state_path v = Some path \<and>
     (\<exists>c. hm_get (clients v) (key_id_for_public_key C (ed_public C sk)) = Some c \<and>
          client_public_key c = ed_public C sk \<and> client_tier c = Full) \<and>
     ids_ok (highest_counters v) \<and> (\<forall>k x. hm_get (highest_counters v) k = Some x \<longrightarrow> unat x < 2 ^ 63)"

lemma registered_accepts:
  assumes "crypto_complete C" and "toml_total T" and "registered C v priv path sk" and "quiet h" and "writable path h"
    and "\<bar>int (unat now) - int (unat ts)\<bar> \<le> int (unat (time_window_ms v))" and "\<forall>n. length (fill n) = n"
    and "counter_of (highest_counters v) (key_id_for_public_key C (ed_public C sk)) < ctr" and "unat ctr < 2 ^ 63"
  shows "\<exists>a h'. SpaVerifier_verify C T (build C r fill eph sk m ts ctr PacketSource (x25519_pub C priv)) ip now (v, h) =
      (Inr a, (v\<lparr>highest_counters := hm_insert (key_id_for_public_key C (ed_public C sk)) ctr (highest_counters v)\<rparr>, h')) \<and>
      acc_counter a = ctr \<and> acc_key_id a = key_id_for_public_key C (ed_public C sk)"
proof -
  let ?kid = "key_id_for_public_key C (ed_public C sk)" and ?spub = "x25519_pub C priv"
  obtain c where c: "hm_get (clients v) ?kid = Some c" "client_public_key c = ed_public C sk" "client_tier c = Full"
    using assms(3) by (auto simp: registered_def)
  obtain padding where pad: "length padding \<le> SPA_MAX_PADDING"
    and wire: "build C r fill eph sk m ts ctr PacketSource ?spub = build_with_padding C eph sk m ts ctr PacketSource padding ?spub"
    using build_is_padded assms(7) by metis
  let ?p = "built_packet C eph sk m ts ctr PacketSource ?spub"
  have acc: "accepts C v ip now (build_with_padding C eph sk m ts ctr PacketSource padding ?spub) ?p c"
    using assms c pad by (intro accepts_built) (auto simp: registered_def)
  have p: "pkt_key_id ?p = ?kid" "counter ?p = ctr" by (simp_all add: built_packet_def)
  have "unat x < 2 ^ 63" if x: "hm_get (counter_table (hm_insert ?kid ctr (highest_counters v))) n = Some x" for n x
  proof -
    obtain k where "n = key_id_hex k" using counter_table_names [OF x] by blast
    then have "hm_get (hm_insert ?kid ctr (highest_counters v)) k = Some x"
      using x counter_table_get assms(3) by (simp add: ids_ok_def registered_def)
    then show ?thesis using assms(3,9) by (auto simp: registered_def split: if_splits)
  qed
  then have "toml_ser T (counter_table (hm_insert ?kid ctr (highest_counters v))) \<noteq> None"
    using assms(2) hex_names_counter_table unfolding toml_total_def by blast
  moreover have "counter_state_path v = Some path" using assms(3) by (simp add: registered_def)
  ultimately obtain a v' h' where ok: "SpaVerifier_verify C T (build_with_padding C eph sk m ts ctr PacketSource padding ?spub) ip now (v, h) = (Inr a, (v', h'))"
    and a: "acc_key_id a = ?kid" "acc_counter a = ctr"
    using verify_accepts [OF acc _ assms(4,5), of T] p by metis
  obtain p2 c2 where acc2: "accepts C v ip now (build_with_padding C eph sk m ts ctr PacketSource padding ?spub) p2 c2"
    and v': "v' = v\<lparr>highest_counters := hm_insert (pkt_key_id p2) (counter p2) (highest_counters v)\<rparr>"
    using verify_Inr [OF ok] by metis
  have "p2 = ?p" using acc acc2 by (simp add: accepts_def)
  then have "v' = v\<lparr>highest_counters := hm_insert ?kid ctr (highest_counters v)\<rparr>" using v' p by simp
  then show ?thesis using ok a by (simp add: wire)
qed


text \<open>The clock check on an answer whose date, if any, is within the tolerated drift.\<close>

lemma clock_check_passes:
  assumes "\<forall>d t. date = Some d \<longrightarrow> parse_http_date W d = Some t \<longrightarrow>
    \<bar>clock_drift_seconds t (cl_now E (cl_clock s))\<bar> \<le> sint ASSUMED_SPA_WINDOW_SECONDS"
  shows "\<exists>n. (case date of None \<Rightarrow> c_lift (Inr ()) | Some d \<Rightarrow> check_clock_drift_from_http_date E W d) s = (Inr (), s\<lparr>cl_clock := n\<rparr>)"
proof (cases "\<exists>d t. date = Some d \<and> parse_http_date W d = Some t")
  case True
  then obtain d t where d: "date = Some d" "parse_http_date W d = Some t" by blast
  have "\<not> (\<exists>x. classify_drift (clock_drift_seconds t (cl_now E (cl_clock s))) ASSUMED_SPA_WINDOW_SECONDS = DriftExceeded x)"
    using assms d by (auto simp: classify_drift_def Let_def)
  then show ?thesis
    using d by (auto simp: check_clock_drift_from_http_date_def c_bind_def system_now_def split: DriftVerdict.splits)
next
  case False
  then have "(case date of None \<Rightarrow> c_lift (Inr ()) | Some d \<Rightarrow> check_clock_drift_from_http_date E W d) s = (Inr (), s\<lparr>cl_clock := cl_clock s\<rparr>)"
    by (cases date) (auto simp: check_clock_drift_from_http_date_def)
  then show ?thesis by blast
qed

section \<open>Properties\<close>

text \<open>
  C6. A client in good standing is let in, knock after knock, over UDP and over HTTPS: when the
  identity can be read, the counter file can be updated, the clocks agree within the window (\<open>ms\<close> is
  the client's clock in whole milliseconds, whatever nanoseconds it reads), and the server's recorded
  counter is at most the client's stored one or below the client's clock (so also after the client lost
  its counter file), the knock is sent and accepted; afterwards the server has recorded exactly the
  counter the client's file holds, so the next knock meets the same condition. The network is one that
  hands the packet to the verifier: the datagram arrives, or the decoy answers the upload with 204 and,
  if it sends a readable \<open>Date\<close>, one within the drift the client tolerates.
\<close>

theorem knock_accepted_in_sync:
  fixes s :: "(SpaVerifier \<times> host) client"
  assumes C: "C = cl_crypto E" and "crypto_complete C" and "toml_total T" and "registered C v priv path sk" and "quiet h" and "writable path h"
    and world: "cl_world s = (v, h)"
    and udp: "\<forall>payload w. udp_send W endpoint payload w = (True, snd (SpaVerifier_verify C T payload ip now w))"
    and https: "\<forall>payload w. https_post W url payload w = (Some (204, date), snd (SpaVerifier_verify C T payload ip now w))"
    and drift: "\<forall>d t. date = Some d \<longrightarrow> parse_http_date W d = Some t \<longrightarrow>
      \<bar>clock_drift_seconds t (cl_now E (Suc (cl_clock s)))\<bar> \<le> sint ASSUMED_SPA_WINDOW_SECONDS"
    and id: "read_signing_key E identity s = (Inr sk, s1)" and q: "quiet (cl_host s)"
    and ctr: "stored_counter (cl_host s) (counter_path_of cf identity) = Some k" "k < 2 ^ 63 - 1"
      "counter_path_of cf identity \<notin> set (dirs (cl_host s))" "parent_exists (cl_host s) (counter_path_of cf identity)"
    and clock: "cl_now E (cl_clock s) div 10 ^ 6 = int ms" "ms < 2 ^ 63"
    and window: "\<bar>int (unat now) - int ms\<bar> \<le> int (unat (time_window_ms v))"
    and pads: "\<forall>n m. length (fst (snd (cl_random E n)) m) = m"
    and sync: "unat (counter_of (highest_counters v) (key_id_for_public_key C (ed_public C sk))) < max (k + 1) ms"
  shows "\<exists>s' v' h' a payload. send_spa E W identity (x25519_pub C priv) endpoint transport (Some url) cf s = (Inr (), s') \<and> cl_world s' = (v', h') \<and>
    SpaVerifier_verify C T payload ip now (v, h) = (Inr a, (v', h')) \<and> unat (acc_counter a) = max (k + 1) ms \<and>
    counter_of (highest_counters v') (key_id_for_public_key C (ed_public C sk)) = acc_counter a \<and>
    stored_counter (cl_host s') (counter_path_of cf identity) = Some (unat (acc_counter a))"
proof -
  let ?p = "counter_path_of cf identity" and ?kid = "key_id_for_public_key C (ed_public C sk)"
  let ?ts = "word_of_nat ms :: u64" and ?s2 = "s1\<lparr>cl_clock := Suc (cl_clock s1)\<rparr>"
  have s1: "cl_host s1 = cl_host s\<lparr>tick := tick (cl_host s) + 1\<rparr>" "cl_clock s1 = cl_clock s" "cl_world s1 = (v, h)"
    using read_signing_key_pure [OF id] world by simp_all
  have ms64: "ms < 2 ^ 64" using clock(2) by simp
  have "0 \<le> cl_now E (cl_clock s) div 10 ^ 6" using clock(1) by simp
  then have "0 \<le> cl_now E (cl_clock s)" by (simp add: pos_imp_zdiv_nonneg_iff)
  then have ts: "client_timestamp_ms E s1 = (Inr ?ts, ?s2)"
    using clock ms64 s1(2) by (simp add: client_timestamp_ms_def Let_def)
  let ?n = "max (saturating_add (word_of_nat k) 1) ?ts"
  have "stored_counter (cl_host ?s2) ?p = Some k" using ctr(1) s1(1) by simp
  then obtain s3 where nc: "next_counter ?p ?ts ?s2 = (Inr ?n, s3)" and s3: "s3 = ?s2\<lparr>cl_host := cl_host s3\<rparr>"
    using next_counter_quiet [of ?s2 ?p k ?ts] q ctr s1(1) by (auto simp: quiet_def)
  have stored: "stored_counter (cl_host s3) ?p = Some (unat ?n)"
    using next_counter_Inr [OF nc] stored_counter_line by blast
  have k64: "unat (word_of_nat k :: u64) = k" using ctr(2) by (simp add: unat_of_nat)
  have n: "unat ?n = max (k + 1) ms"
    using ctr(2) clock(2) k64 unat_saturating_add [of "word_of_nat k :: u64" 1]
    by (simp add: max_def word_le_nat_alt unat_of_nat)
  obtain r fill eph where rnd: "cl_random E (cl_draws s3) = (r, fill, eph)" by (cases "cl_random E (cl_draws s3)") auto
  have fill: "\<forall>n. length (fill n) = n" using pads rnd by (metis fst_conv snd_conv)
  define m where "m = (case transport of TransportUdp \<Rightarrow> Udp | TransportHttps \<Rightarrow> Https)"
  let ?payload = "build C r fill eph sk m ?ts ?n PacketSource (x25519_pub C priv)"
  have "counter_of (highest_counters v) ?kid < ?n"
    using sync n by (simp add: word_less_nat_alt C)
  moreover have "unat ?n < 2 ^ 63" using n ctr(2) clock(2) by simp
  moreover have "unat ?ts = ms" using ms64 by (simp add: unat_of_nat)
  ultimately obtain a h' where ver: "SpaVerifier_verify C T ?payload ip now (v, h) =
      (Inr a, (v\<lparr>highest_counters := hm_insert ?kid ?n (highest_counters v)\<rparr>, h'))" and a: "acc_counter a = ?n"
    using registered_accepts [of C T v priv path sk h now ?ts fill ?n r eph m ip] assms(2-6) window fill
    by (auto simp: C)
  let ?s4 = "s3\<lparr>cl_draws := cl_draws s3 + 1\<rparr>" and ?w = "(v\<lparr>highest_counters := hm_insert ?kid ?n (highest_counters v)\<rparr>, h')"
  have pay: "spa_payload E m identity (x25519_pub C priv) cf s = (Inr ?payload, ?s4)"
    by (simp add: spa_payload_def c_bind_def id ts nc cl_draw_def rnd C)
  have w3: "cl_world ?s4 = (v, h)" and clk: "cl_clock ?s4 = Suc (cl_clock s)"
    by (subst s3, simp add: s1)+
  have "\<exists>n. send_spa E W identity (x25519_pub C priv) endpoint transport (Some url) cf s =
      (Inr (), ?s4\<lparr>cl_world := ?w, cl_clock := n\<rparr>)"
  proof (cases transport)
    case TransportUdp
    then have "send_spa E W identity (x25519_pub C priv) endpoint transport (Some url) cf s = (Inr (), ?s4\<lparr>cl_world := ?w\<rparr>)"
      using udp ver pay w3 by (simp add: send_spa_def send_udp_spa_def c_bind_def on_world_def m_def)
    then show ?thesis by (intro exI [of _ "cl_clock ?s4"]) simp
  next
    case TransportHttps
    then have "send_spa E W identity (x25519_pub C priv) endpoint transport (Some url) cf s =
        (case date of None \<Rightarrow> c_lift (Inr ()) | Some d \<Rightarrow> check_clock_drift_from_http_date E W d) (?s4\<lparr>cl_world := ?w\<rparr>)"
      using https ver pay w3 by (simp add: send_spa_def send_https_spa_def c_bind_def on_world_def m_def)
    moreover have "\<exists>n. (case date of None \<Rightarrow> c_lift (Inr ()) | Some d \<Rightarrow> check_clock_drift_from_http_date E W d) (?s4\<lparr>cl_world := ?w\<rparr>) =
        (Inr (), ?s4\<lparr>cl_world := ?w, cl_clock := n\<rparr>)"
      using clock_check_passes [of date W E "?s4\<lparr>cl_world := ?w\<rparr>"] drift clk by simp
    ultimately show ?thesis by simp
  qed
  then show ?thesis
    using ver a n stored by (elim exE) (intro exI conjI, auto simp: counter_of_insert)
qed

definition demo_key :: bytes where "demo_key = 1 # replicate 31 0"

definition knock_env :: client_env where
  "knock_env = demo_client_env\<lparr>cl_crypto := toy_crypto\<rparr>"

definition knock_net :: "(SpaVerifier \<times> host) client_net" where
  "knock_net = \<lparr>udp_send = (\<lambda>_ payload w. (True, snd (SpaVerifier_verify toy_crypto toy_toml payload 99 2000 w))),
     https_post = (\<lambda>_ payload w. (Some (204, Some ''now''), snd (SpaVerifier_verify toy_crypto toy_toml payload 99 2000 w))),
     parse_http_date = (\<lambda>_. Some 2000000000)\<rparr>"

definition knock_state :: "(SpaVerifier \<times> host) client" where
  "knock_state = demo_client_state (demo_verifier, demo_host)\<lparr>cl_host :=
     \<lparr>files = hm_insert [''home'', ''id.key''] demo_key hm_empty, dirs = [[], [''home'']], tick = 0, fault = (\<lambda>_. None)\<rparr>\<rparr>"

lemma demo_registered: "registered toy_crypto demo_verifier [5] demo_path demo_key"
proof -
  have "ed_public toy_crypto demo_key = ed_public toy_crypto [1]" by (simp add: demo_key_def toy_crypto_def fit_def numeral_eq_Suc)
  then show ?thesis
    using demo_get
    by (auto simp: registered_def demo_verifier_def from_counters_def demo_client_def x25519_public_from_private_def ids_ok_def)
qed

lemma knock_reads_key: "\<exists>s1. read_signing_key knock_env [''home'', ''id.key''] knock_state = (Inr demo_key, s1)"
proof -
  let ?t = "str_of_bytes demo_key"
  have cs: "c \<in> set ?t \<Longrightarrow> (of_char c :: nat) = 1 \<or> (of_char c :: nat) = 0" for c
    by (auto simp: str_of_bytes_def demo_key_def)
  have tr: "trim ?t = ?t" using cs by (intro trim_id) (fastforce simp: ws_scalar_def)
  have "valid_str ?t" using cs by (intro ascii_valid_str) fastforce
  then have u: "from_utf8 demo_key = Some ?t" using from_utf8_as_bytes [of ?t] by simp
  have "CHR '','' \<notin> set ?t" using cs [of "CHR '',''"] by auto
  then have "identity_from_toml knock_env ?t = None"
    by (simp add: knock_env_def demo_client_env_def toy_identity_from_def split_on_none split: option.splits)
  moreover have "decode_signing_key (cl_crypto knock_env) ?t = Inr demo_key"
    by (simp add: knock_env_def decode_signing_key_def toy_crypto_def) (simp add: demo_key_def)
  ultimately show ?thesis
    by (simp add: read_signing_key_def cl_io_def c_bind_def io_read_to_string_def io_read_def io_call_def knock_state_def u tr)
qed

theorem knock_accepted_in_sync_witness:
  "\<forall>transport. \<exists>s' v' h'.
     send_spa knock_env knock_net [''home'', ''id.key''] (x25519_pub toy_crypto [5]) (V4 7, 62201) transport (Some ''u'') None knock_state = (Inr (), s') \<and>
     cl_world s' = (v', h') \<and>
     unat (counter_of (highest_counters v') (key_id_for_public_key toy_crypto (ed_public toy_crypto demo_key))) = 1000"
proof
  fix transport
  obtain s1 where id: "read_signing_key knock_env [''home'', ''id.key''] knock_state = (Inr demo_key, s1)"
    using knock_reads_key by blast
  have path: "counter_path_of None [''home'', ''id.key''] = [''home'', ''id.counter'']"
    using default_counter_path_of_keygen [of "[''home'', ''id'']"] by (simp add: counter_path_of_def with_suffix_def)
  have env: "toy_crypto = cl_crypto knock_env" by (simp add: knock_env_def)
  have "time_window_ms demo_verifier = 300000"
    by (simp add: demo_verifier_def from_counters_def saturating_mul_def)
  then show "\<exists>s' v' h'.
     send_spa knock_env knock_net [''home'', ''id.key''] (x25519_pub toy_crypto [5]) (V4 7, 62201) transport (Some ''u'') None knock_state = (Inr (), s') \<and>
     cl_world s' = (v', h') \<and>
     unat (counter_of (highest_counters v') (key_id_for_public_key toy_crypto (ed_public toy_crypto demo_key))) = 1000"
    using knock_accepted_in_sync [OF env toy_crypto_complete toy_toml_laws(2) demo_registered demo_host_ok(1,2) _ _ _ _ id,
        where W = knock_net and endpoint = "(V4 7, 62201)" and url = "''u''" and date = "Some ''now''" and ip = 99 and now = 2000
          and cf = None and k = 0 and ms = 1000 and transport = transport]
    by (auto simp: path knock_net_def knock_state_def demo_client_state_def knock_env_def demo_client_env_def quiet_def
        stored_counter_def parent_exists_def parent_def demo_fields counter_of_def clock_drift_seconds_def
        ASSUMED_SPA_WINDOW_SECONDS_def DEFAULT_TIME_WINDOW_SECONDS_def)
qed

end
