(* ===== verification/Client_Relay.thy ===== *)
theory Client_Relay
  imports Client_Knock Relay_Store
begin

text \<open>
  The client's side of the relay protocol (\<open>ghostbro-client/src/main.rs\<close>): building requests, reading
  responses, and the download loop. One exchange with the server (\<open>run_relay_request\<close>, which
  opens a tunnel for every request) is the argument \<open>run\<close>. The last part runs the client against the
  server's own \<open>dispatch\<close>.
\<close>

datatype RelayArtifact = Primary | Markdown

fun selector :: "RelayArtifact \<Rightarrow> u8" where
  "selector Primary = GHOST_RELAY_ARTIFACT_PRIMARY"
| "selector Markdown = GHOST_RELAY_ARTIFACT_NORMALIZED"

section \<open>Requests\<close>

definition relay_request :: "u8 \<Rightarrow> bytes" where
  "relay_request op = [PROTOCOL_GHOST_RELAY, GHOST_RELAY_VERSION, op]"

definition relay_push_string :: "bytes \<Rightarrow> string \<Rightarrow> client_error + bytes" where
  "relay_push_string request value =
     (if 2 ^ 16 \<le> length value then Inl (RelayError RelayStringTooLong)
      else Inr (request @ to_be_bytes16 (word_of_nat (length value)) @ as_bytes value))"

section \<open>Responses\<close>

definition parse_relay_bytes_response :: "bytes \<Rightarrow> client_error + bytes" where
  "parse_relay_bytes_response response =
     (if length response < 7 \<or> response ! 0 \<noteq> PROTOCOL_GHOST_RELAY \<or> response ! 1 \<noteq> GHOST_RELAY_VERSION
      then Inl (RelayError (BadResponse response))
      else if response ! 2 \<noteq> GHOST_RELAY_STATUS_OK
      then let message = (if 7 \<le> length response then from_utf8_lossy (drop 7 response)
                          else ''status '' @ nat_digits (unat (response ! 2)))
           in Inl (RelayError (RequestFailed message))
      else
        let len = unat (from_be_bytes [response ! 3, response ! 4, response ! 5, response ! 6] :: u32) in
        if length response \<noteq> 7 + len then Inl (RelayError BadResponseLength)
        else Inr (drop 7 response))"

definition parse_relay_download_response :: "bytes \<Rightarrow> client_error + bool \<times> u32 \<times> bytes" where
  "parse_relay_download_response response =
     (if length response < 3 \<or> response ! 0 \<noteq> PROTOCOL_GHOST_RELAY \<or> response ! 1 \<noteq> GHOST_RELAY_VERSION
      then Inl (RelayError (BadResponse response))
      else if response ! 2 = GHOST_RELAY_STATUS_PENDING then Inl (RelayError JobNotReady)
      else if response ! 2 \<noteq> GHOST_RELAY_STATUS_OK
      then let message = (if 7 < length response then from_utf8_lossy (drop 7 response)
                          else ''status '' @ nat_digits (unat (response ! 2)))
           in Inl (RelayError (DownloadFailed message))
      else if length response < 12 then Inl (RelayError DownloadTruncated)
      else
        let terminal = response ! 3 \<noteq> 0;
            tot = from_be_bytes [response ! 4, response ! 5, response ! 6, response ! 7];
            len = unat (from_be_bytes [response ! 8, response ! 9, response ! 10, response ! 11] :: u32)
        in if length response \<noteq> 12 + len then Inl (RelayError BadDownloadLength)
           else Inr (terminal, tot, drop 12 response))"

section \<open>Commands\<close>

type_synonym 'w exchange = "bytes \<Rightarrow> ('w, bytes) client_comp"

definition relay_submit_url :: "'w exchange \<Rightarrow> string \<Rightarrow> bool \<Rightarrow> ('w, bytes) client_comp" where
  "relay_submit_url run url norm =
     c_bind (c_lift (relay_push_string (relay_request GHOST_RELAY_OP_SUBMIT_WEB) url)) (\<lambda>request.
     c_bind (run (request @ [if norm then 1 else 0])) (\<lambda>response.
       c_lift (parse_relay_bytes_response response)))"

definition relay_submit_git :: "'w exchange \<Rightarrow> string \<Rightarrow> ('w, bytes) client_comp" where
  "relay_submit_git run git_url =
     c_bind (c_lift (relay_push_string (relay_request GHOST_RELAY_OP_SUBMIT_GIT) git_url)) (\<lambda>request.
     c_bind (run request) (\<lambda>response.
       c_lift (parse_relay_bytes_response response)))"

definition relay_submit_package :: "'w exchange \<Rightarrow> string \<Rightarrow> string \<Rightarrow> string \<Rightarrow> ('w, bytes) client_comp" where
  "relay_submit_package run eco name version =
     c_bind (c_lift (relay_push_string (relay_request GHOST_RELAY_OP_SUBMIT_PACKAGE) eco)) (\<lambda>request.
     c_bind (c_lift (relay_push_string request name)) (\<lambda>request.
     c_bind (c_lift (relay_push_string request version)) (\<lambda>request.
     c_bind (run request) (\<lambda>response.
       c_lift (parse_relay_bytes_response response)))))"

definition client_relay_list :: "'w exchange \<Rightarrow> ('w, string) client_comp" where
  "client_relay_list run =
     c_bind (run (relay_request GHOST_RELAY_OP_LIST)) (\<lambda>response.
     c_bind (c_lift (parse_relay_bytes_response response)) (\<lambda>rows.
       c_lift (Inr (from_utf8_lossy rows))))"

definition relay_delete :: "'w exchange \<Rightarrow> string \<Rightarrow> ('w, unit) client_comp" where
  "relay_delete run job_id =
     c_bind (c_lift (relay_push_string (relay_request GHOST_RELAY_OP_DELETE) job_id)) (\<lambda>request.
     c_bind (run request) (\<lambda>response.
     c_bind (c_lift (parse_relay_bytes_response response)) (\<lambda>_.
       c_lift (Inr ()))))"

text \<open>
  The body of the download loop, and the loop: nothing in it bounds the number of rounds, so a
  server can keep it going; not returning is \<open>None\<close>. The offset wraps as in a release build.
\<close>

definition download_request :: "string \<Rightarrow> RelayArtifact \<Rightarrow> u32 \<Rightarrow> client_error + bytes" where
  "download_request job_id artifact offset =
     and_then (relay_push_string (relay_request GHOST_RELAY_OP_DOWNLOAD) job_id) (\<lambda>request.
       Inr (request @ to_be_bytes32 offset @ to_be_bytes16 8192 @ [selector artifact]))"

definition download_chunk ::
    "'w exchange \<Rightarrow> string \<Rightarrow> RelayArtifact \<Rightarrow> u32 \<Rightarrow> ('w, bool \<times> u32 \<times> bytes) client_comp" where
  "download_chunk run job_id artifact offset =
     c_bind (c_lift (download_request job_id artifact offset)) (\<lambda>request.
     c_bind (run request) (\<lambda>response.
     c_bind (c_lift (parse_relay_download_response response)) (\<lambda>(terminal, tot, chunk).
       c_lift (if 2 ^ 32 \<le> length chunk then Inl (RelayError ChunkTooLarge) else Inr (terminal, tot, chunk)))))"

partial_function (option) download_loop ::
    "'w exchange \<Rightarrow> string \<Rightarrow> RelayArtifact \<Rightarrow> u32 \<Rightarrow> bytes \<Rightarrow> 'w client \<Rightarrow> ((client_error + bytes) \<times> 'w client) option" where
  "download_loop run job_id artifact offset body s =
     (case download_chunk run job_id artifact offset s of
        (Inl e, s') \<Rightarrow> Some (Inl e, s')
      | (Inr (terminal, tot, chunk), s') \<Rightarrow>
          if terminal
          then Some (if length (body @ chunk) \<noteq> unat tot
                     then Inl (RelayError (SizeMismatch (length (body @ chunk)) tot)) else Inr (body @ chunk), s')
          else download_loop run job_id artifact (offset + word_of_nat (length chunk)) (body @ chunk) s')"

definition relay_download ::
    "'w exchange \<Rightarrow> string \<Rightarrow> path \<Rightarrow> RelayArtifact \<Rightarrow> 'w client \<Rightarrow> ((client_error + unit) \<times> 'w client) option" where
  "relay_download run job_id output artifact s =
     (case download_loop run job_id artifact 0 [] s of
        None \<Rightarrow> None
      | Some (Inl e, s') \<Rightarrow> Some (Inl e, s')
      | Some (Inr body, s') \<Rightarrow> Some (cl_io OutputFile (io_write output body) s'))"

section \<open>Codecs of the two sides\<close>

lemma relay_header_nth [simp]:
  "(relay_header st @ bs) ! 0 = PROTOCOL_GHOST_RELAY" "(relay_header st @ bs) ! Suc 0 = GHOST_RELAY_VERSION"
  "(relay_header st @ bs) ! 2 = st" "length (relay_header st) = 3"
  by (simp_all add: relay_header_def numeral_eq_Suc)

lemma nth_slice4: "i + 4 \<le> length xs \<Longrightarrow> [xs ! i, xs ! (i + 1), xs ! (i + 2), xs ! (i + 3)] = take 4 (drop i xs)"
  by (simp add: list_eq_iff_nth_eq less_Suc_eq numeral_eq_Suc)

lemma unat_len32: "n < 2 ^ 32 \<Longrightarrow> unat (word_of_nat n :: u32) = n"
  by (simp add: unat_of_nat)

lemma parse_relay_bytes_response_of:
  assumes "length bs < 2 ^ 32"
  shows "parse_relay_bytes_response (relay_bytes_response st bs) =
    (if st = GHOST_RELAY_STATUS_OK then Inr bs else Inl (RelayError (RequestFailed (from_utf8_lossy bs))))"
proof -
  let ?r = "relay_bytes_response st bs"
  have r: "?r = relay_header st @ to_be_bytes32 (word_of_nat (length bs)) @ bs"
    using assms by (rule relay_bytes_response_small)
  have l: "[?r ! 3, ?r ! 4, ?r ! 5, ?r ! 6] = to_be_bytes32 (word_of_nat (length bs))"
    using nth_slice4 [of 3 ?r] by (simp add: r)
  have d: "drop 7 ?r = bs" by (simp add: r)
  have h: "?r ! 0 = PROTOCOL_GHOST_RELAY" "?r ! 1 = GHOST_RELAY_VERSION" "?r ! 2 = st" by (simp_all add: r)
  show ?thesis
    unfolding parse_relay_bytes_response_def l h d
    using assms by (simp add: unat_len32 Let_def del: unsigned_of_nat)
qed

definition chunk_at :: "nat \<Rightarrow> nat \<Rightarrow> bytes \<Rightarrow> bytes" where
  "chunk_at offset max_len body = take max_len (drop offset body)"

lemma parse_chunk_response:
  assumes "length body < 2 ^ 32" and "offset \<le> length body"
  shows "parse_relay_download_response (chunk_response offset max_len body) =
    Inr (length body \<le> offset + max_len, word_of_nat (length body), chunk_at offset max_len body)"
proof -
  let ?c = "chunk_at offset max_len body" and ?r = "chunk_response offset max_len body"
  have e: "subslice body offset (min (length body) (offset + max_len)) = ?c"
    using assms(2) by (auto simp: subslice_def chunk_at_def min_def not_le)
  have len: "min (length body) (offset + max_len) - offset = length ?c"
    using assms(2) by (simp add: chunk_at_def min_def) linarith
  have r: "?r = relay_header GHOST_RELAY_STATUS_OK @ [if length body \<le> offset + max_len then 1 else 0] @
      to_be_bytes32 (word_of_nat (length body)) @ to_be_bytes32 (word_of_nat (length ?c)) @ ?c"
  proof -
    have "min offset (length body) = offset" "length body \<le> min (length body) (offset + max_len) \<longleftrightarrow> length body \<le> offset + max_len"
      using assms(2) by auto
    then show ?thesis unfolding chunk_response_def Let_def by (simp only: e len)
  qed
  have l: "[?r ! 4, ?r ! 5, ?r ! 6, ?r ! 7] = to_be_bytes32 (word_of_nat (length body))"
    "[?r ! 8, ?r ! 9, ?r ! 10, ?r ! 11] = to_be_bytes32 (word_of_nat (length ?c))"
    using nth_slice4 [of 4 ?r] nth_slice4 [of 8 ?r] by (simp_all add: r)
  have h: "?r ! 0 = PROTOCOL_GHOST_RELAY" "?r ! 1 = GHOST_RELAY_VERSION" "?r ! 2 = GHOST_RELAY_STATUS_OK"
    "?r ! 3 = (if length body \<le> offset + max_len then 1 else 0)" "length ?r = 12 + length ?c" "drop 12 ?r = ?c"
    by (simp_all add: r nth_append) (simp_all add: relay_header_def)
  have "length ?c < 2 ^ 32" using assms(1) by (simp add: chunk_at_def)
  then show ?thesis
    unfolding parse_relay_download_response_def l h
    by (simp add: unat_len32 Let_def GHOST_RELAY_STATUS_OK_def GHOST_RELAY_STATUS_PENDING_def del: unsigned_of_nat)
qed

lemma download_request_body:
  "length i < 2 ^ 16 \<Longrightarrow> download_request i a offset =
     Inr ([PROTOCOL_GHOST_RELAY, GHOST_RELAY_VERSION, GHOST_RELAY_OP_DOWNLOAD] @ download_body i offset 8192 (selector a))"
  by (simp add: download_request_def relay_push_string_def relay_request_def download_body_def)

section \<open>The client against the server\<close>

definition direct :: "relay_env \<Rightarrow> RelayConfig \<Rightarrow> key_id \<Rightarrow> relay exchange" where
  "direct E cfg key request s =
     (case dispatch E cfg key request (cl_world s) of (response, w) \<Rightarrow> (Inr response, s\<lparr>cl_world := w\<rparr>))"

text \<open>A finished job whose object \<open>body\<close> the server can serve for as long as anybody asks.\<close>

definition serves :: "relay_env \<Rightarrow> RelayConfig \<Rightarrow> key_id \<Rightarrow> string \<Rightarrow> RelayArtifact \<Rightarrow> bytes \<Rightarrow> relay \<Rightarrow> bool" where
  "serves E cfg key i a body w \<longleftrightarrow>
     quiet (rl_host w) \<and> validate_job_id i = Inr () \<and> length i \<le> 128 \<and>
     metadata_path (client_dir cfg key) i \<notin> set (dirs (rl_host w)) \<and>
     (\<exists>md. job_of E (client_dir cfg key) (rl_host w) i = Some md \<and> md_status md = JOB_STATUS_COMPLETE \<and>
        (a = Markdown \<longrightarrow> md_normalized_len md \<noteq> None) \<and>
        (\<forall>n. rl_clock w \<le> n \<longrightarrow> (\<exists>ms. now_ms E n = Some ms \<and> word_of_nat ms < md_expires_at_ms md))) \<and>
     content (rl_host w) (object_path (client_dir cfg key) i (selector a)) = Some body \<and> length body < 2 ^ 32"

lemma serves_same_store: "serves E cfg key i a body w \<Longrightarrow> same_store w w' \<Longrightarrow> serves E cfg key i a body w'"
  unfolding serves_def same_store_def job_of_def quiet_def by (metis le_trans)

lemma serves_chunk:
  assumes "serves E cfg key i a body (cl_world s)" and "k \<le> length body"
  shows "\<exists>w'. download_chunk (direct E cfg key) i a (word_of_nat k) s =
      (Inr (length body \<le> k + 8192, word_of_nat (length body), chunk_at k 8192 body), s\<lparr>cl_world := w'\<rparr>) \<and>
    same_store (cl_world s) w'"
proof -
  let ?w = "cl_world s" and ?dir = "client_dir cfg key"
  obtain md ms where md: "job_of E ?dir (rl_host ?w) i = Some md" "md_status md = JOB_STATUS_COMPLETE"
      "a = Markdown \<longrightarrow> md_normalized_len md \<noteq> None"
    and ms: "now_ms E (rl_clock ?w) = Some ms" "word_of_nat ms < md_expires_at_ms md"
    using assms(1) by (auto simp: serves_def)
  have w: "quiet (rl_host ?w)" "validate_job_id i = Inr ()" "length i \<le> 128" "metadata_path ?dir i \<notin> set (dirs (rl_host ?w))"
      "content (rl_host ?w) (object_path ?dir i (selector a)) = Some body" "length body < 2 ^ 32"
    using assms(1) by (auto simp: serves_def)
  let ?req = "[PROTOCOL_GHOST_RELAY, GHOST_RELAY_VERSION, GHOST_RELAY_OP_DOWNLOAD] @ download_body i (word_of_nat k) 8192 (selector a)"
  have req: "download_request i a (word_of_nat k) = Inr ?req"
    using w(3) by (intro download_request_body) simp
  have k: "unat (word_of_nat k :: u32) = k" using assms(2) w(6) by (simp add: unat_of_nat)
  have spec: "download_spec (abs_store E ?dir (rl_host ?w)) (word_of_nat ms) i k 8192 (selector a) = chunk_response k 8192 body"
    using md ms w(5)
    by (cases a) (auto simp: download_eqs abs_store_def not_le
        GHOST_RELAY_ARTIFACT_PRIMARY_def GHOST_RELAY_ARTIFACT_NORMALIZED_def simp del: encode_answer.simps)
  obtain w' where "dispatch E cfg key ?req ?w =
      (download_spec (abs_store E ?dir (rl_host ?w)) (word_of_nat ms) i (unat (word_of_nat k :: u32)) (unat (8192 :: u16)) (selector a), w')"
    and same: "same_store ?w w'"
    using download_dispatch [OF w(1-3) _ w(4) ms(1) refl, of "word_of_nat k" 8192 "selector a"] md(1) by auto
  then have d: "dispatch E cfg key ?req ?w = (chunk_response k 8192 body, w')"
    using spec k by simp
  have "length (chunk_at k 8192 body) < 2 ^ 32" using w(6) by (simp add: chunk_at_def)
  then show ?thesis
    using same parse_chunk_response [OF w(6) assms(2), of 8192]
    by (intro exI [of _ w']) (simp add: download_chunk_def c_bind_def req direct_def d del: append_Cons append_Nil)
qed

section \<open>The download service\<close>

text \<open>
  What the loop relies on: while a body is available, the service answers a request for any offset in
  it with the chunk there, the length and whether it is the last, and stays able to. The loop is proved
  over this contract; the server's dispatcher meets it.
\<close>

locale chunk_service =
  fixes run :: "'w exchange"
    and available :: "string \<Rightarrow> RelayArtifact \<Rightarrow> bytes \<Rightarrow> 'w \<Rightarrow> bool"
    and reads_only :: "'w \<Rightarrow> 'w \<Rightarrow> bool"
  assumes chunk: "available i a body (cl_world s) \<Longrightarrow> k \<le> length body \<Longrightarrow>
      \<exists>w'. download_chunk run i a (word_of_nat k) s =
        (Inr (length body \<le> k + 8192, word_of_nat (length body), chunk_at k 8192 body), s\<lparr>cl_world := w'\<rparr>) \<and>
        reads_only (cl_world s) w'"
    and small: "available i a body w \<Longrightarrow> length body < 2 ^ 32"
    and stays: "available i a body w \<Longrightarrow> reads_only w w' \<Longrightarrow> available i a body w'"
    and reads_trans: "reads_only w w' \<Longrightarrow> reads_only w' w'' \<Longrightarrow> reads_only w w''"
begin

text \<open>The loop, from any point it can have reached.\<close>

lemma loop_from:
  assumes "available i a body (cl_world s)" and "k \<le> length body"
  shows "\<exists>w'. download_loop run i a (word_of_nat k) (take k body) s = Some (Inr body, s\<lparr>cl_world := w'\<rparr>) \<and>
    reads_only (cl_world s) w'"
  using assms
proof (induction "length body - k" arbitrary: k s rule: less_induct)
  case less
  obtain w' where step: "download_chunk run i a (word_of_nat k) s =
      (Inr (length body \<le> k + 8192, word_of_nat (length body), chunk_at k 8192 body), s\<lparr>cl_world := w'\<rparr>)"
    and same: "reads_only (cl_world s) w'"
    using chunk [OF less.prems] by blast
  show ?case
  proof (cases "length body \<le> k + 8192")
    case True
    have "take k body @ chunk_at k 8192 body = body"
      using True by (simp add: chunk_at_def)
    then show ?thesis
      using step same True unat_len32 [OF small [OF less.prems(1)]]
      by (intro exI [of _ w']) (subst download_loop.simps, simp del: unsigned_of_nat length_append)
  next
    case False
    have tk: "take k body @ chunk_at k 8192 body = take (k + 8192) body"
      by (simp add: chunk_at_def take_add)
    have off: "(word_of_nat k :: u32) + word_of_nat (length (chunk_at k 8192 body)) = word_of_nat (k + 8192)"
      using False by (simp add: chunk_at_def)
    have lt: "length body - (k + 8192) < length body - k" using False by (intro diff_less_mono2) simp_all
    obtain w'' where "download_loop run i a (word_of_nat (k + 8192)) (take (k + 8192) body) (s\<lparr>cl_world := w'\<rparr>) =
        Some (Inr body, s\<lparr>cl_world := w'\<rparr>\<lparr>cl_world := w''\<rparr>)" "reads_only w' w''"
      using less.hyps [OF lt, of "s\<lparr>cl_world := w'\<rparr>"] stays [OF less.prems(1) same] False by auto
    moreover have "download_loop run i a (word_of_nat k) (take k body) s =
        download_loop run i a (word_of_nat (k + 8192)) (take (k + 8192) body) (s\<lparr>cl_world := w'\<rparr>)"
      using step False by (subst download_loop.simps) (simp only: prod.case sum.case if_False off tk)
    ultimately show ?thesis
      using reads_trans [OF same] by (intro exI [of _ w'']) simp
  qed
qed

lemma loop_returns:
  assumes "available i a body (cl_world s)"
  shows "\<exists>w'. download_loop run i a 0 [] s = Some (Inr body, s\<lparr>cl_world := w'\<rparr>) \<and> reads_only (cl_world s) w'"
  using loop_from [OF assms, of 0] by simp

end

interpretation relay_service: chunk_service "direct E cfg key" "serves E cfg key" same_store
  for E cfg key
proof unfold_locales
  show "serves E cfg key i a body w \<Longrightarrow> length body < 2 ^ 32" for i a body w by (simp add: serves_def)
qed (fact serves_chunk serves_same_store same_store_trans)+

text \<open>A server that always answers an empty chunk which is not the last.\<close>

definition stalling_server :: "'w exchange" where
  "stalling_server request s = (Inr (relay_header GHOST_RELAY_STATUS_OK @ [0] @ to_be_bytes32 1 @ to_be_bytes32 0), s)"

lemma stalling_chunk: "download_chunk stalling_server ''ab'' a off s = (Inr (False, 1, []), s)"
proof -
  have parse: "parse_relay_download_response (relay_header GHOST_RELAY_STATUS_OK @ [0] @ to_be_bytes32 1 @ to_be_bytes32 0) =
      Inr (False, 1, [])" by code_simp
  obtain r where "download_request ''ab'' a off = Inr r" by (simp add: download_request_def relay_push_string_def)
  then show ?thesis by (simp only: download_chunk_def c_bind_def c_lift_run stalling_server_def parse prod.case sum.case) simp
qed

lemma stalled_loop: "download_loop run i a off body s = Some y \<Longrightarrow> \<not> (run = stalling_server \<and> i = ''ab'')"
proof (rule download_loop.raw_induct [where P = "\<lambda>run i a off body s y. \<not> (run = stalling_server \<and> i = ''ab'')"])
  fix loop run i a off body s y
  assume IH: "\<And>run i a off body (s :: 'a client) y. loop run i a off body s = Some y \<Longrightarrow> \<not> (run = stalling_server \<and> i = ''ab'')"
    and step: "(case download_chunk run i a off s of (Inl e, s') \<Rightarrow> Some (Inl e, s')
      | (Inr (terminal, tot, chunk), s') \<Rightarrow>
          if terminal
          then Some (if length (body @ chunk) \<noteq> unat tot
                     then Inl (RelayError (SizeMismatch (length (body @ chunk)) tot)) else Inr (body @ chunk), s')
          else loop run i a (off + word_of_nat (length chunk)) (body @ chunk) s') = Some y"
  show "\<not> (run = stalling_server \<and> i = ''ab'')"
  proof
    assume eq: "run = stalling_server \<and> i = ''ab''"
    then have "loop run i a (off + 0) body s = Some y" using step by (simp add: stalling_chunk)
    then show False using IH eq by blast
  qed
qed

section \<open>Properties\<close>

text \<open>
  C8. A download brings the stored object, whole: for a finished, unexpired job the client's loop
  against the server's \<open>dispatch\<close> returns (it does not run forever), writes exactly the stored bytes to
  the output file, and leaves the server's store as it was; the object may take any number of
  8192-byte rounds up to the 32-bit size field.
\<close>

theorem download_end_to_end:
  assumes "serves E cfg key i a body (cl_world s)" and "quiet (cl_host s)"
    and "output \<notin> set (dirs (cl_host s))" and "parent_exists (cl_host s) output"
  shows "\<exists>s'. relay_download (direct E cfg key) i output a s = Some (Inr (), s') \<and>
    content (cl_host s') output = Some body \<and> same_store (cl_world s) (cl_world s')"
proof -
  obtain w' where l: "download_loop (direct E cfg key) i a 0 [] s = Some (Inr body, s\<lparr>cl_world := w'\<rparr>)" "same_store (cl_world s) w'"
    using relay_service.loop_returns [OF assms(1)] by auto
  obtain s' where w: "cl_io OutputFile (io_write output body) (s\<lparr>cl_world := w'\<rparr>) = (Inr (), s')"
    and s': "s' = s\<lparr>cl_world := w'\<rparr>\<lparr>cl_host := cl_host s'\<rparr>"
    using cl_write_quiet [of "s\<lparr>cl_world := w'\<rparr>" "output" OutputFile body] assms(2-4) by auto
  have "content (cl_host s') output = Some body"
    using w by (auto simp: cl_io_def result_eqs dest!: io_write_Inr split: prod.splits)
  moreover have "cl_world s' = w'" by (subst s') simp
  ultimately show ?thesis using l w by (simp add: relay_download_def)
qed

text \<open>
  A server can hold the client forever: with a server that keeps answering an empty chunk
  without the terminal flag, the download loop never returns, whatever the client's state.
\<close>

theorem download_may_hang:
  "download_loop stalling_server ''ab'' a 0 [] s = None"
  using stalled_loop by (metis not_None_eq)

section \<open>Submissions\<close>

text \<open>What the client makes of the relay's result for a request.\<close>

definition answer_of :: "bytes relay_comp \<Rightarrow> relay client \<Rightarrow> (client_error + bytes) \<times> relay client" where
  "answer_of m s =
     (case m (cl_world s) of
        (Inr response, w) \<Rightarrow> (parse_relay_bytes_response response, s\<lparr>cl_world := w\<rparr>)
      | (Inl _, w) \<Rightarrow> (Inl (RelayError (RequestFailed ''internal relay error'')), s\<lparr>cl_world := w\<rparr>))"

lemma direct_answer:
  assumes "\<And>w. dispatch_inner E cfg key request w = m w"
  shows "c_bind (direct E cfg key request) (\<lambda>response. c_lift (parse_relay_bytes_response response)) s = answer_of m s"
proof -
  have "from_utf8_lossy (as_bytes ''internal relay error'') = ''internal relay error''" by code_simp
  then have "parse_relay_bytes_response (relay_status_response GHOST_RELAY_STATUS_FAILED (as_bytes ''internal relay error'')) =
      Inl (RelayError (RequestFailed ''internal relay error''))"
    using parse_relay_bytes_response_of [of "as_bytes ''internal relay error''" GHOST_RELAY_STATUS_FAILED]
    by (simp add: relay_status_response_def GHOST_RELAY_STATUS_FAILED_def GHOST_RELAY_STATUS_OK_def)
  then show ?thesis
    using assms by (simp add: c_bind_def direct_def dispatch_def answer_of_def split: prod.splits sum.splits)
qed

lemma push_string_fits:
  "length s < 2 ^ 16 \<Longrightarrow> relay_push_string request s = Inr (request @ to_be_bytes16 (word_of_nat (length s)) @ as_bytes s)"
  by (simp add: relay_push_string_def)

lemma rl_read_step: "m c = (Inr x, c') \<Longrightarrow> c_bind (rl_read m c) f = f (x, c')"
  by (rule ext) (simp add: rl_read_def c_bind_def)

lemmas relay_op_defs = GHOST_RELAY_OP_SUBMIT_WEB_def GHOST_RELAY_OP_SUBMIT_GIT_def GHOST_RELAY_OP_SUBMIT_PACKAGE_def
  GHOST_RELAY_OP_LIST_def GHOST_RELAY_OP_DOWNLOAD_def GHOST_RELAY_OP_DELETE_def

lemma dispatch_inner_op:
  "dispatch_inner E cfg key (relay_request GHOST_RELAY_OP_SUBMIT_WEB @ r) = submit_web E cfg key (RelayCursor_new r)"
  "dispatch_inner E cfg key (relay_request GHOST_RELAY_OP_SUBMIT_GIT @ r) = submit_git E cfg key (RelayCursor_new r)"
  "dispatch_inner E cfg key (relay_request GHOST_RELAY_OP_SUBMIT_PACKAGE @ r) = submit_package E cfg key (RelayCursor_new r)"
  by (simp_all add: relay_request_def dispatch_inner_def relay_op_defs)

lemma submit_web_understood:
  assumes "valid_str u" and "length u \<le> RELAY_MAX_URL_LEN"
  shows "submit_web E cfg key (RelayCursor_new (to_be_bytes16 (word_of_nat (length u)) @ as_bytes u @ [b])) =
    c_bind (rl_network (validate_public_url E u (cf_allow_loopback cfg))) (\<lambda>_. enqueue E cfg key ''web_fetch'' u (b \<noteq> 0))"
proof -
  let ?c = "RelayCursor_new (to_be_bytes16 (word_of_nat (length u)) @ as_bytes u @ [b])"
  have len: "length u < 2 ^ 16" using assms(2) by (simp add: RELAY_MAX_URL_LEN_def)
  obtain c1 where c1: "read_string RELAY_MAX_URL_LEN ?c = (Inr u, c1)" "cursor_ok c1" "unread c1 = [b]"
    using read_string_unread [OF _ _ assms(2) len assms(1), of ?c "[b]"] by auto
  obtain c2 where c2: "read_optional_u8 c1 = (Inr (Some b), c2)"
    using read_optional_u8_unread(2) [OF c1(2,3)] by blast
  show ?thesis
    by (simp add: submit_web_def rl_read_step [where m = "read_string _", OF c1(1)] rl_read_step [where m = read_optional_u8, OF c2])
qed

lemma submit_git_understood:
  assumes "valid_str u" and "length u \<le> RELAY_MAX_URL_LEN"
  shows "submit_git E cfg key (RelayCursor_new (to_be_bytes16 (word_of_nat (length u)) @ as_bytes u)) =
    c_bind (rl_network (validate_git_url E u (cf_allow_loopback cfg))) (\<lambda>_. enqueue E cfg key ''git_mirror'' u False)"
proof -
  let ?c = "RelayCursor_new (to_be_bytes16 (word_of_nat (length u)) @ as_bytes u)"
  have len: "length u < 2 ^ 16" using assms(2) by (simp add: RELAY_MAX_URL_LEN_def)
  obtain c1 where c1: "read_string RELAY_MAX_URL_LEN ?c = (Inr u, c1)"
    using read_string_unread [OF _ _ assms(2) len assms(1), of ?c "[]"] by auto
  show ?thesis by (simp add: submit_git_def rl_read_step [where m = "read_string _", OF c1])
qed

lemma submit_package_understood:
  assumes "valid_str e" "length e \<le> 32" and "valid_str n" "length n \<le> 256" and "valid_str v" "length v \<le> 128"
  shows "submit_package E cfg key (RelayCursor_new (to_be_bytes16 (word_of_nat (length e)) @ as_bytes e @
      to_be_bytes16 (word_of_nat (length n)) @ as_bytes n @ to_be_bytes16 (word_of_nat (length v)) @ as_bytes v)) =
    c_bind (c_lift (PackageSpec_parse e n v)) (\<lambda>spec. enqueue E cfg key ''package'' (PackageSpec_encode spec) False)"
proof -
  let ?c = "RelayCursor_new (to_be_bytes16 (word_of_nat (length e)) @ as_bytes e @
      to_be_bytes16 (word_of_nat (length n)) @ as_bytes n @ to_be_bytes16 (word_of_nat (length v)) @ as_bytes v)"
  obtain c1 where c1: "read_string 32 ?c = (Inr e, c1)" "cursor_ok c1"
      "unread c1 = to_be_bytes16 (word_of_nat (length n)) @ as_bytes n @ to_be_bytes16 (word_of_nat (length v)) @ as_bytes v"
    using read_string_unread [of ?c e _ 32] assms by auto
  obtain c2 where c2: "read_string 256 c1 = (Inr n, c2)" "cursor_ok c2"
      "unread c2 = to_be_bytes16 (word_of_nat (length v)) @ as_bytes v"
    using read_string_unread [OF c1(2,3), of 256] assms by auto
  obtain c3 where c3: "read_string 128 c2 = (Inr v, c3)"
    using read_string_unread [of c2 v "[]" 128] c2 assms by auto
  show ?thesis
    by (simp add: submit_package_def rl_read_step [where m = "read_string _", OF c1(1)]
        rl_read_step [where m = "read_string _", OF c2(1)] rl_read_step [where m = "read_string _", OF c3])
qed

text \<open>
  C29. The relay understands the client's submissions as they were meant: the bytes the client sends
  for a URL, a repository or a package reach the relay's handler as exactly those strings and that
  flag, and the client gets the handler's answer; a handler error reaches it as \<open>internal relay
  error\<close>.
\<close>

theorem submissions_understood:
  assumes "valid_str u" and "length u \<le> RELAY_MAX_URL_LEN"
    and "valid_str e" and "length e \<le> 32" and "valid_str n" and "length n \<le> 256" and "valid_str v" and "length v \<le> 128"
  shows "relay_submit_url (direct E cfg key) u norm s =
      answer_of (c_bind (rl_network (validate_public_url E u (cf_allow_loopback cfg))) (\<lambda>_. enqueue E cfg key ''web_fetch'' u norm)) s \<and>
    relay_submit_git (direct E cfg key) u s =
      answer_of (c_bind (rl_network (validate_git_url E u (cf_allow_loopback cfg))) (\<lambda>_. enqueue E cfg key ''git_mirror'' u False)) s \<and>
    relay_submit_package (direct E cfg key) e n v s =
      answer_of (c_bind (c_lift (PackageSpec_parse e n v)) (\<lambda>spec. enqueue E cfg key ''package'' (PackageSpec_encode spec) False)) s"
proof (intro conjI)
  have l: "length u < 2 ^ 16" "length e < 2 ^ 16" "length n < 2 ^ 16" "length v < 2 ^ 16"
    using assms by (simp_all add: RELAY_MAX_URL_LEN_def)
  let ?run = "\<lambda>r. c_bind (direct E cfg key r) (\<lambda>response. c_lift (parse_relay_bytes_response response)) s"
  have "relay_submit_url (direct E cfg key) u norm s = ?run (relay_request GHOST_RELAY_OP_SUBMIT_WEB @
      to_be_bytes16 (word_of_nat (length u)) @ as_bytes u @ [if norm then 1 else 0])"
    by (simp add: relay_submit_url_def c_bind_def push_string_fits [OF l(1)])
  then show "relay_submit_url (direct E cfg key) u norm s =
      answer_of (c_bind (rl_network (validate_public_url E u (cf_allow_loopback cfg))) (\<lambda>_. enqueue E cfg key ''web_fetch'' u norm)) s"
    by (cases norm) (simp_all only: direct_answer [OF dispatch_inner_op(1) [THEN fun_cong]] submit_web_understood [OF assms(1,2)] if_True if_False
        one_neq_zero simp_thms)
  have "relay_submit_git (direct E cfg key) u s = ?run (relay_request GHOST_RELAY_OP_SUBMIT_GIT @
      to_be_bytes16 (word_of_nat (length u)) @ as_bytes u)"
    by (simp add: relay_submit_git_def c_bind_def push_string_fits [OF l(1)])
  then show "relay_submit_git (direct E cfg key) u s =
      answer_of (c_bind (rl_network (validate_git_url E u (cf_allow_loopback cfg))) (\<lambda>_. enqueue E cfg key ''git_mirror'' u False)) s"
    by (simp only: direct_answer [OF dispatch_inner_op(2) [THEN fun_cong]] submit_git_understood [OF assms(1,2)])
  have "relay_submit_package (direct E cfg key) e n v s = ?run (relay_request GHOST_RELAY_OP_SUBMIT_PACKAGE @
      to_be_bytes16 (word_of_nat (length e)) @ as_bytes e @ to_be_bytes16 (word_of_nat (length n)) @ as_bytes n @
      to_be_bytes16 (word_of_nat (length v)) @ as_bytes v)"
    by (simp add: relay_submit_package_def c_bind_def push_string_fits [OF l(2)] push_string_fits [OF l(3)] push_string_fits [OF l(4)])
  then show "relay_submit_package (direct E cfg key) e n v s =
      answer_of (c_bind (c_lift (PackageSpec_parse e n v)) (\<lambda>spec. enqueue E cfg key ''package'' (PackageSpec_encode spec) False)) s"
    by (simp only: direct_answer [OF dispatch_inner_op(3) [THEN fun_cong]] submit_package_understood [OF assms(3-8)])
qed

theorem submissions_understood_witness:
  "relay_submit_package (direct demo_env demo_cfg [0x11]) ''npm'' ''left-pad'' [] (demo_client_state (demo_relay [])) =
     answer_of (c_bind (c_lift (PackageSpec_parse ''npm'' ''left-pad'' []))
       (\<lambda>spec. enqueue demo_env demo_cfg [0x11] ''package'' (PackageSpec_encode spec) False)) (demo_client_state (demo_relay []))"
proof -
  have v: "valid_str ''npm''" "valid_str ''left-pad''" "valid_str []" by code_simp+
  show ?thesis
    using submissions_understood [where u = "[]" and e = "''npm''" and n = "''left-pad''" and v = "[]" and norm = False and
        E = demo_env and cfg = demo_cfg and key = "[0x11]" and s = "demo_client_state (demo_relay [])"] v by simp
qed

lemma finished_serves: "serves demo_env demo_cfg [0x11] ''a'' Primary [1, 2, 3] finished_relay"
  using finished_facts
  by (simp add: serves_def demo_client_dir object_path_def GHOST_RELAY_ARTIFACT_PRIMARY_def GHOST_RELAY_ARTIFACT_NORMALIZED_def)
    (simp add: finished_md_def demo_md_def)

theorem download_end_to_end_witness:
  "\<exists>s'. relay_download (direct demo_env demo_cfg [0x11]) ''a'' [''home'', ''out''] Primary (demo_client_state finished_relay) = Some (Inr (), s') \<and>
     content (cl_host s') [''home'', ''out''] = Some [1, 2, 3]"
  using download_end_to_end [of demo_env demo_cfg "[0x11]" "''a''" Primary "[1, 2, 3]" "demo_client_state finished_relay" "[''home'', ''out'']"]
    finished_serves
  by (auto simp: demo_client_state_def quiet_def parent_exists_def parent_def)

end
