(* ===== verification/Client_Tunnel.thy ===== *)
theory Client_Tunnel
  imports Client_Knock Noise
begin

text \<open>
  The client's end of the tunnel (\<open>ghostbro-client/src/main.rs\<close>): frames on a TCP connection, the Noise
  XK initiator, and one relay exchange. TCP connections are numbered handles on the world; the
  initiator side of \<open>snow\<close> is a record of functions. The last part connects the client to the server's
  \<open>handle_connection\<close>.
\<close>

section \<open>Connections\<close>

datatype read_result = ReadAll bytes | ReadEof | ReadFailed

text \<open>\<open>TcpStream::connect\<close>, \<open>write_all\<close> and \<open>read_exact\<close>.\<close>

record 'w client_tcp = "'w client_net" +
  tcp_connect :: "sock_addr \<Rightarrow> 'w \<Rightarrow> nat option \<times> 'w"
  tcp_write_all :: "nat \<Rightarrow> bytes \<Rightarrow> 'w \<Rightarrow> bool \<times> 'w"
  tcp_read_exact :: "nat \<Rightarrow> nat \<Rightarrow> 'w \<Rightarrow> read_result \<times> 'w"

section \<open>Frames\<close>

definition client_read_frame_optional :: "('w, 'x) client_tcp_scheme \<Rightarrow> nat \<Rightarrow> ('w, bytes option) client_comp" where
  "client_read_frame_optional W c =
     c_bind (on_world (tcp_read_exact W c 2)) (\<lambda>l.
       case l of
         ReadEof \<Rightarrow> c_lift (Inr None)
       | ReadFailed \<Rightarrow> c_lift (Inl FrameFailed)
       | ReadAll bs \<Rightarrow>
           c_bind (on_world (tcp_read_exact W c (unat (from_be_bytes bs :: u16)))) (\<lambda>f.
             case f of
               ReadAll frame \<Rightarrow> c_lift (Inr (Some frame))
             | _ \<Rightarrow> c_lift (Inl FrameFailed)))"

definition client_read_frame :: "('w, 'x) client_tcp_scheme \<Rightarrow> nat \<Rightarrow> ('w, bytes) client_comp" where
  "client_read_frame W c = c_bind (client_read_frame_optional W c) (\<lambda>f. c_lift (ok_or FrameClosed f))"

definition client_write_frame :: "('w, 'x) client_tcp_scheme \<Rightarrow> nat \<Rightarrow> bytes \<Rightarrow> ('w, unit) client_comp" where
  "client_write_frame W c frame =
     (if 2 ^ 16 \<le> length frame then c_lift (Inl FrameTooLarge)
      else
        c_bind (on_world (tcp_write_all W c (to_be_bytes16 (word_of_nat (length frame))))) (\<lambda>ok.
          if \<not> ok then c_lift (Inl FrameFailed)
          else c_bind (on_world (tcp_write_all W c frame)) (\<lambda>ok.
                 c_lift (if ok then Inr () else Inl FrameFailed))))"

text \<open>The client's buffer is 16 KiB as well; a plaintext that does not fit is an error of \<open>snow\<close>.\<close>

definition CLIENT_BUF_LEN :: nat where "CLIENT_BUF_LEN = 16 * 1024"

definition client_read_encrypted_frame :: "('w, 'x) client_tcp_scheme \<Rightarrow> nat \<Rightarrow> noise_cipher \<Rightarrow> nat \<Rightarrow> ('w, bytes) client_comp" where
  "client_read_encrypted_frame W c N n =
     c_bind (client_read_frame W c) (\<lambda>encrypted.
       c_lift (case cipher_dec N n encrypted of
                 None \<Rightarrow> Inl NoiseFailed
               | Some pt \<Rightarrow> if CLIENT_BUF_LEN < length pt then Inl NoiseFailed else Inr pt))"

definition client_write_encrypted_frame ::
    "('w, 'x) client_tcp_scheme \<Rightarrow> nat \<Rightarrow> noise_cipher \<Rightarrow> nat \<Rightarrow> bytes \<Rightarrow> ('w, unit) client_comp" where
  "client_write_encrypted_frame W c N n pt =
     c_bind (c_lift (ok_or NoiseFailed (write_message N n CLIENT_BUF_LEN pt))) (client_write_frame W c)"

section \<open>Opening a tunnel\<close>

record 'h xk_initiator =
  xi_new :: "bytes \<Rightarrow> bytes \<Rightarrow> bytes \<Rightarrow> 'h option"
  xi_write1 :: "'h \<Rightarrow> ('h \<times> bytes) option"
  xi_read2 :: "'h \<Rightarrow> bytes \<Rightarrow> 'h option"
  xi_write3 :: "'h \<Rightarrow> ('h \<times> bytes) option"
  xi_transport :: "'h \<Rightarrow> noise_cipher option"

text \<open>The handshake on an open connection.\<close>

definition client_handshake ::
    "('w, 'x) client_tcp_scheme \<Rightarrow> 'h xk_initiator \<Rightarrow> nat \<Rightarrow> 'h \<Rightarrow> ('w, noise_cipher) client_comp" where
  "client_handshake W X c h =
     c_bind (c_lift (ok_or NoiseFailed (xi_write1 X h))) (\<lambda>(h, msg1).
     c_bind (client_write_frame W c msg1) (\<lambda>_.
     c_bind (client_read_frame W c) (\<lambda>msg2.
     c_bind (c_lift (ok_or NoiseFailed (xi_read2 X h msg2))) (\<lambda>h.
     c_bind (c_lift (ok_or NoiseFailed (xi_write3 X h))) (\<lambda>(h, msg3).
     c_bind (client_write_frame W c msg3) (\<lambda>_.
       c_lift (ok_or NoiseFailed (xi_transport X h))))))))"

definition connect_noise ::
    "client_env \<Rightarrow> ('w, 'x) client_tcp_scheme \<Rightarrow> 'h xk_initiator \<Rightarrow> path \<Rightarrow> bytes \<Rightarrow> sock_addr \<Rightarrow> sock_addr \<Rightarrow> SpaTransport
     \<Rightarrow> string option \<Rightarrow> path option \<Rightarrow> ('w, nat \<times> noise_cipher \<times> key_id) client_comp" where
  "connect_noise E W X identity_key server_pub spa_endpoint proxy_endpoint spa_transport https_spa_url counter_file =
     c_bind (c_lift (if length server_pub = 32 then Inr () else Inl (ServerKeyLen (length server_pub)))) (\<lambda>_.
     c_bind (send_spa E (client_net.truncate W) identity_key server_pub spa_endpoint spa_transport https_spa_url counter_file) (\<lambda>_.
     c_bind (read_signing_key E identity_key) (\<lambda>signing_key.
       let key = key_id_for_public_key (cl_crypto E) (ed_public (cl_crypto E) signing_key);
           noise_private_key = derive_noise_static_private_key (cl_crypto E) signing_key
       in c_bind (c_lift (ok_or NoiseFailed (xi_new X noise_private_key server_pub key))) (\<lambda>h.
          c_bind (on_world (tcp_connect W proxy_endpoint)) (\<lambda>conn.
          c_bind (c_lift (ok_or ConnectFailed conn)) (\<lambda>c.
          c_bind (client_handshake W X c h) (\<lambda>N.
            c_lift (Inr (c, N, key)))))))))"

text \<open>One exchange: the tunnel is opened for it and dropped after it.\<close>

definition relay_exchange :: "('w, 'x) client_tcp_scheme \<Rightarrow> nat \<Rightarrow> noise_cipher \<Rightarrow> bytes \<Rightarrow> ('w, bytes) client_comp" where
  "relay_exchange W c N request =
     c_bind (client_write_encrypted_frame W c N 0 request) (\<lambda>_. client_read_encrypted_frame W c N 0)"

definition run_relay_request ::
    "client_env \<Rightarrow> ('w, 'x) client_tcp_scheme \<Rightarrow> 'h xk_initiator \<Rightarrow> path \<Rightarrow> path \<Rightarrow> sock_addr \<Rightarrow> sock_addr \<Rightarrow> SpaTransport
     \<Rightarrow> string option \<Rightarrow> path option \<Rightarrow> bytes \<Rightarrow> ('w, bytes) client_comp" where
  "run_relay_request E W X identity_key server_key spa_endpoint proxy_endpoint spa_transport https_spa_url counter_file request =
     c_bind (read_noise_public_key E server_key) (\<lambda>server_pub.
     c_bind (connect_noise E W X identity_key server_pub spa_endpoint proxy_endpoint spa_transport https_spa_url counter_file)
       (\<lambda>(c, N, _). relay_exchange W c N request))"

section \<open>The client and the server's connection handler\<close>

text \<open>
  A world with one connection to the server: its state before the connection, what the client has
  sent, and how far it has read. What the server has written at any moment is what
  \<open>handle_connection\<close> writes on the bytes it has received so far.
\<close>

record 'r tunnel_world =
  tw_server :: "'r conn"
  tw_sent :: bytes
  tw_pos :: nat

definition server_after ::
    "'h snow \<Rightarrow> (key_id \<Rightarrow> bytes \<Rightarrow> 'r \<Rightarrow> bytes \<times> 'r) \<Rightarrow> clocks \<Rightarrow> bytes \<Rightarrow> u32 \<Rightarrow> 'r tunnel_world \<Rightarrow> (conn_error + conn_outcome) \<times> 'r conn" where
  "server_after S dispatch K static_key ip w =
     handle_connection S dispatch K static_key (V4 ip) ((tw_server w)\<lparr>conn_rx := tw_sent w, conn_tx := []\<rparr>)"

definition server_tcp ::
    "'h snow \<Rightarrow> (key_id \<Rightarrow> bytes \<Rightarrow> 'r \<Rightarrow> bytes \<times> 'r) \<Rightarrow> clocks \<Rightarrow> bytes \<Rightarrow> u32 \<Rightarrow> 'r tunnel_world client_net \<Rightarrow> 'r tunnel_world client_tcp" where
  "server_tcp S dispatch K static_key ip net = client_net.extend net
     \<lparr>tcp_connect = (\<lambda>_ w. (Some 0, w\<lparr>tw_sent := [], tw_pos := 0\<rparr>)),
      tcp_write_all = (\<lambda>_ bs w. (True, w\<lparr>tw_sent := tw_sent w @ bs\<rparr>)),
      tcp_read_exact = (\<lambda>_ n w.
        let out = conn_tx (snd (server_after S dispatch K static_key ip w)) in
        if tw_pos w + n \<le> length out then (ReadAll (take n (drop (tw_pos w) out)), w\<lparr>tw_pos := tw_pos w + n\<rparr>)
        else (ReadEof, w))\<rparr>"

text \<open>
  What \<open>snow\<close> promises of an XK handshake between the two keys under the same prologue: the initiator
  ends with a transport \<open>N\<close> and the responder with a transport \<open>P\<close>, each with a sending and a
  receiving state of its own, and what either sends the other decrypts.
\<close>

definition handshake_agrees ::
    "'i xk_initiator \<Rightarrow> 'h snow \<Rightarrow> 'i \<Rightarrow> bytes \<Rightarrow> key_id \<Rightarrow> bytes \<Rightarrow> noise_cipher \<Rightarrow> noise_cipher \<Rightarrow> bool" where
  "handshake_agrees X S h static_key key client_pub N P \<longleftrightarrow>
     (\<exists>h1 m1 r1 r2 m2 h2 h3 m3 r3.
        xi_write1 X h = Some (h1, m1) \<and> xk_read1 S static_key key m1 = Some r1 \<and> xk_write2 S r1 = Some (r2, m2) \<and>
        xi_read2 X h1 m2 = Some h2 \<and> xi_write3 X h2 = Some (h3, m3) \<and> xk_read3 S r2 m3 = Some (r3, Some client_pub) \<and>
        xi_transport X h3 = Some N \<and> xk_transport S r3 = Some P \<and> delivers N P \<and> delivers P N \<and>
        length m1 \<le> MAX_FRAME_LEN \<and> length m2 \<le> MAX_FRAME_LEN \<and> length m3 \<le> MAX_FRAME_LEN)"

lemma conn_read_wire:
  "length f \<le> MAX_FRAME_LEN \<Longrightarrow> conn_rx st = frame_wire f @ rest \<Longrightarrow> conn_read_frame st = (Inr f, st\<lparr>conn_rx := rest\<rparr>)"
  using read_frame_wire by (simp add: conn_read_frame_def)

lemma conn_read_empty: "conn_rx st = [] \<Longrightarrow> conn_read_frame st = (Inl (ConnFrame FrameLenEof), st)"
  by (simp add: conn_read_frame_def read_frame_def read_frame_optional_def c_bind_def)

lemma conn_write_wire:
  "length f \<le> MAX_FRAME_LEN \<Longrightarrow> conn_write_frame f st = (Inr (), st\<lparr>conn_tx := conn_tx st @ frame_wire f\<rparr>)"
  by (simp add: conn_write_frame_def write_frame_def MAX_FRAME_LEN_def)

lemma client_read_frame_server:
  assumes W: "W = server_tcp S d K sk ip net"
    and out: "conn_tx (snd (server_after S d K sk ip (cl_world s))) = pre @ frame_wire f @ post" and pos: "tw_pos (cl_world s) = length pre"
    and len: "length f \<le> MAX_FRAME_LEN"
  shows "client_read_frame W c s = (Inr f, s\<lparr>cl_world := (cl_world s)\<lparr>tw_pos := length pre + 2 + length f\<rparr>\<rparr>)"
proof -
  have f16: "length f < 2 ^ 16" using len by (simp add: MAX_FRAME_LEN_def)
  let ?w1 = "(cl_world s)\<lparr>tw_pos := Suc (Suc (length pre))\<rparr>"
  have r1: "tcp_read_exact W c 2 (cl_world s) = (ReadAll (to_be_bytes16 (word_of_nat (length f))), ?w1)"
    using out pos by (simp add: W server_tcp_def client_net.extend_def frame_wire_def)
  have "server_after S d K sk ip ?w1 = server_after S d K sk ip (cl_world s)" by (simp add: server_after_def)
  then have r2: "tcp_read_exact W c (length f) ?w1 = (ReadAll f, ?w1\<lparr>tw_pos := length pre + 2 + length f\<rparr>)"
    using out by (simp add: W server_tcp_def client_net.extend_def frame_wire_def)
  show ?thesis
    using unat_len16 [OF f16]
    by (simp add: client_read_frame_def client_read_frame_optional_def c_bind_def on_world_def r1 r2 del: unsigned_of_nat from_to_be_bytes)
qed

lemma client_write_frame_server:
  assumes "W = server_tcp S d K sk ip net" and "length f \<le> MAX_FRAME_LEN"
  shows "client_write_frame W c f s = (Inr (), s\<lparr>cl_world := (cl_world s)\<lparr>tw_sent := tw_sent (cl_world s) @ frame_wire f\<rparr>\<rparr>)"
  using assms(2)
  by (simp add: client_write_frame_def assms(1) server_tcp_def client_net.extend_def on_world_def c_bind_def frame_wire_def MAX_FRAME_LEN_def)


text \<open>The server on the first message alone, and on the whole conversation.\<close>

lemma server_first_message:
  assumes "conn_lookup K ip (st\<lparr>conn_rx := frame_wire m1, conn_tx := []\<rparr>) = (Inr src, st1)"
    and "conn_rx st1 = frame_wire m1" "conn_tx st1 = []"
    and "xk_read1 S sk (ae_key_id (src_entry src)) m1 = Some r1" and "xk_write2 S r1 = Some (r2, m2)"
    and "length m1 \<le> MAX_FRAME_LEN" and "length m2 \<le> MAX_FRAME_LEN"
  shows "conn_tx (snd (handle_connection S d K sk (V4 ip) (st\<lparr>conn_rx := frame_wire m1, conn_tx := []\<rparr>))) = frame_wire m2"
  using assms
  by (simp add: handle_connection_def c_bind_def handshake_def conn_read_wire [where rest = "[]"] conn_write_wire conn_read_empty)

lemma server_whole_conversation:
  assumes "conn_lookup K ip st0 = (Inr src, st1)"
    and "conn_rx st1 = frame_wire m1 @ frame_wire m3 @ frame_wire (cipher_enc N 0 request)" "conn_tx st1 = []"
    and "xk_read1 S sk (ae_key_id (src_entry src)) m1 = Some r1" and "xk_write2 S r1 = Some (r2, m2)"
    and "xk_read3 S r2 m3 = Some (r3, Some (src_noise_public_key src))" and "xk_transport S r3 = Some P"
    and "length m1 \<le> MAX_FRAME_LEN" "length m2 \<le> MAX_FRAME_LEN" "length m3 \<le> MAX_FRAME_LEN" and to_server: "delivers N P" and to_client: "delivers P N"
    and "acquire_session (conn_sessions st1) (ae_key_id (src_entry src)) (src_max_concurrent_sessions src) = (True, counts)"
    and "request \<noteq> []" "hd request = PROTOCOL_GHOST_RELAY" "length request \<le> max_plaintext_len"
    and "d (ae_key_id (src_entry src)) request (conn_relay st1) = (response, r')" "length response \<le> max_plaintext_len"
  shows "\<exists>st'. handle_connection S d K sk (V4 ip) st0 = (Inr (Relayed response), st') \<and>
    conn_tx st' = frame_wire m2 @ frame_wire (cipher_enc P 0 response) \<and> conn_relay st' = r'"
proof -
  have enc: "length (cipher_enc N 0 request) \<le> MAX_FRAME_LEN" "length (cipher_enc P 0 response) \<le> MAX_FRAME_LEN"
    using cipher_enc_small [OF to_server] cipher_enc_small [OF to_client] assms(16,18) by simp_all
  have wm: "write_message P 0 MAX_FRAME_LEN response = Some (cipher_enc P 0 response)"
    using assms(18) by (simp add: write_message_def frame_len_defs)
  have hs: "handshake S sk (ae_key_id (src_entry src)) st1 =
      (Inr (r3, Some (src_noise_public_key src)), st1\<lparr>conn_rx := frame_wire (cipher_enc N 0 request), conn_tx := frame_wire m2\<rparr>)"
    using assms by (simp add: handshake_def c_bind_def conn_read_wire conn_write_wire)
  have first: "conn_read_frame (st1\<lparr>conn_rx := frame_wire (cipher_enc N 0 request), conn_tx := frame_wire m2, conn_sessions := counts\<rparr>) =
      (Inr (cipher_enc N 0 request), st1\<lparr>conn_rx := [], conn_tx := frame_wire m2, conn_sessions := counts\<rparr>)"
    using conn_read_wire [OF enc(1), where rest = "[]" and
        st = "st1\<lparr>conn_rx := frame_wire (cipher_enc N 0 request), conn_tx := frame_wire m2, conn_sessions := counts\<rparr>"] by simp
  have ne: "PROTOCOL_GHOST_RELAY \<noteq> PROTOCOL_SOCKS5" by (simp add: PROTOCOL_GHOST_RELAY_def PROTOCOL_SOCKS5_def)
  show ?thesis
    using assms(1,7,13-15,17) ne
    by (simp add: handle_connection_def c_bind_def hs verify_client_noise_static_def with_session_def serve_session_def
        read_encrypted_frame_def first deliversD(1) [OF to_server] handle_ghost_relay_def write_encrypted_frame_def wm conn_write_wire [OF enc(2)])
qed

lemma conn_lookup_frame:
  assumes "conn_lookup K ip st = (r, st1)"
  shows "st1 = st\<lparr>conn_runtime := conn_runtime st1\<rparr>"
    and "conn_lookup K ip (st\<lparr>conn_rx := a, conn_tx := b\<rparr>) = (r, st1\<lparr>conn_rx := a, conn_tx := b\<rparr>)"
  using assms by (auto simp: conn_lookup_def split: prod.splits)

section \<open>Properties\<close>

text \<open>
  C7. One relay exchange works end to end: with a source the server has admitted, a free session
  slot and an honest handshake, from which the two ends come out with transports that decrypt each
  other's messages, and with a request and a response that each fit one frame (at most
  \<open>max_plaintext_len\<close> bytes), the client's request travels through its frames and cipher to the
  server's connection handler and the relay, and the client gets exactly the relay's response for
  that key identifier; the server's side ends with that response served and the relay's new state.
\<close>

theorem tunnel_request_served:
  fixes s :: "'r tunnel_world client"
  assumes W: "W = server_tcp S dispatch K static_key ip net"
    and look: "conn_lookup K ip (tw_server (cl_world s)) = (Inr src, st1)"
    and agree: "handshake_agrees X S h static_key (ae_key_id (src_entry src)) (src_noise_public_key src) N P"
    and slot: "acquire_session (conn_sessions (tw_server (cl_world s))) (ae_key_id (src_entry src)) (src_max_concurrent_sessions src) = (True, counts)"
    and req: "request \<noteq> []" "hd request = PROTOCOL_GHOST_RELAY" "length request \<le> max_plaintext_len"
    and disp: "dispatch (ae_key_id (src_entry src)) request (conn_relay (tw_server (cl_world s))) = (response, r')"
    and resp: "length response \<le> max_plaintext_len"
    and fresh: "tw_sent (cl_world s) = []" "tw_pos (cl_world s) = 0"
  shows "\<exists>s'. c_bind (client_handshake W X 0 h) (\<lambda>N. relay_exchange W 0 N request) s = (Inr response, s') \<and>
    fst (server_after S dispatch K static_key ip (cl_world s')) = Inr (Relayed response) \<and>
    conn_relay (snd (server_after S dispatch K static_key ip (cl_world s'))) = r'"
proof -
  obtain h1 m1 r1 r2 m2 h2 h3 m3 r3 where
      x: "xi_write1 X h = Some (h1, m1)" "xi_read2 X h1 m2 = Some h2" "xi_write3 X h2 = Some (h3, m3)" "xi_transport X h3 = Some N"
    and y: "xk_read1 S static_key (ae_key_id (src_entry src)) m1 = Some r1" "xk_write2 S r1 = Some (r2, m2)"
      "xk_read3 S r2 m3 = Some (r3, Some (src_noise_public_key src))" "xk_transport S r3 = Some P"
    and dir: "delivers N P" "delivers P N"
    and len: "length m1 \<le> MAX_FRAME_LEN" "length m2 \<le> MAX_FRAME_LEN" "length m3 \<le> MAX_FRAME_LEN"
    using agree unfolding handshake_agrees_def by blast
  let ?w = "cl_world s" and ?enc = "cipher_enc N 0 request" and ?out = "cipher_enc P 0 response"
  have enc: "length ?enc \<le> MAX_FRAME_LEN" "length ?out \<le> MAX_FRAME_LEN"
    using cipher_enc_small [OF dir(1)] cipher_enc_small [OF dir(2)] req(3) resp by simp_all
  note st1 = conn_lookup_frame(1) [OF look]
  have fields: "conn_sessions st1 = conn_sessions (tw_server ?w)" "conn_relay st1 = conn_relay (tw_server ?w)"
    by (subst st1; simp)+
  let ?w1 = "?w\<lparr>tw_sent := frame_wire m1\<rparr>"
  have out1: "conn_tx (snd (server_after S dispatch K static_key ip ?w1)) = [] @ frame_wire m2 @ []"
    using server_first_message [OF conn_lookup_frame(2) [OF look] _ _ y(1,2) len(1,2)] by (simp add: server_after_def)
  let ?w3 = "?w\<lparr>tw_sent := frame_wire m1 @ frame_wire m3 @ frame_wire ?enc, tw_pos := Suc (Suc (length m2))\<rparr>"
  have "\<exists>st'. handle_connection S dispatch K static_key (V4 ip)
        (tw_server ?w\<lparr>conn_rx := frame_wire m1 @ frame_wire m3 @ frame_wire ?enc, conn_tx := []\<rparr>) = (Inr (Relayed response), st') \<and>
      conn_tx st' = frame_wire m2 @ frame_wire ?out \<and> conn_relay st' = r'"
    by (rule server_whole_conversation [OF conn_lookup_frame(2) [OF look] _ _ y len dir])
      (use slot req disp resp fields in simp_all)
  then obtain st' where all: "server_after S dispatch K static_key ip ?w3 = (Inr (Relayed response), st')"
    and tx: "conn_tx st' = frame_wire m2 @ frame_wire ?out" and rel: "conn_relay st' = r'"
    by (auto simp: server_after_def)
  let ?s1 = "s\<lparr>cl_world := ?w1\<rparr>" and ?s3 = "s\<lparr>cl_world := ?w3\<rparr>"
  have w1: "client_write_frame W 0 m1 s = (Inr (), ?s1)"
    using client_write_frame_server [OF W len(1)] fresh by simp
  have rd1: "client_read_frame W 0 ?s1 = (Inr m2, s\<lparr>cl_world := ?w1\<lparr>tw_pos := Suc (Suc (length m2))\<rparr>\<rparr>)"
    using client_read_frame_server [OF W, of ?s1 "[]" m2 "[]"] out1 fresh len(2) by simp
  have hs: "client_handshake W X 0 h s =
      (Inr N, s\<lparr>cl_world := ?w\<lparr>tw_sent := frame_wire m1 @ frame_wire m3, tw_pos := Suc (Suc (length m2))\<rparr>\<rparr>)"
    using client_write_frame_server [OF W len(3)]
    by (simp add: client_handshake_def c_bind_def x w1 rd1)
  have wm: "write_message N 0 CLIENT_BUF_LEN request = Some ?enc"
    using req(3) by (simp add: write_message_def CLIENT_BUF_LEN_def frame_len_defs)
  have w3: "client_write_encrypted_frame W 0 N 0 request (s\<lparr>cl_world := ?w\<lparr>tw_sent := frame_wire m1 @ frame_wire m3, tw_pos := Suc (Suc (length m2))\<rparr>\<rparr>) =
      (Inr (), ?s3)"
    using client_write_frame_server [OF W enc(1)] by (simp add: client_write_encrypted_frame_def c_bind_def wm)
  let ?s4 = "s\<lparr>cl_world := ?w3\<lparr>tw_pos := Suc (Suc (Suc (Suc (length m2 + length ?out))))\<rparr>\<rparr>"
  have rd3: "client_read_frame W 0 ?s3 = (Inr ?out, ?s4)"
    using client_read_frame_server [OF W, of ?s3 "frame_wire m2" ?out "[]"] all tx enc(2) by simp
  have "length response \<le> CLIENT_BUF_LEN" using resp by (simp add: frame_len_defs CLIENT_BUF_LEN_def)
  then have "c_bind (client_handshake W X 0 h) (\<lambda>N. relay_exchange W 0 N request) s = (Inr response, ?s4)"
    by (simp add: c_bind_def hs relay_exchange_def w3 client_read_encrypted_frame_def rd3 deliversD(1) [OF dir(2)])
  moreover have "server_after S dispatch K static_key ip (cl_world ?s4) = (Inr (Relayed response), st')"
    using all by (simp add: server_after_def)
  ultimately show ?thesis using rel by (intro exI [of _ ?s4]) simp
qed

definition toy_initiator :: "unit xk_initiator" where
  "toy_initiator = \<lparr>xi_new = (\<lambda>_ _ _. Some ()), xi_write1 = (\<lambda>_. Some ((), [1])), xi_read2 = (\<lambda>_ _. Some ()),
     xi_write3 = (\<lambda>_. Some ((), [3])), xi_transport = (\<lambda>_. Some toy_peer)\<rparr>"

definition demo_tunnel :: "nat tunnel_world" where
  "demo_tunnel = \<lparr>tw_server = demo_conn, tw_sent = [], tw_pos = 0\<rparr>"

definition idle_net :: "'w client_net" where
  "idle_net = \<lparr>udp_send = (\<lambda>_ _ w. (False, w)), https_post = (\<lambda>_ _ w. (None, w)), parse_http_date = (\<lambda>_. None)\<rparr>"

theorem tunnel_request_served_witness:
  "\<exists>s'. c_bind (client_handshake (server_tcp (toy_snow (replicate 32 2)) (\<lambda>key req n. (key, n + 1)) demo_clocks [] 7 idle_net) toy_initiator 0 ())
      (\<lambda>N. relay_exchange (server_tcp (toy_snow (replicate 32 2)) (\<lambda>key req n. (key, n + 1)) demo_clocks [] 7 idle_net) 0 N [PROTOCOL_GHOST_RELAY])
      (demo_client_state demo_tunnel) = (Inr (replicate 8 1), s')"
proof -
  let ?d = "\<lambda>(key :: key_id) (req :: bytes) (n :: nat). (key, n + 1)"
  let ?S = "toy_snow (replicate 32 2)" and ?s = "demo_client_state demo_tunnel"
  have mono: "monotonic_now_ns (Some (100, 0)) = Inr 100000000000"
    by (simp add: monotonic_now_ns_def try_u64_def saturating_mul_def saturating_add_def)
  obtain src st1 where look: "conn_lookup demo_clocks 7 demo_conn = (Inr src, st1)"
    and src: "ae_key_id (src_entry src) = replicate 8 1" "src_noise_public_key src = replicate 32 2" "src_max_concurrent_sessions src = None"
    by (simp add: conn_lookup_def lookup_source_def read_mono_def demo_conn_def demo_runtime_def demo_clocks_def mono hm_get_def)
  have agree: "handshake_agrees toy_initiator ?S () [] (ae_key_id (src_entry src)) (src_noise_public_key src) toy_peer toy_cipher"
    by (simp add: src handshake_agrees_def toy_delivers toy_initiator_def toy_snow_def MAX_FRAME_LEN_def)
  obtain c where slot: "acquire_session (conn_sessions demo_conn) (replicate 8 1) None = (True, c)"
    by (simp add: acquire_session_def Let_def)
  show ?thesis
    using tunnel_request_served [OF refl _ agree, where K = demo_clocks and ip = 7 and s = ?s and ?st1.0 = st1 and counts = c
        and request = "[PROTOCOL_GHOST_RELAY]" and dispatch = ?d and response = "replicate 8 1" and r' = 1 and net = idle_net]
      look slot src
    by (simp add: demo_client_state_def demo_tunnel_def frame_len_defs) (auto simp: demo_conn_def)
qed

end
