(* ===== verification/Client_Config.thy ===== *)
theory Client_Config
  imports Client_Tunnel
begin

text \<open>
  The client's configuration and the choice of servers (\<open>ghostbro-client/src/main.rs\<close>): enrolment,
  resolving a configuration into candidates, their order, the failover rounds, the refresh of the
  grant, and the revocation notice. The TOML codec of the configuration, the display of IPv6
  addresses, the shuffle and the latency probe are parameters.
\<close>

section \<open>Data\<close>

record ServerConfigEntry =
  sc_endpoint :: string
  sc_spa_endpoint :: string
  sc_spa_mode :: SpaTransport
  sc_spa_port :: u16
  sc_server_public_key :: string
  sc_priority :: "u32 option"

record FailoverConfig =
  fo_strategy :: string
  fo_retry_interval_ms :: u64
  fo_max_retries :: u32

record ClientConfig =
  cc_servers :: "ServerConfigEntry list"
  cc_failover :: "FailoverConfig option"

datatype FailoverStrategy = Priority | Random | Latency

record FailoverPolicy =
  fp_strategy :: FailoverStrategy
  fp_retry_interval_ms :: u64
  fp_max_retries :: u32

record ResolvedConnectConfig =
  rc_server_public_key :: bytes
  rc_spa_endpoint :: sock_addr
  rc_proxy_endpoint :: sock_addr
  rc_spa_mode :: SpaTransport
  rc_https_spa_url :: "string option"

record config_env = client_env +
  config_to_toml :: "ClientConfig \<Rightarrow> string option"
  config_from_toml :: "string \<Rightarrow> ClientConfig option"
  show_ipv6 :: "bytes \<Rightarrow> string"

definition FailoverStrategy_parse :: "string \<Rightarrow> client_error + FailoverStrategy" where
  "FailoverStrategy_parse value =
     (let v = to_ascii_lowercase value in
      if v = ''priority'' then Inr Priority
      else if v = ''random'' then Inr Random
      else if v = ''latency'' then Inr Latency
      else Inl (BadConfig v))"

definition FailoverPolicy_default :: FailoverPolicy where
  "FailoverPolicy_default = \<lparr>fp_strategy = Priority, fp_retry_interval_ms = 0, fp_max_retries = 0\<rparr>"

definition FailoverPolicy_from_config :: "ClientConfig \<Rightarrow> client_error + FailoverPolicy" where
  "FailoverPolicy_from_config config =
     (case cc_failover config of
        None \<Rightarrow> Inr FailoverPolicy_default
      | Some failover \<Rightarrow>
          and_then (FailoverStrategy_parse (fo_strategy failover)) (\<lambda>strategy.
            Inr \<lparr>fp_strategy = strategy, fp_retry_interval_ms = fo_retry_interval_ms failover,
                 fp_max_retries = fo_max_retries failover\<rparr>))"

section \<open>Enrolment and resolution\<close>

definition show_ip :: "('x config_env_scheme) \<Rightarrow> ip_addr \<Rightarrow> string" where
  "show_ip E ip = (case ip of V4 a \<Rightarrow> show_ipv4 a | V6 bs \<Rightarrow> show_ipv6 E bs)"

definition enroll ::
    "('x config_env_scheme) \<Rightarrow> string \<Rightarrow> string \<Rightarrow> SpaTransport \<Rightarrow> u16 \<Rightarrow> path \<Rightarrow> ('w, unit) client_comp" where
  "enroll E server_key endpoint tmode port output =
     c_bind (c_lift (client_decode_noise_public_key (cl_crypto E) server_key)) (\<lambda>_.
     c_bind (c_lift (ok_or (BadConfig endpoint) (parse_socket_addr endpoint))) (\<lambda>(ip, _).
       let config = \<lparr>cc_servers = [\<lparr>sc_endpoint = endpoint, sc_spa_endpoint = show_ip E ip, sc_spa_mode = tmode, sc_spa_port = port,
                       sc_server_public_key = server_key, sc_priority = Some 1\<rparr>],
                     cc_failover = Some \<lparr>fo_strategy = ''priority'', fo_retry_interval_ms = 5000, fo_max_retries = 3\<rparr>\<rparr>
       in c_bind (c_lift (ok_or SerializeFailed (config_to_toml E config))) (\<lambda>contents.
          c_bind (case parent output of
                    Some p \<Rightarrow> if p = [] then c_lift (Inr ()) else cl_io ConfigFile (io_create_dir_all p)
                  | None \<Rightarrow> c_lift (Inr ())) (\<lambda>_.
            cl_io ConfigFile (io_write output (as_bytes contents))))))"

definition load_client_config :: "('x config_env_scheme) \<Rightarrow> path \<Rightarrow> ('w, ClientConfig) client_comp" where
  "load_client_config E path =
     c_bind (cl_io ConfigFile (io_read_to_string path)) (\<lambda>contents.
       c_lift (ok_or (BadConfig ''failed to parse'') (config_from_toml E contents)))"

text \<open>\<open>sort_by_key\<close> is stable.\<close>

definition ordered_servers :: "ClientConfig \<Rightarrow> client_error + ServerConfigEntry list" where
  "ordered_servers config =
     (if cc_servers config = [] then Inl (BadConfig ''client config has no servers'')
      else Inr (sort_key (\<lambda>server. case sc_priority server of None \<Rightarrow> - 1 | Some p \<Rightarrow> p) (cc_servers config)))"

definition parse_spa_endpoint :: "string \<Rightarrow> u16 \<Rightarrow> client_error + sock_addr" where
  "parse_spa_endpoint host port =
     (case parse_socket_addr host of
        Some addr \<Rightarrow> Inr addr
      | None \<Rightarrow> ok_or (BadConfig host) (parse_socket_addr (host @ '':'' @ nat_digits (unat port))))"

definition https_spa_url_for :: "ServerConfigEntry \<Rightarrow> SpaTransport \<Rightarrow> string option" where
  "https_spa_url_for server tmode =
     (case tmode of
        TransportUdp \<Rightarrow> None
      | TransportHttps \<Rightarrow>
          Some (''https://'' @ sc_spa_endpoint server @ '':'' @ nat_digits (unat (sc_spa_port server)) @ ''/api/v1/telemetry''))"

definition resolve_server ::
    "('x config_env_scheme) \<Rightarrow> SpaTransport option \<Rightarrow> string option \<Rightarrow> ServerConfigEntry \<Rightarrow> client_error + ResolvedConnectConfig" where
  "resolve_server E mode_override url_override server =
     and_then (ok_or (BadConfig (sc_endpoint server)) (parse_socket_addr (sc_endpoint server))) (\<lambda>proxy_endpoint.
     and_then (parse_spa_endpoint (sc_spa_endpoint server) (sc_spa_port server)) (\<lambda>spa_endpoint.
       let tmode = (case mode_override of Some m \<Rightarrow> m | None \<Rightarrow> sc_spa_mode server);
           url = (case url_override of Some u \<Rightarrow> Some u | None \<Rightarrow> https_spa_url_for server tmode)
       in and_then (client_decode_noise_public_key (cl_crypto E) (sc_server_public_key server)) (\<lambda>key.
            Inr \<lparr>rc_server_public_key = key, rc_spa_endpoint = spa_endpoint, rc_proxy_endpoint = proxy_endpoint,
                 rc_spa_mode = tmode, rc_https_spa_url = url\<rparr>)))"

definition resolve_connect_configs ::
    "('x config_env_scheme) \<Rightarrow> path option \<Rightarrow> path option \<Rightarrow> sock_addr option \<Rightarrow> sock_addr option \<Rightarrow> SpaTransport option \<Rightarrow> string option
     \<Rightarrow> ('w, ResolvedConnectConfig list \<times> FailoverPolicy) client_comp" where
  "resolve_connect_configs E config_path server_key spa_endpoint proxy_endpoint mode_override url_override =
     (case config_path of
        Some path \<Rightarrow>
          c_bind (load_client_config E path) (\<lambda>config.
          c_bind (c_lift (FailoverPolicy_from_config config)) (\<lambda>policy.
          c_bind (c_lift (ordered_servers config)) (\<lambda>servers.
          c_bind (c_lift (collect_results (map (resolve_server E mode_override url_override) servers))) (\<lambda>resolved.
            c_lift (Inr (resolved, policy))))))
      | None \<Rightarrow>
          c_bind (c_lift (ok_or (BadConfig ''--server-key'') server_key)) (\<lambda>key_file.
          c_bind (c_lift (ok_or (BadConfig ''--spa-endpoint'') spa_endpoint)) (\<lambda>spa.
          c_bind (c_lift (ok_or (BadConfig ''--proxy-endpoint'') proxy_endpoint)) (\<lambda>proxy.
          c_bind (read_noise_public_key (client_env.truncate E) key_file) (\<lambda>key.
            c_lift (Inr ([\<lparr>rc_server_public_key = key, rc_spa_endpoint = spa, rc_proxy_endpoint = proxy,
                           rc_spa_mode = (case mode_override of Some m \<Rightarrow> m | None \<Rightarrow> TransportUdp),
                           rc_https_spa_url = url_override\<rparr>], FailoverPolicy_default)))))))"

section \<open>Revocation notice\<close>

definition revoke_url_for :: "ServerConfigEntry \<Rightarrow> string option" where
  "revoke_url_for server =
     (if sc_spa_mode server = TransportHttps
      then Some (''https://'' @ sc_spa_endpoint server @ '':'' @ nat_digits (unat (sc_spa_port server)) @ ''/api/v1/revoke'')
      else None)"

definition revoke_request_body :: "string \<Rightarrow> string option \<Rightarrow> string" where
  "revoke_request_body action key_id =
     (let q = [CHR 0x22] in
      case key_id of
        Some k \<Rightarrow> ''{'' @ q @ ''action'' @ q @ '':'' @ q @ action @ q @ '','' @ q @ ''key_id'' @ q @ '':'' @ q @ k @ q @ ''}''
      | None \<Rightarrow> ''{'' @ q @ ''action'' @ q @ '':'' @ q @ action @ q @ '','' @ q @ ''key_id'' @ q @ '':null}'')"

text \<open>The loop over the servers: how many were notified, of how many tried.\<close>

fun notify_servers :: "('w, 'x) client_net_scheme \<Rightarrow> bytes \<Rightarrow> ServerConfigEntry list \<Rightarrow> nat \<times> nat \<Rightarrow> ('w, nat \<times> nat) client_comp" where
  "notify_servers W body [] acc = c_lift (Inr acc)"
| "notify_servers W body (server # servers) (attempted, succeeded) =
     (case revoke_url_for server of
        None \<Rightarrow> notify_servers W body servers (attempted, succeeded)
      | Some url \<Rightarrow>
          c_bind (on_world (https_post W url body)) (\<lambda>response.
            notify_servers W body servers
              (attempted + 1, case response of
                                Some (status, _) \<Rightarrow> if (200 \<le> status \<and> status < 300) \<or> status = 204 then succeeded + 1 else succeeded
                              | None \<Rightarrow> succeeded)))"

definition revoke :: "('x config_env_scheme) \<Rightarrow> ('w, 'y) client_net_scheme \<Rightarrow> path \<Rightarrow> path option \<Rightarrow> ('w, nat \<times> nat) client_comp" where
  "revoke E W config_path identity_key =
     c_bind (load_client_config E config_path) (\<lambda>config.
     c_bind (case identity_key of
               None \<Rightarrow> c_lift (Inr None)
             | Some p \<Rightarrow> c_bind (read_signing_key (client_env.truncate E) p) (\<lambda>sk.
                  c_lift (Inr (Some (key_id_hex (key_id_for_public_key (cl_crypto E) (ed_public (cl_crypto E) sk))))))) (\<lambda>key_id.
       notify_servers W (as_bytes (revoke_request_body ''revoke'' key_id)) (cc_servers config) (0, 0)))"

section \<open>Facts\<close>

text \<open>The configuration file is what \<open>toml\<close> reads back.\<close>

definition config_toml_ok :: "('x config_env_scheme) \<Rightarrow> bool" where
  "config_toml_ok E \<longleftrightarrow>
     (\<forall>c t. config_to_toml E c = Some t \<longrightarrow> config_from_toml E t = Some c \<and> valid_str t)"

definition enrolled_config :: "string \<Rightarrow> string \<Rightarrow> string \<Rightarrow> SpaTransport \<Rightarrow> u16 \<Rightarrow> ClientConfig" where
  "enrolled_config server_key endpoint host tmode port =
     \<lparr>cc_servers = [\<lparr>sc_endpoint = endpoint, sc_spa_endpoint = host, sc_spa_mode = tmode, sc_spa_port = port,
        sc_server_public_key = server_key, sc_priority = Some 1\<rparr>],
      cc_failover = Some \<lparr>fo_strategy = ''priority'', fo_retry_interval_ms = 5000, fo_max_retries = 3\<rparr>\<rparr>"

lemma enroll_Inr:
  assumes "enroll E server_key endpoint tmode port output s = (Inr (), s')" and "config_toml_ok E"
  shows "\<exists>key ip p t. client_decode_noise_public_key (cl_crypto E) server_key = Inr key \<and> parse_socket_addr endpoint = Some (ip, p) \<and>
    config_from_toml E t = Some (enrolled_config server_key endpoint (show_ip E ip) tmode port) \<and> valid_str t \<and>
    content (cl_host s') output = Some (as_bytes t)"
proof -
  obtain key ip p t s1 where "client_decode_noise_public_key (cl_crypto E) server_key = Inr key" "parse_socket_addr endpoint = Some (ip, p)"
    and t: "config_to_toml E (enrolled_config server_key endpoint (show_ip E ip) tmode port) = Some t"
    and w: "cl_io ConfigFile (io_write output (as_bytes t)) s1 = (Inr (), s')"
    using assms(1) by (auto simp: enroll_def enrolled_config_def comp_eqs result_eqs Let_def)
  moreover have "content (cl_host s') output = Some (as_bytes t)"
    using w by (auto simp: cl_io_def result_eqs split: prod.splits dest: io_write_Inr)
  ultimately show ?thesis using assms(2) by (auto simp: config_toml_ok_def)
qed

lemma load_client_config_content:
  assumes "content (cl_host s) path = Some (as_bytes t)" and "config_from_toml E t = Some c" and "valid_str t" and "quiet (cl_host s)"
  shows "\<exists>s'. load_client_config E path s = (Inr c, s')"
  using assms
  by (simp add: load_client_config_def cl_io_def io_read_to_string_def io_read_quiet from_utf8_as_bytes c_bind_def c_lift_def)

lemma resolve_enrolled:
  assumes "load_client_config E path s = (Inr (enrolled_config server_key endpoint host tmode port), s')"
  shows "fst (resolve_connect_configs E (Some path) None None None None None s) =
    and_then (resolve_server E None None
        \<lparr>sc_endpoint = endpoint, sc_spa_endpoint = host, sc_spa_mode = tmode, sc_spa_port = port,
          sc_server_public_key = server_key, sc_priority = Some 1\<rparr>)
      (\<lambda>r. Inr ([r], \<lparr>fp_strategy = Priority, fp_retry_interval_ms = 5000, fp_max_retries = 3\<rparr>))"
proof -
  have "FailoverStrategy_parse ''priority'' = Inr Priority" by code_simp
  with assms show ?thesis
    by (simp add: resolve_connect_configs_def enrolled_config_def c_bind_def c_lift_def FailoverPolicy_from_config_def
        ordered_servers_def and_then_def split: sum.splits)
qed

text \<open>A host that reads up to a colon without dot or bracket is no socket address, whatever follows.\<close>

lemma take_digits_colon:
  assumes "CHR ''.'' \<notin> set ds"
  shows "\<exists>xs c r. take_digits 10 (ds @ CHR '':'' # rest) = (xs, c # r) \<and> c \<noteq> CHR ''.''"
  using assms
proof (induction ds)
  case Nil
  have "digit_value CHR '':'' = None" by code_simp
  then show ?case by simp
next
  case (Cons d ds)
  then obtain xs c r where "take_digits 10 (ds @ CHR '':'' # rest) = (xs, c # r)" "c \<noteq> CHR ''.''" by auto
  then show ?case using Cons.prems by (cases "digit_value d") auto
qed

lemma parse_no_bracket:
  assumes "CHR ''.'' \<notin> set ds" and "CHR ''['' \<notin> set ds"
  shows "parse_socket_addr (ds @ CHR '':'' # rest) = None"
proof -
  obtain xs c r where t: "take_digits 10 (ds @ CHR '':'' # rest) = (xs, c # r)" "c \<noteq> CHR ''.''"
    using take_digits_colon [OF assms(1)] by blast
  then have "read_ipv4 (ds @ CHR '':'' # rest) = None"
    by (simp add: read_ipv4_def read_number_def Let_def read_char_def)
  moreover have "read_char CHR ''['' (ds @ CHR '':'' # rest) = None"
    using assms(2) by (cases ds) (auto simp: read_char_def)
  ultimately show ?thesis
    by (simp add: parse_socket_addr_def read_socket_addr_v4_def read_socket_addr_v6_def)
qed

section \<open>Properties\<close>

text \<open>
  C40. A server enrolled by its IPv4 address can be connected to: from the file \<open>enroll\<close> wrote,
  \<open>resolve_connect_configs\<close> reads back exactly one candidate, with the decoded server key, the same proxy
  address, the knock sent to the same host on the SPA port, and the retry policy of the file.
\<close>

theorem enroll_resolve_roundtrip:
  fixes s2 :: "'w client"
  assumes "enroll E server_key (show_ipv4 a @ CHR '':'' # nat_digits (unat p)) tmode port output s = (Inr (), s')"
    and "config_toml_ok E" and "content (cl_host s2) output = content (cl_host s') output" and "quiet (cl_host s2)"
  shows "\<exists>key. client_decode_noise_public_key (cl_crypto E) server_key = Inr key \<and>
    fst (resolve_connect_configs E (Some output) None None None None None s2) =
      Inr ([\<lparr>rc_server_public_key = key, rc_spa_endpoint = (V4 a, port), rc_proxy_endpoint = (V4 a, p), rc_spa_mode = tmode,
             rc_https_spa_url = (if tmode = TransportUdp then None
               else Some (''https://'' @ show_ipv4 a @ '':'' @ nat_digits (unat port) @ ''/api/v1/telemetry''))\<rparr>],
           \<lparr>fp_strategy = Priority, fp_retry_interval_ms = 5000, fp_max_retries = 3\<rparr>)"
proof -
  let ?ep = "show_ipv4 a @ CHR '':'' # nat_digits (unat p)"
  obtain key t where key: "client_decode_noise_public_key (cl_crypto E) server_key = Inr key"
    and t: "config_from_toml E t = Some (enrolled_config server_key ?ep (show_ipv4 a) tmode port)" "valid_str t"
      "content (cl_host s') output = Some (as_bytes t)"
    using enroll_Inr [OF assms(1,2)] by (auto simp: parse_shown_addr show_ip_def)
  obtain s3 where l: "load_client_config E output s2 = (Inr (enrolled_config server_key ?ep (show_ipv4 a) tmode port), s3)"
    using load_client_config_content [OF _ t(1,2) assms(4)] t(3) assms(3) by auto
  have "parse_spa_endpoint (show_ipv4 a) port = Inr (V4 a, port)"
    by (simp add: parse_spa_endpoint_def parse_shown_host parse_shown_addr)
  then show ?thesis
    using key by (cases tmode) (simp_all add: resolve_enrolled [OF l] resolve_server_def parse_shown_addr https_spa_url_for_def Let_def)
qed

text \<open>
  A server enrolled by its IPv6 address cannot be connected to: \<open>enroll\<close> accepts the bracketed
  address and succeeds, but it writes the bare host, which \<open>parse_spa_endpoint\<close> joins to the port without
  brackets, so that every connection from that file fails on its SPA endpoint.
\<close>

theorem enroll_ipv6_unusable:
  fixes s2 :: "'w client"
  assumes "enroll E server_key endpoint tmode port output s = (Inr (), s')" and "parse_socket_addr endpoint = Some (V6 bs, p)"
    and "show_ipv6 E bs = ds @ CHR '':'' # rest" and "CHR ''.'' \<notin> set ds" and "CHR ''['' \<notin> set ds"
    and "config_toml_ok E" and "content (cl_host s2) output = content (cl_host s') output" and "quiet (cl_host s2)"
  shows "fst (resolve_connect_configs E (Some output) None None None None None s2) = Inl (BadConfig (show_ipv6 E bs))"
proof -
  let ?host = "ds @ CHR '':'' # rest"
  obtain t where t: "config_from_toml E t = Some (enrolled_config server_key endpoint ?host tmode port)" "valid_str t"
      "content (cl_host s') output = Some (as_bytes t)"
    using enroll_Inr [OF assms(1,6)] assms(2,3) by (auto simp: show_ip_def)
  obtain s3 where l: "load_client_config E output s2 = (Inr (enrolled_config server_key endpoint ?host tmode port), s3)"
    using load_client_config_content [OF _ t(1,2) assms(8)] t(3) assms(7) by auto
  have "parse_spa_endpoint ?host port = Inl (BadConfig ?host)"
    using parse_no_bracket [OF assms(4,5), of rest] parse_no_bracket [OF assms(4,5), of "rest @ '':'' @ nat_digits (unat port)"]
    by (simp add: parse_spa_endpoint_def)
  then show ?thesis
    using assms(2,3) by (simp add: resolve_enrolled [OF l] resolve_server_def)
qed

section \<open>A concrete configuration\<close>

definition demo_config :: "string \<Rightarrow> string \<Rightarrow> ClientConfig" where
  "demo_config endpoint host = enrolled_config (key_id_hex (replicate 32 7)) endpoint host TransportUdp 62201"

definition demo_config_env :: "ClientConfig \<Rightarrow> config_env" where
  "demo_config_env config = client_env.extend demo_client_env
     \<lparr>config_to_toml = (\<lambda>c. if c = config then Some ''config'' else None),
      config_from_toml = (\<lambda>t. if t = ''config'' then Some config else None), show_ipv6 = (\<lambda>_. ''::1'')\<rparr>"

lemma demo_config_toml: "config_toml_ok (demo_config_env config)"
  by (simp add: config_toml_ok_def demo_config_env_def client_env.defs ascii_valid_str)

lemma demo_chars: "char_of (48 :: nat) = CHR ''0''" "char_of (55 :: nat) = CHR ''7''" "char_of (52 :: nat) = CHR ''4''" "char_of (51 :: nat) = CHR ''3''"
  by code_simp+

lemma demo_shown: "show_ipv4 7 = ''0.0.0.7''" "nat_digits 443 = ''443''"
  by (simp_all add: show_ipv4_def v4_octet_def nat_digits.simps digit_char_def demo_chars)

lemma demo_digits: "digit_value CHR ''['' = None" "digit_value CHR '']'' = None" "digit_value CHR '':'' = None" "digit_value CHR ''1'' = Some 1" "digit_value CHR ''4'' = Some 4" "digit_value CHR ''3'' = Some 3"
  by code_simp+

lemma demo_groups8: "read_groups 8 True ''::1]:443'' = ([], False, ''::1]:443'')"
  using read_groups.simps(2) [of 7 True "''::1]:443''"]
  by (simp add: sep_colon_def read_ipv4_def read_number_def demo_digits)

lemma demo_groups7: "read_groups 7 True ''1]:443'' = ([1], False, '']:443'')"
  using read_groups.simps(2) [of 6 True "''1]:443''"] read_groups.simps(2) [of 5 False "'']:443''"]
  by (simp add: sep_colon_def read_ipv4_def read_number_def demo_digits read_char_def)

lemma demo_ipv6: "read_ipv6 ''::1]:443'' = Some (groups_bytes (replicate 7 0 @ [1]), '']:443'')"
  unfolding read_ipv6_def demo_groups8 by (simp add: read_char_def demo_groups7)

lemma demo_addr6: "parse_socket_addr ''[::1]:443'' = Some (V6 (groups_bytes (replicate 7 0 @ [1])), 443)"
  by (simp add: parse_socket_addr_def read_socket_addr_v4_def read_socket_addr_v6_def read_ipv4_def read_number_def read_char_def
    demo_digits demo_ipv6 read_port_def read_scope_id_def)

lemma demo_server_key: "client_decode_noise_public_key hex_crypto (key_id_hex (replicate 32 7)) = Inr (replicate 32 7)"
proof -
  have "trim (key_id_hex (replicate 32 7)) = key_id_hex (replicate 32 7)"
    using hex_chars by (intro trim_id) auto
  then show ?thesis
    by (simp add: client_decode_noise_public_key_def hex_crypto_def key_id_chunks_hex)
qed

lemma demo_enroll:
  assumes "parse_socket_addr endpoint = Some (ip, p)" and "host = show_ip (demo_config_env (demo_config endpoint host)) ip"
  shows "\<exists>s'. enroll (demo_config_env (demo_config endpoint host)) (key_id_hex (replicate 32 7)) endpoint TransportUdp 62201
    [''home'', ''server.toml''] (demo_client_state ()) = (Inr (), s')"
proof -
  let ?E = "demo_config_env (demo_config endpoint host)" and ?s = "demo_client_state ()"
  have c: "cl_crypto ?E = hex_crypto" by (simp add: demo_config_env_def client_env.defs demo_client_env_def)
  have t: "config_to_toml ?E (enrolled_config (key_id_hex (replicate 32 7)) endpoint (show_ip ?E ip) TransportUdp 62201) = Some ''config''"
    using assms(2) by (simp add: demo_config_env_def client_env.defs demo_config_def)
  obtain s1 where m: "cl_io ConfigFile (io_create_dir_all [''home'']) ?s = (Inr (), s1)"
    and s1: "quiet (cl_host s1)" "[''home'', ''server.toml''] \<notin> set (dirs (cl_host s1))" "parent_exists (cl_host s1) [''home'', ''server.toml'']"
    by (simp add: cl_io_def demo_client_state_def io_create_dir_all_def io_call_def path_prefixes_def quiet_def parent_exists_def parent_def)
  obtain s2 where w: "cl_io ConfigFile (io_write [''home'', ''server.toml''] (as_bytes ''config'')) s1 = (Inr (), s2)"
    using cl_write_quiet [OF s1] by blast
  show ?thesis
    by (rule exI [of _ s2])
      (simp add: enroll_def c demo_server_key assms(1) c_bind_def c_lift_def parent_def m w t [unfolded enrolled_config_def])
qed

theorem enroll_resolve_roundtrip_witness:
  "\<exists>s'. enroll (demo_config_env (demo_config ''0.0.0.7:443'' ''0.0.0.7'')) (key_id_hex (replicate 32 7)) ''0.0.0.7:443'' TransportUdp 62201
      [''home'', ''server.toml''] (demo_client_state ()) = (Inr (), s') \<and>
    fst (resolve_connect_configs (demo_config_env (demo_config ''0.0.0.7:443'' ''0.0.0.7'')) (Some [''home'', ''server.toml''])
        None None None None None (s'\<lparr>cl_host := (cl_host s')\<lparr>fault := (\<lambda>_. None)\<rparr>\<rparr>)) =
      Inr ([\<lparr>rc_server_public_key = replicate 32 7, rc_spa_endpoint = (V4 7, 62201), rc_proxy_endpoint = (V4 7, 443),
             rc_spa_mode = TransportUdp, rc_https_spa_url = None\<rparr>],
           \<lparr>fp_strategy = Priority, fp_retry_interval_ms = 5000, fp_max_retries = 3\<rparr>)"
proof -
  let ?E = "demo_config_env (demo_config ''0.0.0.7:443'' ''0.0.0.7'')"
  have ep: "show_ipv4 7 @ CHR '':'' # nat_digits (unat (443 :: u16)) = ''0.0.0.7:443''" and host: "show_ipv4 7 = ''0.0.0.7''"
    by (simp_all add: demo_shown)
  have "cl_crypto ?E = hex_crypto" by (simp add: demo_config_env_def client_env.defs demo_client_env_def)
  then have key: "client_decode_noise_public_key (cl_crypto ?E) (key_id_hex (replicate 32 7)) = Inr (replicate 32 7)"
    by (simp only: demo_server_key)
  have "parse_socket_addr ''0.0.0.7:443'' = Some (V4 7, 443)" using parse_shown_addr [of 7 443] by (simp only: ep)
  then obtain s' where e: "enroll ?E (key_id_hex (replicate 32 7)) ''0.0.0.7:443'' TransportUdp 62201
      [''home'', ''server.toml''] (demo_client_state ()) = (Inr (), s')"
    using demo_enroll [of "''0.0.0.7:443''" "V4 7" 443 "''0.0.0.7''"] by (auto simp: show_ip_def host)
  let ?s2 = "s'\<lparr>cl_host := (cl_host s')\<lparr>fault := (\<lambda>_. None)\<rparr>\<rparr>"
  have "content (cl_host ?s2) [''home'', ''server.toml''] = content (cl_host s') [''home'', ''server.toml'']" "quiet (cl_host ?s2)"
    by (simp_all add: quiet_def)
  note enroll_resolve_roundtrip [of ?E "key_id_hex (replicate 32 7)" 7 443, unfolded ep, OF e demo_config_toml this, unfolded key]
  with e show ?thesis by auto
qed

theorem enroll_ipv6_unusable_witness:
  "\<exists>s'. enroll (demo_config_env (demo_config ''[::1]:443'' ''::1'')) (key_id_hex (replicate 32 7)) ''[::1]:443'' TransportUdp 62201
      [''home'', ''server.toml''] (demo_client_state ()) = (Inr (), s') \<and>
    fst (resolve_connect_configs (demo_config_env (demo_config ''[::1]:443'' ''::1'')) (Some [''home'', ''server.toml''])
        None None None None None (s'\<lparr>cl_host := (cl_host s')\<lparr>fault := (\<lambda>_. None)\<rparr>\<rparr>)) = Inl (BadConfig ''::1'')"
proof -
  let ?E = "demo_config_env (demo_config ''[::1]:443'' ''::1'')"
  have host: "show_ipv6 ?E bs = ''::1''" for bs by (simp add: demo_config_env_def client_env.defs)
  obtain s' where e: "enroll ?E (key_id_hex (replicate 32 7)) ''[::1]:443'' TransportUdp 62201
      [''home'', ''server.toml''] (demo_client_state ()) = (Inr (), s')"
    using demo_enroll [OF demo_addr6, of "''::1''"] host by (auto simp: show_ip_def)
  let ?s2 = "s'\<lparr>cl_host := (cl_host s')\<lparr>fault := (\<lambda>_. None)\<rparr>\<rparr>"
  have "content (cl_host ?s2) [''home'', ''server.toml''] = content (cl_host s') [''home'', ''server.toml'']" "quiet (cl_host ?s2)"
    by (simp_all add: quiet_def)
  from enroll_ipv6_unusable [OF e demo_addr6 _ _ _ demo_config_toml this, of "[]" "'':1''"] e show ?thesis
    by (auto simp: host)
qed

end
