(* ===== verification/Client_Failover.thy ===== *)
theory Client_Failover
  imports Client_Config "HOL-Library.Multiset"
begin

text \<open>
  Connecting with failover, refreshing the grant and tunnelling SOCKS5
  (\<open>ghostbro-client/src/main.rs\<close>). The latency probe and the shuffle act on the world.
\<close>

record 'w failover_net = "'w client_tcp" +
  probe_latency :: "sock_addr \<Rightarrow> 'w \<Rightarrow> nat option \<times> 'w"
  shuffle :: "nat list \<Rightarrow> 'w \<Rightarrow> nat list \<times> 'w"

section \<open>Order of the candidates\<close>

text \<open>Durations in nanoseconds; the largest one is \<open>Duration::MAX\<close>.\<close>

definition DURATION_MAX :: nat where "DURATION_MAX = (2 ^ 64 - 1) * 10 ^ 9 + 999999999"

definition latency_key :: "nat option list \<Rightarrow> nat \<Rightarrow> nat" where
  "latency_key latencies index = (case latencies ! index of None \<Rightarrow> DURATION_MAX | Some d \<Rightarrow> d)"

definition order_by_latency :: "nat option list \<Rightarrow> nat list" where
  "order_by_latency latencies = sort_key (latency_key latencies) [0..<length latencies]"

fun probe_all :: "('w, 'x) failover_net_scheme \<Rightarrow> ResolvedConnectConfig list \<Rightarrow> 'w \<Rightarrow> nat option list \<times> 'w" where
  "probe_all W [] w = ([], w)"
| "probe_all W (c # cs) w =
     (case probe_latency W (rc_proxy_endpoint c) w of
        (l, w1) \<Rightarrow> (case probe_all W cs w1 of (ls, w2) \<Rightarrow> (l # ls, w2)))"

definition order_candidates ::
    "('w, 'x) failover_net_scheme \<Rightarrow> FailoverStrategy \<Rightarrow> ResolvedConnectConfig list \<Rightarrow> 'w \<Rightarrow> nat list \<times> 'w" where
  "order_candidates W strategy candidates w =
     (case strategy of
        Priority \<Rightarrow> ([0..<length candidates], w)
      | Random \<Rightarrow> shuffle W [0..<length candidates] w
      | Latency \<Rightarrow> (case probe_all W candidates w of (latencies, w') \<Rightarrow> (order_by_latency latencies, w')))"

section \<open>Failover\<close>

type_synonym 'a tunnel_open = "'a \<times> nat \<times> sock_addr"

text \<open>One round over an order; without success, the last error there was.\<close>

fun try_order ::
    "(ResolvedConnectConfig \<Rightarrow> ('w, 'a) client_comp) \<Rightarrow> ResolvedConnectConfig list \<Rightarrow> nat list \<Rightarrow> client_error option
     \<Rightarrow> 'w client \<Rightarrow> (client_error option + 'a tunnel_open) \<times> 'w client" where
  "try_order connect candidates [] last_error s = (Inl last_error, s)"
| "try_order connect candidates (index # order) last_error s =
     (case connect (candidates ! index) s of
        (Inr x, s') \<Rightarrow> (Inr (x, index, rc_proxy_endpoint (candidates ! index)), s')
      | (Inl e, s') \<Rightarrow> try_order connect candidates order (Some e) s')"

fun failover_rounds ::
    "('w, 'x) failover_net_scheme \<Rightarrow> (ResolvedConnectConfig \<Rightarrow> ('w, 'a) client_comp) \<Rightarrow> FailoverStrategy \<Rightarrow> ResolvedConnectConfig list
     \<Rightarrow> nat \<Rightarrow> client_error option \<Rightarrow> 'w client \<Rightarrow> (client_error option + 'a tunnel_open) \<times> 'w client" where
  "failover_rounds W connect strategy candidates 0 last_error s = (Inl last_error, s)"
| "failover_rounds W connect strategy candidates (Suc n) last_error s =
     (case order_candidates W strategy candidates (cl_world s) of
        (order, w) \<Rightarrow>
          (case try_order connect candidates order last_error (s\<lparr>cl_world := w\<rparr>) of
             (Inr x, s') \<Rightarrow> (Inr x, s')
           | (Inl e, s') \<Rightarrow> failover_rounds W connect strategy candidates n e s'))"

definition connect_noise_with_failover ::
    "('w, 'x) failover_net_scheme \<Rightarrow> (ResolvedConnectConfig \<Rightarrow> ('w, 'a) client_comp) \<Rightarrow> ResolvedConnectConfig list \<Rightarrow> FailoverPolicy
     \<Rightarrow> ('w, 'a tunnel_open) client_comp" where
  "connect_noise_with_failover W connect candidates policy s =
     (if candidates = [] then (Inl NoCandidates, s)
      else
        let rounds = unat (saturating_add (fp_max_retries policy) 1) in
        case failover_rounds W connect (fp_strategy policy) candidates rounds None s of
          (Inr x, s') \<Rightarrow> (Inr x, s')
        | (Inl (Some e), s') \<Rightarrow> (Inl (AllFailed rounds e), s')
        | (Inl None, s') \<Rightarrow> (Inl NoCandidates, s'))"

text \<open>The connection the program tries for a candidate.\<close>

definition connect_candidate ::
    "client_env \<Rightarrow> ('w, 'x) client_tcp_scheme \<Rightarrow> 'h xk_initiator \<Rightarrow> path \<Rightarrow> path option \<Rightarrow> ResolvedConnectConfig
     \<Rightarrow> ('w, nat \<times> noise_cipher \<times> key_id) client_comp" where
  "connect_candidate E W X identity_key counter_file candidate =
     connect_noise E W X identity_key (rc_server_public_key candidate) (rc_spa_endpoint candidate) (rc_proxy_endpoint candidate)
       (rc_spa_mode candidate) (rc_https_spa_url candidate) counter_file"

section \<open>Refreshing the grant\<close>

definition refresh_interval :: "u64 \<Rightarrow> client_error + u64" where
  "refresh_interval allow_ttl_seconds =
     (if allow_ttl_seconds < 2 then Inl (BadConfig ''--allow-ttl-seconds must be at least 2'') else Inr (allow_ttl_seconds div 2))"

text \<open>One turn of the refresh thread: a knock to the server in use; its outcome is only reported.\<close>

definition refresh_turn ::
    "client_env \<Rightarrow> 'w client_net \<Rightarrow> path \<Rightarrow> ResolvedConnectConfig list \<Rightarrow> nat option \<Rightarrow> path option \<Rightarrow> 'w client \<Rightarrow> (client_error + unit) option \<times> 'w client" where
  "refresh_turn E W identity_key candidates active counter_file s =
     (case active of
        None \<Rightarrow> (None, s)
      | Some index \<Rightarrow>
          if length candidates \<le> index then (None, s)
          else
            let candidate = candidates ! index in
            if length (rc_server_public_key candidate) \<noteq> 32 then (Some (Inl (ServerKeyLen (length (rc_server_public_key candidate)))), s)
            else
              (case send_spa E W identity_key (rc_server_public_key candidate) (rc_spa_endpoint candidate) (rc_spa_mode candidate)
                      (rc_https_spa_url candidate) counter_file s of
                 (r, s') \<Rightarrow> (Some r, s')))"

section \<open>SOCKS5 through the tunnel\<close>

datatype ReplyError =
    ConnectionNotAllowed | NetworkUnreachable | HostUnreachable | ConnectionRefused | TtlExpired
  | CommandNotSupported | AddressTypeNotSupported | GeneralFailure

definition socks5_reply_error :: "bytes \<Rightarrow> ReplyError" where
  "socks5_reply_error response =
     (if length response < 2 then GeneralFailure
      else
        let b = response ! 1 in
        if b = 2 then ConnectionNotAllowed else if b = 3 then NetworkUnreachable else if b = 4 then HostUnreachable
        else if b = 5 then ConnectionRefused else if b = 6 then TtlExpired else if b = 7 then CommandNotSupported
        else if b = 8 then AddressTypeNotSupported else GeneralFailure)"

definition socks5_connect_request :: "string \<Rightarrow> client_error + bytes" where
  "socks5_connect_request target =
     (case parse_socket_addr target of
        Some (V4 a, port) \<Rightarrow> Inr ([5, 1, 0] @ [1] @ to_be_bytes32 a @ to_be_bytes16 port)
      | Some (V6 bs, port) \<Rightarrow> Inr ([5, 1, 0] @ [4] @ bs @ to_be_bytes16 port)
      | None \<Rightarrow>
          and_then (ok_or (Socks5Failed ''domain SOCKS5 target must be host:port'') (rsplit_once CHR '':'' target)) (\<lambda>(domain, port).
            if domain = [] then Inl (Socks5Failed ''SOCKS5 target domain is empty'')
            else if 256 \<le> length domain then Inl (Socks5Failed ''SOCKS5 target domain is too long'')
            else
              and_then (ok_or (Socks5Failed (''invalid SOCKS5 target port in '' @ target)) (from_str_radix (2 ^ 16) 10 port)) (\<lambda>p.
                Inr ([5, 1, 0, 3, word_of_nat (length domain)] @ as_bytes domain @ to_be_bytes16 (word_of_nat p)))))"

text \<open>The SOCKS5 conversation inside the tunnel, before any payload.\<close>

definition tunnel_socks5 :: "('w, 'x) client_tcp_scheme \<Rightarrow> nat \<Rightarrow> noise_cipher \<Rightarrow> bytes \<Rightarrow> ('w, ReplyError option) client_comp" where
  "tunnel_socks5 W c N request =
     c_bind (client_write_encrypted_frame W c N 0 [5, 1, 0]) (\<lambda>_.
     c_bind (client_read_encrypted_frame W c N 0) (\<lambda>answer.
       if answer \<noteq> [5, 0] then c_lift (Inr (Some GeneralFailure))
       else
         c_bind (client_write_encrypted_frame W c N 1 request) (\<lambda>_.
         c_bind (client_read_encrypted_frame W c N 1) (\<lambda>response.
           c_lift (Inr (if length response < 2 \<or> response ! 0 \<noteq> 5 \<or> response ! 1 \<noteq> 0
                        then Some (socks5_reply_error response) else None))))))"

text \<open>
  The two relay threads. \<open>reads\<close> is what the local socket hands out, read by read, up to an empty
  read; messages are numbered from \<open>n\<close>.
\<close>

fun client_to_proxy :: "('w, 'x) client_tcp_scheme \<Rightarrow> nat \<Rightarrow> noise_cipher \<Rightarrow> nat \<Rightarrow> bytes list \<Rightarrow> nat \<Rightarrow> ('w, nat) client_comp" where
  "client_to_proxy W c N n [] tot = c_lift (Inr tot)"
| "client_to_proxy W c N n (bs # reads) tot =
     (if bs = [] then c_lift (Inr tot)
      else c_bind (client_write_encrypted_frame W c N n bs) (\<lambda>_.
             client_to_proxy W c N (Suc n) reads (min (tot + length bs) (2 ^ 64 - 1))))"

definition client_read_encrypted_frame_optional ::
    "('w, 'x) client_tcp_scheme \<Rightarrow> nat \<Rightarrow> noise_cipher \<Rightarrow> nat \<Rightarrow> ('w, bytes option) client_comp" where
  "client_read_encrypted_frame_optional W c N n =
     c_bind (client_read_frame_optional W c) (\<lambda>f.
       case f of
         None \<Rightarrow> c_lift (Inr None)
       | Some encrypted \<Rightarrow>
           c_lift (case cipher_dec N n encrypted of
                     None \<Rightarrow> Inl NoiseFailed
                   | Some pt \<Rightarrow> if CLIENT_BUF_LEN < length pt then Inl NoiseFailed else Inr (Some pt)))"

partial_function (option) proxy_to_client ::
    "('w, 'x) client_tcp_scheme \<Rightarrow> nat \<Rightarrow> noise_cipher \<Rightarrow> nat \<Rightarrow> bytes \<Rightarrow> 'w client \<Rightarrow> ((client_error + unit) \<times> bytes \<times> 'w client) option" where
  "proxy_to_client W c N n out s =
     (case client_read_encrypted_frame_optional W c N n s of
        (Inl e, s') \<Rightarrow> Some (Inl e, out, s')
      | (Inr None, s') \<Rightarrow> Some (Inr (), out, s')
      | (Inr (Some pt), s') \<Rightarrow>
          if pt = [] then Some (Inr (), out, s') else proxy_to_client W c N (Suc n) (out @ pt) s')"

section \<open>Orders\<close>

lemma stable_lex:
  assumes "sorted (map f xs)" and "\<And>k. sorted_wrt (<) (filter (\<lambda>x. f x = k) xs)"
  shows "sorted_wrt (\<lambda>x y. f x < f y \<or> f x = f y \<and> x < y) xs"
  using assms
proof (induction xs)
  case (Cons x xs)
  have "sorted_wrt (<) (filter (\<lambda>y. f y = k) xs)" for k
    using Cons.prems(2) [of k] by (auto split: if_splits)
  then have IH: "sorted_wrt (\<lambda>x y. f x < f y \<or> f x = f y \<and> x < y) xs"
    using Cons by simp
  have "f x < f y \<or> f x = f y \<and> x < y" if "y \<in> set xs" for y
    using that Cons.prems(1) Cons.prems(2) [of "f x"] by (auto simp: order.order_iff_strict)
  with IH show ?case by simp
qed simp

text \<open>
  The latency strategy tries the fastest server first: the order is a permutation of the
  candidates, by ascending measured latency, servers that did not answer after all that did, and
  equal ones in the configured order.
\<close>

theorem latency_order:
  "mset (order_by_latency latencies) = mset [0..<length latencies] \<and>
   sorted_wrt (\<lambda>i j. latency_key latencies i < latency_key latencies j \<or> latency_key latencies i = latency_key latencies j \<and> i < j)
     (order_by_latency latencies) \<and>
   ((\<forall>d. Some d \<in> set latencies \<longrightarrow> d < DURATION_MAX) \<longrightarrow>
     sorted_wrt (\<lambda>i j. latencies ! i = None \<longrightarrow> latencies ! j = None) (order_by_latency latencies))"
proof -
  let ?k = "latency_key latencies" and ?o = "order_by_latency latencies"
  have lex: "sorted_wrt (\<lambda>i j. ?k i < ?k j \<or> ?k i = ?k j \<and> i < j) ?o"
  proof (rule stable_lex)
    show "sorted (map ?k ?o)" by (simp add: order_by_latency_def)
    show "sorted_wrt (<) (filter (\<lambda>x. ?k x = k) ?o)" for k
      unfolding order_by_latency_def sort_key_stable by (simp add: sorted_wrt_filter)
  qed
  moreover have "sorted_wrt (\<lambda>i j. latencies ! i = None \<longrightarrow> latencies ! j = None) ?o"
    if small: "\<forall>d. Some d \<in> set latencies \<longrightarrow> d < DURATION_MAX"
  proof (rule sorted_wrt_mono_rel [OF _ lex])
    fix i j assume "i \<in> set ?o" "j \<in> set ?o" and le: "?k i < ?k j \<or> ?k i = ?k j \<and> i < j"
    then have "j < length latencies" by (simp add: order_by_latency_def)
    then have "latencies ! j = Some d \<Longrightarrow> d < DURATION_MAX" for d using small by (metis nth_mem)
    then show "latencies ! i = None \<longrightarrow> latencies ! j = None"
      using le by (cases "latencies ! i"; cases "latencies ! j") (simp_all add: latency_key_def order.strict_iff_order)
  qed
  ultimately show ?thesis by (simp add: order_by_latency_def)
qed

theorem latency_order_witness:
  "order_by_latency [Some 30, None, Some 10, Some 30] = [2, 0, 3, 1] \<and>
   sorted_wrt (\<lambda>i j. [Some 30, None, Some 10, Some 30] ! i = None \<longrightarrow> [Some 30, None, Some 10, Some 30] ! j = None)
     (order_by_latency [Some 30, None, Some 10, Some (30 :: nat)])"
proof -
  have d: "30 < DURATION_MAX" "10 < DURATION_MAX" by (simp_all add: DURATION_MAX_def)
  then have "order_by_latency [Some 30, None, Some 10, Some 30] = [2, 0, 3, 1]"
    by (simp add: order_by_latency_def upt_rec latency_key_def insort_key_def not_le)
  then show ?thesis
    using latency_order [of "[Some 30, None, Some 10, Some 30]"] d by simp
qed

section \<open>Failover\<close>

text \<open>Every order of a round names all candidates, if the shuffle only permutes.\<close>

lemma length_probe_all: "length (fst (probe_all W cs w)) = length cs"
proof (induction cs arbitrary: w)
  case (Cons c cs)
  obtain l w1 where p: "probe_latency W (rc_proxy_endpoint c) w = (l, w1)" by fastforce
  obtain ls w2 where q: "probe_all W cs w1 = (ls, w2)" by fastforce
  show ?case using Cons.IH [of w1] p q by simp
qed simp

lemma order_candidates_set:
  assumes "\<forall>xs w. mset (fst (shuffle W xs w)) = mset xs"
  shows "set (fst (order_candidates W strategy cs w)) = {..<length cs}"
proof (cases strategy)
  case Random
  then show ?thesis
    using mset_eq_setD [OF assms [rule_format, of "[0..<length cs]" w]] by (simp add: order_candidates_def atLeast0LessThan)
next
  case Latency
  then show ?thesis
    by (cases "probe_all W cs w") (use length_probe_all [of W cs w] in
      \<open>simp add: order_candidates_def order_by_latency_def atLeast0LessThan\<close>)
qed (simp add: order_candidates_def atLeast0LessThan)

lemma try_order_result:
  assumes "try_order connect cs order e s = (r, s')"
  shows "(\<forall>x i ep. r = Inr (x, i, ep) \<longrightarrow> i \<in> set order \<and> ep = rc_proxy_endpoint (cs ! i) \<and>
           (\<exists>s1 s2. connect (cs ! i) s1 = (Inr x, s2))) \<and>
    (\<forall>e'. r = Inl e' \<longrightarrow> (\<forall>i \<in> set order. \<exists>s1 d s2. connect (cs ! i) s1 = (Inl d, s2)) \<and> (order \<noteq> [] \<longrightarrow> e' \<noteq> None) \<and>
       (e \<noteq> None \<longrightarrow> e' \<noteq> None))"
  using assms
proof (induction order arbitrary: e s)
  case (Cons i order)
  obtain q s1 where c: "connect (cs ! i) s = (q, s1)" by fastforce
  show ?case
  proof (cases q)
    case (Inl d)
    then have "try_order connect cs order (Some d) s1 = (r, s')" using Cons.prems c by simp
    from Cons.IH [OF this] show ?thesis using c Inl by fastforce
  next
    case (Inr x)
    then show ?thesis using Cons.prems c by auto
  qed
qed auto

lemmas try_order_connected = try_order_result [THEN conjunct1, rule_format]
lemmas try_order_failed = try_order_result [THEN conjunct2, rule_format]

lemma failover_round:
  assumes "\<forall>xs w. mset (fst (shuffle W xs w)) = mset xs"
  obtains order w q s1 where "set order = {..<length cs}"
    and "try_order connect cs order e (s\<lparr>cl_world := w\<rparr>) = (q, s1)"
    and "failover_rounds W connect strategy cs (Suc n) e s =
      (case q of Inr x \<Rightarrow> (Inr x, s1) | Inl e \<Rightarrow> failover_rounds W connect strategy cs n e s1)"
proof -
  obtain order w where o: "order_candidates W strategy cs (cl_world s) = (order, w)" by fastforce
  obtain q s1 where t: "try_order connect cs order e (s\<lparr>cl_world := w\<rparr>) = (q, s1)" by fastforce
  show thesis
  proof (rule that)
    show "set order = {..<length cs}" using order_candidates_set [OF assms, of strategy cs "cl_world s"] o by simp
    show "try_order connect cs order e (s\<lparr>cl_world := w\<rparr>) = (q, s1)" by (rule t)
    show "failover_rounds W connect strategy cs (Suc n) e s =
      (case q of Inr x \<Rightarrow> (Inr x, s1) | Inl e \<Rightarrow> failover_rounds W connect strategy cs n e s1)"
      using o t by (simp split: sum.splits)
  qed
qed

lemma failover_rounds_connected:
  assumes sh: "\<forall>xs w. mset (fst (shuffle W xs w)) = mset xs"
    and "failover_rounds W connect strategy cs n e s = (Inr (x, i, ep), s')"
  shows "i < length cs \<and> ep = rc_proxy_endpoint (cs ! i) \<and> (\<exists>s1 s2. connect (cs ! i) s1 = (Inr x, s2))"
  using assms(2)
proof (induction n arbitrary: e s)
  case (Suc n)
  obtain order w q s1 where so: "set order = {..<length cs}"
    and t: "try_order connect cs order e (s\<lparr>cl_world := w\<rparr>) = (q, s1)"
    and f: "failover_rounds W connect strategy cs (Suc n) e s =
      (case q of Inr x \<Rightarrow> (Inr x, s1) | Inl e \<Rightarrow> failover_rounds W connect strategy cs n e s1)"
    by (rule failover_round [OF sh])
  show ?case
  proof (cases q)
    case (Inl d)
    then show ?thesis using Suc.IH [of d s1] Suc.prems f by simp
  next
    case (Inr y)
    then have "q = Inr (x, i, ep)" using Suc.prems f by simp
    from try_order_connected [OF t this] show ?thesis using so by simp
  qed
qed simp

lemma failover_rounds_failed:
  assumes sh: "\<forall>xs w. mset (fst (shuffle W xs w)) = mset xs"
    and "failover_rounds W connect strategy cs n e s = (Inl e', s')"
    and "0 < n \<or> e \<noteq> None" and "cs \<noteq> []"
  shows "e' \<noteq> None \<and> (0 < n \<longrightarrow> (\<forall>i < length cs. \<exists>s1 d s2. connect (cs ! i) s1 = (Inl d, s2)))"
  using assms(2,3)
proof (induction n arbitrary: e s)
  case (Suc n)
  obtain order w q s1 where so: "set order = {..<length cs}"
    and t: "try_order connect cs order e (s\<lparr>cl_world := w\<rparr>) = (q, s1)"
    and f: "failover_rounds W connect strategy cs (Suc n) e s =
      (case q of Inr x \<Rightarrow> (Inr x, s1) | Inl e \<Rightarrow> failover_rounds W connect strategy cs n e s1)"
    by (rule failover_round [OF sh])
  then obtain d where d: "q = Inl d" using Suc.prems by (cases q) auto
  note tf = try_order_failed [OF t d]
  have "0 \<in> set order" using so assms(4) by simp
  then have "order \<noteq> []" by (metis list.set(1) empty_iff)
  then have "d \<noteq> None" using tf by blast
  then have "e' \<noteq> None" using Suc.IH [of d s1] Suc.prems f d by simp
  then show ?case using tf so by simp
qed simp


text \<open>Two servers, the first of which never answers.\<close>

definition demo_failover_net :: "unit failover_net" where
  "demo_failover_net = \<lparr>udp_send = (\<lambda>_ _ w. (True, w)), https_post = (\<lambda>_ _ w. (None, w)), parse_http_date = (\<lambda>_. None),
     tcp_connect = (\<lambda>_ w. (None, w)), tcp_write_all = (\<lambda>_ _ w. (False, w)), tcp_read_exact = (\<lambda>_ _ w. (ReadEof, w)),
     probe_latency = (\<lambda>_ w. (None, w)), shuffle = (\<lambda>order w. (rev order, w))\<rparr>"

definition demo_candidate :: "u32 \<Rightarrow> ResolvedConnectConfig" where
  "demo_candidate ip = \<lparr>rc_server_public_key = replicate 32 0, rc_spa_endpoint = (V4 ip, 62201), rc_proxy_endpoint = (V4 ip, 443),
     rc_spa_mode = TransportUdp, rc_https_spa_url = None\<rparr>"

definition demo_connect :: "ResolvedConnectConfig \<Rightarrow> (unit, nat) client_comp" where
  "demo_connect c s = (if rc_proxy_endpoint c = (V4 1, 443) then Inl ConnectFailed else Inr 5, s)"


text \<open>
  The latency strategy where no probe is answered: the candidates are tried in the configured order.
  The probes are connections to the proxy port, made before the knock of the round.
\<close>

theorem latency_without_answers:
  assumes "\<forall>a w. fst (probe_latency W a w) = None"
  shows "fst (order_candidates W Latency cs w) = [0..<length cs]"
proof -
  have "fst (probe_all W cs w) = replicate (length cs) None" for cs w
    by (induction cs arbitrary: w) (simp_all add: split_beta assms [rule_format])
  then obtain w' where p: "probe_all W cs w = (replicate (length cs) None, w')" by (metis prod.collapse)
  have "sort_key (latency_key (replicate (length cs) None)) [0..<length cs] = [0..<length cs]"
    by (rule sort_key_id_if_sorted) (simp add: latency_key_def sorted_iff_nth_mono)
  then show ?thesis by (simp add: order_candidates_def p order_by_latency_def)
qed

theorem latency_without_answers_witness:
  "fst (order_candidates demo_failover_net Latency [demo_candidate 1, demo_candidate 2] ()) = [0, 1]"
  using latency_without_answers [of demo_failover_net "[demo_candidate 1, demo_candidate 2]" "()"]
  by (simp add: demo_failover_net_def upt_rec)

end
