(* ===== verification/Client_Socks.thy ===== *)
theory Client_Socks
  imports Client_Failover
begin

text \<open>
  The one-shot commands of the client and the SOCKS5 byte stream between a local application and the
  server (\<open>ghostbro-client/src/main.rs\<close>). The local SOCKS5 server is a library; what it reads from and
  answers to the application is a parameter.
\<close>

section \<open>One-shot commands\<close>

definition connect_once ::
    "client_env \<Rightarrow> ('w, 'x) client_tcp_scheme \<Rightarrow> 'h xk_initiator \<Rightarrow> path \<Rightarrow> path \<Rightarrow> sock_addr \<Rightarrow> sock_addr \<Rightarrow> string \<Rightarrow> SpaTransport
     \<Rightarrow> string option \<Rightarrow> path option \<Rightarrow> ('w, bytes) client_comp" where
  "connect_once E W X identity_key server_key spa_endpoint proxy_endpoint message spa_transport https_spa_url counter_file =
     c_bind (read_noise_public_key_array E server_key) (\<lambda>server_pub.
     c_bind (send_spa E (client_net.truncate W) identity_key server_pub spa_endpoint spa_transport https_spa_url counter_file) (\<lambda>_.
     c_bind (read_signing_key E identity_key) (\<lambda>signing_key.
     c_bind (read_noise_public_key E server_key) (\<lambda>server_public_key.
       let key = key_id_for_public_key (cl_crypto E) (ed_public (cl_crypto E) signing_key);
           noise_private_key = derive_noise_static_private_key (cl_crypto E) signing_key
       in c_bind (c_lift (ok_or NoiseFailed (xi_new X noise_private_key server_public_key key))) (\<lambda>h.
          c_bind (on_world (tcp_connect W proxy_endpoint)) (\<lambda>conn.
          c_bind (c_lift (ok_or ConnectFailed conn)) (\<lambda>c.
          c_bind (client_handshake W X c h) (\<lambda>N.
          c_bind (client_write_encrypted_frame W c N 0 (as_bytes message)) (\<lambda>_.
            client_read_encrypted_frame W c N 0)))))))))"

definition connect_socks5_once ::
    "client_env \<Rightarrow> ('w, 'x) client_tcp_scheme \<Rightarrow> 'h xk_initiator \<Rightarrow> path \<Rightarrow> path \<Rightarrow> sock_addr \<Rightarrow> sock_addr \<Rightarrow> string \<Rightarrow> string
     \<Rightarrow> SpaTransport \<Rightarrow> string option \<Rightarrow> path option \<Rightarrow> ('w, bytes) client_comp" where
  "connect_socks5_once E W X identity_key server_key spa_endpoint proxy_endpoint target message spa_transport https_spa_url counter_file =
     c_bind (read_noise_public_key E server_key) (\<lambda>server_pub.
     c_bind (connect_noise E W X identity_key server_pub spa_endpoint proxy_endpoint spa_transport https_spa_url counter_file) (\<lambda>(c, N, _).
     c_bind (client_write_encrypted_frame W c N 0 [5, 1, 0]) (\<lambda>_.
     c_bind (client_read_encrypted_frame W c N 0) (\<lambda>answer.
       if answer \<noteq> [5, 0] then c_lift (Inl (Socks5Failed ''unexpected SOCKS5 method response''))
       else
         c_bind (c_lift (socks5_connect_request target)) (\<lambda>request.
         c_bind (client_write_encrypted_frame W c N 1 request) (\<lambda>_.
         c_bind (client_read_encrypted_frame W c N 1) (\<lambda>response.
           if length response < 2 \<or> response ! 0 \<noteq> 5 \<or> response ! 1 \<noteq> 0 then c_lift (Inl (Socks5Failed ''SOCKS5 CONNECT failed''))
           else
             c_bind (client_write_encrypted_frame W c N 2 (as_bytes message)) (\<lambda>_.
               client_read_encrypted_frame W c N 2))))))))"

definition connect_ghost_relay_once ::
    "client_env \<Rightarrow> ('w, 'x) client_tcp_scheme \<Rightarrow> 'h xk_initiator \<Rightarrow> path \<Rightarrow> path \<Rightarrow> sock_addr \<Rightarrow> sock_addr
     \<Rightarrow> SpaTransport \<Rightarrow> string option \<Rightarrow> path option \<Rightarrow> ('w, unit) client_comp" where
  "connect_ghost_relay_once E W X identity_key server_key spa_endpoint proxy_endpoint spa_transport https_spa_url counter_file =
     c_bind (read_noise_public_key E server_key) (\<lambda>server_pub.
     c_bind (connect_noise E W X identity_key server_pub spa_endpoint proxy_endpoint spa_transport https_spa_url counter_file) (\<lambda>(c, N, _).
     c_bind (client_write_encrypted_frame W c N 0 [PROTOCOL_GHOST_RELAY, GHOST_RELAY_VERSION, 0xFF]) (\<lambda>_.
     c_bind (client_read_encrypted_frame W c N 0) (\<lambda>response.
       c_lift (if length response < 3 \<or> response ! 0 \<noteq> PROTOCOL_GHOST_RELAY \<or> response ! 2 \<noteq> GHOST_RELAY_STATUS_UNSUPPORTED
               then Inl (RelayError (BadResponse response)) else Inr ())))))"

section \<open>Local connections\<close>

text \<open>
  What the local SOCKS5 library hands over: the command and the encoded target address, or a failure;
  and whether its answers reach the application.
\<close>

datatype local_command = TCPConnect | OtherCommand

record local_socks =
  ls_negotiate :: bool
  ls_command :: "(local_command \<times> bytes option) option"
  ls_reply :: bool

datatype local_reply = ReplySuccess | Reply ReplyError

text \<open>
  The negotiation: the answer given to the application and the tunnel, if there is one. \<open>active\<close> is the
  candidate in use, which the refresh thread reads.
\<close>

definition negotiate_local_socks5_tunnel ::
    "('w, 'x) failover_net_scheme \<Rightarrow> (ResolvedConnectConfig \<Rightarrow> ('w, nat \<times> noise_cipher \<times> key_id) client_comp) \<Rightarrow> ResolvedConnectConfig list
     \<Rightarrow> FailoverPolicy \<Rightarrow> local_socks \<Rightarrow> nat option
     \<Rightarrow> 'w client \<Rightarrow> (client_error + nat \<times> noise_cipher \<times> key_id) \<times> local_reply option \<times> nat option \<times> 'w client" where
  "negotiate_local_socks5_tunnel W connect candidates policy L active s =
     (if \<not> ls_negotiate L then (Inl (Socks5Failed ''negotiation''), None, active, s)
      else
        case ls_command L of
          None \<Rightarrow> (Inl (Socks5Failed ''command''), None, active, s)
        | Some (OtherCommand, _) \<Rightarrow>
            (Inl (Socks5Failed ''only SOCKS5 CONNECT is supported''), if ls_reply L then Some (Reply CommandNotSupported) else None, active, s)
        | Some (TCPConnect, None) \<Rightarrow> (Inl (Socks5Failed ''target''), None, active, s)
        | Some (TCPConnect, Some target) \<Rightarrow>
            (case connect_noise_with_failover W connect candidates policy s of
               (Inl e, s1) \<Rightarrow> (Inl e, None, active, s1)
             | (Inr ((c, N, key), index, _), s1) \<Rightarrow>
                 (case tunnel_socks5 W c N ([5, 1, 0] @ target) s1 of
                    (Inl e, s2) \<Rightarrow> (Inl e, None, Some index, s2)
                  | (Inr (Some err), s2) \<Rightarrow>
                      (Inl (Socks5Failed ''CONNECT failed''), if ls_reply L then Some (Reply err) else None, Some index, s2)
                  | (Inr None, s2) \<Rightarrow>
                      if ls_reply L then (Inr (c, N, key), Some ReplySuccess, Some index, s2)
                      else (Inl (Socks5Failed ''reply''), None, Some index, s2))))"

section \<open>The byte stream\<close>

text \<open>One direction of a connection: what is written is appended, what is read is taken from the front.\<close>

definition wire_tcp :: "bytes client_tcp" where
  "wire_tcp = \<lparr>udp_send = (\<lambda>_ _ w. (True, w)), https_post = (\<lambda>_ _ w. (None, w)), parse_http_date = (\<lambda>_. None),
     tcp_connect = (\<lambda>_ w. (Some 0, w)), tcp_write_all = (\<lambda>_ bs w. (True, w @ bs)),
     tcp_read_exact = (\<lambda>_ n w. if n \<le> length w then (ReadAll (take n w), drop n w) else (ReadEof, []))\<rparr>"

lemma wire_read_frame:
  assumes "cl_world s = frame_wire f @ rest" and "length f < 2 ^ 16"
  shows "client_read_frame_optional wire_tcp c s = (Inr (Some f), s\<lparr>cl_world := rest\<rparr>)"
proof -
  have r1: "tcp_read_exact wire_tcp c 2 (frame_wire f @ rest) = (ReadAll (to_be_bytes16 (word_of_nat (length f))), f @ rest)"
    by (simp add: wire_tcp_def frame_wire_def)
  have r2: "tcp_read_exact wire_tcp c (length f) (f @ rest) = (ReadAll f, rest)"
    by (simp add: wire_tcp_def)
  show ?thesis
    using unat_len16 [OF assms(2)]
    by (simp add: client_read_frame_optional_def c_bind_def on_world_def assms(1) r1 r2 del: unsigned_of_nat from_to_be_bytes)
qed

lemma wire_read_end: "cl_world s = [] \<Longrightarrow> client_read_frame_optional wire_tcp c s = (Inr None, s)"
  by (simp add: client_read_frame_optional_def c_bind_def on_world_def wire_tcp_def)

lemma wire_write_frame:
  "length f < 2 ^ 16 \<Longrightarrow> client_write_frame wire_tcp c f s = (Inr (), s\<lparr>cl_world := cl_world s @ frame_wire f\<rparr>)"
  by (simp add: client_write_frame_def wire_tcp_def on_world_def c_bind_def frame_wire_def)

text \<open>Both loops, message by message.\<close>

lemma proxy_to_client_wire:
  assumes "delivers P N" and "\<forall>m \<in> set ms. m \<noteq> [] \<and> length m \<le> max_plaintext_len" and "cl_world s = wire_of P n ms"
  shows "proxy_to_client wire_tcp c N n out s = Some (Inr (), out @ concat ms, s\<lparr>cl_world := []\<rparr>)"
  using assms(2,3)
proof (induction ms arbitrary: n out s)
  case Nil
  then show ?case
    by (subst proxy_to_client.simps)
      (simp add: client_read_encrypted_frame_optional_def c_bind_def wire_read_end wire_of_simps)
next
  case (Cons m ms)
  have len: "length (cipher_enc P n m) < 2 ^ 16" "length m \<le> CLIENT_BUF_LEN" "m \<noteq> []"
    using deliversD(2) [OF assms(1)] Cons.prems(1) by (auto simp: frame_len_defs CLIENT_BUF_LEN_def)
  have "client_read_encrypted_frame_optional wire_tcp c N n s = (Inr (Some m), s\<lparr>cl_world := wire_of P (Suc n) ms\<rparr>)"
    using wire_read_frame [OF _ len(1)] Cons.prems(2) len(2) deliversD(1) [OF assms(1)]
    by (simp add: client_read_encrypted_frame_optional_def c_bind_def wire_of_simps)
  then show ?case
    using Cons.IH [of "s\<lparr>cl_world := wire_of P (Suc n) ms\<rparr>" "Suc n" "out @ m"] Cons.prems(1) len(3)
    by (subst proxy_to_client.simps) simp
qed

lemma client_to_proxy_wire:
  assumes "delivers N P" and "\<forall>m \<in> set ms. m \<noteq> [] \<and> length m \<le> max_plaintext_len" and "t \<le> 2 ^ 64 - 1"
  shows "client_to_proxy wire_tcp c N n ms t s =
    (Inr (min (t + length (concat ms)) (2 ^ 64 - 1)), s\<lparr>cl_world := cl_world s @ wire_of N n ms\<rparr>)"
  using assms(2,3)
proof (induction ms arbitrary: n t s)
  case (Cons m ms)
  have len: "length (cipher_enc N n m) < 2 ^ 16" "m \<noteq> []"
    using deliversD(2) [OF assms(1)] Cons.prems by (auto simp: frame_len_defs)
  have "write_message N n CLIENT_BUF_LEN m = Some (cipher_enc N n m)"
    using Cons.prems by (simp add: write_message_def frame_len_defs CLIENT_BUF_LEN_def)
  then have "client_write_encrypted_frame wire_tcp c N n m s = (Inr (), s\<lparr>cl_world := cl_world s @ frame_wire (cipher_enc N n m)\<rparr>)"
    by (simp add: client_write_encrypted_frame_def c_bind_def wire_write_frame [OF len(1)])
  then show ?case
    using Cons.IH [of "min (t + length m) (2 ^ 64 - 1)" "Suc n" "s\<lparr>cl_world := cl_world s @ frame_wire (cipher_enc N n m)\<rparr>"] Cons.prems len(2)
    by (simp add: c_bind_def wire_of_simps)
qed (simp add: wire_of_simps)

text \<open>
  C20. The tunnel carries the application's bytes in both directions: everything the server's stream
  accepted for writing, in whatever pieces, reaches the local application in order and the loop then
  ends; and everything read from the application, in reads of the client's buffer size, is what the
  server's stream delivers, a prefix at any time and all of it at the end. The client's transport
  \<open>N\<close> and the server's \<open>P\<close> are the two ends of one session.
\<close>

theorem socks_stream_end_to_end:
  fixes s :: "bytes client"
  assumes to_server: "delivers N P" and to_client: "delivers P N"
    and down: "writer_run P w acc" "pending_write w = []" "cl_world s = tx (stream w)"
    and up: "\<forall>bs \<in> set reads. bs \<noteq> [] \<and> length bs \<le> 16 * 1024 - 16" "cl_world s0 = []"
      "client_to_proxy wire_tcp c N 0 reads 0 s0 = (r, s1)" "reader_run P (cl_world s1) rd out"
  shows "(\<exists>s'. proxy_to_client wire_tcp c N 0 [] s = Some (Inr (), acc, s')) \<and>
    r = Inr (min (length (concat reads)) (2 ^ 64 - 1)) \<and> prefix out (concat reads) \<and>
    (\<forall>room rd'. 0 < room \<longrightarrow> poll_read P room rd = (Ready (Inr []), rd') \<longrightarrow> out = concat reads)"
proof -
  obtain ms where ms: "sent w = wire_of P 0 ms" "concat ms = acc" "\<forall>m \<in> set ms. m \<noteq> [] \<and> length m \<le> max_plaintext_len"
    using writer_run_wire [OF down(1) to_client] by blast
  have "cl_world s = wire_of P 0 ms" using ms(1) down(2,3) by (simp add: sent_def)
  from proxy_to_client_wire [OF to_client ms(3) this, of c "[]"] ms(2)
  have d: "\<exists>s'. proxy_to_client wire_tcp c N 0 [] s = Some (Inr (), acc, s')" by simp
  have rs: "\<forall>m \<in> set reads. m \<noteq> [] \<and> length m \<le> max_plaintext_len"
    using up(1) by (simp add: frame_len_defs)
  have s1: "r = Inr (min (length (concat reads)) (2 ^ 64 - 1))" "cl_world s1 = wire_of N 0 reads"
    using client_to_proxy_wire [OF to_server rs, of 0 c 0 s0] up(2,3) by simp_all
  obtain ms' where fl: "in_flight N rd ms'" and out: "out @ plain rd @ concat ms' = concat reads"
    using reader_run_in_flight [OF up(4) to_server s1(2)] rs by blast
  have "out = concat reads" if "0 < room" "poll_read P room rd = (Ready (Inr []), rd')" for room rd'
  proof -
    have "plain rd @ concat ms' = []"
      using poll_read_delivers [OF to_server fl that(2)] that(1) by auto
    with out show ?thesis by simp
  qed
  then show ?thesis using d s1(1) prefixI [OF out [symmetric]] by blast
qed

theorem socks_stream_end_to_end_witness:
  "\<exists>w s' s1. writer_run toy_cipher w [1, 2, 3] \<and>
     proxy_to_client wire_tcp 0 toy_peer 0 [] (demo_client_state (tx (stream w))) = Some (Inr (), [1, 2, 3], s') \<and>
     client_to_proxy wire_tcp 0 toy_peer 0 [[7, 8]] 0 (demo_client_state []) = (Inr 2, s1) \<and>
     (\<forall>rd out. reader_run toy_cipher (cl_world s1) rd out \<longrightarrow> prefix out [7, 8])"
proof -
  obtain w where w: "writer_run toy_cipher w [1, 2, 3]" "pending_write w = []"
    using toy_writer by blast
  obtain r s1 where up: "client_to_proxy wire_tcp 0 toy_peer 0 [[7, 8]] 0 (demo_client_state []) = (r, s1)"
    by fastforce
  note t = socks_stream_end_to_end [OF toy_delivers(2,1) w, of "demo_client_state (tx (stream w))" "[[7, 8]]" "demo_client_state []" 0, OF _ _ _ up]
  have "reader_run toy_cipher (cl_world s1)
      (NoiseFramedStream_new \<lparr>rx = cl_world s1, rx_script = [], tx = [], tx_script = []\<rparr> 0 0 []) []"
    by (rule reader_run.open_reader) simp
  from t [OF _ _ _ this] obtain s' where
      "proxy_to_client wire_tcp 0 toy_peer 0 [] (demo_client_state (tx (stream w))) = Some (Inr (), [1, 2, 3], s')" "r = Inr 2"
    by (auto simp: demo_client_state_def)
  moreover have "prefix out [7, 8]" if "reader_run toy_cipher (cl_world s1) rd out" for rd out
    using t [OF _ _ _ that] by (simp add: demo_client_state_def)
  ultimately show ?thesis using w(1) up by blast
qed

end
