(* ===== verification/Socks_Path.thy ===== *)
theory Socks_Path
  imports Client_Socks Noise_Listener
begin

text \<open>
  The path of a SOCKS5 conversation from the client's relay thread to the SOCKS5 server behind the
  tunnel: the greeting travels in the first frame, which the server has read before it knows the
  protocol, the request in the second, and the application's bytes in the frames after.
\<close>

lemma client_frame_wire:
  assumes "delivers N P" and "length m \<le> max_plaintext_len"
  shows "client_write_encrypted_frame wire_tcp c N n m s = (Inr (), s\<lparr>cl_world := cl_world s @ wire_of N n [m]\<rparr>)"
proof -
  have "length (cipher_enc N n m) < 2 ^ 16" using deliversD(2) [OF assms(1)] assms(2) by (simp add: frame_len_defs)
  moreover have "write_message N n CLIENT_BUF_LEN m = Some (cipher_enc N n m)"
    using assms(2) by (simp add: write_message_def frame_len_defs CLIENT_BUF_LEN_def)
  ultimately show ?thesis
    by (simp add: client_write_encrypted_frame_def c_bind_def wire_write_frame wire_of_simps)
qed

lemma read_first_frame:
  assumes "delivers N P" and "length m \<le> max_plaintext_len" and "conn_rx st = wire_of N 0 (m # ms)"
  shows "read_encrypted_frame P 0 st = (Inr m, st\<lparr>conn_rx := wire_of N 1 ms\<rparr>)"
proof -
  have "length (cipher_enc N 0 m) \<le> MAX_FRAME_LEN" using deliversD(2) [OF assms(1)] assms(2) by (simp add: frame_len_defs)
  then have "conn_read_frame st = (Inr (cipher_enc N 0 m), st\<lparr>conn_rx := wire_of N 1 ms\<rparr>)"
    using read_frame_wire [of "cipher_enc N 0 m"] assms(3) by (simp add: conn_read_frame_def wire_of_simps)
  then show ?thesis using deliversD(1) [OF assms(1)] by (simp add: read_encrypted_frame_def c_bind_def)
qed

text \<open>
  C21. A SOCKS5 conversation arrives whole: with the greeting, the request and the application's reads
  sent by the client, the first frame the server decrypts is the greeting, and what its SOCKS5 server
  reads from the tunnel, in whatever pieces, is the greeting, the request and the application's bytes
  in this order, a prefix at any time and all of it once the stream ends.
\<close>

theorem socks_conversation:
  fixes s0 :: "bytes client"
  assumes "delivers N P" and "cl_world s0 = []" and "length request \<le> max_plaintext_len"
    and "\<forall>bs \<in> set reads. bs \<noteq> [] \<and> length bs \<le> 16 * 1024 - 16"
    and c1: "client_write_encrypted_frame wire_tcp c N 0 [5, 1, 0] s0 = (r1, s1)"
    and c2: "client_write_encrypted_frame wire_tcp c N 1 request s1 = (r2, s2)"
    and c3: "client_to_proxy wire_tcp c N 2 reads 0 s2 = (r3, s3)"
    and srv: "conn_rx st = cl_world s3" "read_encrypted_frame P 0 st = (q, st1)"
      "rx tcp_stream = conn_rx st1" "reads_from P (NoiseFramedStream_new tcp_stream 1 0 [5, 1, 0]) s out"
  shows "q = Inr [5, 1, 0] \<and> prefix out ([5, 1, 0] @ request @ concat reads) \<and>
    (\<forall>room s'. 0 < room \<longrightarrow> poll_read P room s = (Ready (Inr []), s') \<longrightarrow> out = [5, 1, 0] @ request @ concat reads)"
proof -
  have g: "length ([5, 1, 0] :: bytes) \<le> max_plaintext_len" by (simp add: frame_len_defs)
  have rs: "\<forall>m \<in> set reads. m \<noteq> [] \<and> length m \<le> max_plaintext_len" using assms(4) by (simp add: frame_len_defs)
  have "cl_world s1 = wire_of N 0 [[5, 1, 0]]" using c1 client_frame_wire [OF assms(1) g] assms(2) by auto
  then have "cl_world s2 = wire_of N 0 [[5, 1, 0], request]"
    using c2 client_frame_wire [OF assms(1,3)] by (auto simp: wire_of_simps)
  then have "conn_rx st = wire_of N 0 ([5, 1, 0] # request # reads)"
    using c3 client_to_proxy_wire [OF assms(1) rs, of 0 c 2 s2] srv(1) by (auto simp: wire_of_simps numeral_2_eq_2)
  from read_first_frame [OF assms(1) g this] srv(2,3)
  have q: "q = Inr [5, 1, 0]" and rx: "rx tcp_stream = wire_of N 1 (request # reads)" by auto
  let ?s0 = "NoiseFramedStream_new tcp_stream 1 0 [5, 1, 0]"
  have fl: "in_flight N ?s0 (request # reads)" using new_in_flight [OF rx] assms(3) rs by simp
  have pl: "plain ?s0 = [5, 1, 0]" by (simp add: NoiseFramedStream_new_def)
  obtain ms' where fl': "in_flight N s ms'" and out: "out @ plain s @ concat ms' = [5, 1, 0] @ request @ concat reads"
    using reads_from_in_flight [OF srv(4) assms(1) fl] pl by auto
  have "out = [5, 1, 0] @ request @ concat reads" if "0 < room" "poll_read P room s = (Ready (Inr []), s')" for room s'
  proof -
    have "plain s @ concat ms' = []" using poll_read_delivers [OF assms(1) fl' that(2)] that(1) by auto
    with out show ?thesis by simp
  qed
  then show ?thesis using q prefixI [OF out [symmetric]] by blast
qed

theorem socks_conversation_witness:
  "\<exists>r s1. client_write_encrypted_frame wire_tcp 0 toy_peer 0 [5, 1, 0] (demo_client_state []) = (r, s1) \<and>
     (\<exists>st q st1. conn_rx (st :: nat conn) = cl_world s1 @ wire_of toy_peer 1 [[5, 1, 0, 1, 127, 0, 0, 1, 0, 80]] \<and>
        read_encrypted_frame toy_cipher 0 st = (q, st1) \<and> q = Inr [5, 1, 0])"
proof -
  let ?req = "[5, 1, 0, 1, 127, 0, 0, 1, 0, 80] :: bytes"
  have req: "length ?req \<le> max_plaintext_len" by (simp add: frame_len_defs)
  obtain r1 s1 where c1: "client_write_encrypted_frame wire_tcp 0 toy_peer 0 [5, 1, 0] (demo_client_state []) = (r1, s1)" by fastforce
  obtain r2 s2 where c2: "client_write_encrypted_frame wire_tcp 0 toy_peer 1 ?req s1 = (r2, s2)" by fastforce
  obtain r3 s3 where c3: "client_to_proxy wire_tcp 0 toy_peer 2 [] 0 s2 = (r3, s3)" by fastforce
  have w: "cl_world s3 = cl_world s1 @ wire_of toy_peer 1 [?req]"
    using c2 c3 client_frame_wire [OF toy_delivers(2) req, of 0 1 s1] by auto
  let ?st = "demo_conn\<lparr>conn_rx := cl_world s3\<rparr>"
  obtain q st1 where rd: "read_encrypted_frame toy_cipher 0 ?st = (q, st1)" by fastforce
  let ?t = "\<lparr>rx = conn_rx st1, rx_script = [], tx = [], tx_script = []\<rparr>"
  have "q = Inr [5, 1, 0]"
    using socks_conversation [OF toy_delivers(2) _ req _ c1 c2 c3 _ rd _ reads_from.opened, of ?t] by (simp add: demo_client_state_def)
  moreover have "conn_rx ?st = cl_world s1 @ wire_of toy_peer 1 [?req]" using w by simp
  ultimately show ?thesis using c1 rd by blast
qed

end
