(* ===== verification/Client_Listener.thy ===== *)
theory Client_Listener
  imports Client_Socks
begin

text \<open>
  The \<open>connect\<close> command of the client (\<open>ghostbro-client/src/main.rs\<close>): the two relay threads of a tunnel,
  interleaved read by read, and the local listener with its connections, its tunnels and the refresh
  thread. Knocks and the tunnels they open are made under one lock, so that each of them is one step.
\<close>

section \<open>The relay threads\<close>

text \<open>
  A thread is running, with the number of its next message and the bytes so far, or has ended with its
  result. \<open>FromLocal\<close> is what the next read of the local socket gives, \<open>None\<close> an error and \<open>[]\<close> the end;
  \<open>FromProxy\<close> is a turn of the other thread, with the outcome of the write to the local socket.
\<close>

datatype relay_thread = Running nat nat | Ended "client_error + nat"

datatype relay_turn = FromLocal "bytes option" | FromProxy bool

record relay_threads =
  up_thread :: relay_thread
  down_thread :: relay_thread
  to_local :: bytes

definition client_to_proxy_turn ::
    "('w, 'x) client_tcp_scheme \<Rightarrow> nat \<Rightarrow> noise_cipher \<Rightarrow> bytes option \<Rightarrow> relay_threads \<Rightarrow> 'w client \<Rightarrow> relay_threads \<times> 'w client" where
  "client_to_proxy_turn W c N r ts s =
     (case up_thread ts of
        Ended _ \<Rightarrow> (ts, s)
      | Running n tot \<Rightarrow>
          (case r of
             None \<Rightarrow> (ts\<lparr>up_thread := Ended (Inl (Socks5Failed ''failed to read local SOCKS5 payload''))\<rparr>, s)
           | Some bs \<Rightarrow>
               if bs = [] then (ts\<lparr>up_thread := Ended (Inr tot)\<rparr>, s)
               else
                 (case client_write_encrypted_frame W c N n bs s of
                    (Inl e, s') \<Rightarrow> (ts\<lparr>up_thread := Ended (Inl e)\<rparr>, s')
                  | (Inr _, s') \<Rightarrow> (ts\<lparr>up_thread := Running (Suc n) (min (tot + length bs) (2 ^ 64 - 1))\<rparr>, s'))))"

definition proxy_to_client_turn ::
    "('w, 'x) client_tcp_scheme \<Rightarrow> nat \<Rightarrow> noise_cipher \<Rightarrow> bool \<Rightarrow> relay_threads \<Rightarrow> 'w client \<Rightarrow> relay_threads \<times> 'w client" where
  "proxy_to_client_turn W c N written ts s =
     (case down_thread ts of
        Ended _ \<Rightarrow> (ts, s)
      | Running n tot \<Rightarrow>
          (case client_read_encrypted_frame_optional W c N n s of
             (Inl e, s') \<Rightarrow> (ts\<lparr>down_thread := Ended (Inl e)\<rparr>, s')
           | (Inr None, s') \<Rightarrow> (ts\<lparr>down_thread := Ended (Inr tot)\<rparr>, s')
           | (Inr (Some pt), s') \<Rightarrow>
               if pt = [] then (ts\<lparr>down_thread := Ended (Inr tot)\<rparr>, s')
               else if \<not> written
               then (ts\<lparr>down_thread := Ended (Inl (Socks5Failed ''failed to write local SOCKS5 response payload''))\<rparr>, s')
               else (ts\<lparr>down_thread := Running (Suc n) (min (tot + length pt) (2 ^ 64 - 1)),
                        to_local := to_local ts @ pt\<rparr>, s')))"

definition relay_step ::
    "('w, 'x) client_tcp_scheme \<Rightarrow> nat \<Rightarrow> noise_cipher \<Rightarrow> relay_turn \<Rightarrow> relay_threads \<Rightarrow> 'w client \<Rightarrow> relay_threads \<times> 'w client" where
  "relay_step W c N turn =
     (case turn of
        FromLocal r \<Rightarrow> client_to_proxy_turn W c N r
      | FromProxy written \<Rightarrow> proxy_to_client_turn W c N written)"

fun relay_local_socks5 ::
    "('w, 'x) client_tcp_scheme \<Rightarrow> nat \<Rightarrow> noise_cipher \<Rightarrow> relay_turn list \<Rightarrow> relay_threads \<Rightarrow> 'w client \<Rightarrow> relay_threads \<times> 'w client" where
  "relay_local_socks5 W c N [] ts s = (ts, s)"
| "relay_local_socks5 W c N (turn # turns) ts s =
     (case relay_step W c N turn ts s of (ts', s') \<Rightarrow> relay_local_socks5 W c N turns ts' s')"

text \<open>Both threads go on with the third message of their direction; the first is joined first.\<close>

definition relay_start :: relay_threads where
  "relay_start = \<lparr>up_thread = Running 2 0, down_thread = Running 2 0, to_local = []\<rparr>"

definition relay_joined :: "relay_threads \<Rightarrow> (client_error + nat \<times> nat) option" where
  "relay_joined ts =
     (case up_thread ts of
        Running _ _ \<Rightarrow> None
      | Ended (Inl e) \<Rightarrow> Some (Inl e)
      | Ended (Inr client_bytes) \<Rightarrow>
          (case down_thread ts of
             Running _ _ \<Rightarrow> None
           | Ended (Inl e) \<Rightarrow> Some (Inl e)
           | Ended (Inr proxy_bytes) \<Rightarrow> Some (Inr (client_bytes, proxy_bytes))))"

section \<open>The listener\<close>

text \<open>
  What the listener's threads share, with the tunnels that are open. A local connection is accepted
  with what its application says; a tunnel takes turns; the refresh thread wakes up.
\<close>

record 'w local_listener =
  ll_client :: "'w client"
  ll_active :: "nat option"
  ll_tunnels :: "(nat \<times> noise_cipher \<times> relay_threads) list"
  ll_replies :: "local_reply option list"

datatype listen_event = LocalAccept local_socks | LocalAcceptFailed | RelayTurn nat relay_turn | RefreshDue

text \<open>\<open>handle_local_socks5\<close>: the negotiation, and the threads when there is a tunnel; an error is only reported.\<close>

definition handle_local_socks5 ::
    "('w, 'x) failover_net_scheme \<Rightarrow> (ResolvedConnectConfig \<Rightarrow> ('w, nat \<times> noise_cipher \<times> key_id) client_comp) \<Rightarrow> ResolvedConnectConfig list
     \<Rightarrow> FailoverPolicy \<Rightarrow> local_socks \<Rightarrow> 'w local_listener \<Rightarrow> 'w local_listener" where
  "handle_local_socks5 W connect candidates policy L st =
     (case negotiate_local_socks5_tunnel W connect candidates policy L (ll_active st) (ll_client st) of
        (r, reply, active, s) \<Rightarrow>
          st\<lparr>ll_client := s, ll_active := active, ll_replies := ll_replies st @ [reply],
             ll_tunnels := (case r of
                              Inl _ \<Rightarrow> ll_tunnels st
                            | Inr (c, N, _) \<Rightarrow> ll_tunnels st @ [(c, N, relay_start)])\<rparr>)"

definition tunnel_turn :: "('w, 'x) client_tcp_scheme \<Rightarrow> nat \<Rightarrow> relay_turn \<Rightarrow> 'w local_listener \<Rightarrow> 'w local_listener" where
  "tunnel_turn W k turn st =
     (if length (ll_tunnels st) \<le> k then st
      else
        case ll_tunnels st ! k of
          (c, N, ts) \<Rightarrow>
            (case relay_step W c N turn ts (ll_client st) of
               (ts', s) \<Rightarrow> st\<lparr>ll_client := s, ll_tunnels := (ll_tunnels st)[k := (c, N, ts')]\<rparr>))"

fun listen_loop ::
    "client_env \<Rightarrow> 'w failover_net \<Rightarrow> 'h xk_initiator \<Rightarrow> path \<Rightarrow> ResolvedConnectConfig list \<Rightarrow> FailoverPolicy \<Rightarrow> path option
     \<Rightarrow> listen_event list \<Rightarrow> 'w local_listener \<Rightarrow> (client_error + unit) \<times> 'w local_listener" where
  "listen_loop E W X identity_key candidates policy counter_file [] st = (Inr (), st)"
| "listen_loop E W X identity_key candidates policy counter_file (ev # later) st =
     (case ev of
        LocalAcceptFailed \<Rightarrow> (Inl (Socks5Failed ''failed to accept local SOCKS5''), st)
      | LocalAccept L \<Rightarrow>
          listen_loop E W X identity_key candidates policy counter_file later
            (handle_local_socks5 W (connect_candidate E W X identity_key counter_file) candidates policy L st)
      | RelayTurn k turn \<Rightarrow>
          listen_loop E W X identity_key candidates policy counter_file later (tunnel_turn W k turn st)
      | RefreshDue \<Rightarrow>
          listen_loop E W X identity_key candidates policy counter_file later
            (st\<lparr>ll_client := snd (refresh_turn E (client_net.truncate W) identity_key candidates (ll_active st) counter_file (ll_client st))\<rparr>))"

text \<open>The candidates and the bind are checked before the interval of the refresh thread.\<close>

definition connect_listener ::
    "client_env \<Rightarrow> 'w failover_net \<Rightarrow> 'h xk_initiator \<Rightarrow> (sock_addr \<Rightarrow> bool) \<Rightarrow> listen_event list \<Rightarrow> path \<Rightarrow> ResolvedConnectConfig list
     \<Rightarrow> FailoverPolicy \<Rightarrow> sock_addr \<Rightarrow> u64 \<Rightarrow> path option \<Rightarrow> 'w client \<Rightarrow> (client_error + unit) \<times> 'w local_listener" where
  "connect_listener E W X bindable events identity_key candidates policy listen allow_ttl_seconds counter_file s =
     (let st = \<lparr>ll_client = s, ll_active = None, ll_tunnels = [], ll_replies = []\<rparr> in
      if candidates = [] then (Inl NoCandidates, st)
      else if \<not> bindable listen then (Inl (Socks5Failed ''failed to bind local SOCKS5 listener''), st)
      else
        case refresh_interval allow_ttl_seconds of
          Inl e \<Rightarrow> (Inl e, st)
        | Inr _ \<Rightarrow> listen_loop E W X identity_key candidates policy counter_file events st)"

section \<open>Interleaved relaying\<close>

text \<open>A connection with both directions: what the client has sent, and what is still to be read.\<close>

definition duplex_tcp :: "(bytes \<times> bytes) client_tcp" where
  "duplex_tcp = \<lparr>udp_send = (\<lambda>_ _ w. (True, w)), https_post = (\<lambda>_ _ w. (None, w)), parse_http_date = (\<lambda>_. None),
     tcp_connect = (\<lambda>_ w. (Some 0, w)), tcp_write_all = (\<lambda>_ bs (o1, i). (True, (o1 @ bs, i))),
     tcp_read_exact = (\<lambda>_ n (o1, i). if n \<le> length i then (ReadAll (take n i), (o1, drop n i)) else (ReadEof, (o1, [])))\<rparr>"

lemma duplex_read_frame:
  assumes "cl_world s = (sent_bytes, frame_wire f @ rest)" and "length f < 2 ^ 16"
  shows "client_read_frame_optional duplex_tcp c s = (Inr (Some f), s\<lparr>cl_world := (sent_bytes, rest)\<rparr>)"
proof -
  have r1: "tcp_read_exact duplex_tcp c 2 (sent_bytes, frame_wire f @ rest) = (ReadAll (to_be_bytes16 (word_of_nat (length f))), (sent_bytes, f @ rest))"
    by (simp add: duplex_tcp_def frame_wire_def)
  have r2: "tcp_read_exact duplex_tcp c (length f) (sent_bytes, f @ rest) = (ReadAll f, (sent_bytes, rest))"
    by (simp add: duplex_tcp_def)
  show ?thesis
    using unat_len16 [OF assms(2)]
    by (simp add: client_read_frame_optional_def c_bind_def on_world_def assms(1) r1 r2 del: unsigned_of_nat from_to_be_bytes)
qed

lemma duplex_read:
  assumes "delivers P N" and "length m \<le> max_plaintext_len" and "cl_world s = (sent_bytes, wire_of P n (m # ms))"
  shows "client_read_encrypted_frame_optional duplex_tcp c N n s = (Inr (Some m), s\<lparr>cl_world := (sent_bytes, wire_of P (Suc n) ms)\<rparr>)"
proof -
  have len: "length (cipher_enc P n m) < 2 ^ 16" "length m \<le> CLIENT_BUF_LEN"
    using deliversD(2) [OF assms(1)] assms(2) by (auto simp: frame_len_defs CLIENT_BUF_LEN_def)
  show ?thesis
    using duplex_read_frame [OF _ len(1)] assms(3) len(2) deliversD(1) [OF assms(1)]
    by (simp add: client_read_encrypted_frame_optional_def c_bind_def wire_of_simps)
qed

lemma duplex_read_end:
  "cl_world s = (sent_bytes, []) \<Longrightarrow> client_read_encrypted_frame_optional duplex_tcp c N n s = (Inr None, s)"
  by (simp add: client_read_encrypted_frame_optional_def client_read_frame_optional_def c_bind_def on_world_def duplex_tcp_def)

lemma duplex_write:
  assumes "delivers N P" and "length m \<le> max_plaintext_len" and "cl_world s = (sent_bytes, i)"
  shows "client_write_encrypted_frame duplex_tcp c N n m s =
    (Inr (), s\<lparr>cl_world := (sent_bytes @ frame_wire (cipher_enc N n m), i)\<rparr>)"
proof -
  have len: "length (cipher_enc N n m) < 2 ^ 16"
    using deliversD(2) [OF assms(1)] assms(2) by (auto simp: frame_len_defs)
  have "write_message N n CLIENT_BUF_LEN m = Some (cipher_enc N n m)"
    using assms(2) by (simp add: write_message_def frame_len_defs CLIENT_BUF_LEN_def)
  then show ?thesis
    using len assms(3)
    by (simp add: client_write_encrypted_frame_def client_write_frame_def c_bind_def on_world_def duplex_tcp_def frame_wire_def)
qed

text \<open>Each thread touches its own direction only.\<close>

lemma duplex_frame:
  "keeps (\<lambda>s. fst (cl_world s) = a) (client_read_encrypted_frame_optional duplex_tcp c N n)"
  "keeps (\<lambda>s. snd (cl_world s) = b) (client_write_encrypted_frame duplex_tcp c N n m)"
proof -
  have rd: "keeps (\<lambda>s. fst (cl_world s) = a) (on_world (tcp_read_exact duplex_tcp c k))" for k
    by (auto simp: keeps_def on_world_def duplex_tcp_def split: prod.splits)
  have wr: "keeps (\<lambda>s. snd (cl_world s) = b) (on_world (tcp_write_all duplex_tcp c bs))" for bs
    by (auto simp: keeps_def on_world_def duplex_tcp_def split: prod.splits)
  have "keeps (\<lambda>s. fst (cl_world s) = a) (client_read_frame_optional duplex_tcp c)"
    unfolding client_read_frame_optional_def
    by (intro keeps_bind rd) (auto split: read_result.split intro!: keeps_bind rd)
  then show "keeps (\<lambda>s. fst (cl_world s) = a) (client_read_encrypted_frame_optional duplex_tcp c N n)"
    unfolding client_read_encrypted_frame_optional_def by (intro keeps_bind) (auto split: option.split)
  show "keeps (\<lambda>s. snd (cl_world s) = b) (client_write_encrypted_frame duplex_tcp c N n m)"
    unfolding client_write_encrypted_frame_def client_write_frame_def
    by (intro keeps_bind keeps_lift) (auto intro!: keeps_bind wr)
qed

lemma up_turn_frame:
  assumes "client_to_proxy_turn duplex_tcp c N r ts s = (ts', s')"
  shows "down_thread ts' = down_thread ts \<and> to_local ts' = to_local ts \<and> snd (cl_world s') = snd (cl_world s)"
proof (cases "up_thread ts")
  case (Running n tot)
  have "snd (cl_world s1) = snd (cl_world s)" if "client_write_encrypted_frame duplex_tcp c N n bs s = (q, s1)" for bs q s1
    using keepsD [OF duplex_frame(2) refl that] .
  then show ?thesis
    using assms Running by (cases r) (auto simp: client_to_proxy_turn_def split: if_splits prod.splits sum.splits)
qed (use assms in \<open>simp add: client_to_proxy_turn_def\<close>)

lemma down_turn_frame:
  assumes "proxy_to_client_turn duplex_tcp c N w ts s = (ts', s')"
  shows "up_thread ts' = up_thread ts \<and> fst (cl_world s') = fst (cl_world s)"
proof (cases "down_thread ts")
  case (Running n tot)
  obtain q s1 where rd: "client_read_encrypted_frame_optional duplex_tcp c N n s = (q, s1)" by fastforce
  have "fst (cl_world s1) = fst (cl_world s)" using keepsD [OF duplex_frame(1) refl rd] .
  then show ?thesis
    using assms Running rd by (auto simp: proxy_to_client_turn_def split: if_splits sum.splits option.splits)
qed (use assms in \<open>simp add: proxy_to_client_turn_def\<close>)

text \<open>What the first thread takes from the local socket: the reads before the end or an error.\<close>

fun local_reads :: "relay_turn list \<Rightarrow> bytes list" where
  "local_reads [] = []"
| "local_reads (FromLocal (Some bs) # turns) = (if bs = [] then [] else bs # local_reads turns)"
| "local_reads (FromLocal None # turns) = []"
| "local_reads (FromProxy _ # turns) = local_reads turns"

lemma up_ended:
  "up_thread ts = Ended r \<Longrightarrow> relay_local_socks5 duplex_tcp c N turns ts s = (ts', s') \<Longrightarrow>
   up_thread ts' = Ended r \<and> fst (cl_world s') = fst (cl_world s)"
proof (induction turns arbitrary: ts s)
  case (Cons turn turns)
  obtain ts1 s1 where st: "relay_step duplex_tcp c N turn ts s = (ts1, s1)" by fastforce
  have "up_thread ts1 = Ended r \<and> fst (cl_world s1) = fst (cl_world s)"
    using st Cons.prems(1) down_turn_frame by (cases turn) (fastforce simp: relay_step_def client_to_proxy_turn_def)+
  then show ?case using Cons.IH [of ts1 s1] Cons.prems(2) st by simp
qed simp

lemma down_ended:
  "down_thread ts = Ended r \<Longrightarrow> relay_local_socks5 duplex_tcp c N turns ts s = (ts', s') \<Longrightarrow>
   down_thread ts' = Ended r \<and> to_local ts' = to_local ts"
proof (induction turns arbitrary: ts s)
  case (Cons turn turns)
  obtain ts1 s1 where st: "relay_step duplex_tcp c N turn ts s = (ts1, s1)" by fastforce
  have "down_thread ts1 = Ended r \<and> to_local ts1 = to_local ts"
    using st Cons.prems(1) up_turn_frame by (cases turn) (fastforce simp: relay_step_def proxy_to_client_turn_def)+
  then show ?case using Cons.IH [of ts1 s1] Cons.prems(2) st by simp
qed simp

lemma up_stream:
  assumes "delivers N P" and "\<forall>bs. FromLocal (Some bs) \<in> set turns \<longrightarrow> length bs \<le> max_plaintext_len"
    and "up_thread ts = Running n tot" and "tot \<le> 2 ^ 64 - 1" and "relay_local_socks5 duplex_tcp c N turns ts s = (ts', s')"
  shows "fst (cl_world s') = fst (cl_world s) @ wire_of N n (local_reads turns) \<and>
    (\<forall>a. up_thread ts' = Ended (Inr a) \<longrightarrow> a = min (tot + length (concat (local_reads turns))) (2 ^ 64 - 1)) \<and>
    (FromLocal None \<notin> set turns \<longrightarrow> FromLocal (Some []) \<in> set turns \<longrightarrow> (\<exists>a. up_thread ts' = Ended (Inr a)))"
  using assms(2-)
proof (induction turns arbitrary: ts s n tot)
  case (Cons turn turns)
  obtain ts1 s1 where st: "relay_step duplex_tcp c N turn ts s = (ts1, s1)" by fastforce
  then have rest: "relay_local_socks5 duplex_tcp c N turns ts1 s1 = (ts', s')" using Cons.prems(4) by simp
  show ?case
  proof (cases turn)
    case (FromProxy w)
    then have "up_thread ts1 = up_thread ts \<and> fst (cl_world s1) = fst (cl_world s)"
      using st down_turn_frame by (auto simp: relay_step_def)
    then show ?thesis using Cons.IH [OF _ _ _ rest, of n tot] Cons.prems FromProxy by simp
  next
    case (FromLocal r)
    then have t: "client_to_proxy_turn duplex_tcp c N r ts s = (ts1, s1)" using st by (simp add: relay_step_def)
    show ?thesis
    proof (cases "r = None \<or> r = Some []")
      case True
      then have "\<exists>x. up_thread ts1 = Ended x \<and> s1 = s \<and> (if r = None then isl x else x = Inr tot)"
        using t Cons.prems(2) by (auto simp: client_to_proxy_turn_def)
      then show ?thesis using up_ended [OF _ rest] True FromLocal Cons.prems(3) by (auto simp: wire_of_simps)
    next
      case False
      then obtain bs where bs: "r = Some bs" "bs \<noteq> []" by auto
      then have len: "length bs \<le> max_plaintext_len" using Cons.prems(1) FromLocal by simp
      have s1: "up_thread ts1 = Running (Suc n) (min (tot + length bs) (2 ^ 64 - 1))"
          "fst (cl_world s1) = fst (cl_world s) @ frame_wire (cipher_enc N n bs)"
        using t duplex_write [OF assms(1) len, of s "fst (cl_world s)" "snd (cl_world s)" c n] Cons.prems(2) bs
        by (auto simp: client_to_proxy_turn_def)
      from Cons.IH [OF _ s1(1) _ rest] Cons.prems(1) s1(2) bs FromLocal show ?thesis
        by (auto simp: wire_of_simps)
    qed
  qed
qed (simp add: wire_of_simps)

fun proxy_turns :: "relay_turn list \<Rightarrow> nat" where
  "proxy_turns [] = 0"
| "proxy_turns (FromProxy _ # turns) = Suc (proxy_turns turns)"
| "proxy_turns (FromLocal _ # turns) = proxy_turns turns"

lemma down_stream:
  assumes "delivers P N" and "\<forall>m \<in> set ms. m \<noteq> [] \<and> length m \<le> max_plaintext_len"
    and "down_thread ts = Running n tot" and "tot \<le> 2 ^ 64 - 1" and "snd (cl_world s) = wire_of P n ms"
    and "relay_local_socks5 duplex_tcp c N turns ts s = (ts', s')"
  shows "\<exists>out. to_local ts' = to_local ts @ out \<and> prefix out (concat ms) \<and>
    (\<forall>b. down_thread ts' = Ended (Inr b) \<longrightarrow> out = concat ms \<and> b = min (tot + length out) (2 ^ 64 - 1)) \<and>
    (FromProxy False \<notin> set turns \<longrightarrow> length ms < proxy_turns turns \<longrightarrow> (\<exists>b. down_thread ts' = Ended (Inr b)))"
  using assms(2-)
proof (induction turns arbitrary: ts s n tot ms)
  case (Cons turn turns)
  obtain ts1 s1 where st: "relay_step duplex_tcp c N turn ts s = (ts1, s1)" by fastforce
  then have rest: "relay_local_socks5 duplex_tcp c N turns ts1 s1 = (ts', s')" using Cons.prems(5) by simp
  show ?case
  proof (cases turn)
    case (FromLocal r)
    then have "down_thread ts1 = down_thread ts \<and> to_local ts1 = to_local ts \<and> snd (cl_world s1) = snd (cl_world s)"
      using st up_turn_frame by (auto simp: relay_step_def)
    then show ?thesis using Cons.IH [OF Cons.prems(1) _ _ _ rest, of n tot] Cons.prems FromLocal by simp
  next
    case (FromProxy w)
    then have t: "proxy_to_client_turn duplex_tcp c N w ts s = (ts1, s1)" using st by (simp add: relay_step_def)
    have world: "cl_world s = (fst (cl_world s), wire_of P n ms)" using Cons.prems(4) by (simp add: prod_eq_iff)
    show ?thesis
    proof (cases ms)
      case Nil
      then have "ts1 = ts\<lparr>down_thread := Ended (Inr tot)\<rparr>"
        using t duplex_read_end [of s "fst (cl_world s)" c N n] world Cons.prems(2) by (simp add: proxy_to_client_turn_def wire_of_simps)
      then show ?thesis using down_ended [OF _ rest] Cons.prems(3) Nil by auto
    next
      case (Cons m ms')
      have rd: "client_read_encrypted_frame_optional duplex_tcp c N n s = (Inr (Some m), s\<lparr>cl_world := (fst (cl_world s), wire_of P (Suc n) ms')\<rparr>)"
        using duplex_read [OF assms(1), of m s "fst (cl_world s)" n ms' c] Cons.prems(1) world Cons by simp
      show ?thesis
      proof (cases w)
        case False
        then have "\<exists>e. down_thread ts1 = Ended (Inl e) \<and> to_local ts1 = to_local ts"
          using t rd Cons.prems(1,2) Cons by (auto simp: proxy_to_client_turn_def)
        then show ?thesis using down_ended [OF _ rest] FromProxy False by auto
      next
        case True
        then have ts1: "ts1 = ts\<lparr>down_thread := Running (Suc n) (min (tot + length m) (2 ^ 64 - 1)), to_local := to_local ts @ m\<rparr>"
          and s1: "s1 = s\<lparr>cl_world := (fst (cl_world s), wire_of P (Suc n) ms')\<rparr>"
          using t rd Cons.prems(1,2) Cons by (auto simp: proxy_to_client_turn_def)
        obtain out where "to_local ts' = to_local ts1 @ out" "prefix out (concat ms')"
          "\<forall>b. down_thread ts' = Ended (Inr b) \<longrightarrow> out = concat ms' \<and> b = min (min (tot + length m) (2 ^ 64 - 1) + length out) (2 ^ 64 - 1)"
          "FromProxy False \<notin> set turns \<longrightarrow> length ms' < proxy_turns turns \<longrightarrow> (\<exists>b. down_thread ts' = Ended (Inr b))"
          using Cons.IH [of ms' ts1 "Suc n" "min (tot + length m) (2 ^ 64 - 1)" s1, OF _ _ _ _ rest] Cons.prems(1) Cons ts1 s1 by auto
        then show ?thesis
          using ts1 Cons FromProxy by (intro exI [of _ "m @ out"]) auto
      qed
    qed
  qed
qed simp

text \<open>
  C22. However the two relay threads of a tunnel interleave, with each other and with the reads and
  writes on the local socket: the server receives exactly the bytes read from the application, encrypted
  in order; the application receives a prefix of what the server sent, all of it when the threads end
  without an error, and they do end once the application has closed and the frames have been read; the
  reported byte counts are the numbers transferred. The client's transport \<open>N\<close> encrypts to the server
  and decrypts what the server's \<open>P\<close> encrypted; the two directions have states of their own.
\<close>

theorem relay_interleaved:
  assumes to_server: "delivers N P" and to_client: "delivers P N"
    and "\<forall>m \<in> set replies. m \<noteq> [] \<and> length m \<le> max_plaintext_len"
    and "\<forall>bs. FromLocal (Some bs) \<in> set turns \<longrightarrow> length bs \<le> 16 * 1024 - 16"
    and "cl_world s = (before, wire_of P 2 replies)"
    and "relay_local_socks5 duplex_tcp c N turns relay_start s = (ts, s')"
  shows "fst (cl_world s') = before @ wire_of N 2 (local_reads turns) \<and> prefix (to_local ts) (concat replies) \<and>
    (\<forall>a b. relay_joined ts = Some (Inr (a, b)) \<longrightarrow>
       to_local ts = concat replies \<and> a = min (length (concat (local_reads turns))) (2 ^ 64 - 1) \<and>
       b = min (length (concat replies)) (2 ^ 64 - 1)) \<and>
    (FromLocal None \<notin> set turns \<and> FromProxy False \<notin> set turns \<and> FromLocal (Some []) \<in> set turns \<and>
       length replies < proxy_turns turns \<longrightarrow> (\<exists>ab. relay_joined ts = Some (Inr ab)))"
proof -
  have rs: "\<forall>bs. FromLocal (Some bs) \<in> set turns \<longrightarrow> length bs \<le> max_plaintext_len" using assms(4) by (simp add: frame_len_defs)
  have up: "up_thread relay_start = Running 2 0" and down: "down_thread relay_start = Running 2 0" and l: "to_local relay_start = []"
    by (simp_all add: relay_start_def)
  note u = up_stream [OF to_server rs up _ assms(6)]
  note d = down_stream [OF to_client assms(3) down _ _ assms(6)]
  have j: "relay_joined ts = Some (Inr (a, b)) \<longleftrightarrow> up_thread ts = Ended (Inr a) \<and> down_thread ts = Ended (Inr b)" for a b
    by (auto simp: relay_joined_def split: relay_thread.splits sum.splits)
  have u': "fst (cl_world s') = before @ wire_of N 2 (local_reads turns)"
    "\<And>a. up_thread ts = Ended (Inr a) \<Longrightarrow> a = min (length (concat (local_reads turns))) (2 ^ 64 - 1)"
    "FromLocal None \<notin> set turns \<Longrightarrow> FromLocal (Some []) \<in> set turns \<Longrightarrow> \<exists>a. up_thread ts = Ended (Inr a)"
    using u assms(5) by simp_all
  obtain out where o: "to_local ts = out" "prefix out (concat replies)"
    "\<forall>b. down_thread ts = Ended (Inr b) \<longrightarrow> out = concat replies \<and> b = min (0 + length out) (2 ^ 64 - 1)"
    "FromProxy False \<notin> set turns \<longrightarrow> length replies < proxy_turns turns \<longrightarrow> (\<exists>b. down_thread ts = Ended (Inr b))"
    using d unfolding l assms(5) by (simp only: le0 snd_conv refl append_Nil simp_thms) blast
  have d': "prefix (to_local ts) (concat replies)"
    "\<And>b. down_thread ts = Ended (Inr b) \<Longrightarrow> to_local ts = concat replies \<and> b = min (length (concat replies)) (2 ^ 64 - 1)"
    "FromProxy False \<notin> set turns \<Longrightarrow> length replies < proxy_turns turns \<Longrightarrow> \<exists>b. down_thread ts = Ended (Inr b)"
    using o by simp_all
  show ?thesis using u' d' j by blast
qed

theorem relay_interleaved_witness:
  "\<exists>ts s'. relay_local_socks5 duplex_tcp 0 toy_peer
       [FromLocal (Some [1]), FromProxy True, FromLocal (Some [2, 3]), FromProxy True, FromLocal (Some [])] relay_start
       (demo_client_state ([9], wire_of toy_cipher 2 [[7, 8]])) = (ts, s') \<and>
     to_local ts = [7, 8] \<and> relay_joined ts = Some (Inr (3, 2)) \<and> fst (cl_world s') = [9] @ wire_of toy_peer 2 [[1], [2, 3]]"
proof -
  let ?turns = "[FromLocal (Some [1]), FromProxy True, FromLocal (Some [2, 3]), FromProxy True, FromLocal (Some [])]"
  let ?s = "demo_client_state ([9], wire_of toy_cipher 2 [[7, 8]])"
  obtain ts s' where run: "relay_local_socks5 duplex_tcp 0 toy_peer ?turns relay_start ?s = (ts, s')" by fastforce
  have w: "cl_world ?s = ([9], wire_of toy_cipher 2 [[7, 8]])" by (simp add: demo_client_state_def)
  note t = relay_interleaved [OF toy_delivers(2,1) _ _ w run]
  have "\<exists>ab. relay_joined ts = Some (Inr ab)" using t by (auto simp: frame_len_defs)
  then obtain a b where "relay_joined ts = Some (Inr (a, b))" by auto
  then show ?thesis using t run by (auto simp: frame_len_defs)
qed

end
