(* ===== verification/Client_Cli.thy ===== *)
theory Client_Cli
  imports Client_Listener Client_Relay
begin

text \<open>
  The client program as a whole (\<open>ghostbro-client/src/main.rs\<close>): its commands and \<open>main\<close>, over the
  operations of the other client theories. Parsing the command line is a library; what a command
  prints is the value its operation returns. A record of the calls to the network shows in which order
  the program makes them.
\<close>

section \<open>Commands\<close>

datatype Command =
    Keygen path bool
  | ServerKeygen path
  | Enroll string string SpaTransport u16 path
  | Connect "path option" path "path option" "sock_addr option" "sock_addr option" sock_addr "SpaTransport option" "string option" u64
      "path option"
  | Revoke path "path option"
  | SendUdpSpa path path sock_addr "path option"
  | SendHttpsSpa path path string "path option"
  | ConnectOnce path path sock_addr sock_addr string SpaTransport "string option" "path option"
  | ConnectSocks5Once path path sock_addr sock_addr string string SpaTransport "string option" "path option"
  | ConnectGhostRelayOnce path path sock_addr sock_addr SpaTransport "string option" "path option"
  | RelaySubmitUrl path path sock_addr sock_addr string bool SpaTransport "string option" "path option"
  | RelaySubmitGit path path sock_addr sock_addr string SpaTransport "string option" "path option"
  | RelaySubmitPackage path path sock_addr sock_addr string string string SpaTransport "string option" "path option"
  | RelayList path path sock_addr sock_addr SpaTransport "string option" "path option"
  | RelayDownload path path sock_addr sock_addr string path RelayArtifact SpaTransport "string option" "path option"
  | RelayDelete path path sock_addr sock_addr string SpaTransport "string option" "path option"

text \<open>
  What the program gets from outside: random keys, the addresses it can listen on, and, for \<open>connect\<close>, what
  happens on the listener and its threads for as long as the program runs.
\<close>

record cli_env = config_env +
  cli_signing_key :: bytes
  cli_salt :: bytes
  cli_nonce :: bytes
  cli_server_keypair :: "bytes \<times> bytes"
  cli_bindable :: "sock_addr \<Rightarrow> bool"
  cli_events :: "listen_event list"

definition discard :: "('w, 'a) client_comp \<Rightarrow> ('w, unit) client_comp" where
  "discard m = c_bind m (\<lambda>_. c_lift (Inr ()))"

definition main_connect ::
    "cli_env \<Rightarrow> 'w failover_net \<Rightarrow> 'h xk_initiator \<Rightarrow> path option \<Rightarrow> path \<Rightarrow> path option \<Rightarrow> sock_addr option \<Rightarrow> sock_addr option \<Rightarrow> sock_addr
     \<Rightarrow> SpaTransport option \<Rightarrow> string option \<Rightarrow> u64 \<Rightarrow> path option \<Rightarrow> ('w, unit) client_comp" where
  "main_connect E W X config identity_key server_key spa_endpoint proxy_endpoint listen tmode https_spa_url allow_ttl_seconds counter_file =
     c_bind (resolve_connect_configs (config_env.truncate E) config server_key spa_endpoint proxy_endpoint tmode https_spa_url)
       (\<lambda>(resolved, policy) s.
         case connect_listener (client_env.truncate E) W X (cli_bindable E) (cli_events E) identity_key resolved policy listen
                allow_ttl_seconds counter_file s of
           (r, st) \<Rightarrow> (r, ll_client st))"

definition main_spa :: "cli_env \<Rightarrow> path \<Rightarrow> (bytes \<Rightarrow> ('w, unit) client_comp) \<Rightarrow> ('w, unit) client_comp" where
  "main_spa E server_key send = c_bind (read_noise_public_key_array (client_env.truncate E) server_key) send"

text \<open>The relay commands; each exchange is a tunnel of its own.\<close>

fun main_relay :: "client_env \<Rightarrow> 'w failover_net \<Rightarrow> 'h xk_initiator \<Rightarrow> Command \<Rightarrow> 'w client \<Rightarrow> ((client_error + unit) \<times> 'w client) option" where
  "main_relay E W X (RelaySubmitUrl idk key spa proxy url norm tmode https_url counter_file) s =
     Some (discard (relay_submit_url (run_relay_request E W X idk key spa proxy tmode https_url counter_file) url norm) s)"
| "main_relay E W X (RelaySubmitGit idk key spa proxy git_url tmode https_url counter_file) s =
     Some (discard (relay_submit_git (run_relay_request E W X idk key spa proxy tmode https_url counter_file) git_url) s)"
| "main_relay E W X (RelaySubmitPackage idk key spa proxy eco name version tmode https_url counter_file) s =
     Some (discard (relay_submit_package (run_relay_request E W X idk key spa proxy tmode https_url counter_file) eco name version) s)"
| "main_relay E W X (RelayList idk key spa proxy tmode https_url counter_file) s =
     Some (discard (client_relay_list (run_relay_request E W X idk key spa proxy tmode https_url counter_file)) s)"
| "main_relay E W X (RelayDownload idk key spa proxy job_id output artifact tmode https_url counter_file) s =
     relay_download (run_relay_request E W X idk key spa proxy tmode https_url counter_file) job_id output artifact s"
| "main_relay E W X (RelayDelete idk key spa proxy job_id tmode https_url counter_file) s =
     Some (relay_delete (run_relay_request E W X idk key spa proxy tmode https_url counter_file) job_id s)"
| "main_relay E W X _ s = None"

fun client_main :: "cli_env \<Rightarrow> 'w failover_net \<Rightarrow> 'h xk_initiator \<Rightarrow> Command \<Rightarrow> 'w client \<Rightarrow> ((client_error + unit) \<times> 'w client) option" where
  "client_main E W X (Keygen output plaintext_debug) s =
     Some (keygen (client_env.truncate E) (cli_signing_key E) (cli_salt E) (cli_nonce E) output plaintext_debug s)"
| "client_main E W X (ServerKeygen output) s = Some (server_keygen (client_env.truncate E) (cli_server_keypair E) output s)"
| "client_main E W X (Enroll server_key endpoint tmode port output) s =
     Some (enroll (config_env.truncate E) server_key endpoint tmode port output s)"
| "client_main E W X (Connect config idk server_key spa proxy listen tmode https_url ttl counter_file) s =
     Some (main_connect E W X config idk server_key spa proxy listen tmode https_url ttl counter_file s)"
| "client_main E W X (Revoke config idk) s = Some (discard (revoke (config_env.truncate E) W config idk) s)"
| "client_main E W X (SendUdpSpa idk server_key endpoint counter_file) s =
     Some (main_spa E server_key (\<lambda>key. send_udp_spa (client_env.truncate E) (client_net.truncate W) idk key endpoint counter_file) s)"
| "client_main E W X (SendHttpsSpa idk server_key url counter_file) s =
     Some (main_spa E server_key (\<lambda>key. send_https_spa (client_env.truncate E) (client_net.truncate W) idk key url counter_file) s)"
| "client_main E W X (ConnectOnce idk key spa proxy message tmode https_url counter_file) s =
     Some (discard (connect_once (client_env.truncate E) W X idk key spa proxy message tmode https_url counter_file) s)"
| "client_main E W X (ConnectSocks5Once idk key spa proxy target message tmode https_url counter_file) s =
     Some (discard (connect_socks5_once (client_env.truncate E) W X idk key spa proxy target message tmode https_url counter_file) s)"
| "client_main E W X (ConnectGhostRelayOnce idk key spa proxy tmode https_url counter_file) s =
     Some (connect_ghost_relay_once (client_env.truncate E) W X idk key spa proxy tmode https_url counter_file s)"
| "client_main E W X cmd s = main_relay (client_env.truncate E) W X cmd s"

section \<open>The order of the network calls\<close>

text \<open>The calls that reach out to a host: datagrams, posts, latency probes and TCP connections.\<close>

datatype net_call = Datagram sock_addr bytes | Post string bytes | Probe sock_addr | Dial sock_addr

definition logged :: "'w failover_net \<Rightarrow> ('w \<times> net_call list) failover_net" where
  "logged W =
     \<lparr>udp_send = (\<lambda>a bs (w, t). case udp_send W a bs w of (r, w') \<Rightarrow> (r, (w', t @ [Datagram a bs]))),
      https_post = (\<lambda>u bs (w, t). case https_post W u bs w of (r, w') \<Rightarrow> (r, (w', t @ [Post u bs]))),
      parse_http_date = parse_http_date W,
      tcp_connect = (\<lambda>a (w, t). case tcp_connect W a w of (r, w') \<Rightarrow> (r, (w', t @ [Dial a]))),
      tcp_write_all = (\<lambda>c bs (w, t). case tcp_write_all W c bs w of (r, w') \<Rightarrow> (r, (w', t))),
      tcp_read_exact = (\<lambda>c n (w, t). case tcp_read_exact W c n w of (r, w') \<Rightarrow> (r, (w', t))),
      probe_latency = (\<lambda>a (w, t). case probe_latency W a w of (r, w') \<Rightarrow> (r, (w', t @ [Probe a]))),
      shuffle = (\<lambda>xs (w, t). case shuffle W xs w of (r, w') \<Rightarrow> (r, (w', t)))\<rparr>"

abbreviation calls :: "('w \<times> net_call list) client \<Rightarrow> net_call list" where
  "calls s \<equiv> snd (cl_world s)"

text \<open>A knock for a candidate: the call that carries a packet sealed for its key to its SPA endpoint.\<close>

definition is_knock :: "crypto \<Rightarrow> ResolvedConnectConfig \<Rightarrow> net_call \<Rightarrow> bool" where
  "is_knock C candidate call \<longleftrightarrow>
     length (rc_server_public_key candidate) = 32 \<and>
     (\<exists>r fill eph sk m ts ctr.
        let payload = build C r fill eph sk m ts ctr PacketSource (rc_server_public_key candidate) in
        case rc_spa_mode candidate of
          TransportUdp \<Rightarrow> call = Datagram (rc_spa_endpoint candidate) payload
        | TransportHttps \<Rightarrow> \<exists>url. rc_https_spa_url candidate = Some url \<and> call = Post url payload)"

text \<open>Every connection comes directly after the knock for the candidate it belongs to.\<close>

definition knocks_first :: "crypto \<Rightarrow> (ResolvedConnectConfig \<Rightarrow> bool) \<Rightarrow> net_call list \<Rightarrow> bool" where
  "knocks_first C allowed t \<longleftrightarrow>
     (\<forall>i a. i < length t \<longrightarrow> t ! i = Dial a \<longrightarrow>
        0 < i \<and> (\<exists>candidate. allowed candidate \<and> rc_proxy_endpoint candidate = a \<and> is_knock C candidate (t ! (i - 1))))"

text \<open>The candidates of a command: those of the resolved configuration, or the one on the command line.\<close>

definition one_candidate :: "sock_addr \<Rightarrow> sock_addr \<Rightarrow> SpaTransport \<Rightarrow> string option \<Rightarrow> ResolvedConnectConfig \<Rightarrow> bool" where
  "one_candidate spa proxy tmode url c \<longleftrightarrow>
     rc_spa_endpoint c = spa \<and> rc_proxy_endpoint c = proxy \<and> rc_spa_mode c = tmode \<and> rc_https_spa_url c = url"

fun command_candidate :: "cli_env \<Rightarrow> 'w client \<Rightarrow> Command \<Rightarrow> ResolvedConnectConfig \<Rightarrow> bool" where
  "command_candidate E s (Connect config idk server_key spa proxy listen tmode url ttl counter_file) c =
     (case fst (resolve_connect_configs (config_env.truncate E) config server_key spa proxy tmode url s) of
        Inl _ \<Rightarrow> False
      | Inr (resolved, _) \<Rightarrow> c \<in> set resolved)"
| "command_candidate E s (ConnectOnce _ _ spa proxy _ tmode url _) c = one_candidate spa proxy tmode url c"
| "command_candidate E s (ConnectSocks5Once _ _ spa proxy _ _ tmode url _) c = one_candidate spa proxy tmode url c"
| "command_candidate E s (ConnectGhostRelayOnce _ _ spa proxy tmode url _) c = one_candidate spa proxy tmode url c"
| "command_candidate E s (RelaySubmitUrl _ _ spa proxy _ _ tmode url _) c = one_candidate spa proxy tmode url c"
| "command_candidate E s (RelaySubmitGit _ _ spa proxy _ tmode url _) c = one_candidate spa proxy tmode url c"
| "command_candidate E s (RelaySubmitPackage _ _ spa proxy _ _ _ tmode url _) c = one_candidate spa proxy tmode url c"
| "command_candidate E s (RelayList _ _ spa proxy tmode url _) c = one_candidate spa proxy tmode url c"
| "command_candidate E s (RelayDownload _ _ spa proxy _ _ _ tmode url _) c = one_candidate spa proxy tmode url c"
| "command_candidate E s (RelayDelete _ _ spa proxy _ tmode url _) c = one_candidate spa proxy tmode url c"
| "command_candidate E s _ c = False"

section \<open>Facts\<close>

lemma knocks_first_Nil [simp]: "knocks_first C A []"
  by (simp add: knocks_first_def)

lemma knocks_first_other: "knocks_first C A t \<Longrightarrow> (\<And>a. e \<noteq> Dial a) \<Longrightarrow> knocks_first C A (t @ [e])"
  by (auto simp: knocks_first_def nth_append less_Suc_eq)

lemma knocks_first_dial:
  assumes "knocks_first C A t" and "t \<noteq> []" and "A c" and "is_knock C c (last t)"
  shows "knocks_first C A (t @ [Dial (rc_proxy_endpoint c)])"
  unfolding knocks_first_def
proof (intro allI impI)
  fix i a assume i: "i < length (t @ [Dial (rc_proxy_endpoint c)])" and d: "(t @ [Dial (rc_proxy_endpoint c)]) ! i = Dial a"
  let ?t = "t @ [Dial (rc_proxy_endpoint c)]"
  show "0 < i \<and> (\<exists>candidate. A candidate \<and> rc_proxy_endpoint candidate = a \<and> is_knock C candidate (?t ! (i - 1)))"
  proof (cases "i < length t")
    case True
    then have "t ! i = Dial a" "?t ! (i - 1) = t ! (i - 1)" using d by (simp_all add: nth_append_left)
    then show ?thesis using assms(1) True unfolding knocks_first_def by metis
  next
    case False
    then have "i = length t" using i by simp
    then have "a = rc_proxy_endpoint c" "?t ! (i - 1) = last t" "0 < i" using d assms(2) by (simp_all add: nth_append last_conv_nth)
    then show ?thesis using assms(3,4) by metis
  qed
qed

abbreviation calls_are :: "(net_call list \<Rightarrow> bool) \<Rightarrow> ('w \<times> net_call list) client \<Rightarrow> bool" where
  "calls_are Q \<equiv> \<lambda>s. Q (calls s)"

text \<open>What makes no call to a host.\<close>

lemma keeps_calls:
  "keeps (calls_are Q) (cl_io f m)" "keeps (calls_are Q) (prompt_password E)" "keeps (calls_are Q) (client_timestamp_ms E)"
  "keeps (calls_are Q) (system_now E)" "keeps (calls_are Q) (cl_draw E)"
  by (auto simp: keeps_def cl_io_def prompt_password_def client_timestamp_ms_def system_now_def cl_draw_def Let_def split: prod.splits)

lemma keeps_calls_case:
  "(\<And>x. keeps P (f x)) \<Longrightarrow> keeps P g \<Longrightarrow> keeps P (case q of Some x \<Rightarrow> f x | None \<Rightarrow> g)"
  "(\<And>x y. keeps P (h x y)) \<Longrightarrow> keeps P (case z of (x, y) \<Rightarrow> h x y)"
  "keeps P g \<Longrightarrow> keeps P g' \<Longrightarrow> keeps P (if b then g else g')"
  by (auto split: option.split prod.split)

lemmas calls_frame = keeps_bind keeps_lift keeps_calls keeps_calls_case

lemma keeps_calls_keys:
  "keeps (calls_are Q) (read_signing_key E p)" "keeps (calls_are Q) (read_noise_public_key E p)"
  "keeps (calls_are Q) (read_noise_public_key_array E p)" "keeps (calls_are Q) (prompt_new_passphrase E)"
  "keeps (calls_are Q) (load_client_config G p)"
  unfolding read_signing_key_def read_noise_public_key_array_def read_noise_public_key_def prompt_new_passphrase_def load_client_config_def
  by (intro calls_frame)+

lemma keeps_calls_counter: "keeps (calls_are Q) (next_counter p floor)"
proof -
  have "keeps (calls_are Q) (c_bind (cl_io CounterFile m) (\<lambda>_. c_lift (Inr y)))" for m :: "unit io" and y :: u64 by (intro calls_frame)
  then have k: "Q (calls s) \<Longrightarrow> Q (calls (snd (c_bind (cl_io CounterFile m) (\<lambda>_. c_lift (Inr y)) s)))"
    for m :: "unit io" and y :: u64 and s unfolding keeps_def by blast
  show ?thesis
    unfolding keeps_def next_counter_def
    by (auto simp: Let_def intro!: k split: prod.splits sum.splits io_error.splits)
qed

lemma keeps_calls_local:
  "keeps (calls_are Q) (keygen E sk salt nonce output debug)" "keeps (calls_are Q) (server_keygen E pair output)"
  "keeps (calls_are Q) (enroll G server_key endpoint tmode port output)"
  "keeps (calls_are Q) (resolve_connect_configs G config key_file spa proxy m u)"
  unfolding keygen_def keygen_public_files_def server_keygen_def enroll_def resolve_connect_configs_def Let_def
  by (intro calls_frame keeps_calls_keys)+

lemma keeps_calls_payload: "keeps (calls_are Q) (spa_payload E m idk pub counter_file)"
  unfolding spa_payload_def by (intro calls_frame keeps_calls_keys keeps_calls_counter)

lemma keeps_calls_frames:
  "keeps (calls_are Q) (client_read_frame_optional (logged W) c)" "keeps (calls_are Q) (client_read_frame (logged W) c)"
  "keeps (calls_are Q) (client_write_frame (logged W) c frame)"
  "keeps (calls_are Q) (client_read_encrypted_frame (logged W) c N n)"
  "keeps (calls_are Q) (client_write_encrypted_frame (logged W) c N n pt)"
  "keeps (calls_are Q) (client_read_encrypted_frame_optional (logged W) c N n)"
proof -
  have rd: "keeps (calls_are Q) (on_world (tcp_read_exact (logged W) c k))" for k
    by (auto simp: keeps_def on_world_def logged_def split: prod.splits)
  have wr: "keeps (calls_are Q) (on_world (tcp_write_all (logged W) c bs))" for bs
    by (auto simp: keeps_def on_world_def logged_def split: prod.splits)
  have rr: "keeps P (case x of ReadAll bs \<Rightarrow> f bs | ReadEof \<Rightarrow> g | ReadFailed \<Rightarrow> g')"
    if "\<And>bs. keeps P (f bs)" "keeps P g" "keeps P g'" for P :: "('a \<times> net_call list) client \<Rightarrow> bool" and x f
      and g :: "('a \<times> net_call list, bytes option) client_comp" and g'
    using that by (cases x) auto
  show r: "keeps (calls_are Q) (client_read_frame_optional (logged W) c)"
    unfolding client_read_frame_optional_def by (intro calls_frame rd rr)
  then show r': "keeps (calls_are Q) (client_read_frame (logged W) c)"
    unfolding client_read_frame_def by (intro calls_frame)
  have w: "keeps (calls_are Q) (client_write_frame (logged W) c f)" for f
    unfolding client_write_frame_def by (intro calls_frame wr)
  then show "keeps (calls_are Q) (client_write_frame (logged W) c frame)" .
  show "keeps (calls_are Q) (client_read_encrypted_frame (logged W) c N n)"
    unfolding client_read_encrypted_frame_def by (intro calls_frame r')
  show "keeps (calls_are Q) (client_write_encrypted_frame (logged W) c N n pt)"
    unfolding client_write_encrypted_frame_def by (intro calls_frame w)
  show "keeps (calls_are Q) (client_read_encrypted_frame_optional (logged W) c N n)"
    unfolding client_read_encrypted_frame_optional_def by (intro calls_frame r)
qed

lemma keeps_calls_handshake: "keeps (calls_are Q) (client_handshake (logged W) X c h)"
  unfolding client_handshake_def by (intro calls_frame keeps_calls_frames)

lemmas calls_tunnel = calls_frame keeps_calls_keys keeps_calls_frames keeps_calls_handshake

text \<open>A knock adds its call, and nothing else; it is there when it succeeded.\<close>

definition knock_of :: "bytes \<Rightarrow> sock_addr \<Rightarrow> sock_addr \<Rightarrow> SpaTransport \<Rightarrow> string option \<Rightarrow> ResolvedConnectConfig" where
  "knock_of pub spa proxy tmode url =
     \<lparr>rc_server_public_key = pub, rc_spa_endpoint = spa, rc_proxy_endpoint = proxy, rc_spa_mode = tmode, rc_https_spa_url = url\<rparr>"

lemma spa_payload_calls: "spa_payload E m idk pub counter_file s = (r, s') \<Longrightarrow> calls s' = calls s"
  using keepsD [OF keeps_calls_payload [of "\<lambda>t. t = calls s"]] by blast

lemma spa_payload_built:
  "spa_payload E m idk pub counter_file s = (Inr payload, s') \<Longrightarrow>
   \<exists>r fill eph sk ts ctr. payload = build (cl_crypto E) r fill eph sk m ts ctr PacketSource pub"
  by (auto simp: spa_payload_def comp_eqs split: prod.splits) blast

lemma send_udp_spa_call:
  assumes "send_udp_spa E (client_net.truncate (logged W)) idk pub spa counter_file s = (r, s')" and "length pub = 32"
  shows "calls s' = calls s \<and> isl r \<or> (\<exists>e. calls s' = calls s @ [e] \<and> (\<forall>proxy url. is_knock (cl_crypto E) (knock_of pub spa proxy TransportUdp url) e))"
proof -
  obtain q s1 where p: "spa_payload E Udp idk pub counter_file s = (q, s1)" by fastforce
  show ?thesis
  proof (cases q)
    case (Inr payload)
    have "calls s' = calls s @ [Datagram spa payload]"
      using assms(1) p Inr spa_payload_calls [OF p]
      by (auto simp: send_udp_spa_def c_bind_def on_world_def logged_def client_net.truncate_def split: prod.splits)
    then show ?thesis
      using spa_payload_built [OF p [unfolded Inr]] assms(2) by (auto simp: is_knock_def knock_of_def Let_def) blast
  qed (use assms(1) p spa_payload_calls [OF p] in \<open>auto simp: send_udp_spa_def c_bind_def\<close>)
qed

lemma send_https_spa_call:
  assumes "send_https_spa E (client_net.truncate (logged W)) idk pub url counter_file s = (r, s')" and "length pub = 32"
  shows "calls s' = calls s \<and> isl r \<or> (\<exists>e. calls s' = calls s @ [e] \<and> (\<forall>spa proxy. is_knock (cl_crypto E) (knock_of pub spa proxy TransportHttps (Some url)) e))"
proof -
  obtain q s1 where p: "spa_payload E Https idk pub counter_file s = (q, s1)" by fastforce
  show ?thesis
  proof (cases q)
    case (Inr payload)
    obtain resp w where post: "https_post W url payload (fst (cl_world s1)) = (resp, w)" by fastforce
    let ?k = "\<lambda>response. case response of
         None \<Rightarrow> c_lift (Inl SpaSendFailed)
       | Some (status, date_header) \<Rightarrow>
           if status \<noteq> 204 then c_lift (Inl (SpaStatus status))
           else (case date_header of
                   None \<Rightarrow> c_lift (Inr ())
                 | Some date \<Rightarrow> check_clock_drift_from_http_date E (client_net.truncate (logged W)) date)"
    have k: "keeps (calls_are Q) (?k response)" for Q response
      unfolding check_clock_drift_from_http_date_def
      by (intro calls_frame) (auto split: DriftVerdict.split)
    have "on_world (https_post (client_net.truncate (logged W)) url payload) s1 =
        (Inr resp, s1\<lparr>cl_world := (w, calls s @ [Post url payload])\<rparr>)"
      using spa_payload_calls [OF p] post by (simp add: on_world_def logged_def client_net.truncate_def split_beta)
    then have st: "?k resp (s1\<lparr>cl_world := (w, calls s @ [Post url payload])\<rparr>) = (r, s')"
      using assms(1) p Inr by (simp add: send_https_spa_def c_bind_def)
    have "calls s' = calls s @ [Post url payload]"
      using keepsD [OF k [of "\<lambda>t. t = calls s @ [Post url payload]" resp] _ st] by simp
    then show ?thesis
      using spa_payload_built [OF p [unfolded Inr]] assms(2) by (auto simp: is_knock_def knock_of_def Let_def) blast
  qed (use assms(1) p spa_payload_calls [OF p] in \<open>auto simp: send_https_spa_def c_bind_def\<close>)
qed

lemma send_spa_call:
  assumes "send_spa E (client_net.truncate (logged W)) idk pub spa tmode url counter_file s = (r, s')" and "length pub = 32"
  shows "calls s' = calls s \<and> isl r \<or> (\<exists>e. calls s' = calls s @ [e] \<and> is_knock (cl_crypto E) (knock_of pub spa proxy tmode url) e)"
proof (cases tmode)
  case TransportUdp
  then have "send_udp_spa E (client_net.truncate (logged W)) idk pub spa counter_file s = (r, s')" using assms(1) by (simp add: send_spa_def)
  from send_udp_spa_call [OF this assms(2)] TransportUdp show ?thesis by blast
next
  case TransportHttps
  show ?thesis
  proof (cases url)
    case (Some u)
    then have "send_https_spa E (client_net.truncate (logged W)) idk pub u counter_file s = (r, s')"
      using assms(1) TransportHttps by (simp add: send_spa_def c_bind_def)
    from send_https_spa_call [OF this assms(2)] TransportHttps Some show ?thesis by blast
  qed (use assms(1) TransportHttps in \<open>auto simp: send_spa_def c_bind_def\<close>)
qed

lemma is_knock_not_dial: "is_knock C c e \<Longrightarrow> e \<noteq> Dial a"
  by (cases "rc_spa_mode c") (auto simp: is_knock_def Let_def)

text \<open>The order is kept; and after a knock, a connection to its candidate may come.\<close>

abbreviation ordered :: "crypto \<Rightarrow> (ResolvedConnectConfig \<Rightarrow> bool) \<Rightarrow> ('w \<times> net_call list) client \<Rightarrow> bool" where
  "ordered C A \<equiv> calls_are (knocks_first C A)"

abbreviation knocked :: "crypto \<Rightarrow> (ResolvedConnectConfig \<Rightarrow> bool) \<Rightarrow> ResolvedConnectConfig \<Rightarrow> ('w \<times> net_call list) client \<Rightarrow> bool" where
  "knocked C A c \<equiv> calls_are (\<lambda>t. knocks_first C A t \<and> t \<noteq> [] \<and> is_knock C c (last t))"

lemma send_spa_knocks:
  assumes "length pub = 32"
  shows "establishes (ordered (cl_crypto E) A) (knocked (cl_crypto E) A (knock_of pub spa proxy tmode url)) (ordered (cl_crypto E) A)
    (send_spa E (client_net.truncate (logged W)) idk pub spa tmode url counter_file)"
  unfolding establishes_def
proof (intro allI impI)
  fix s r s' assume o: "ordered (cl_crypto E) A s"
    and "send_spa E (client_net.truncate (logged W)) idk pub spa tmode url counter_file s = (r, s')"
  note q = send_spa_call [OF this(2) assms, of proxy]
  show "if isl r then ordered (cl_crypto E) A s' else knocked (cl_crypto E) A (knock_of pub spa proxy tmode url) s'"
  proof (cases "calls s' = calls s \<and> isl r")
    case False
    then obtain e where e: "calls s' = calls s @ [e]" "is_knock (cl_crypto E) (knock_of pub spa proxy tmode url) e" using q by blast
    then show ?thesis using knocks_first_other [OF o is_knock_not_dial] by simp
  qed (use o in simp)
qed

lemma dial_after_knock:
  assumes "A c" and "rc_proxy_endpoint c = proxy"
  shows "establishes (knocked C A c) (ordered C A) (ordered C A) (on_world (tcp_connect (logged W) proxy))"
  using knocks_first_dial [where A = A and c = c] assms
  by (auto simp: establishes_def on_world_def logged_def split: prod.splits)

text \<open>Reading keys between the knock and the connection changes nothing; the rest makes no connection.\<close>

lemma establishes_ordered: "keeps (ordered C A) m \<Longrightarrow> establishes (ordered C A) (ordered C A) (ordered C A) m"
  by (rule establishes_keeps)

lemma establishes_knocked:
  "keeps (knocked C A c) m \<Longrightarrow> establishes (knocked C A c) (knocked C A c) (ordered C A) m"
  by (rule establishes_keeps, assumption, erule conjunct1)

lemma connect_noise_ordered:
  assumes "A (knock_of pub spa proxy tmode url)"
  shows "keeps (ordered (cl_crypto E) A) (connect_noise E (logged W) X idk pub spa proxy tmode url counter_file)"
proof (cases "length pub = 32")
  case True
  note dial = dial_after_knock [where A = A and c = "knock_of pub spa proxy tmode url", OF assms]
  show ?thesis
    unfolding connect_noise_def Let_def
    by (rule keeps_establishes, rule establishes_bind, rule establishes_ordered [OF keeps_lift],
      rule establishes_bind, rule send_spa_knocks [OF True, where proxy = proxy],
      rule establishes_bind, rule establishes_knocked [OF keeps_calls_keys(1)],
      rule establishes_bind, rule establishes_knocked [OF keeps_lift],
      rule establishes_bind, rule dial, simp add: knock_of_def, rule establishes_ordered, intro calls_tunnel)
qed (simp add: connect_noise_def c_bind_def keeps_def)

lemma connect_once_ordered:
  assumes "\<And>pub. A (knock_of pub spa proxy tmode url)"
  shows "keeps (ordered (cl_crypto E) A) (connect_once E (logged W) X idk key spa proxy message tmode url counter_file)"
proof -
  have len: "length pub = 32" if "read_noise_public_key_array E key s = (Inr pub, s')" for pub and s s' :: "('a \<times> net_call list) client"
    using that by (auto simp: read_noise_public_key_array_def comp_eqs split: if_splits)
  have dial: "establishes (knocked (cl_crypto E) A (knock_of pub spa proxy tmode url)) (ordered (cl_crypto E) A) (ordered (cl_crypto E) A)
      (on_world (tcp_connect (logged W) proxy))" for pub
    by (rule dial_after_knock [where A = A and c = "knock_of pub spa proxy tmode url", OF assms]) (simp add: knock_of_def)
  let ?rest = "\<lambda>pub. c_bind (send_spa E (client_net.truncate (logged W)) idk pub spa tmode url counter_file) (\<lambda>_.
     c_bind (read_signing_key E idk) (\<lambda>signing_key.
     c_bind (read_noise_public_key E key) (\<lambda>server_public_key.
        c_bind (c_lift (ok_or NoiseFailed (xi_new X (derive_noise_static_private_key (cl_crypto E) signing_key) server_public_key
               (key_id_for_public_key (cl_crypto E) (ed_public (cl_crypto E) signing_key))))) (\<lambda>h.
          c_bind (on_world (tcp_connect (logged W) proxy)) (\<lambda>conn.
          c_bind (c_lift (ok_or ConnectFailed conn)) (\<lambda>c.
          c_bind (client_handshake (logged W) X c h) (\<lambda>N.
          c_bind (client_write_encrypted_frame (logged W) c N 0 (as_bytes message)) (\<lambda>_.
            client_read_encrypted_frame (logged W) c N 0))))))))"
  have rest: "keeps (ordered (cl_crypto E) A) (?rest pub)" if "length pub = 32" for pub
    by (rule keeps_establishes, rule establishes_bind, rule send_spa_knocks [OF that, where proxy = proxy],
      rule establishes_bind, rule establishes_knocked [OF keeps_calls_keys(1)],
      rule establishes_bind, rule establishes_knocked [OF keeps_calls_keys(2)],
      rule establishes_bind, rule establishes_knocked [OF keeps_lift],
      rule establishes_bind, rule dial, rule establishes_ordered, intro calls_tunnel)
  have eq: "connect_once E (logged W) X idk key spa proxy message tmode url counter_file = c_bind (read_noise_public_key_array E key) ?rest"
    by (simp add: connect_once_def Let_def)
  show ?thesis
    unfolding eq by (rule keeps_bind_val [OF keeps_calls_keys(3)]) (use rest len in blast)
qed

lemmas calls_session = calls_tunnel connect_noise_ordered

lemma one_shots_ordered:
  assumes "\<And>pub. A (knock_of pub spa proxy tmode url)"
  shows "keeps (ordered (cl_crypto E) A) (run_relay_request E (logged W) X idk key spa proxy tmode url counter_file request)"
    and "keeps (ordered (cl_crypto E) A) (connect_socks5_once E (logged W) X idk key spa proxy target message tmode url counter_file)"
    and "keeps (ordered (cl_crypto E) A) (connect_ghost_relay_once E (logged W) X idk key spa proxy tmode url counter_file)"
  unfolding run_relay_request_def relay_exchange_def connect_socks5_once_def connect_ghost_relay_once_def
  by (intro calls_session assms)+

lemma keeps_relay_commands:
  assumes "\<And>request. keeps P (run request)"
  shows "keeps P (relay_submit_url run u norm)" "keeps P (relay_submit_git run u)" "keeps P (relay_submit_package run u v w)"
    "keeps P (client_relay_list run)" "keeps P (relay_delete run u)" "keeps P (download_chunk run u a off)"
  unfolding relay_submit_url_def relay_submit_git_def relay_submit_package_def client_relay_list_def relay_delete_def download_chunk_def
  by (intro keeps_bind keeps_lift keeps_calls_case assms)+

lemma download_loop_keeps:
  assumes "download_loop run job_id artifact off body s = Some y" and "\<And>request. keeps P (run request)" and "P s"
  shows "P (snd y)"
proof -
  have "(\<forall>request. keeps P (run request)) \<longrightarrow> P s \<longrightarrow> P (snd y)"
  proof (rule download_loop.raw_induct [where P = "\<lambda>run i a off body s y. (\<forall>request. keeps P (run request)) \<longrightarrow> P s \<longrightarrow> P (snd y)",
        OF _ assms(1)], intro impI)
    fix loop run i a off body s y
    assume IH: "\<And>run i a off body s y. loop run i a off body s = Some y \<Longrightarrow> (\<forall>request. keeps P (run request)) \<longrightarrow> P s \<longrightarrow> P (snd y)"
      and eq: "(case download_chunk run i a off s of
           (Inl e, s') \<Rightarrow> Some (Inl e, s')
         | (Inr (terminal, tot, chunk), s') \<Rightarrow>
             if terminal
             then Some (if length (body @ chunk) \<noteq> unat tot
                        then Inl (RelayError (SizeMismatch (length (body @ chunk)) tot)) else Inr (body @ chunk), s')
             else loop run i a (off + word_of_nat (length chunk)) (body @ chunk) s') = Some y"
      and run: "\<forall>request. keeps P (run request)" and "P s"
    obtain q s1 where c: "download_chunk run i a off s = (q, s1)" by fastforce
    have "keeps P (download_chunk run i a off)" using run by (intro keeps_relay_commands) blast
    from keepsD [OF this \<open>P s\<close> c] have "P s1" .
    then show "P (snd y)"
      using eq c IH run by (auto split: sum.splits prod.splits if_splits)
  qed
  then show ?thesis using assms(2,3) by blast
qed

lemma notify_servers_ordered: "keeps (ordered C A) (notify_servers (logged W) body servers acc)"
proof (induction servers arbitrary: acc)
  case (Cons server servers)
  have post: "keeps (ordered C A) (on_world (https_post (logged W) url body))" for url
    by (auto simp: keeps_def on_world_def logged_def intro: knocks_first_other split: prod.splits)
  show ?case
    by (cases acc) (auto intro!: keeps_bind post Cons.IH split: option.split)
qed simp

lemma revoke_ordered: "keeps (ordered C A) (revoke G (logged W) config idk)"
  unfolding revoke_def by (intro calls_frame keeps_calls_keys notify_servers_ordered)

text \<open>Sending a knock alone.\<close>

lemma main_spa_ordered:
  assumes "\<And>pub s r s'. length pub = 32 \<Longrightarrow> send pub s = (r, s') \<Longrightarrow>
      calls s' = calls s \<or> (\<exists>e. calls s' = calls s @ [e] \<and> (\<forall>a. e \<noteq> Dial a))"
  shows "keeps (ordered C A) (main_spa E key send)"
  unfolding main_spa_def
proof (rule keeps_bind_val [OF keeps_calls_keys(3)])
  fix pub s s' assume "read_noise_public_key_array (client_env.truncate E) key s = (Inr pub, s')"
  then have "length pub = 32" by (auto simp: read_noise_public_key_array_def comp_eqs split: if_splits)
  from assms [OF this] show "keeps (ordered C A) (send pub)"
    unfolding keeps_def by (metis knocks_first_other prod.collapse)
qed

lemma send_only_calls:
  assumes "length pub = 32"
  shows "send_udp_spa E (client_net.truncate (logged W)) idk pub endpoint counter_file s = (r, s') \<Longrightarrow>
      calls s' = calls s \<or> (\<exists>e. calls s' = calls s @ [e] \<and> (\<forall>a. e \<noteq> Dial a))"
    and "send_https_spa E (client_net.truncate (logged W)) idk pub u counter_file s = (r, s') \<Longrightarrow>
      calls s' = calls s \<or> (\<exists>e. calls s' = calls s @ [e] \<and> (\<forall>a. e \<noteq> Dial a))"
    and "send_spa E (client_net.truncate (logged W)) idk pub endpoint tmode url counter_file s = (r, s') \<Longrightarrow>
      calls s' = calls s \<or> (\<exists>e. calls s' = calls s @ [e] \<and> (\<forall>a. e \<noteq> Dial a))"
  using send_udp_spa_call [OF _ assms, of E W idk endpoint counter_file s r s']
    send_https_spa_call [OF _ assms, of E W idk u counter_file s r s']
    send_spa_call [OF _ assms, of E W idk endpoint tmode url counter_file s r s'] is_knock_not_dial
  by metis+

section \<open>The listener\<close>

lemma order_candidates_ordered:
  assumes "order_candidates (logged W) strategy cs (w, t) = (order, (w', t'))" and "knocks_first C A t"
  shows "knocks_first C A t'"
proof -
  have probes: "knocks_first C A t \<Longrightarrow> probe_all (logged W) cs (w, t) = (ls, (w', t')) \<Longrightarrow> knocks_first C A t'" for w t ls
  proof (induction cs arbitrary: w t ls)
    case (Cons c cs)
    obtain l w1 where p: "probe_latency W (rc_proxy_endpoint c) w = (l, w1)" by fastforce
    then have l: "probe_latency (logged W) (rc_proxy_endpoint c) (w, t) = (l, (w1, t @ [Probe (rc_proxy_endpoint c)]))"
      by (simp add: logged_def)
    show ?case
      using Cons.IH [OF knocks_first_other [OF Cons.prems(1)]] Cons.prems(2) l by (auto split: prod.splits)
  qed simp
  show ?thesis
    using assms probes by (cases strategy) (auto simp: order_candidates_def logged_def split: prod.splits)
qed

lemma logged_shuffle:
  "\<forall>xs w. mset (fst (shuffle W xs w)) = mset xs \<Longrightarrow> \<forall>xs w. mset (fst (shuffle (logged W) xs w)) = mset xs"
  by (auto simp: logged_def split: prod.split) (metis fst_conv)

lemma try_order_keeps:
  assumes "\<And>c. c \<in> set cs \<Longrightarrow> keeps P (connect c)" and "set order \<subseteq> {..<length cs}" and "P s"
  shows "P (snd (try_order connect cs order last_error s))"
  using assms(2,3)
proof (induction order arbitrary: last_error s)
  case (Cons index order)
  obtain r s1 where c: "connect (cs ! index) s = (r, s1)" by fastforce
  have "keeps P (connect (cs ! index))" using Cons.prems(1) assms(1) by simp
  from keepsD [OF this Cons.prems(2) c] have "P s1" .
  then show ?case using Cons c by (auto split: sum.split)
qed simp

lemma failover_ordered:
  assumes sh: "\<forall>xs w. mset (fst (shuffle W xs w)) = mset xs" and c: "\<And>c. c \<in> set cs \<Longrightarrow> keeps (ordered C A) (connect c)"
  shows "keeps (ordered C A) (connect_noise_with_failover (logged W) connect cs policy)"
proof -
  have rounds: "ordered C A s \<Longrightarrow> ordered C A (snd (failover_rounds (logged W) connect strategy cs n last_error s))" for strategy n last_error s
  proof (induction n arbitrary: last_error s)
    case (Suc n)
    obtain order w' t' where o: "order_candidates (logged W) strategy cs (cl_world s) = (order, (w', t'))" by (metis prod.exhaust)
    have "set order \<subseteq> {..<length cs}" using order_candidates_set [OF logged_shuffle [OF sh], of strategy cs "cl_world s"] o by simp
    moreover have "ordered C A (s\<lparr>cl_world := (w', t')\<rparr>)"
      using order_candidates_ordered [of W strategy cs "fst (cl_world s)" "calls s" order w' t'] o Suc.prems by simp
    ultimately have "ordered C A (snd (try_order connect cs order last_error (s\<lparr>cl_world := (w', t')\<rparr>)))"
      by (intro try_order_keeps [where P = "ordered C A"] c)
    then show ?case using Suc.IH o by (auto split: prod.splits sum.splits)
  qed simp
  show ?thesis
    unfolding keeps_def connect_noise_with_failover_def
    using rounds by (auto simp: Let_def split: prod.splits sum.splits option.splits) (metis snd_conv)+
qed

lemma negotiate_ordered:
  assumes sh: "\<forall>xs w. mset (fst (shuffle W xs w)) = mset xs" and c: "\<And>c. c \<in> set cs \<Longrightarrow> keeps (ordered C A) (connect c)"
    and "negotiate_local_socks5_tunnel (logged W) connect cs policy L active s = (r, reply, active', s')" and "ordered C A s"
  shows "ordered C A s'"
proof -
  have t: "keeps (ordered C A) (tunnel_socks5 (logged W) c N req)" for c N req
    unfolding tunnel_socks5_def by (intro calls_tunnel)
  obtain q s1 where f: "connect_noise_with_failover (logged W) connect cs policy s = (q, s1)" by fastforce
  have s1: "ordered C A s1" using keepsD [OF failover_ordered [OF sh c] assms(4) f] .
  have "ordered C A s2" if "tunnel_socks5 (logged W) c N req s1 = (x, s2)" for c N req x s2
    using keepsD [OF t s1 that] .
  then show ?thesis
    using assms(3,4) f s1
    by (auto simp: negotiate_local_socks5_tunnel_def split: if_splits option.splits prod.splits local_command.splits sum.splits)
qed

lemma relay_step_ordered:
  assumes "relay_step (logged W) c N turn ts s = (ts', s')" and "ordered C A s"
  shows "ordered C A s'"
proof -
  have w: "ordered C A s1" if "client_write_encrypted_frame (logged W) c N n bs s = (q, s1)" for n bs q s1
    using keepsD [where P = "ordered C A", OF keeps_calls_frames(5) assms(2) that] .
  have r: "ordered C A s1" if "client_read_encrypted_frame_optional (logged W) c N n s = (q, s1)" for n q s1
    using keepsD [where P = "ordered C A", OF keeps_calls_frames(6) assms(2) that] .
  show ?thesis
  proof (cases turn)
    case (FromLocal x)
    then show ?thesis using assms w
      by (cases "up_thread ts"; cases x) (auto simp: relay_step_def client_to_proxy_turn_def split: if_splits prod.splits sum.splits)
  next
    case (FromProxy x)
    show ?thesis
    proof (cases "down_thread ts")
      case (Running n tot)
      obtain q s1 where rd: "client_read_encrypted_frame_optional (logged W) c N n s = (q, s1)" by fastforce
      then show ?thesis using assms r [OF rd] FromProxy Running
        by (auto simp: relay_step_def proxy_to_client_turn_def split: if_splits sum.splits option.splits)
    qed (use assms FromProxy in \<open>auto simp: relay_step_def proxy_to_client_turn_def\<close>)
  qed
qed

lemma refresh_ordered:
  assumes "ordered C A s"
  shows "ordered C A (snd (refresh_turn E (client_net.truncate (logged W)) idk cs active counter_file s))"
proof -
  have "ordered C A s'" if "length pub = 32" "send_spa E (client_net.truncate (logged W)) idk pub spa tmode url counter_file s = (r, s')"
    for pub spa tmode url r s'
    using send_only_calls(3) [OF that] assms knocks_first_other by metis
  then show ?thesis using assms by (auto simp: refresh_turn_def Let_def split: option.split prod.split)
qed

lemma listen_loop_ordered:
  assumes sh: "\<forall>xs w. mset (fst (shuffle W xs w)) = mset xs"
    and c: "\<And>c. c \<in> set cs \<Longrightarrow> keeps (ordered C A) (connect_candidate E (logged W) X idk counter_file c)"
    and "ordered C A (ll_client st)" and "listen_loop E (logged W) X idk cs policy counter_file events st = (r, st')"
  shows "ordered C A (ll_client st')"
  using assms(3,4)
proof (induction events arbitrary: st)
  case (Cons ev events)
  show ?case
  proof (cases ev)
    case (LocalAccept L)
    let ?st = "handle_local_socks5 (logged W) (connect_candidate E (logged W) X idk counter_file) cs policy L st"
    have "ordered C A (ll_client ?st)"
      using negotiate_ordered [OF sh c _ Cons.prems(1)] by (auto simp: handle_local_socks5_def split: prod.split)
    then show ?thesis using Cons.IH [of ?st] Cons.prems(2) LocalAccept by simp
  next
    case (RelayTurn k turn)
    have "ordered C A (ll_client (tunnel_turn (logged W) k turn st))"
      using relay_step_ordered [OF _ Cons.prems(1)] Cons.prems(1) by (auto simp: tunnel_turn_def split: prod.split)
    then show ?thesis using Cons.IH Cons.prems(2) RelayTurn by simp
  next
    case RefreshDue
    let ?st = "st\<lparr>ll_client := snd (refresh_turn E (client_net.truncate (logged W)) idk cs (ll_active st) counter_file (ll_client st))\<rparr>"
    have "ordered C A (ll_client ?st)" using refresh_ordered [OF Cons.prems(1)] by simp
    then show ?thesis using Cons.IH [of ?st] Cons.prems(2) RefreshDue by simp
  qed (use Cons.prems in simp)
qed simp

section \<open>The whole program\<close>

lemma knock_of_candidate [simp]:
  "knock_of (rc_server_public_key c) (rc_spa_endpoint c) (rc_proxy_endpoint c) (rc_spa_mode c) (rc_https_spa_url c) = c"
  by (simp add: knock_of_def)

lemma one_candidate_knock [simp]: "one_candidate spa proxy tmode url (knock_of pub spa proxy tmode url)"
  by (simp add: one_candidate_def knock_of_def)

lemma truncated_crypto [simp]: "cl_crypto (client_env.truncate E) = cl_crypto E"
  by (simp add: client_env.truncate_def)

lemma main_connect_ordered:
  assumes sh: "\<forall>xs w. mset (fst (shuffle W xs w)) = mset xs"
    and "ordered (cl_crypto E) A s"
    and A: "\<And>resolved policy c. fst (resolve_connect_configs (config_env.truncate E) config key_file spa proxy tmode url s) = Inr (resolved, policy) \<Longrightarrow>
      c \<in> set resolved \<Longrightarrow> A c"
  shows "ordered (cl_crypto E) A (snd (main_connect E (logged W) X config idk key_file spa proxy listen tmode url ttl counter_file s))"
proof -
  let ?E = "client_env.truncate E" and ?C = "cl_crypto E"
  obtain q s1 where res: "resolve_connect_configs (config_env.truncate E) config key_file spa proxy tmode url s = (q, s1)" by fastforce
  have s1: "ordered ?C A s1" using keepsD [where P = "ordered ?C A", OF keeps_calls_local(4) assms(2) res] .
  show ?thesis
  proof (cases q)
    case (Inr x)
    obtain resolved policy where x: "x = (resolved, policy)" by fastforce
    have c: "keeps (ordered ?C A) (connect_candidate ?E (logged W) X idk counter_file c)" if "c \<in> set resolved" for c
      using connect_noise_ordered [of A "rc_server_public_key c" "rc_spa_endpoint c" "rc_proxy_endpoint c" "rc_spa_mode c" "rc_https_spa_url c" ?E]
        A [of resolved policy c] that res Inr x by (simp add: connect_candidate_def)
    obtain r st where l: "connect_listener ?E (logged W) X (cli_bindable E) (cli_events E) idk resolved policy listen ttl counter_file s1 = (r, st)"
      by fastforce
    let ?st = "\<lparr>ll_client = s1, ll_active = None, ll_tunnels = [], ll_replies = []\<rparr>"
    have "ordered ?C A (ll_client ?st)" using s1 by simp
    note loop = listen_loop_ordered [OF sh c this]
    have "ordered ?C A (ll_client st)"
    proof (cases "resolved = [] \<or> \<not> cli_bindable E listen \<or> isl (refresh_interval ttl)")
      case True
      then have "ll_client st = s1" using l by (auto simp: connect_listener_def isl_def Let_def split: if_splits)
      then show ?thesis using s1 by simp
    next
      case False
      then have "listen_loop ?E (logged W) X idk resolved policy counter_file (cli_events E) ?st = (r, st)"
        using l by (auto simp: connect_listener_def Let_def split: sum.splits)
      from loop [OF _ this] show ?thesis by blast
    qed
    then show ?thesis using res Inr x l by (simp add: main_connect_def c_bind_def)
  qed (use res s1 in \<open>simp add: main_connect_def c_bind_def\<close>)
qed

lemma discard_keeps: "keeps P m \<Longrightarrow> keeps P (discard m)"
  unfolding discard_def by (intro keeps_bind keeps_lift)

lemma main_relay_ordered:
  assumes "main_relay E (logged W) X cmd s = Some (r, s')" and "ordered (cl_crypto E) A s"
    and cand: "\<And>c. command_candidate G s cmd c \<Longrightarrow> A c"
  shows "ordered (cl_crypto E) A s'"
proof -
  have run: "keeps (ordered (cl_crypto E) A) (run_relay_request E (logged W) X idk key spa proxy tmode url counter_file request)"
    if "\<And>pub. A (knock_of pub spa proxy tmode url)" for idk key spa proxy tmode url counter_file request
    using one_shots_ordered(1) [of A spa proxy tmode url] that by blast
  have fin0: "ordered (cl_crypto E) A s'" if "Some (m s) = Some (r, s')" "keeps (ordered (cl_crypto E) A) m"
    for m :: "('a \<times> net_call list, unit) client_comp"
    using keepsD [OF that(2) assms(2)] that(1) by simp
  show ?thesis
  proof (cases cmd)
    case (RelayDownload idk key spa proxy job_id dest artifact tmode url counter_file)
    let ?run = "run_relay_request E (logged W) X idk key spa proxy tmode url counter_file"
    have k: "keeps (ordered (cl_crypto E) A) (?run request)" for request
      using cand RelayDownload by (intro run) simp
    have "relay_download ?run job_id dest artifact s = Some (r, s')" using assms(1) RelayDownload by simp
    then obtain q s1 where dl: "download_loop ?run job_id artifact 0 [] s = Some (q, s1)"
      and fin: "(\<exists>e. q = Inl e \<and> s' = s1) \<or> (\<exists>body. q = Inr body \<and> (r, s') = cl_io OutputFile (io_write dest body) s1)"
      by (auto simp: relay_download_def split: option.splits sum.splits prod.splits)
    have "ordered (cl_crypto E) A s1"
      using download_loop_keeps [where P = "ordered (cl_crypto E) A", OF dl k assms(2)] by simp
    then show ?thesis
      using fin keepsD [where P = "ordered (cl_crypto E) A", OF keeps_calls(1), of s1 OutputFile] by (metis (no_types, lifting))
  qed (use assms(1) cand in \<open>auto intro!: fin0 discard_keeps keeps_relay_commands run\<close>)
qed

text \<open>Commands that stay on the machine.\<close>

fun offline :: "Command \<Rightarrow> bool" where
  "offline (Keygen _ _) = True"
| "offline (ServerKeygen _) = True"
| "offline (Enroll _ _ _ _ _) = True"
| "offline _ = False"

text \<open>
  C13. Whatever command the client runs and whatever happens on the network, the disk and its listener,
  it never opens a tunnel to a proxy port that it has not just knocked for: the call directly
  before each such connection is the knock for a candidate of the command, a packet sealed for the key of
  that candidate's server and sent to its SPA endpoint, and the connection goes to that candidate.
  (The latency probes, which are connections too, are recorded apart: they are not preceded by a knock.)
  Commands without a candidate open no tunnel, and those that only handle keys and
  configuration make no network call.
\<close>

theorem knock_before_connect:
  fixes s :: "('w \<times> net_call list) client"
  assumes "\<forall>xs w. mset (fst (shuffle W xs w)) = mset xs" and "calls s = []"
    and "client_main E (logged W) X cmd s = Some (r, s')"
  shows "knocks_first (cl_crypto E) (command_candidate E s cmd) (calls s') \<and> (offline cmd \<longrightarrow> calls s' = [])"
proof -
  let ?P = "ordered (cl_crypto E) (command_candidate E s cmd)"
  have s: "?P s" using assms(2) by simp
  have by_keeps: "?P s'" if "Some (m s) = Some (r, s')" "keeps ?P m" for m :: "('w \<times> net_call list, unit) client_comp"
    using keepsD [OF that(2) s] that(1) by simp
  have off: "calls s' = []" if "Some (m s) = Some (r, s')" "keeps (calls_are (\<lambda>t. t = [])) m" for m :: "('w \<times> net_call list, unit) client_comp"
    using keepsD [OF that(2) assms(2)] that(1) by simp
  have relay: "?P s'" if "main_relay (client_env.truncate E) (logged W) X cmd s = Some (r, s')"
    using main_relay_ordered [OF that, where A = "command_candidate E s cmd" and G = E] s by simp
  show ?thesis
  proof (cases cmd)
    case (Connect config idk key_file spa proxy listen tmode url ttl counter_file)
    have "?P (snd (main_connect E (logged W) X config idk key_file spa proxy listen tmode url ttl counter_file s))"
      by (rule main_connect_ordered [OF assms(1) s]) (simp add: Connect)
    then show ?thesis using assms(3) Connect by simp
  next
    case (ConnectOnce idk key spa proxy message tmode url counter_file)
    have "keeps ?P (connect_once (client_env.truncate E) (logged W) X idk key spa proxy message tmode url counter_file)"
      using connect_once_ordered [of "command_candidate E s cmd" spa proxy tmode url "client_env.truncate E"] ConnectOnce by simp
    then show ?thesis using by_keeps [OF _ discard_keeps] assms(3) ConnectOnce by simp
  next
    case (ConnectSocks5Once idk key spa proxy target message tmode url counter_file)
    have "keeps ?P (connect_socks5_once (client_env.truncate E) (logged W) X idk key spa proxy target message tmode url counter_file)"
      using one_shots_ordered(2) [of "command_candidate E s cmd" spa proxy tmode url "client_env.truncate E"] ConnectSocks5Once by simp
    then show ?thesis using by_keeps [OF _ discard_keeps] assms(3) ConnectSocks5Once by simp
  next
    case (ConnectGhostRelayOnce idk key spa proxy tmode url counter_file)
    have "keeps ?P (connect_ghost_relay_once (client_env.truncate E) (logged W) X idk key spa proxy tmode url counter_file)"
      using one_shots_ordered(3) [of "command_candidate E s cmd" spa proxy tmode url "client_env.truncate E"] ConnectGhostRelayOnce by simp
    then show ?thesis using by_keeps assms(3) ConnectGhostRelayOnce by simp
  next
    case (Revoke config idk)
    then show ?thesis using by_keeps [OF _ discard_keeps [OF revoke_ordered]] assms(3) by simp
  next
    case (SendUdpSpa idk key endpoint counter_file)
    then show ?thesis using by_keeps [OF _ main_spa_ordered [OF send_only_calls(1)]] assms(3) by simp
  next
    case (SendHttpsSpa idk key url counter_file)
    then show ?thesis using by_keeps [OF _ main_spa_ordered [OF send_only_calls(2)]] assms(3) by simp
  next
    case (Keygen dest debug)
    then show ?thesis using off [OF _ keeps_calls_local(1)] assms(3) by simp
  next
    case (ServerKeygen dest)
    then show ?thesis using off [OF _ keeps_calls_local(2)] assms(3) by simp
  next
    case (Enroll server_key endpoint tmode port dest)
    then show ?thesis using off [OF _ keeps_calls_local(3) [where G = "config_env.truncate E"]] assms(3) by simp
  qed (use relay assms(3) in simp_all)
qed

definition demo_cli_env :: cli_env where
  "demo_cli_env = \<lparr>cl_crypto = toy_crypto, cl_now = (\<lambda>n. 10 ^ 9 + int n), cl_prompt = (\<lambda>_. None), cl_random = (\<lambda>n. (7, \<lambda>m. replicate m 0, [9])),
     identity_to_toml = (\<lambda>_. None), identity_from_toml = (\<lambda>_. None), config_to_toml = (\<lambda>_. None), config_from_toml = (\<lambda>_. None),
     show_ipv6 = (\<lambda>_. []), cli_signing_key = demo_key, cli_salt = [], cli_nonce = [], cli_server_keypair = ([], []),
     cli_bindable = (\<lambda>_. True), cli_events = []\<rparr>"

definition demo_cli_state :: "(unit \<times> net_call list) client" where
  "demo_cli_state = demo_client_state ((), [])\<lparr>cl_host :=
     \<lparr>files = hm_insert [''home'', ''id.key''] demo_key hm_empty, dirs = [[], [''home'']], tick = 0, fault = (\<lambda>_. None)\<rparr>\<rparr>"

lemma demo_key_str: "from_utf8 demo_key = Some (str_of_bytes demo_key)" "trim (str_of_bytes demo_key) = str_of_bytes demo_key"
proof -
  let ?t = "str_of_bytes demo_key"
  have cs: "c \<in> set ?t \<Longrightarrow> (of_char c :: nat) = 1 \<or> (of_char c :: nat) = 0" for c
    by (auto simp: str_of_bytes_def demo_key_def)
  show "trim ?t = ?t" using cs by (intro trim_id) (fastforce simp: ws_scalar_def)
  have "valid_str ?t" using cs by (intro ascii_valid_str) fastforce
  then show "from_utf8 demo_key = Some ?t" using from_utf8_as_bytes [of ?t] by simp
qed

lemma demo_reads:
  assumes "content (cl_host s) p = Some demo_key" and "fault (cl_host s) = (\<lambda>_. None)"
  shows "read_signing_key (client_env.truncate demo_cli_env) p s = (Inr demo_key, s\<lparr>cl_host := (cl_host s)\<lparr>tick := tick (cl_host s) + 1\<rparr>\<rparr>)"
    and "read_noise_public_key (client_env.truncate demo_cli_env) p s = (Inr demo_key, s\<lparr>cl_host := (cl_host s)\<lparr>tick := tick (cl_host s) + 1\<rparr>\<rparr>)"
proof -
  have d: "decode_signing_key toy_crypto (str_of_bytes demo_key) = Inr demo_key"
    by (simp add: decode_signing_key_def toy_crypto_def) (simp add: demo_key_def)
  have k: "client_decode_noise_public_key toy_crypto (str_of_bytes demo_key) = Inr demo_key"
    by (simp add: client_decode_noise_public_key_def demo_key_str toy_crypto_def) (simp add: demo_key_def)
  have rd: "io_read_to_string p (cl_host s) = (Inr (str_of_bytes demo_key), (cl_host s)\<lparr>tick := tick (cl_host s) + 1\<rparr>)"
    using assms by (simp add: io_read_to_string_def io_read_def io_call_def c_bind_def demo_key_str)
  show "read_signing_key (client_env.truncate demo_cli_env) p s = (Inr demo_key, s\<lparr>cl_host := (cl_host s)\<lparr>tick := tick (cl_host s) + 1\<rparr>\<rparr>)"
    "read_noise_public_key (client_env.truncate demo_cli_env) p s = (Inr demo_key, s\<lparr>cl_host := (cl_host s)\<lparr>tick := tick (cl_host s) + 1\<rparr>\<rparr>)"
    by (simp_all add: read_signing_key_def read_noise_public_key_def cl_io_def rd c_bind_def demo_cli_env_def client_env.truncate_def demo_key_str d k)
qed

text \<open>A run that knocks and then finds the proxy closed.\<close>

lemma demo_knock_run:
  "\<exists>s' payload. client_main demo_cli_env (logged demo_failover_net) toy_initiator
       (ConnectGhostRelayOnce [''home'', ''id.key''] [''home'', ''id.key''] (V4 7, 62201) (V4 7, 443) TransportUdp None None) demo_cli_state =
     Some (Inl ConnectFailed, s') \<and> calls s' = [Datagram (V4 7, 62201) payload, Dial (V4 7, 443)]"
proof -
  let ?E = "client_env.truncate demo_cli_env" and ?p = "[''home'', ''id.key'']"
  let ?h = "\<lambda>n. (cl_host demo_cli_state)\<lparr>tick := n\<rparr>"
  let ?s = "\<lambda>n. demo_cli_state\<lparr>cl_host := ?h n\<rparr>"
  have h: "content (cl_host (?s n)) ?p = Some demo_key" "fault (cl_host (?s n)) = (\<lambda>_. None)" for n
    by (simp_all add: demo_cli_state_def)
  have s0: "demo_cli_state = ?s 0" by (simp add: demo_cli_state_def)
  have r0: "read_noise_public_key ?E ?p (?s 0) = (Inr demo_key, ?s 1)" and r1: "read_signing_key ?E ?p (?s 1) = (Inr demo_key, ?s 2)"
    using demo_reads(2) [OF h, of 0] demo_reads(1) [OF h, of 1] by simp_all
  have len: "length demo_key = 32" by (simp add: demo_key_def)
  have path: "counter_path_of None ?p = [''home'', ''id.counter'']"
    using default_counter_path_of_keygen [of "[''home'', ''id'']"] by (simp add: counter_path_of_def with_suffix_def)
  obtain ts s3 where ts: "client_timestamp_ms ?E (?s 2) = (Inr ts, s3)" and s3: "s3 = (?s 2)\<lparr>cl_clock := 1\<rparr>"
    by (simp add: client_timestamp_ms_def demo_cli_env_def client_env.truncate_def Let_def demo_cli_state_def demo_client_state_def)
  obtain n s4 where ctr: "next_counter [''home'', ''id.counter''] ts s3 = (Inr n, s4)"
    and s4: "content (cl_host s4) ?p = Some demo_key" "fault (cl_host s4) = (\<lambda>_. None)" "cl_world s4 = ((), [])"
    unfolding s3
    by (simp add: next_counter_def demo_cli_state_def demo_client_state_def io_read_to_string_def io_read_def io_call_def c_bind_def
        cl_io_def io_write_def io_create_def io_write_all_def parent_exists_def parent_def Let_def)
  obtain payload s5 where pay: "spa_payload ?E Udp ?p demo_key None (?s 1) = (Inr payload, s5)" and s5: "s5 = s4\<lparr>cl_draws := cl_draws s4 + 1\<rparr>"
    using r1 ts ctr by (simp add: spa_payload_def c_bind_def path cl_draw_def split_beta)
  let ?s6 = "s5\<lparr>cl_world := ((), [Datagram (V4 7, 62201) payload])\<rparr>"
  have snd: "send_spa ?E (client_net.truncate (logged demo_failover_net)) ?p demo_key (V4 7, 62201) TransportUdp None None (?s 1) = (Inr (), ?s6)"
    using pay s5 s4(3)
    by (simp add: send_spa_def send_udp_spa_def c_bind_def on_world_def logged_def client_net.truncate_def demo_failover_net_def)
  let ?s7 = "?s6\<lparr>cl_host := (cl_host s4)\<lparr>tick := tick (cl_host s4) + 1\<rparr>\<rparr>"
  have r2: "read_signing_key ?E ?p ?s6 = (Inr demo_key, ?s7)"
    using demo_reads(1) [of ?s6 ?p] s4(1,2) s5 by simp
  let ?s8 = "?s7\<lparr>cl_world := ((), [Datagram (V4 7, 62201) payload, Dial (V4 7, 443)])\<rparr>"
  have dial: "on_world (tcp_connect (logged demo_failover_net) (V4 7, 443)) ?s7 = (Inr None, ?s8)"
    by (simp add: on_world_def logged_def demo_failover_net_def)
  have "connect_ghost_relay_once ?E (logged demo_failover_net) toy_initiator ?p ?p (V4 7, 62201) (V4 7, 443) TransportUdp None None (?s 0) =
      (Inl ConnectFailed, ?s8)"
    using r0 snd r2 dial
    by (simp add: connect_ghost_relay_once_def connect_noise_def c_bind_def len toy_initiator_def Let_def)
  then show ?thesis using s0 by (intro exI [of _ ?s8] exI [of _ payload]) simp
qed

theorem knock_before_connect_witness:
  "\<exists>s'. client_main demo_cli_env (logged demo_failover_net) toy_initiator
       (ConnectGhostRelayOnce [''home'', ''id.key''] [''home'', ''id.key''] (V4 7, 62201) (V4 7, 443) TransportUdp None None) demo_cli_state =
     Some (Inl ConnectFailed, s') \<and>
     length (calls s') = 2 \<and> calls s' ! 1 = Dial (V4 7, 443) \<and> (\<exists>c. rc_proxy_endpoint c = (V4 7, 443) \<and> is_knock toy_crypto c (calls s' ! 0))"
proof -
  let ?cmd = "ConnectGhostRelayOnce [''home'', ''id.key''] [''home'', ''id.key''] (V4 7, 62201) (V4 7, 443) TransportUdp None None"
  obtain s' payload where run: "client_main demo_cli_env (logged demo_failover_net) toy_initiator ?cmd demo_cli_state = Some (Inl ConnectFailed, s')"
    and calls: "calls s' = [Datagram (V4 7, 62201) payload, Dial (V4 7, 443)]"
    using demo_knock_run by blast
  have sh: "\<forall>xs w. mset (fst (shuffle demo_failover_net xs w)) = mset xs" by (simp add: demo_failover_net_def)
  have none: "calls demo_cli_state = []" by (simp add: demo_cli_state_def demo_client_state_def)
  have "knocks_first toy_crypto (command_candidate demo_cli_env demo_cli_state ?cmd) (calls s')"
    using knock_before_connect [OF sh none run] by (simp add: demo_cli_env_def)
  then have "\<exists>c. rc_proxy_endpoint c = (V4 7, 443) \<and> is_knock toy_crypto c (calls s' ! 0)"
    unfolding knocks_first_def calls by (auto dest!: spec [of _ "1 :: nat"])
  then show ?thesis using run calls by (intro exI [of _ s']) simp
qed

end
