(* ===== verification/Spec2Isabelle.thy ===== *)
theory Spec2Isabelle
  imports Noise Relay_Policy Relay_Wire Normalize Relay_Store Relay_Engine Decoy Decoy_Tls Server_Config Server_Boot Noise_Listener Privilege
    Client_Relay Client_Tunnel Client_Config Client_Failover Client_Socks Socks_Path Client_Listener Client_Cli
begin

text \<open>
  Ghostbro hides a proxy behind single-packet authorization. A client \<^emph>\<open>knocks\<close> with one sealed and
  signed packet (over UDP, or in the body of an HTTPS request to a decoy web site). An XDP program in
  the kernel drops every TCP frame to the proxy port whose source address is not in its allow map, and
  hands candidate knocks to the server; the server verifies them and admits the source for a limited
  time. An admitted client opens a Noise XK tunnel to the proxy port, and inside the tunnel either uses
  a SOCKS5 proxy or the \<^emph>\<open>Ghost Relay\<close>, which fetches web pages, git repositories and packages for
  the client and stores the results per client.

  \<^bold>\<open>Theories and sources\<close> (paths under \<open>src/\<close>).

  \<^item> \<open>Ghost_Prelude\<close>: results as sums, computations that pass a state and may fail (\<open>comp\<close>), hash maps
    with an interface stated as a locale, saturating and checked machine arithmetic, big-endian
    encodings. \<open>Rust_Str\<close>: the string functions of the Rust library the program uses, on strings kept as
    their UTF-8 bytes. \<open>Net_Addr\<close>: addresses, their classification, printing and parsing. \<open>Host_Fs\<close>: the
    file system with an oracle for failing calls.
  \<^item> \<open>Protocol\<close>: the constants and structures of \<open>ghostbro-common/src/protocol.rs\<close> and
    \<open>ghostbro-bpf-common/src/lib.rs\<close>. \<open>Crypto_Env\<close>: the cryptographic libraries as a record of functions,
    with their laws as named predicates. \<open>Keys\<close>, \<open>Seal\<close>, \<open>Spa_Packet\<close>: \<open>keys.rs\<close>, \<open>seal.rs\<close> and \<open>spa.rs\<close> of
    \<open>ghostbro-common\<close>.
  \<^item> \<open>Server_Keys\<close>, \<open>Spa_Verifier\<close>, \<open>Ebpf_Runtime\<close>, \<open>Noise\<close>: \<open>keys.rs\<close>, \<open>spa.rs\<close>, \<open>ebpf.rs\<close> and \<open>noise.rs\<close> of
    \<open>ghostbro-server\<close>; \<open>Noise_Listener\<close>: the accept loop and the SOCKS5 handler of \<open>noise.rs\<close>; \<open>Xdp\<close>: the kernel
    program \<open>ghostbro-ebpf/src/main.rs\<close>.
  \<^item> \<open>Relay_Wire\<close>, \<open>Relay_Policy\<close>, \<open>Relay_Store\<close>: the wire format, the fetch policy and the jobs of
    \<open>ghostbro-server/src/relay.rs\<close>; \<open>Relay_Engine\<close>: the engine with its spawned tasks, as a step relation in
    which requests, the phases of the workers, the reaper and the recovery interleave; \<open>Normalize\<close>:
    \<open>relay/normalize.rs\<close>.
  \<^item> \<open>Decoy\<close>, \<open>Server_Config\<close>, \<open>Privilege\<close>: the decoy web site (\<open>decoy.rs\<close>), the configuration with the
    start-up (\<open>config.rs\<close>, \<open>main.rs\<close>) and the capability report (\<open>privilege.rs\<close>) of \<open>ghostbro-server\<close>;
    \<open>Decoy_Tls\<close>: the decoy's TLS listener (\<open>decoy.rs\<close>, \<open>serve_decoy\<close> of \<open>main.rs\<close>);
    \<open>Server_Boot\<close>: loading and attaching the filter and the watch on the authorized keys (\<open>ebpf.rs\<close>), put
    together with the start-up as \<open>main.rs\<close> does.
  \<^item> \<open>Client_Identity\<close>, \<open>Client_Knock\<close>, \<open>Client_Relay\<close>, \<open>Client_Tunnel\<close>, \<open>Client_Config\<close>, \<open>Client_Failover\<close>,
    \<open>Client_Socks\<close>, \<open>Client_Listener\<close>, \<open>Client_Cli\<close>: \<open>ghostbro-client/src/main.rs\<close>, the last two with the listener
    and its threads and with the commands and \<open>main\<close>. \<open>Socks_Path\<close>: the client's SOCKS5 bytes at the server.

  \<^bold>\<open>State and operations.\<close> Structures are records, enumerations datatypes, machine integers words of
  their width. An operation that fails returns \<open>Inl\<close> with an error value for every branch of the code
  that raises one; an operation on the file system, the allow map, the runtime or the connection passes
  that state. Clocks, random bytes, terminals and sockets are functions of a reading number or of the
  state of the world, so that nothing about their values is assumed. A write that fails may leave a
  prefix of the data, which is how a process that dies in the middle of a call is represented.

  \<^bold>\<open>Interfaces.\<close> Hash maps, injective codecs (decimal and hexadecimal) and the chunk service behind a
  download are locales, interpreted on the model's definitions; client lemmas are proved once in them.

  \<^bold>\<open>What is shown.\<close>

  \<^item> Knocks: the packet codecs are inverse to each other and canonical; the verifier accepts only what an
    enrolled client of the full tier signed for this server, recently, from this address, with a fresh
    counter; no accepted counter is accepted again, also across restarts and crashes, because the counter
    file is replaced atomically and its loss stops the server; a correct knock is accepted, and a client
    whose counter file is updated stays in step with the server (\<open>Spa_Packet\<close>, \<open>Spa_Verifier\<close>,
    \<open>Client_Identity\<close>, \<open>Client_Knock\<close>).
  \<^item> Filter: the kernel program reads inside the frame only, lets a frame to the proxy port through only
    with an unexpired entry of the allow map, admits a bounded number of candidates, and every entry of
    the map stems from an accepted knock of that address (\<open>Xdp\<close>, \<open>Ebpf_Runtime\<close>).
  \<^item> Tunnel: a session is served only to the static key the knock was accepted for, within the session
    limit; the bytes written on one side are those read on the other, for every split into frames and
    reads (\<open>Noise\<close>); a relay request of the client gets the relay's response (\<open>Client_Tunnel\<close>).
  \<^item> Relay: fetches contact allowed addresses only, packages are stored only with a verified digest,
    quotas are enforced at submission, one client never sees another's jobs, downloads refine the
    abstract artifact, and the client's download loop ends with exactly that artifact (\<open>Relay_Policy\<close>,
    \<open>Relay_Store\<close>, \<open>Client_Relay\<close>). In every interleaving of the engine a client's files are touched only on
    behalf of that client, and after a restart exactly the interrupted jobs are queued and run
    (\<open>Relay_Engine\<close>).
  \<^item> Server: a server that starts has the verifier, the decoy and the kernel configuration its file asks
    for, every refusal of a part stops it, and the listener is on the guarded port when the bind address
    names no other (\<open>Server_Config\<close>); the filter is attached only with its configuration in place, drops
    every frame to the proxy port at first, and does not stay when the start fails (\<open>Server_Boot\<close>); the decoy serves files of its web root only and its telemetry
    answer does not depend on the knock (\<open>Decoy\<close>); its listener serves exactly the connections with a good
    handshake that come before a silent peer (\<open>Decoy_Tls\<close>); the start-up warning is exact (\<open>Privilege\<close>). Across
    the components (this theory): an HTTPS knock opens the proxy port, and a client's stored jobs are
    changed only through connections of the identity whose knock was accepted.
  \<^item> Client: identity files and enrolment read back, counters increase, failover tries every candidate
    before it gives up, the byte stream of a local application arrives unchanged in both directions
    (\<open>Client_Identity\<close>, \<open>Client_Config\<close>, \<open>Client_Failover\<close>, \<open>Client_Socks\<close>, \<open>Socks_Path\<close>), however its two relay
    threads interleave (\<open>Client_Listener\<close>); and no command opens a tunnel without the knock for it directly
    before (\<open>Client_Cli\<close>).
  \<^item> Where the code does not do what a comment or its own structure promises, a theorem shows the
    behaviour it has (for example \<open>oversized_counter_blocks\<close>, \<open>expired_client_stops_server\<close>,
    \<open>redirect_rebinds\<close>, \<open>download_may_hang\<close>, \<open>enroll_ipv6_unusable\<close>, \<open>proxy_port_unguarded\<close>,
    \<open>delete_undone\<close>, \<open>latency_without_answers\<close>, \<open>silent_peer_blocks_decoy\<close>).

  \<^bold>\<open>Loops and fuel.\<close> Loops over data are structural recursions. \<open>poll_read_loop\<close> carries a bound on
  the rounds of one poll; every round but the last consumes input, so the bound it is called with
  (the length of what the transport still delivers, plus two) is never reached. The download loop and the
  relay loop of the client may run for ever against a hostile server: they are partial functions into
  options, with a theorem that they return against the modelled server. The listeners and the engine run
  on the events there are, of any number; a worker needs five turns for a job (\<open>turns_process_job\<close>).

  \<^bold>\<open>Parameters.\<close> The cryptographic primitives, \<open>snow\<close>, TOML and JSON, DNS, HTTP, git, URL parsing, the map
  helpers of the kernel and the terminal are arguments of the definitions that use them; a theorem that
  needs one of their documented laws names it as a hypothesis and has a witness with a concrete instance.

  \<^bold>\<open>Interleaving.\<close> The engine's tasks and the client's relay threads interleave at their reads, writes and
  fetches. The connections of the server's accept loop are handled one after another, as are the
  negotiations of the client's listener, whose knocks the program itself makes one at a time under a
  lock.

  \<^bold>\<open>Not modelled.\<close> The smoke tests of \<open>xtask\<close>, which only start processes and look at their output; command
  line parsing, printing and logging; the inside of \<open>rustls\<close> and the HTTP routing of the decoy, the SOCKS5 protocol
  code of both ends and the inside of the \<open>aya\<close>, \<open>notify\<close> and \<open>tokio\<close> crates, which are library calls.
\<close>

text \<open>
  C12. An HTTPS knock opens the proxy port: a knock built by a registered client in good standing and
  posted to the decoy from an address that is no configured proxy is queued for the verifier with that
  address; when the verifier has drained the queue, the kernel passes TCP frames from the address to the
  proxy port until the grant expires, and the proxy's mirror holds the source with the client's key
  identifier.
\<close>

theorem https_knock_opens_port:
  assumes "crypto_complete C" and "toml_total T" and "registered C (rt_verifier s) priv path sk"
    and "quiet (rt_host s)" and "writable path (rt_host s)"
    and "wall_clock_now_ms (wall K (rt_tick s)) = Inr now" and "monotonic_now_ns (mono K (Suc (rt_tick s))) = Inr t0"
    and "\<bar>int (unat now) - int (unat ts)\<bar> \<le> int (unat (time_window_ms (rt_verifier s)))" and "\<forall>n. length (fill n) = n"
    and "counter_of (highest_counters (rt_verifier s)) (key_id_for_public_key C (ed_public C sk)) < ctr" and "unat ctr < 2 ^ 63"
    and tel: "telemetry D st (V4 ip) headers (build C r fill eph sk Https ts ctr PacketSource (x25519_pub C priv)) n ch = (resp, ch')"
    and st: "spa_tx st" "\<forall>cidr \<in> set (trusted_proxy_cidrs st). \<not> ipnet_contains D cidr (V4 ip)" "ch_items ch = []" "\<not> ch_closed ch"
    and aya: "aya_ok A" "\<forall>e m. aya_insert A ip e m \<noteq> None"
    and pkt: "xdp_wf c" "ctx_pkt c = p" "ipv4_frame p" "p ! 23 = IP_PROTO_TCP" "transport p + 20 \<le> length p"
      "be16 p (transport p + 2) = proxy_port (load_config (rt_maps s))" "source_ip p = ip"
    and live: "ktime_allow k < saturating_add t0 (saturating_mul ttl 1000000000)"
  shows "\<exists>s' src. drain_https C T A K ttl (ch_items ch') s = (Inr (), s') \<and>
    ghostbro_xdp k c (rt_maps s') = (Inr XDP_PASS, rt_maps s') \<and> hm_get (allowed_sources s') ip = Some src \<and>
    ae_key_id (src_entry src) = key_id_for_public_key C (ed_public C sk)"
proof -
  let ?payload = "build C r fill eph sk Https ts ctr PacketSource (x25519_pub C priv)"
  have no: "\<not> (\<exists>cidr \<in> set (trusted_proxy_cidrs st). ipnet_contains D cidr (V4 ip))" using st(2) by blast
  have q: "ch_items ch' = [\<lparr>cand_src_ip = ip, cand_payload = ?payload\<rparr>]"
    using tel st(1,3,4) by (auto simp: telemetry_def https_spa_source_ip_def no try_send_def CHANNEL_CAPACITY_def)
  obtain a h' v' where ver: "SpaVerifier_verify C T ?payload ip now (rt_verifier s, rt_host s) = (Inr a, (v', h'))"
    and a: "acc_key_id a = key_id_for_public_key C (ed_public C sk)"
    using registered_accepts [OF assms(1-5,8-11), of r eph Https ip] by blast
  let ?e = "\<lparr>expiry_ns = saturating_add t0 (saturating_mul ttl 1000000000), ae_key_id = acc_key_id a, ae_client_id = acc_client_id a, ae_pad = 0\<rparr>"
  obtain m' where ins: "aya_insert A ip ?e (ALLOW_MAP (rt_maps s)) = Some m'" using aya(2) by blast
  let ?src = "\<lparr>src_entry = ?e, src_noise_public_key = acc_noise_public_key a, src_max_concurrent_sessions = acc_max_concurrent_sessions a\<rparr>"
  let ?s' = "s\<lparr>rt_maps := (rt_maps s)\<lparr>ALLOW_MAP := m'\<rparr>, allowed_sources := hm_insert ip ?src (allowed_sources s),
      rt_verifier := v', rt_host := h', rt_tick := Suc (Suc (rt_tick s))\<rparr>"
  have d: "drain_https C T A K ttl (ch_items ch') s = (Inr (), ?s')"
    by (simp add: q verify_candidate_def c_bind_def read_wall_def assms(6,7) ver allow_source_def read_mono_def Let_def allow_insert_def ins)
  have "hm_get m' ip = Some ?e" using aya_insert_Some(1) [OF aya(1) ins] .
  moreover have "be16 p (transport p + 2) = proxy_port (load_config (rt_maps ?s'))" using pkt(6) by (simp add: load_config_def)
  ultimately have "ghostbro_xdp k c (rt_maps ?s') = (Inr XDP_PASS, rt_maps ?s')"
    using xdp_tcp_proxy [OF pkt(1-5), of "rt_maps ?s'" k] pkt(7) live by simp
  then show ?thesis using d a by (intro exI [of _ ?s'] exI [of _ ?src]) simp
qed

theorem https_knock_opens_port_witness:
  "\<exists>resp ch' s'. telemetry demo_decoy_env demo_decoy (V4 7) []
      (build toy_crypto 3 (\<lambda>n. replicate n 0) [9] demo_key Https 1400 1 PacketSource (x25519_pub toy_crypto [5])) 0
      \<lparr>ch_items = [], ch_closed = False\<rparr> = (resp, ch') \<and>
    drain_https toy_crypto toy_toml plain_aya demo_clocks 60 (ch_items ch') demo_start = (Inr (), s') \<and>
    fst (ghostbro_xdp (demo_kernel 1) (demo_ctx (demo_frame 6 ([0, 99, 0x20, 0xFB] @ replicate 16 0))) (rt_maps s')) = Inr XDP_PASS"
proof -
  let ?ch = "\<lparr>ch_items = [], ch_closed = False\<rparr>" and ?p = "demo_frame 6 ([0, 99, 0x20, 0xFB] @ replicate 16 0)"
  let ?pay = "build toy_crypto 3 (\<lambda>n. replicate n 0) [9] demo_key Https 1400 1 PacketSource (x25519_pub toy_crypto [5])"
  obtain resp ch' where tel: "telemetry demo_decoy_env demo_decoy (V4 7) [] ?pay 0 ?ch = (resp, ch')" by fastforce
  have reg: "registered toy_crypto (rt_verifier demo_start) [5] demo_path demo_key"
    using demo_registered by (simp add: demo_start_def)
  have w: "time_window_ms demo_verifier = 300000"
    by (simp add: demo_verifier_def from_counters_def saturating_mul_def)
  have wf: "xdp_wf (demo_ctx ?p)" by (simp add: xdp_wf_def demo_ctx_def demo_frame_def)
  have pkt: "ipv4_frame ?p" "?p ! 23 = IP_PROTO_TCP" "transport ?p + 20 \<le> length ?p"
    "be16 ?p (transport ?p + 2) = proxy_port (load_config demo_maps)" "source_ip ?p = 7"
    by code_simp+
  have clk: "wall_clock_now_ms (wall demo_clocks (rt_tick demo_start)) = Inr 1500"
    "monotonic_now_ns (mono demo_clocks (Suc (rt_tick demo_start))) = Inr 100000000000"
    by (simp_all add: demo_clocks_def wall_clock_now_ms_def monotonic_now_ns_def try_u64_def saturating_mul_def saturating_add_def)
  have live: "ktime_allow (demo_kernel 1) < saturating_add 100000000000 (saturating_mul 60 1000000000)"
    by (simp add: demo_kernel_def saturating_mul_def saturating_add_def)
  have ch: "spa_tx demo_decoy" "\<forall>cidr \<in> set (trusted_proxy_cidrs demo_decoy). \<not> ipnet_contains demo_decoy_env cidr (V4 7)"
    "ch_items ?ch = []" "\<not> ch_closed ?ch" by (simp_all add: demo_decoy_def demo_decoy_env_def)
  have "quiet (rt_host demo_start)" "writable demo_path (rt_host demo_start)"
    using demo_host_ok by (simp_all add: demo_start_def)
  note https_knock_opens_port [OF toy_crypto_complete toy_toml_laws(2) reg this clk _ _ _ _ tel ch plain_aya_ok _ wf _ pkt(1-3) _ pkt(5) live]
  then obtain s' where "drain_https toy_crypto toy_toml plain_aya demo_clocks 60 (ch_items ch') demo_start = (Inr (), s')"
    "ghostbro_xdp (demo_kernel 1) (demo_ctx ?p) (rt_maps s') = (Inr XDP_PASS, rt_maps s')"
    using pkt(4) w by (auto simp: plain_aya_def demo_ctx_def demo_start_def demo_fields counter_of_def)
  then show ?thesis using tel by (intro exI conjI) auto
qed

lemma connection_changes_by_knocker:
  assumes "spa_run C T toml_keys path A ttl priv ks t (conn_runtime st)" and "aya_ok A"
    and "handle_connection S (dispatch E cfg) K static_key peer st = (r, st')"
    and "below (client_dir cfg key) q"
    and "content (rl_host (conn_relay st')) q \<noteq> content (rl_host (conn_relay st)) q"
  obtains ip k p c h later request where "peer = V4 ip" "k \<in> set ks" "kn_ip k = ip" "server_static_private (kn_verifier k) = priv"
    "accepts C (kn_verifier k) ip (kn_now k) (kn_payload k) p c" "pkt_key_id p = key"
    "handshake_on S static_key key (conn_rx st) h (Some (client_noise_public_key c)) later" "asks_on S h later request"
proof -
  have "conn_relay st' \<noteq> conn_relay st" using assms(5) by auto
  with assms(3) obtain ip src request h later where served: "peer = V4 ip"
      "hm_get (allowed_sources (conn_runtime st)) ip = Some src"
      "handshake_on S static_key (ae_key_id (src_entry src)) (conn_rx st) h (Some (src_noise_public_key src)) later"
      "asks_on S h later request"
      "conn_relay st' = snd (dispatch E cfg (ae_key_id (src_entry src)) request (conn_relay st))"
    by (rule handle_connection_relay)
  have key: "ae_key_id (src_entry src) = key"
    using dispatch_other_client [OF _ assms(4)] assms(5) served(5) by metis
  have "justified C priv ks ip src"
    using spa_run_inv [OF assms(1,2)] served(2) by (simp add: rt_inv_def all_justified_def)
  then obtain k p c where "k \<in> set ks" "kn_ip k = ip" "server_static_private (kn_verifier k) = priv"
      "accepts C (kn_verifier k) ip (kn_now k) (kn_payload k) p c"
      "pkt_key_id p = key" "src_noise_public_key src = client_noise_public_key c"
    unfolding justified_def using key by metis
  then show thesis using that served(1,3,4) key by metis
qed

text \<open>
  C11. Stored jobs belong to the identity that knocked: from every state of a run of the server, whatever
  connections the proxy accepts and however each of them ends, if a file in the relay directory of a
  key identifier has changed, then one of the connections came from an address from which, in that run,
  the verifier the server had at the time accepted a packet carrying that key identifier, and the bytes
  this connection sent complete the handshake under that key identifier with the Noise static key the
  verifier's table holds for the client that signed the packet, and go on with a request under the
  keys of that handshake.
\<close>

theorem relay_changed_only_by_knocker:
  assumes "spa_run C T toml_keys path A ttl priv ks t (ln_runtime st)" and "aya_ok A"
    and "\<forall>n. \<exists>now. monotonic_now_ns (mono K n) = Inr now"
    and "accept_loop S (dispatch E cfg) K static_key incoming st = (r, st')"
    and "below (client_dir cfg key) q"
    and "content (rl_host (ln_relay st')) q \<noteq> content (rl_host (ln_relay st)) q"
  shows "\<exists>ip received k p c h later request. Some (V4 ip, received) \<in> set incoming \<and> k \<in> set ks \<and> kn_ip k = ip \<and>
    server_static_private (kn_verifier k) = priv \<and> accepts C (kn_verifier k) ip (kn_now k) (kn_payload k) p c \<and> pkt_key_id p = key \<and>
    handshake_on S static_key key received h (Some (client_noise_public_key c)) later \<and> asks_on S h later request"
  using assms(1,4,6)
proof (induction incoming arbitrary: st t)
  case (Cons i incoming)
  then obtain peer received where i: "i = Some (peer, received)" by (cases i) auto
  let ?st1 = "accept_connection S (dispatch E cfg) K static_key peer received st"
  show ?case
  proof (cases "content (rl_host (ln_relay ?st1)) q = content (rl_host (ln_relay st)) q")
    case True
    obtain t' where "spa_run C T toml_keys path A ttl priv ks t' (ln_runtime ?st1)"
      using accept_connection_run [OF Cons.prems(1) assms(3)] by blast
    from Cons.IH [OF this] show ?thesis using Cons.prems(2,3) True i by simp blast
  next
    case False
    let ?c = "\<lparr>conn_rx = received, conn_tx = [], conn_runtime = ln_runtime st, conn_sessions = ln_sessions st, conn_relay = ln_relay st\<rparr>"
    obtain q' c where h: "handle_connection S (dispatch E cfg) K static_key peer ?c = (q', c)" by fastforce
    have change: "content (rl_host (conn_relay c)) q \<noteq> content (rl_host (conn_relay ?c)) q"
      using False h by (simp add: accept_connection_def)
    have run: "spa_run C T toml_keys path A ttl priv ks t (conn_runtime ?c)" using Cons.prems(1) by simp
    obtain ip k p c' h' later request where f: "peer = V4 ip" "k \<in> set ks" "kn_ip k = ip" "server_static_private (kn_verifier k) = priv"
      "accepts C (kn_verifier k) ip (kn_now k) (kn_payload k) p c'" "pkt_key_id p = key"
      "handshake_on S static_key key (conn_rx ?c) h' (Some (client_noise_public_key c')) later" "asks_on S h' later request"
      by (rule connection_changes_by_knocker [OF run assms(2) h assms(5) change])
    show ?thesis
      using f i by (intro exI [of _ ip] exI [of _ received] exI [of _ k] exI [of _ p] exI [of _ c'] exI [of _ h'] exI [of _ later]
          exI [of _ request]) simp
  qed
qed simp

definition one_job :: "path \<Rightarrow> relay" where
  "one_job dir = \<lparr>rl_host = \<lparr>files = [(metadata_path dir ''a'', [])], dirs = [], tick = 0, fault = (\<lambda>_. None)\<rparr>,
     rl_net = \<lparr>lookups = 0, contacts = []\<rparr>, rl_clock = 0, rl_queue = []\<rparr>"

definition delete_a :: bytes where
  "delete_a = [PROTOCOL_GHOST_RELAY, GHOST_RELAY_VERSION, GHOST_RELAY_OP_DELETE, 0, 1, 0x61]"

lemma delete_a_removes:
  "content (rl_host (snd (dispatch demo_env demo_cfg key delete_a (one_job (client_dir demo_cfg key))))) (metadata_path (client_dir demo_cfg key) ''a'') = None"
proof -
  obtain c where s: "read_string 128 (RelayCursor_new [0, 1, 0x61]) = (Inr ''a'', c)"
  proof -
    have "fst (read_string 128 (RelayCursor_new [0, 1, 0x61])) = Inr ''a''" by code_simp
    then show ?thesis using that by (metis prod.collapse)
  qed
  have i: "validate_job_id ''a'' = Inr ()" by code_simp
  show ?thesis
    by (simp add: dispatch_def dispatch_inner_def delete_a_def s i delete_def c_bind_def c_lift_def rl_read_def rl_test_def rl_io_def
        c_attempt_def io_exists_def io_remove_file_def io_call_def one_job_def relay_op_defs Let_def hm_get_def hm_remove_def
        demo_paths)
qed

theorem relay_changed_only_by_knocker_witness:
  "\<exists>ks s src received k p c h later. spa_run toy_crypto toy_toml (\<lambda>_. None) [] plain_aya 60 [5] ks 0 s \<and> hm_get (allowed_sources s) 7 = Some src \<and>
     k \<in> set ks \<and> accepts toy_crypto (kn_verifier k) 7 (kn_now k) (kn_payload k) p c \<and> pkt_key_id p = client_key_id demo_client \<and>
     handshake_on (toy_snow (src_noise_public_key src)) [] (client_key_id demo_client) received h (Some (client_noise_public_key c)) later"
proof -
  obtain ks s where run: "spa_run toy_crypto toy_toml (\<lambda>_. None) [] plain_aya 60 [5] ks 0 s"
    and e: "hm_get (ALLOW_MAP (rt_maps s)) 7 = Some \<lparr>expiry_ns = 160000000000, ae_key_id = client_key_id demo_client, ae_client_id = 1, ae_pad = 0\<rparr>"
    by (rule demo_granted)
  then obtain src where src: "hm_get (allowed_sources s) 7 = Some src"
    "src_entry src = \<lparr>expiry_ns = 160000000000, ae_key_id = client_key_id demo_client, ae_client_id = 1, ae_pad = 0\<rparr>"
    using spa_run_inv [OF run plain_aya_ok] by (fastforce simp: rt_inv_def mirror_covers_def)
  let ?dir = "client_dir demo_cfg (client_key_id demo_client)" and ?q = "metadata_path (client_dir demo_cfg (client_key_id demo_client)) ''a''"
  let ?rx = "frame_wire [1] @ frame_wire [3] @ frame_wire (replicate 16 0 @ delete_a)"
  let ?st = "\<lparr>ln_runtime = s, ln_sessions = hm_empty, ln_relay = one_job ?dir, ln_results = []\<rparr>"
  let ?c = "\<lparr>conn_rx = ?rx, conn_tx = [], conn_runtime = s, conn_sessions = hm_empty, conn_relay = one_job ?dir\<rparr>"
  let ?snow = "toy_snow (src_noise_public_key src)"
  obtain r c where h: "handle_connection ?snow (dispatch demo_env demo_cfg) demo_clocks [] (V4 7) ?c = (r, c)"
    by fastforce
  have "conn_relay c = snd (dispatch demo_env demo_cfg (client_key_id demo_client) delete_a (one_job ?dir))"
    using toy_session_served [of ?c src delete_a "dispatch demo_env demo_cfg"] src h by (simp add: delete_a_def MAX_FRAME_LEN_def)
  then have gone: "content (rl_host (conn_relay c)) ?q = None" using delete_a_removes by simp
  obtain st' where loop: "accept_loop ?snow (dispatch demo_env demo_cfg) demo_clocks [] [Some (V4 7, ?rx)] ?st = (Inr (), st')"
    and st': "ln_relay st' = conn_relay c"
    using h by (simp add: accept_connection_def)
  have changed: "content (rl_host (ln_relay st')) ?q \<noteq> content (rl_host (ln_relay ?st)) ?q"
    using gone st' by (simp add: one_job_def hm_get_def)
  have inside: "below ?dir ?q" by (simp add: below_def demo_paths)
  have mono: "\<forall>n. \<exists>now. monotonic_now_ns (mono demo_clocks n) = Inr now"
    by (simp add: demo_clocks_def monotonic_now_ns_def try_u64_def)
  have start: "spa_run toy_crypto toy_toml (\<lambda>_. None) [] plain_aya 60 [5] ks 0 (ln_runtime ?st)" using run by simp
  obtain ip received k p c' h' later request where "Some (V4 ip, received) \<in> set [Some (V4 7, ?rx)]" "k \<in> set ks"
      "accepts toy_crypto (kn_verifier k) ip (kn_now k) (kn_payload k) p c'" "pkt_key_id p = client_key_id demo_client"
      "handshake_on ?snow [] (client_key_id demo_client) received h' (Some (client_noise_public_key c')) later"
    using relay_changed_only_by_knocker [OF start plain_aya_ok mono loop inside changed] by metis
  moreover from this(1) have "ip = 7" by simp
  ultimately show ?thesis using run src(1) by blast
qed

end
